(* ===== verification/Prelude.thy ===== *)
theory Prelude
  imports Main
begin

text \<open>
  Shared vocabulary of the development.

  \<^item> Fallible code is a value of \<open>'e + 'a\<close> (\<open>Inl\<close> the exception); \<open>bindE\<close> sequences it.
  \<^item> A table is the list of its rows in insertion order; \<open>update_where\<close>, \<open>sum_where\<close> and
    \<open>rows_where\<close> are the SQL \<^verbatim>\<open>UPDATE .. WHERE\<close>, \<^verbatim>\<open>COALESCE(SUM(..), 0)\<close> and \<^verbatim>\<open>SELECT .. WHERE\<close>
    that the program sends.
  \<^item> An instant is an \<open>int\<close> in microseconds (the resolution of \<^verbatim>\<open>TIMESTAMPTZ\<close>), a money amount an
    \<open>int\<close> in atomic USDC (\<^verbatim>\<open>1_000_000\<close> is one dollar).
  \<^item> \<open>ceil_div\<close> is Python's \<^verbatim>\<open>-(-a // b)\<close>.
  \<^item> Python's \<^verbatim>\<open>str.strip\<close> and \<^verbatim>\<open>str.lower\<close> on the code points below 256.
\<close>

type_synonym instant = int
type_synonym usdc = int
type_synonym ident = string

named_theorems service_contracts "operations known to fulfil the contract of their component"

section \<open>Exceptions\<close>

definition bindE :: "'e + 'a \<Rightarrow> ('a \<Rightarrow> 'e + 'b) \<Rightarrow> 'e + 'b" where
  "bindE m f = (case m of Inl e \<Rightarrow> Inl e | Inr x \<Rightarrow> f x)"

lemma bindE_Inl [simp]: "bindE (Inl e) f = Inl e"
  by (simp add: bindE_def)

lemma bindE_Inr [simp]: "bindE (Inr x) f = f x"
  by (simp add: bindE_def)

lemma bindE_eq_Inr_iff: "bindE m f = Inr y \<longleftrightarrow> (\<exists>x. m = Inr x \<and> f x = Inr y)"
  by (cases m) auto

lemma bindE_eq_Inl_iff: "bindE m f = Inl e \<longleftrightarrow> m = Inl e \<or> (\<exists>x. m = Inr x \<and> f x = Inl e)"
  by (cases m) auto

lemma bindE_Inr_E [elim]:
  assumes "bindE m f = Inr y"
  obtains x where "m = Inr x" "f x = Inr y"
  using assms by (auto simp: bindE_eq_Inr_iff)

text \<open>
  A transaction block: the body either commits its new state or raises, and a raise rolls
  the state back before it propagates.
\<close>

definition transaction :: "('s \<Rightarrow> 'e + ('a \<times> 's)) \<Rightarrow> 's \<Rightarrow> ('e + 'a) \<times> 's" where
  "transaction body s = (case body s of Inl e \<Rightarrow> (Inl e, s) | Inr (a, s') \<Rightarrow> (Inr a, s'))"

lemma transaction_raises_rolls_back: "fst (transaction body s) = Inl e \<Longrightarrow> snd (transaction body s) = s"
  by (auto simp: transaction_def split: sum.splits)

section \<open>Tables\<close>

definition update_where :: "('r \<Rightarrow> bool) \<Rightarrow> ('r \<Rightarrow> 'r) \<Rightarrow> 'r list \<Rightarrow> 'r list" where
  "update_where p f rows = map (\<lambda>r. if p r then f r else r) rows"

definition rows_where :: "('r \<Rightarrow> bool) \<Rightarrow> 'r list \<Rightarrow> 'r list" where
  "rows_where p rows = filter p rows"

definition sum_where :: "('r \<Rightarrow> bool) \<Rightarrow> ('r \<Rightarrow> int) \<Rightarrow> 'r list \<Rightarrow> int" where
  "sum_where p f rows = sum_list (map f (filter p rows))"

definition exists_where :: "('r \<Rightarrow> bool) \<Rightarrow> 'r list \<Rightarrow> bool" where
  "exists_where p rows = list_ex p rows"

lemma update_where_Nil [simp]: "update_where p f [] = []"
  and update_where_Cons [simp]:
    "update_where p f (r # rows) = (if p r then f r else r) # update_where p f rows"
  and update_where_append [simp]:
    "update_where p f (xs @ ys) = update_where p f xs @ update_where p f ys"
  and length_update_where [simp]: "length (update_where p f rows) = length rows"
  by (simp_all add: update_where_def)

lemma set_update_where:
  "set (update_where p f rows) = (\<lambda>r. if p r then f r else r) ` set rows"
  by (simp add: update_where_def)

lemma in_update_whereE:
  assumes "r \<in> set (update_where p f rows)"
  obtains (hit) r0 where "r0 \<in> set rows" "p r0" "r = f r0"
    | (miss) "r \<in> set rows" "\<not> p r"
  using assms by (auto simp: set_update_where split: if_splits)

lemma map_update_where:
  "(\<And>r. r \<in> set rows \<Longrightarrow> p r \<Longrightarrow> g (f r) = g r) \<Longrightarrow> map g (update_where p f rows) = map g rows"
  by (auto simp: update_where_def)

lemma update_where_none: "(\<And>r. r \<in> set rows \<Longrightarrow> \<not> p r) \<Longrightarrow> update_where p f rows = rows"
  by (auto simp: update_where_def intro: map_idI)

lemma sum_where_Nil [simp]: "sum_where p f [] = 0"
  and sum_where_Cons [simp]:
    "sum_where p f (r # rows) = (if p r then f r else 0) + sum_where p f rows"
  and sum_where_append [simp]: "sum_where p f (xs @ ys) = sum_where p f xs + sum_where p f ys"
  by (simp_all add: sum_where_def)

lemma sum_where_nonneg:
  "(\<And>r. r \<in> set rows \<Longrightarrow> p r \<Longrightarrow> 0 \<le> f r) \<Longrightarrow> 0 \<le> sum_where p f rows"
  by (induction rows) auto

lemma sum_where_mono_pred:
  "(\<And>r. r \<in> set rows \<Longrightarrow> p r \<Longrightarrow> q r) \<Longrightarrow> (\<And>r. r \<in> set rows \<Longrightarrow> q r \<Longrightarrow> 0 \<le> f r) \<Longrightarrow>
   sum_where p f rows \<le> sum_where q f rows"
proof (induction rows)
  case Nil
  then show ?case by simp
next
  case (Cons r rows)
  then have "sum_where p f rows \<le> sum_where q f rows" by simp
  with Cons.prems show ?case by (cases "p r"; cases "q r") fastforce+
qed

lemma sum_where_cong:
  "(\<And>r. r \<in> set rows \<Longrightarrow> p r = q r) \<Longrightarrow> (\<And>r. r \<in> set rows \<Longrightarrow> q r \<Longrightarrow> f r = g r) \<Longrightarrow>
   sum_where p f rows = sum_where q g rows"
  by (induction rows) auto

lemma sum_where_none: "(\<And>r. r \<in> set rows \<Longrightarrow> \<not> p r) \<Longrightarrow> sum_where p f rows = 0"
  by (induction rows) auto

lemma sum_where_split:
  "sum_where p f rows = sum_where (\<lambda>r. p r \<and> q r) f rows + sum_where (\<lambda>r. p r \<and> \<not> q r) f rows"
  by (induction rows) auto

lemma rows_where_Nil [simp]: "rows_where p [] = []"
  and set_rows_where [simp]: "set (rows_where p rows) = {r \<in> set rows. p r}"
  by (auto simp: rows_where_def)

lemma exists_where_iff [simp]: "exists_where p rows \<longleftrightarrow> (\<exists>r \<in> set rows. p r)"
  by (simp add: exists_where_def list_ex_iff)

lemma length_rows_where_set:
  assumes "distinct rows" and "distinct xs" and "set xs \<subseteq> set rows"
  shows "length (rows_where (\<lambda>r. r \<in> set xs) rows) = length xs"
proof -
  have "set (rows_where (\<lambda>r. r \<in> set xs) rows) = set xs" using assms(3) by auto
  moreover have "distinct (rows_where (\<lambda>r. r \<in> set xs) rows)" using assms(1) by (simp add: rows_where_def)
  ultimately show ?thesis using assms(2) by (metis distinct_card)
qed

lemma rows_where_cong: "(\<And>r. r \<in> set rows \<Longrightarrow> p r = q r) \<Longrightarrow> rows_where p rows = rows_where q rows"
  by (auto simp: rows_where_def intro: filter_cong)

lemma update_where_cong: "(\<And>r. r \<in> set rows \<Longrightarrow> p r = q r) \<Longrightarrow> update_where p f rows = update_where q f rows"
  by (auto simp: update_where_def)

text \<open>A row found by its primary key is the only one with that key.\<close>

lemma find_SomeD: "find p rows = Some r \<Longrightarrow> r \<in> set rows \<and> p r"
  by (metis find_Some_iff nth_mem)

lemma find_append: "find p (xs @ ys) = (case find p xs of None \<Rightarrow> find p ys | Some x \<Rightarrow> Some x)"
  by (induction xs) auto

lemma find_None: "find p rows = None \<longleftrightarrow> (\<forall>r \<in> set rows. \<not> p r)"
  by (auto simp: find_None_iff)

lemma distinct_key_eq:
  "distinct (map k rows) \<Longrightarrow> r \<in> set rows \<Longrightarrow> s \<in> set rows \<Longrightarrow> k r = k s \<Longrightarrow> r = s"
  by (auto simp: distinct_map inj_on_def)

lemma find_key:
  "distinct (map k rows) \<Longrightarrow> r \<in> set rows \<Longrightarrow> find (\<lambda>x. k x = k r) rows = Some r"
proof -
  assume d: "distinct (map k rows)" and m: "r \<in> set rows"
  then obtain s where s: "find (\<lambda>x. k x = k r) rows = Some s"
    by (cases "find (\<lambda>x. k x = k r) rows") (auto simp: find_None)
  then have "s \<in> set rows" "k s = k r" using find_SomeD by fastforce+
  with d m s show ?thesis using distinct_key_eq by fastforce
qed

lemma sum_where_update_one:
  assumes "distinct (map k rows)" and "r \<in> set rows"
    and "\<And>x. x \<in> set rows \<Longrightarrow> sel x \<Longrightarrow> x = r" and "sel r"
  shows "sum_where p f (update_where sel g rows) =
    sum_where p f rows - (if p r then f r else 0) + (if p (g r) then f (g r) else 0)"
  using assms
proof (induction rows)
  case Nil
  then show ?case by simp
next
  case (Cons x rows)
  show ?case
  proof (cases "x = r")
    case True
    with Cons.prems have "\<And>y. y \<in> set rows \<Longrightarrow> \<not> sel y"
      by (metis distinct.simps(2) image_eqI list.set_intros(2) list.set_map list.simps(9))
    then have "update_where sel g rows = rows" by (rule update_where_none)
    with True Cons.prems(4) show ?thesis by simp
  next
    case False
    with Cons.prems have x: "\<not> sel x" and r: "r \<in> set rows" by auto
    have "sum_where p f (update_where sel g rows) =
        sum_where p f rows - (if p r then f r else 0) + (if p (g r) then f (g r) else 0)"
      by (rule Cons.IH) (use Cons.prems r in auto)
    with x show ?thesis by simp
  qed
qed

section \<open>Rounding\<close>

definition ceil_div :: "int \<Rightarrow> int \<Rightarrow> int" where
  "ceil_div a b = - ((- a) div b)"

lemma ceil_div_ge: "0 < b \<Longrightarrow> a \<le> ceil_div a b * b"
  unfolding ceil_div_def by (smt (verit) div_mult_mod_eq mult_minus_left pos_mod_sign)

lemma ceil_div_less: "0 < b \<Longrightarrow> ceil_div a b * b < a + b"
  unfolding ceil_div_def by (smt (verit) div_mult_mod_eq mult_minus_left pos_mod_bound)

lemma ceil_div_le_iff:
  assumes "0 < b"
  shows "ceil_div a b \<le> c \<longleftrightarrow> a \<le> c * b"
proof
  assume "ceil_div a b \<le> c"
  with assms have "ceil_div a b * b \<le> c * b" by (simp add: mult_right_mono)
  with ceil_div_ge [OF assms] show "a \<le> c * b" by (rule order_trans)
next
  assume "a \<le> c * b"
  with ceil_div_less [OF assms, of a] have "ceil_div a b * b < (c + 1) * b"
    by (simp add: algebra_simps)
  with assms have "ceil_div a b < c + 1" by (simp add: mult_less_cancel_right)
  then show "ceil_div a b \<le> c" by simp
qed

lemma ceil_div_mono: "0 < b \<Longrightarrow> a \<le> a' \<Longrightarrow> ceil_div a b \<le> ceil_div a' b"
  using ceil_div_ge [of b a'] by (simp add: ceil_div_le_iff)

lemma ceil_div_nonneg: "0 < b \<Longrightarrow> 0 \<le> a \<Longrightarrow> 0 \<le> ceil_div a b"
  using ceil_div_mono [of b 0 a] by (simp add: ceil_div_def)

lemma ceil_div_subadditive: "0 < b \<Longrightarrow> ceil_div (x + y) b \<le> ceil_div x b + ceil_div y b"
  using ceil_div_ge [of b x] ceil_div_ge [of b y]
  by (simp add: ceil_div_le_iff algebra_simps)

section \<open>Time\<close>

definition seconds :: "int \<Rightarrow> int" where
  "seconds n = n * 1000000"

definition hours :: "int \<Rightarrow> int" where
  "hours n = seconds (n * 3600)"

definition days :: "int \<Rightarrow> int" where
  "days n = hours (n * 24)"

lemma interval_pos [simp]:
  "0 < n \<Longrightarrow> 0 < seconds n" "0 < n \<Longrightarrow> 0 < hours n" "0 < n \<Longrightarrow> 0 < days n"
  by (simp_all add: seconds_def hours_def days_def)

lemma interval_nonneg [simp]:
  "0 \<le> n \<Longrightarrow> 0 \<le> seconds n" "0 \<le> n \<Longrightarrow> 0 \<le> hours n" "0 \<le> n \<Longrightarrow> 0 \<le> days n"
  by (simp_all add: seconds_def hours_def days_def)

section \<open>Strings\<close>

definition py_isspace :: "char \<Rightarrow> bool" where
  "py_isspace c = (let n = of_char c :: nat in
     (9 \<le> n \<and> n \<le> 13) \<or> (28 \<le> n \<and> n \<le> 32) \<or> n = 133 \<or> n = 160)"

definition py_strip :: "string \<Rightarrow> string" where
  "py_strip s = rev (dropWhile py_isspace (rev (dropWhile py_isspace s)))"

definition py_lower_char :: "char \<Rightarrow> char" where
  "py_lower_char c = (let n = of_char c :: nat in
     if (65 \<le> n \<and> n \<le> 90) \<or> (192 \<le> n \<and> n \<le> 222 \<and> n \<noteq> 215) then char_of (n + 32) else c)"

definition py_lower :: "string \<Rightarrow> string" where
  "py_lower s = map py_lower_char s"

definition is_hex_char :: "char \<Rightarrow> bool" where
  "is_hex_char c = (let n = of_char c :: nat in
     (48 \<le> n \<and> n \<le> 57) \<or> (65 \<le> n \<and> n \<le> 70) \<or> (97 \<le> n \<and> n \<le> 102))"

text \<open>\<^verbatim>\<open>int(s)\<close> on a string: whitespace stripped, an optional sign, digits with single underscores between.\<close>

definition digit_value :: "char \<Rightarrow> int option" where
  "digit_value c = (let n = of_char c :: int in if 48 \<le> n \<and> n \<le> 57 then Some (n - 48) else None)"

fun py_digits :: "int \<Rightarrow> string \<Rightarrow> int option" where
  "py_digits acc [] = Some acc"
| "py_digits acc (c # s) =
    (case digit_value c of
       Some v \<Rightarrow> py_digits (10 * acc + v) s
     | None \<Rightarrow>
         (case s of
            c' # s' \<Rightarrow>
              (if c = CHR ''_'' then
                 (case digit_value c' of Some v \<Rightarrow> py_digits (10 * acc + v) s' | None \<Rightarrow> None)
               else None)
          | [] \<Rightarrow> None))"

definition py_unsigned :: "string \<Rightarrow> int option" where
  "py_unsigned s =
    (case s of [] \<Rightarrow> None
     | c # s' \<Rightarrow> (case digit_value c of None \<Rightarrow> None | Some v \<Rightarrow> py_digits v s'))"

definition py_int :: "string \<Rightarrow> int option" where
  "py_int s =
    (case py_strip s of
       [] \<Rightarrow> None
     | c # s' \<Rightarrow>
         if c = CHR ''-'' then map_option uminus (py_unsigned s')
         else if c = CHR ''+'' then py_unsigned s'
         else py_unsigned (c # s'))"

text \<open>\<^verbatim>\<open>str(n)\<close> of an integer, and that \<^verbatim>\<open>int\<close> reads it back.\<close>

definition digit_char :: "nat \<Rightarrow> char" where
  "digit_char n = char_of (48 + n)"

fun py_str_nat :: "nat \<Rightarrow> string" where
  "py_str_nat n = (if n < 10 then [digit_char n] else py_str_nat (n div 10) @ [digit_char (n mod 10)])"

declare py_str_nat.simps [simp del]

definition py_str_int :: "int \<Rightarrow> string" where
  "py_str_int n = (if n < 0 then CHR ''-'' # py_str_nat (nat (- n)) else py_str_nat (nat n))"

lemma of_char_digit_char: "n < 10 \<Longrightarrow> (of_char (digit_char n) :: nat) = 48 + n"
  by (simp add: digit_char_def)

lemma digit_value_digit_char [simp]: "n < 10 \<Longrightarrow> digit_value (digit_char n) = Some (int n)"
  using of_char_digit_char [of n] of_nat_of_char [of "digit_char n", where 'a = int]
  by (simp add: digit_value_def Let_def)

lemma digit_char_not_space [simp]: "n < 10 \<Longrightarrow> \<not> py_isspace (digit_char n)"
  by (simp add: py_isspace_def Let_def of_char_digit_char)

lemma digit_char_not_sign [simp]: "n < 10 \<Longrightarrow> digit_char n \<noteq> CHR ''-''" "n < 10 \<Longrightarrow> digit_char n \<noteq> CHR ''+''"
  "n < 10 \<Longrightarrow> digit_char n \<noteq> CHR ''.''"
  using of_char_digit_char [of n] by auto

definition is_digits :: "string \<Rightarrow> bool" where
  "is_digits s \<longleftrightarrow> (\<forall>c \<in> set s. \<exists>n < 10. c = digit_char n)"

lemma py_str_nat_digits: "is_digits (py_str_nat n) \<and> py_str_nat n \<noteq> []"
proof (induction n rule: py_str_nat.induct)
  case (1 n)
  have "\<exists>k < 10. digit_char (n mod 10) = digit_char k" by (rule exI [of _ "n mod 10"]) simp
  with 1 show ?case by (auto simp: is_digits_def py_str_nat.simps [of n])
qed

lemma py_digits_append:
  "is_digits s \<Longrightarrow> py_digits acc s = Some v \<Longrightarrow> py_digits acc (s @ s') = py_digits v s'"
proof (induction s arbitrary: acc)
  case (Cons c s)
  then obtain n where "n < 10" "c = digit_char n" "is_digits s" by (auto simp: is_digits_def)
  with Cons show ?case by simp
qed simp

lemma py_digits_str_nat: "py_digits acc (py_str_nat n) = Some (acc * 10 ^ length (py_str_nat n) + int n)"
proof (induction n rule: py_str_nat.induct)
  case (1 n)
  show ?case
  proof (cases "n < 10")
    case True
    then show ?thesis by (simp add: py_str_nat.simps [of n])
  next
    case False
    have "10 * int (n div 10) + int (n mod 10) = int n" by presburger
    with False 1 show ?thesis
      using py_digits_append [of "py_str_nat (n div 10)" acc] py_str_nat_digits [of "n div 10"]
      by (simp add: py_str_nat.simps [of n] algebra_simps)
  qed
qed

lemma py_unsigned_str_nat: "py_unsigned (py_str_nat n) = Some (int n)"
proof -
  obtain c s where cs: "py_str_nat n = c # s" using py_str_nat_digits [of n] by (cases "py_str_nat n") auto
  then obtain k where k: "k < 10" "c = digit_char k" using py_str_nat_digits [of n] by (auto simp: is_digits_def)
  with cs have "py_unsigned (py_str_nat n) = py_digits 0 (py_str_nat n)" by (simp add: py_unsigned_def)
  then show ?thesis using py_digits_str_nat [of 0 n] by simp
qed

lemma py_strip_id: "s \<noteq> [] \<Longrightarrow> \<not> py_isspace (hd s) \<Longrightarrow> \<not> py_isspace (last s) \<Longrightarrow> py_strip s = s"
proof -
  assume "s \<noteq> []" and h: "\<not> py_isspace (hd s)" and l: "\<not> py_isspace (last s)"
  then have "dropWhile py_isspace s = s" by (cases s) auto
  moreover have "dropWhile py_isspace (rev s) = rev s"
    using l \<open>s \<noteq> []\<close> by (metis dropWhile_eq_self_iff hd_rev)
  ultimately show ?thesis by (simp add: py_strip_def)
qed

lemma py_int_str_int: "py_int (py_str_int n) = Some n"
proof -
  have dig: "\<not> py_isspace c \<and> c \<noteq> CHR ''-'' \<and> c \<noteq> CHR ''+''" if "c \<in> set (py_str_nat m)" for c m
    using that py_str_nat_digits [of m] digit_char_not_space digit_char_not_sign unfolding is_digits_def by metis
  have strip: "py_strip (py_str_nat m) = py_str_nat m" "py_strip (CHR ''-'' # py_str_nat m) = CHR ''-'' # py_str_nat m" for m
    using dig [of "hd (py_str_nat m)" m] dig [of "last (py_str_nat m)" m] py_str_nat_digits [of m]
    by (auto intro!: py_strip_id simp: py_isspace_def)
  have "py_int (py_str_nat m) = Some (int m)" for m
    using strip(1) [of m] py_unsigned_str_nat [of m] py_str_nat_digits [of m] dig [of "hd (py_str_nat m)" m]
    by (cases "py_str_nat m") (auto simp: py_int_def)
  moreover have "py_int (CHR ''-'' # py_str_nat m) = Some (- int m)" for m
    using strip(2) [of m] py_unsigned_str_nat [of m] by (simp add: py_int_def)
  ultimately show ?thesis by (simp add: py_str_int_def)
qed

end
