(* ===== verification/Database.thy ===== *)
theory Database
  imports Prelude
begin

text \<open>
  The shared Postgres database: one row type per table of
  \<^verbatim>\<open>migrations/versions/\<close> that the modelled services read or write, the table constraints
  (primary keys, \<^verbatim>\<open>CHECK\<close>, partial unique indexes, foreign keys, the \<^verbatim>\<open>BIGINT\<close> range) as guards of
  the insert operations, and the record of all tables. A \<^verbatim>\<open>NULL\<close>able column is an \<open>option\<close>; a text
  column restricted by \<^verbatim>\<open>CHECK (.. IN ..)\<close> is a datatype. The order of the guards is the order in
  which Postgres checks: value range, \<^verbatim>\<open>CHECK\<close>, unique index, foreign key.

  \<^verbatim>\<open>uuid.uuid4()\<close> and \<^verbatim>\<open>NOW()\<close> are arguments of the operations that use them.
\<close>

section \<open>Errors\<close>

datatype db_error = DataError | CheckViolation | UniqueViolation | ForeignKeyViolation | ConnectionLost

datatype py_error =
    ValueError string
  | TypeError string
  | RuntimeError string
  | IndexError
  | SettlementClaimLostError
  | DbError db_error

definition bigint :: "int \<Rightarrow> bool" where
  "bigint n \<longleftrightarrow> - (2 ^ 63) \<le> n \<and> n < 2 ^ 63"

section \<open>Rows\<close>

record org_row =
  org_acquisition_source :: string

record credit_row =
  cr_balance_usdc :: usdc
  cr_spending_limit_usdc :: usdc
  cr_is_paused :: bool

datatype ledger_operation = Debit | Topup

record ledger_row =
  led_id :: ident
  led_org_id :: ident
  led_operation :: ledger_operation
  led_amount_usdc :: usdc
  led_balance_usdc_after :: usdc
  led_reason :: string
  led_principal_id :: "ident option"
  led_external_ref :: "string option"
  led_reverses_ledger_id :: "ident option"
  led_created_at :: instant

record principal_limit_row =
  pl_daily_limit_usdc :: usdc
  pl_is_paused :: bool

datatype refund_status = RefundPending | RefundRequested | Refunded | RefundCancelled

datatype delivery_status = NotAttempted | PossiblyDelivered | Confirmed | DeliveryFailed

record refund_outbox_row =
  ob_id :: ident
  ob_org_id :: ident
  ob_run_id :: ident
  ob_amount_usdc :: usdc
  ob_status :: refund_status
  ob_created_at :: instant
  ob_resolved_at :: "instant option"
  ob_debit_ledger_id :: "ident option"
  ob_delivery_status :: delivery_status
  ob_delivery_started_at :: "instant option"
  ob_delivery_resolved_at :: "instant option"
  ob_delivery_settlement_tx :: string
  ob_delivery_error :: string

record delegation_event_row =
  ev_id :: ident
  ev_org_id :: ident
  ev_run_id :: ident
  ev_agent_url :: string
  ev_agent_name :: string
  ev_task_status :: string
  ev_cost_usdc :: usdc
  ev_billing_method :: string
  ev_settlement_tx :: string
  ev_error :: string
  ev_failure_origin :: string
  ev_task_type :: string
  ev_created_at :: instant

datatype billing_method = CreditMethod | X402Method

datatype settlement_status = SettlementPending | Retrying | SettlementSettled | SettlementExhausted

text \<open>
  The \<^verbatim>\<open>earnings_allocations\<close> column after \<^verbatim>\<open>json.loads\<close>: not an array at all, or an array whose
  items are not objects, objects without the four fields in usable form, or proper allocations.
\<close>

datatype allocation_item =
    NotAnObject
  | MalformedAllocation
  | Allocation (alloc_author_org_id: ident) (alloc_tool_name: string) (alloc_caller_org_id: ident)
      (alloc_total_cost_usdc: usdc)

datatype stored_allocations = UnreadableAllocations | StoredAllocations "allocation_item list"

record settlement_row =
  ps_id :: ident
  ps_usage_event_id :: ident
  ps_org_id :: ident
  ps_run_id :: ident
  ps_billing_method :: billing_method
  ps_amount_usdc :: usdc
  ps_payment_payload :: "string option"
  ps_principal_id :: "ident option"
  ps_retry_count :: int
  ps_max_retries :: int
  ps_next_retry_at :: instant
  ps_last_error :: string
  ps_status :: settlement_status
  ps_charge_id :: ident
  ps_earnings_allocations :: stored_allocations
  ps_created_at :: instant

record usage_event_row =
  ue_id :: ident
  ue_cost_usdc :: usdc
  ue_settlement_tx :: string
  ue_settlement_status :: string

datatype charge_status = ChargeSettled | ChargeFailed | ChargeReverted

record charge_row =
  ch_id :: ident
  ch_source :: string
  ch_invocation_id :: ident
  ch_usage_event_id :: ident
  ch_org_id :: ident
  ch_principal_id :: ident
  ch_payer_address :: string
  ch_capability :: string
  ch_billing_method :: string
  ch_amount_usdc :: usdc
  ch_settled_amount_usdc :: usdc
  ch_status :: charge_status
  ch_settlement_tx :: string

record grant_row =
  gr_org_id :: ident
  gr_amount_usdc :: usdc
  gr_ledger_entry_id :: ident

record grant_outbox_row =
  go_org_id :: ident
  go_amount_usdc :: usdc
  go_attempts :: int
  go_last_error :: "string option"
  go_created_at :: instant

record credential_row =
  cc_client_id :: ident
  cc_org_id :: ident
  cc_hashed_secret :: string
  cc_salt :: string
  cc_created_at :: instant
  cc_scope :: string
  cc_disabled_at :: "instant option"

record provisioning_event_row =
  pe_id :: ident
  pe_org_id :: ident
  pe_payer_address :: string
  pe_chain_id :: int
  pe_settlement_tx :: string
  pe_payment_ref :: string
  pe_amount_usdc :: usdc

datatype earning_status = EarningPending | EarningSettled | EarningFailed

record earning_row =
  ea_id :: ident
  ea_org_id :: ident
  ea_tool_name :: string
  ea_caller_org_id :: ident
  ea_amount_usdc :: usdc
  ea_author_share_usdc :: usdc
  ea_platform_share_usdc :: usdc
  ea_status :: earning_status
  ea_withdrawal_id :: "ident option"
  ea_created_at :: instant

datatype withdrawal_status =
  WithdrawalPending | InFlight | WithdrawalSettled | WithdrawalFailed | WithdrawalExhausted

record withdrawal_row =
  wd_id :: ident
  wd_org_id :: ident
  wd_amount_usdc :: usdc
  wd_tx_hash :: string
  wd_wallet :: string
  wd_status :: withdrawal_status
  wd_created_at :: instant
  wd_settled_at :: "instant option"
  wd_sweep_attempt_count :: int
  wd_last_sweep_error :: string
  wd_next_sweep_at :: "instant option"

section \<open>The database\<close>

text \<open>
  \<open>daily_spend_caches\<close> is not a table: it is the in-process tier of the per-org daily-spend caches
  of \<^verbatim>\<open>billing/context.py\<close> (value and expiry), kept beside the tables because the credit
  operations invalidate it.
\<close>

record db =
  orgs :: "ident \<rightharpoonup> org_row"
  org_credits :: "ident \<rightharpoonup> credit_row"
  org_credit_ledger :: "ledger_row list"
  org_principal_spend_limits :: "ident \<times> ident \<rightharpoonup> principal_limit_row"
  a2a_delegation_refund_outbox :: "refund_outbox_row list"
  a2a_delegation_events :: "delegation_event_row list"
  pending_settlements :: "settlement_row list"
  usage_events :: "usage_event_row list"
  billing_charges :: "charge_row list"
  org_onboarding_credit_grants :: "grant_row list"
  org_onboarding_credit_outbox :: "grant_outbox_row list"
  org_client_credentials :: "credential_row list"
  org_provisioning_events :: "provisioning_event_row list"
  stripe_webhook_events :: "(ident \<times> ident \<times> usdc) list"
  usdc_topup_events :: "(ident \<times> ident \<times> usdc) list"
  tool_author_config :: "ident \<rightharpoonup> string"
  tool_author_earnings :: "earning_row list"
  tool_author_withdrawals :: "withdrawal_row list"
  daily_spend_caches :: "ident \<rightharpoonup> usdc \<times> instant"

definition empty_db :: db where
  "empty_db = \<lparr> orgs = Map.empty, org_credits = Map.empty, org_credit_ledger = [],
     org_principal_spend_limits = Map.empty, a2a_delegation_refund_outbox = [],
     a2a_delegation_events = [], pending_settlements = [], usage_events = [],
     billing_charges = [], org_onboarding_credit_grants = [],
     org_onboarding_credit_outbox = [], org_client_credentials = [],
     org_provisioning_events = [], stripe_webhook_events = [], usdc_topup_events = [], tool_author_config = Map.empty,
     tool_author_earnings = [], tool_author_withdrawals = [], daily_spend_caches = Map.empty \<rparr>"

section \<open>Settings\<close>

text \<open>The deployment settings the services read (\<^verbatim>\<open>teardrop/config.py\<close>).\<close>

record settings =
  machine_org_daily_spend_limit_usdc :: usdc
  byok_platform_fee_usdc :: usdc
  settlement_max_retries :: int
  a2a_delegation_billing_enabled :: bool
  a2a_delegation_platform_fee_bps :: int
  a2a_delegation_max_cost_usdc :: usdc
  a2a_treasury_daily_outflow_cap_usdc :: usdc
  agent_wallet_enabled :: bool
  marketplace_enabled :: bool
  marketplace_default_revenue_share_bps :: int
  marketplace_minimum_withdrawal_usdc :: usdc
  marketplace_withdrawal_cooldown_seconds :: int
  marketplace_max_sweep_retries :: int

definition default_settings :: settings where
  "default_settings = \<lparr> machine_org_daily_spend_limit_usdc = 5000000,
     byok_platform_fee_usdc = 1000, settlement_max_retries = 5,
     a2a_delegation_billing_enabled = False, a2a_delegation_platform_fee_bps = 500,
     a2a_delegation_max_cost_usdc = 100000, a2a_treasury_daily_outflow_cap_usdc = 5000000,
     agent_wallet_enabled = False, marketplace_enabled = False,
     marketplace_default_revenue_share_bps = 7000, marketplace_minimum_withdrawal_usdc = 100000,
     marketplace_withdrawal_cooldown_seconds = 3600, marketplace_max_sweep_retries = 5 \<rparr>"

section \<open>Constrained writes\<close>

definition ledger_with_id :: "ident \<Rightarrow> ledger_row list \<Rightarrow> ledger_row option" where
  "ledger_with_id i rows = find (\<lambda>r. led_id r = i) rows"

definition insert_ledger :: "ledger_row \<Rightarrow> db \<Rightarrow> py_error + db" where
  "insert_ledger r d =
    (if \<not> bigint (led_amount_usdc r) \<or> \<not> bigint (led_balance_usdc_after r) then Inl (DbError DataError)
     else if led_amount_usdc r \<le> 0 \<or> led_balance_usdc_after r < 0 then Inl (DbError CheckViolation)
     else if exists_where (\<lambda>x. led_id x = led_id r) (org_credit_ledger d) then Inl (DbError UniqueViolation)
     else if led_external_ref r \<noteq> None \<and>
       exists_where (\<lambda>x. led_external_ref x = led_external_ref r) (org_credit_ledger d)
       then Inl (DbError UniqueViolation)
     else if led_reverses_ledger_id r \<noteq> None \<and>
       exists_where (\<lambda>x. led_reverses_ledger_id x = led_reverses_ledger_id r) (org_credit_ledger d)
       then Inl (DbError UniqueViolation)
     else if orgs d (led_org_id r) = None then Inl (DbError ForeignKeyViolation)
     else if led_reverses_ledger_id r \<noteq> None \<and>
       \<not> exists_where (\<lambda>x. Some (led_id x) = led_reverses_ledger_id r) (org_credit_ledger d)
       then Inl (DbError ForeignKeyViolation)
     else Inr (d\<lparr>org_credit_ledger := org_credit_ledger d @ [r]\<rparr>))"

text \<open>
  \<^verbatim>\<open>INSERT INTO org_credits .. ON CONFLICT (org_id) DO UPDATE SET balance_usdc =
  org_credits.balance_usdc + EXCLUDED.balance_usdc RETURNING balance_usdc\<close>. The \<^verbatim>\<open>CHECK\<close> applies to
  the proposed row before the conflict is looked for, and again to the updated row.
\<close>

definition upsert_credit :: "ident \<Rightarrow> usdc \<Rightarrow> db \<Rightarrow> py_error + (usdc \<times> db)" where
  "upsert_credit org amount d =
    (if \<not> bigint amount then Inl (DbError DataError)
     else if amount < 0 then Inl (DbError CheckViolation)
     else case org_credits d org of
       Some c \<Rightarrow>
         (let b = cr_balance_usdc c + amount in
          if \<not> bigint b then Inl (DbError DataError)
          else if b < 0 then Inl (DbError CheckViolation)
          else Inr (b, d\<lparr>org_credits := (org_credits d)(org \<mapsto> c\<lparr>cr_balance_usdc := b\<rparr>)\<rparr>))
     | None \<Rightarrow>
         if orgs d org = None then Inl (DbError ForeignKeyViolation)
         else Inr (amount, d\<lparr>org_credits := (org_credits d)(org \<mapsto>
           \<lparr>cr_balance_usdc = amount, cr_spending_limit_usdc = 0, cr_is_paused = False\<rparr>)\<rparr>))"

text \<open>
  \<^verbatim>\<open>UPDATE org_credits SET balance_usdc = balance_usdc + $2 .. RETURNING balance_usdc\<close>: no row is
  the result \<open>None\<close>.
\<close>

definition add_balance :: "ident \<Rightarrow> usdc \<Rightarrow> db \<Rightarrow> py_error + (usdc option \<times> db)" where
  "add_balance org amount d =
    (case org_credits d org of
       None \<Rightarrow> Inr (None, d)
     | Some c \<Rightarrow>
         (let b = cr_balance_usdc c + amount in
          if \<not> bigint b then Inl (DbError DataError)
          else if b < 0 then Inl (DbError CheckViolation)
          else Inr (Some b, d\<lparr>org_credits := (org_credits d)(org \<mapsto> c\<lparr>cr_balance_usdc := b\<rparr>)\<rparr>)))"

definition set_balance :: "ident \<Rightarrow> usdc \<Rightarrow> db \<Rightarrow> py_error + db" where
  "set_balance org b d =
    (if \<not> bigint b then Inl (DbError DataError)
     else case org_credits d org of
       None \<Rightarrow> Inr d
     | Some c \<Rightarrow>
         if b < 0 then Inl (DbError CheckViolation)
         else Inr (d\<lparr>org_credits := (org_credits d)(org \<mapsto> c\<lparr>cr_balance_usdc := b\<rparr>)\<rparr>))"

end
