(* ===== verification/Credit.thy ===== *)
theory Credit
  imports Database
begin

text \<open>
  The prepaid credit rail: \<^verbatim>\<open>billing/credit.py\<close> (\<^verbatim>\<open>BillingCreditService\<close>) and the spend
  aggregates and spending configuration of \<^verbatim>\<open>billing/context.py\<close>. Every method is one definition;
  a transaction block is \<open>transaction\<close>, so a raise inside it leaves the tables unchanged.

  The lemmas show that every mutation is a balanced posting: the balance column is always the sum
  of the append-only ledger, it never goes negative, and a debit that succeeds stays inside the
  organisation's and the principal's rolling caps.
\<close>

section \<open>Rolling spend\<close>

definition is_reversed :: "ledger_row list \<Rightarrow> ident \<Rightarrow> bool" where
  "is_reversed rows i = exists_where (\<lambda>x. led_reverses_ledger_id x = Some i) rows"

definition counts_as_spend :: "instant \<Rightarrow> ident \<Rightarrow> ledger_row list \<Rightarrow> ledger_row \<Rightarrow> bool" where
  "counts_as_spend now org rows r \<longleftrightarrow>
     led_org_id r = org \<and> led_operation r = Debit \<and> now - hours 24 \<le> led_created_at r \<and>
     \<not> is_reversed rows (led_id r)"

definition get_daily_debit_spend :: "instant \<Rightarrow> ident \<Rightarrow> db \<Rightarrow> usdc" where
  "get_daily_debit_spend now org d =
     sum_where (counts_as_spend now org (org_credit_ledger d)) led_amount_usdc (org_credit_ledger d)"

definition get_daily_principal_debit_spend :: "instant \<Rightarrow> ident \<Rightarrow> ident \<Rightarrow> db \<Rightarrow> usdc" where
  "get_daily_principal_debit_spend now org p d =
     sum_where (\<lambda>r. counts_as_spend now org (org_credit_ledger d) r \<and> led_principal_id r = Some p)
       led_amount_usdc (org_credit_ledger d)"

definition invalidate_daily_spend_cache :: "ident \<Rightarrow> db \<Rightarrow> db" where
  "invalidate_daily_spend_cache org d =
     d\<lparr>daily_spend_caches := (daily_spend_caches d)(org := None)\<rparr>"

definition daily_spend_cache_get :: "instant \<Rightarrow> ident \<Rightarrow> db \<Rightarrow> usdc \<times> db" where
  "daily_spend_cache_get now org d =
    (case daily_spend_caches d org of
       Some (v, expires) \<Rightarrow>
         if now < expires then (v, d)
         else (let v = get_daily_debit_spend now org d
               in (v, d\<lparr>daily_spend_caches := (daily_spend_caches d)(org \<mapsto> (v, now + seconds 30))\<rparr>))
     | None \<Rightarrow>
         (let v = get_daily_debit_spend now org d
          in (v, d\<lparr>daily_spend_caches := (daily_spend_caches d)(org \<mapsto> (v, now + seconds 30))\<rparr>)))"

section \<open>Balance and limits\<close>

definition get_credit_balance :: "ident \<Rightarrow> db \<Rightarrow> usdc" where
  "get_credit_balance org d = (case org_credits d org of Some c \<Rightarrow> cr_balance_usdc c | None \<Rightarrow> 0)"

text \<open>\<^verbatim>\<open>org_credits JOIN orgs\<close>.\<close>

definition credit_account :: "ident \<Rightarrow> db \<Rightarrow> (credit_row \<times> org_row) option" where
  "credit_account org d =
    (case (org_credits d org, orgs d org) of (Some c, Some o') \<Rightarrow> Some (c, o') | _ \<Rightarrow> None)"

definition is_machine_org :: "org_row \<Rightarrow> bool" where
  "is_machine_org o' \<longleftrightarrow> org_acquisition_source o' \<in> {''siwe'', ''x402''}"

definition effective_spending_limit :: "settings \<Rightarrow> credit_row \<Rightarrow> org_row \<Rightarrow> usdc" where
  "effective_spending_limit st c o' =
    (if is_machine_org o' \<and> cr_spending_limit_usdc c \<le> 0
     then machine_org_daily_spend_limit_usdc st else cr_spending_limit_usdc c)"

definition truthy :: "string option \<Rightarrow> bool" where
  "truthy s = (case s of None \<Rightarrow> False | Some x \<Rightarrow> x \<noteq> [])"

record spending_config =
  sc_org_id :: ident
  sc_balance_usdc :: usdc
  sc_spending_limit_usdc :: usdc
  sc_is_paused :: bool
  sc_daily_spend_usdc :: usdc

definition get_org_spending_config :: "settings \<Rightarrow> instant \<Rightarrow> ident \<Rightarrow> db \<Rightarrow> spending_config \<times> db" where
  "get_org_spending_config st now org d =
    (let acct = credit_account org d;
         balance = (case acct of Some (c, _) \<Rightarrow> cr_balance_usdc c | None \<Rightarrow> 0);
         limit = (case acct of Some (c, o') \<Rightarrow> effective_spending_limit st c o' | None \<Rightarrow> 0);
         paused = (case acct of Some (c, _) \<Rightarrow> cr_is_paused c | None \<Rightarrow> False);
         (spend, d') = daily_spend_cache_get now org d
     in (\<lparr>sc_org_id = org, sc_balance_usdc = balance, sc_spending_limit_usdc = limit,
          sc_is_paused = paused, sc_daily_spend_usdc = spend\<rparr>, d'))"

definition update_org_spending_config ::
  "settings \<Rightarrow> instant \<Rightarrow> ident \<Rightarrow> usdc option \<Rightarrow> bool option \<Rightarrow> db \<Rightarrow>
   (py_error + spending_config option) \<times> db" where
  "update_org_spending_config st now org limit paused d =
    (if (case limit of Some l \<Rightarrow> l < 0 | None \<Rightarrow> False)
     then (Inl (ValueError ''spending_limit_usdc must not be negative''), d)
     else if limit = None \<and> paused = None
     then (let (c, d') = get_org_spending_config st now org d in (Inr (Some c), d'))
     else if (case limit of Some l \<Rightarrow> \<not> bigint l | None \<Rightarrow> False) then (Inl (DbError DataError), d)
     else case org_credits d org of
       None \<Rightarrow> (Inr None, d)
     | Some c \<Rightarrow>
         (let c' = c\<lparr>cr_spending_limit_usdc := (case limit of Some l \<Rightarrow> l | None \<Rightarrow> cr_spending_limit_usdc c),
                     cr_is_paused := (case paused of Some b \<Rightarrow> b | None \<Rightarrow> cr_is_paused c)\<rparr>;
              (cfg, d') = get_org_spending_config st now org (d\<lparr>org_credits := (org_credits d)(org \<mapsto> c')\<rparr>)
          in (Inr (Some cfg), d')))"

section \<open>Preflight\<close>

datatype credit_refusal =
    OrgPaused
  | InsufficientCredit (refusal_balance: usdc) (refusal_outstanding: usdc) (refusal_required: usdc)
      (refusal_machine_org: bool)
  | DailyLimitReached usdc usdc usdc
  | PrincipalPaused
  | PrincipalLimitReached usdc usdc usdc

datatype verify_result = Verified | Refused credit_refusal

definition is_obligation :: "instant \<Rightarrow> ident \<Rightarrow> settlement_row \<Rightarrow> bool" where
  "is_obligation now org s \<longleftrightarrow>
     ps_org_id s = org \<and> ps_billing_method s = CreditMethod \<and>
     ps_status s \<in> {SettlementPending, Retrying, SettlementExhausted} \<and> now - days 7 \<le> ps_created_at s"

definition org_outstanding :: "instant \<Rightarrow> ident \<Rightarrow> db \<Rightarrow> usdc" where
  "org_outstanding now org d = sum_where (is_obligation now org) ps_amount_usdc (pending_settlements d)"

definition principal_outstanding :: "instant \<Rightarrow> ident \<Rightarrow> ident option \<Rightarrow> db \<Rightarrow> usdc" where
  "principal_outstanding now org p d =
    (if truthy p
     then sum_where (\<lambda>s. is_obligation now org s \<and> ps_principal_id s = p) ps_amount_usdc
            (pending_settlements d)
     else 0)"

definition verify_principal :: "instant \<Rightarrow> ident \<Rightarrow> usdc \<Rightarrow> ident option \<Rightarrow> db \<Rightarrow> verify_result" where
  "verify_principal now org required p d =
    (case p of
       None \<Rightarrow> Verified
     | Some pid \<Rightarrow>
         if pid = [] then Verified
         else case org_principal_spend_limits d (org, pid) of
           None \<Rightarrow> Verified
         | Some l \<Rightarrow>
             if pl_is_paused l then Refused PrincipalPaused
             else
               (let spend = get_daily_principal_debit_spend now org pid d;
                    owed = principal_outstanding now org p d
                in if spend + owed + required > pl_daily_limit_usdc l
                   then Refused (PrincipalLimitReached spend (pl_daily_limit_usdc l) owed)
                   else Verified))"

definition verify_credit :: "settings \<Rightarrow> instant \<Rightarrow> ident \<Rightarrow> usdc \<Rightarrow> ident option \<Rightarrow> db \<Rightarrow> verify_result" where
  "verify_credit st now org required p d =
    (let acct = credit_account org d;
         balance = (case acct of Some (c, _) \<Rightarrow> cr_balance_usdc c | None \<Rightarrow> 0);
         machine = (case acct of Some (_, o') \<Rightarrow> is_machine_org o' | None \<Rightarrow> False);
         limit = (case acct of Some (c, o') \<Rightarrow> effective_spending_limit st c o' | None \<Rightarrow> 0);
         paused = (case acct of Some (c, _) \<Rightarrow> cr_is_paused c | None \<Rightarrow> False);
         outstanding = org_outstanding now org d
     in if paused then Refused OrgPaused
        else if balance - outstanding < required
        then Refused (InsufficientCredit balance outstanding required machine)
        else if limit > 0 \<and> get_daily_debit_spend now org d + outstanding + required > limit
        then Refused (DailyLimitReached (get_daily_debit_spend now org d) limit outstanding)
        else verify_principal now org required p d)"

section \<open>Debits\<close>

definition principal_allows :: "instant \<Rightarrow> ident \<Rightarrow> usdc \<Rightarrow> ident option \<Rightarrow> db \<Rightarrow> bool" where
  "principal_allows now org amount p d =
    (case p of
       None \<Rightarrow> True
     | Some pid \<Rightarrow>
         if pid = [] then True
         else case org_principal_spend_limits d (org, pid) of
           None \<Rightarrow> True
         | Some l \<Rightarrow>
             \<not> pl_is_paused l \<and>
             get_daily_principal_debit_spend now org pid d + amount \<le> pl_daily_limit_usdc l)"

definition debit_row ::
  "ident \<Rightarrow> ident \<Rightarrow> usdc \<Rightarrow> usdc \<Rightarrow> string \<Rightarrow> ident option \<Rightarrow> instant \<Rightarrow> ledger_row" where
  "debit_row ledger_id org amount balance reason p now =
     \<lparr>led_id = ledger_id, led_org_id = org, led_operation = Debit, led_amount_usdc = amount,
      led_balance_usdc_after = balance, led_reason = reason, led_principal_id = p,
      led_external_ref = None, led_reverses_ledger_id = None, led_created_at = now\<rparr>"

definition debit_credit_locked ::
  "settings \<Rightarrow> instant \<Rightarrow> ident \<Rightarrow> ident \<Rightarrow> usdc \<Rightarrow> string \<Rightarrow> ident option \<Rightarrow> db \<Rightarrow>
   py_error + ((bool \<times> usdc \<times> ident option) \<times> db)" where
  "debit_credit_locked st now ledger_id org amount reason p d =
    (case credit_account org d of
       None \<Rightarrow> Inr ((False, 0, None), d)
     | Some (c, o') \<Rightarrow>
         (let limit = effective_spending_limit st c o' in
          if cr_is_paused c then Inr ((False, 0, None), d)
          else if limit > 0 \<and> get_daily_debit_spend now org d + amount > limit
          then Inr ((False, 0, None), d)
          else if \<not> principal_allows now org amount p d then Inr ((False, 0, None), d)
          else if cr_balance_usdc c < amount then Inr ((False, 0, None), d)
          else
            (let new_balance = cr_balance_usdc c - amount in
             bindE (set_balance org new_balance d) (\<lambda>d1.
             bindE (insert_ledger (debit_row ledger_id org amount new_balance reason p now) d1) (\<lambda>d2.
             Inr ((True, amount, Some ledger_id), d2))))))"

definition debit_credit ::
  "settings \<Rightarrow> instant \<Rightarrow> ident \<Rightarrow> ident \<Rightarrow> usdc \<Rightarrow> string \<Rightarrow> ident option \<Rightarrow> db \<Rightarrow> (bool \<times> usdc) \<times> db" where
  "debit_credit st now ledger_id org amount reason p d =
    (if amount \<le> 0 then ((True, 0), d)
     else case transaction (debit_credit_locked st now ledger_id org amount reason p) d of
       (Inl _, d') \<Rightarrow> ((False, 0), d')
     | (Inr (success, actual, _), d') \<Rightarrow>
         ((success, actual), if success then invalidate_daily_spend_cache org d' else d'))"

definition insert_refund_outbox :: "refund_outbox_row \<Rightarrow> db \<Rightarrow> py_error + db" where
  "insert_refund_outbox r d =
    (if \<not> bigint (ob_amount_usdc r) then Inl (DbError DataError)
     else if ob_amount_usdc r \<le> 0 then Inl (DbError CheckViolation)
     else if exists_where (\<lambda>x. ob_id x = ob_id r) (a2a_delegation_refund_outbox d)
     then Inl (DbError UniqueViolation)
     else if orgs d (ob_org_id r) = None then Inl (DbError ForeignKeyViolation)
     else if ob_debit_ledger_id r \<noteq> None \<and>
       \<not> exists_where (\<lambda>x. Some (led_id x) = ob_debit_ledger_id r) (org_credit_ledger d)
     then Inl (DbError ForeignKeyViolation)
     else Inr (d\<lparr>a2a_delegation_refund_outbox := a2a_delegation_refund_outbox d @ [r]\<rparr>))"

definition find_delegation :: "ident \<Rightarrow> ident \<Rightarrow> db \<Rightarrow> refund_outbox_row option" where
  "find_delegation org i d =
     find (\<lambda>r. ob_id r = i \<and> ob_org_id r = org) (a2a_delegation_refund_outbox d)"

definition debit_credit_with_delegation_refund_tx ::
  "settings \<Rightarrow> instant \<Rightarrow> ident \<Rightarrow> ident \<Rightarrow> usdc \<Rightarrow> string \<Rightarrow> ident \<Rightarrow> ident \<Rightarrow> ident option \<Rightarrow> db \<Rightarrow>
   py_error + ((bool \<times> usdc) \<times> db)" where
  "debit_credit_with_delegation_refund_tx st now ledger_id org amount reason delegation_id run_id p d =
    (case find_delegation org delegation_id d of
       Some r \<Rightarrow>
         if ob_amount_usdc r \<noteq> amount
         then Inl (ValueError ''Delegation funding amount changed for an existing id'')
         else Inr ((ob_status r = RefundPending, ob_amount_usdc r), d)
     | None \<Rightarrow>
         bindE (debit_credit_locked st now ledger_id org amount reason p d) (\<lambda>((success, actual, debit_id), d1).
           if \<not> success then Inr ((False, 0), d1)
           else
             bindE (insert_refund_outbox
               \<lparr>ob_id = delegation_id, ob_org_id = org, ob_run_id = run_id, ob_amount_usdc = actual,
                ob_status = RefundPending, ob_created_at = now, ob_resolved_at = None,
                ob_debit_ledger_id = debit_id, ob_delivery_status = NotAttempted,
                ob_delivery_started_at = None, ob_delivery_resolved_at = None,
                ob_delivery_settlement_tx = [], ob_delivery_error = []\<rparr> d1) (\<lambda>d2.
             Inr ((True, actual), invalidate_daily_spend_cache org d2))))"

definition debit_credit_with_delegation_refund ::
  "settings \<Rightarrow> instant \<Rightarrow> ident \<Rightarrow> ident \<Rightarrow> usdc \<Rightarrow> string \<Rightarrow> ident \<Rightarrow> ident \<Rightarrow> ident option \<Rightarrow> db \<Rightarrow>
   (bool \<times> usdc) \<times> db" where
  "debit_credit_with_delegation_refund st now ledger_id org amount reason delegation_id run_id p d =
    (if amount \<le> 0 then ((True, 0), d)
     else case transaction
        (debit_credit_with_delegation_refund_tx st now ledger_id org amount reason delegation_id run_id p) d of
       (Inl _, d') \<Rightarrow> ((False, 0), d')
     | (Inr r, d') \<Rightarrow> (r, d'))"

section \<open>Top-ups\<close>

definition topup_row ::
  "ident \<Rightarrow> ident \<Rightarrow> usdc \<Rightarrow> usdc \<Rightarrow> string \<Rightarrow> string option \<Rightarrow> instant \<Rightarrow> ledger_row" where
  "topup_row ledger_id org amount balance reason ref now =
     \<lparr>led_id = ledger_id, led_org_id = org, led_operation = Topup, led_amount_usdc = amount,
      led_balance_usdc_after = balance, led_reason = reason, led_principal_id = None,
      led_external_ref = ref, led_reverses_ledger_id = None, led_created_at = now\<rparr>"

text \<open>The upsert of the balance followed by its ledger row, shared by every top-up path.\<close>

definition post_topup ::
  "instant \<Rightarrow> ident \<Rightarrow> ident \<Rightarrow> usdc \<Rightarrow> string \<Rightarrow> string option \<Rightarrow> db \<Rightarrow> py_error + (usdc \<times> db)" where
  "post_topup now ledger_id org amount reason ref d =
     bindE (upsert_credit org amount d) (\<lambda>(balance, d1).
     bindE (insert_ledger (topup_row ledger_id org amount balance reason ref now) d1) (\<lambda>d2.
     Inr (balance, d2)))"

definition ledger_with_ref :: "string \<Rightarrow> db \<Rightarrow> ledger_row option" where
  "ledger_with_ref ref d = find (\<lambda>r. led_external_ref r = Some ref) (org_credit_ledger d)"

definition admin_topup_credit ::
  "instant \<Rightarrow> ident \<Rightarrow> ident \<Rightarrow> usdc \<Rightarrow> string \<Rightarrow> string option \<Rightarrow> db \<Rightarrow> (py_error + usdc) \<times> db" where
  "admin_topup_credit now ledger_id org amount reason ref d =
    (case transaction (post_topup now ledger_id org amount reason ref) d of
       (Inr balance, d') \<Rightarrow> (Inr balance, d')
     | (Inl e, d') \<Rightarrow>
         (if e \<noteq> DbError UniqueViolation then (Inl e, d')
          else case ref of
            None \<Rightarrow> (Inl e, d')
          | Some x \<Rightarrow>
              (case ledger_with_ref x d' of
                 None \<Rightarrow> (Inl e, d')
               | Some r \<Rightarrow>
                   if led_org_id r \<noteq> org \<or> led_amount_usdc r \<noteq> amount then (Inl e, d')
                   else (Inr (get_credit_balance org d'), d'))))"

definition get_credit_history ::
  "ident \<Rightarrow> ledger_operation option \<Rightarrow> nat \<Rightarrow> instant option \<Rightarrow> db \<Rightarrow> ledger_row list" where
  "get_credit_history org operation limit cursor d =
     take limit (sort_key (\<lambda>r. - led_created_at r)
       (rows_where (\<lambda>r. led_org_id r = org \<and>
           (case operation of None \<Rightarrow> True | Some op \<Rightarrow> led_operation r = op) \<and>
           (case cursor of None \<Rightarrow> True | Some t \<Rightarrow> led_created_at r < t))
         (org_credit_ledger d)))"

section \<open>The audit invariant\<close>

text \<open>
  The specification of the rail: an organisation's balance is what the ledger says it is. The
  ledger is the abstract account, \<open>org_credits.balance_usdc\<close> its cached total.
\<close>

definition signed_amount :: "ledger_row \<Rightarrow> int" where
  "signed_amount r = (case led_operation r of Topup \<Rightarrow> led_amount_usdc r | Debit \<Rightarrow> - led_amount_usdc r)"

definition ledger_balance :: "ledger_row list \<Rightarrow> ident \<Rightarrow> usdc" where
  "ledger_balance rows org = sum_where (\<lambda>r. led_org_id r = org) signed_amount rows"

definition ledger_wf :: "ledger_row list \<Rightarrow> bool" where
  "ledger_wf rows \<longleftrightarrow>
     distinct (map led_id rows) \<and>
     (\<forall>r \<in> set rows. 0 < led_amount_usdc r \<and> 0 \<le> led_balance_usdc_after r) \<and>
     (\<forall>i < length rows. led_balance_usdc_after (rows ! i) =
        ledger_balance (take (Suc i) rows) (led_org_id (rows ! i))) \<and>
     distinct (List.map_filter led_external_ref rows) \<and>
     distinct (List.map_filter led_reverses_ledger_id rows) \<and>
     set (List.map_filter led_reverses_ledger_id rows) \<subseteq> led_id ` set rows"

definition account_ok :: "ledger_row list \<Rightarrow> ident \<Rightarrow> credit_row \<Rightarrow> bool" where
  "account_ok rows org c \<longleftrightarrow>
     cr_balance_usdc c = ledger_balance rows org \<and> 0 \<le> cr_balance_usdc c \<and> bigint (cr_balance_usdc c)"

definition audited :: "db \<Rightarrow> bool" where
  "audited d \<longleftrightarrow>
     ledger_wf (org_credit_ledger d) \<and>
     (\<forall>org c. org_credits d org = Some c \<longrightarrow> account_ok (org_credit_ledger d) org c) \<and>
     (\<forall>r \<in> set (org_credit_ledger d). org_credits d (led_org_id r) \<noteq> None) \<and>
     dom (org_credits d) \<subseteq> dom (orgs d)"

lemma audited_frame [simp]:
  "audited (d\<lparr>org_principal_spend_limits := a\<rparr>) = audited d"
  "audited (d\<lparr>a2a_delegation_refund_outbox := b\<rparr>) = audited d"
  "audited (d\<lparr>a2a_delegation_events := c\<rparr>) = audited d"
  "audited (d\<lparr>pending_settlements := e\<rparr>) = audited d"
  "audited (d\<lparr>usage_events := f\<rparr>) = audited d"
  "audited (d\<lparr>billing_charges := g\<rparr>) = audited d"
  "audited (d\<lparr>org_onboarding_credit_grants := h\<rparr>) = audited d"
  "audited (d\<lparr>org_onboarding_credit_outbox := i\<rparr>) = audited d"
  "audited (d\<lparr>org_client_credentials := j\<rparr>) = audited d"
  "audited (d\<lparr>org_provisioning_events := k\<rparr>) = audited d"
  "audited (d\<lparr>stripe_webhook_events := l\<rparr>) = audited d"
  "audited (d\<lparr>usdc_topup_events := l\<rparr>) = audited d"
  "audited (d\<lparr>tool_author_earnings := m\<rparr>) = audited d"
  "audited (d\<lparr>tool_author_withdrawals := n\<rparr>) = audited d"
  "audited (d\<lparr>daily_spend_caches := q\<rparr>) = audited d"
  by (simp_all add: audited_def)

lemma ledger_balance_Nil [simp]: "ledger_balance [] org = 0"
  and ledger_balance_append [simp]:
    "ledger_balance (xs @ ys) org = ledger_balance xs org + ledger_balance ys org"
  by (simp_all add: ledger_balance_def)

lemma ledger_balance_single [simp]:
  "ledger_balance [r] org = (if led_org_id r = org then signed_amount r else 0)"
  by (simp add: ledger_balance_def)

lemma map_filter_append_one [simp]:
  "List.map_filter f (xs @ [r]) = List.map_filter f xs @ (case f r of None \<Rightarrow> [] | Some y \<Rightarrow> [y])"
  by (simp add: List.map_filter_def split: option.split)

lemma in_map_filter: "y \<in> set (List.map_filter f xs) \<longleftrightarrow> (\<exists>x \<in> set xs. f x = Some y)"
  by (force simp: List.map_filter_def)

lemma map_filter_distinct_inj:
  "distinct (List.map_filter f xs) \<Longrightarrow> r \<in> set xs \<Longrightarrow> s \<in> set xs \<Longrightarrow> f r = Some y \<Longrightarrow> f s = Some y \<Longrightarrow> r = s"
proof (induction xs)
  case (Cons a xs)
  have "distinct (List.map_filter f xs)"
    using Cons.prems(1) by (auto simp: List.map_filter_simps split: option.splits)
  moreover have "y \<notin> set (List.map_filter f xs)" if "f a = Some y"
    using Cons.prems(1) that by (simp add: List.map_filter_simps)
  ultimately show ?case
    using Cons.IH Cons.prems by (auto simp: in_map_filter)
qed simp

lemma empty_db_audited: "audited empty_db"
  by (simp add: audited_def empty_db_def ledger_wf_def List.map_filter_def)

text \<open>What the constraints of the ledger table guarantee about an accepted row.\<close>

lemma insert_ledger_InrD:
  assumes "insert_ledger r d = Inr d'"
  shows "d' = d\<lparr>org_credit_ledger := org_credit_ledger d @ [r]\<rparr>"
    and "0 < led_amount_usdc r" "0 \<le> led_balance_usdc_after r" "bigint (led_balance_usdc_after r)"
    and "led_id r \<notin> led_id ` set (org_credit_ledger d)"
    and "led_external_ref r = Some x \<Longrightarrow> x \<notin> set (List.map_filter led_external_ref (org_credit_ledger d))"
    and "led_reverses_ledger_id r = Some y \<Longrightarrow>
      y \<notin> set (List.map_filter led_reverses_ledger_id (org_credit_ledger d)) \<and>
      y \<in> led_id ` set (org_credit_ledger d)"
    and "orgs d (led_org_id r) \<noteq> None"
  using assms by (auto simp: insert_ledger_def in_map_filter split: if_splits)

lemma ledger_wf_snoc:
  assumes "ledger_wf rows" and "led_id r \<notin> led_id ` set rows" and "0 < led_amount_usdc r"
    and "0 \<le> led_balance_usdc_after r"
    and "led_balance_usdc_after r = ledger_balance rows (led_org_id r) + signed_amount r"
    and "\<And>x. led_external_ref r = Some x \<Longrightarrow> x \<notin> set (List.map_filter led_external_ref rows)"
    and "\<And>y. led_reverses_ledger_id r = Some y \<Longrightarrow>
      y \<notin> set (List.map_filter led_reverses_ledger_id rows) \<and> y \<in> led_id ` set rows"
  shows "ledger_wf (rows @ [r])"
proof -
  have "\<forall>i < length (rows @ [r]). led_balance_usdc_after ((rows @ [r]) ! i) =
      ledger_balance (take (Suc i) (rows @ [r])) (led_org_id ((rows @ [r]) ! i))"
    using assms(1,5) by (auto simp: ledger_wf_def nth_append less_Suc_eq)
  with assms show ?thesis
    by (auto simp: ledger_wf_def split: option.splits)
qed

lemma audited_account: "audited d \<Longrightarrow> org_credits d org = Some c \<Longrightarrow> account_ok (org_credit_ledger d) org c"
  by (simp add: audited_def)

lemma account_ok_nonneg: "account_ok rows org c \<Longrightarrow> 0 \<le> cr_balance_usdc c"
  by (simp add: account_ok_def)

lemma account_ok_bigint: "account_ok rows org c \<Longrightarrow> bigint (cr_balance_usdc c)"
  unfolding account_ok_def by blast

lemma account_ok_other [simp]:
  "led_org_id r \<noteq> org \<Longrightarrow> account_ok (rows @ [r]) org c = account_ok rows org c"
  by (simp add: account_ok_def)

lemma audited_balance: "audited d \<Longrightarrow> get_credit_balance org d = ledger_balance (org_credit_ledger d) org"
proof (cases "org_credits d org")
  case None
  moreover assume "audited d"
  ultimately have "\<And>x. x \<in> set (org_credit_ledger d) \<Longrightarrow> led_org_id x \<noteq> org"
    by (auto simp: audited_def)
  with None show ?thesis by (simp add: get_credit_balance_def ledger_balance_def sum_where_none)
qed (auto simp: audited_def account_ok_def get_credit_balance_def)

lemma audited_balance_nonneg: "audited d \<Longrightarrow> 0 \<le> get_credit_balance org d"
  by (cases "org_credits d org")
    (auto simp: get_credit_balance_def intro: account_ok_nonneg dest: audited_account)

text \<open>
  The shape of every money movement: the balance column of one account and one ledger row change
  together. This is the only lemma that unfolds the invariant.
\<close>

lemma audited_post:
  assumes aud: "audited d" and ins: "insert_ledger r d1 = Inr d2"
    and d1: "d1 = d\<lparr>org_credits := (org_credits d)(led_org_id r \<mapsto> c)\<rparr>"
    and after: "led_balance_usdc_after r = cr_balance_usdc c"
    and bal: "cr_balance_usdc c = get_credit_balance (led_org_id r) d + signed_amount r"
  shows "audited d2"
proof -
  note r = insert_ledger_InrD [OF ins]
  let ?L = "org_credit_ledger d" and ?o = "led_org_id r"
  have new: "cr_balance_usdc c = ledger_balance ?L ?o + signed_amount r"
    using bal audited_balance [OF aud] by simp
  have d2: "d2 = d1\<lparr>org_credit_ledger := ?L @ [r]\<rparr>" using r(1) d1 by simp
  have "ledger_wf (?L @ [r])"
    using aud r after new d1 by (intro ledger_wf_snoc) (auto simp: audited_def)
  moreover have "account_ok (?L @ [r]) org' c'" if "org_credits d2 org' = Some c'" for org' c'
  proof (cases "org' = ?o")
    case True
    with that new r after d2 d1 show ?thesis by (auto simp: account_ok_def)
  next
    case False
    with that d2 d1 show ?thesis using audited_account [OF aud, of org' c'] by simp
  qed
  moreover have "\<forall>x \<in> set (?L @ [r]). org_credits d2 (led_org_id x) \<noteq> None"
    using aud d2 d1 by (auto simp: audited_def)
  moreover have "dom (org_credits d2) \<subseteq> dom (orgs d2)"
    using aud r d2 d1 by (auto simp: audited_def)
  ultimately show ?thesis using d2 by (simp add: audited_def)
qed

lemma get_credit_balance_upd [simp]:
  "get_credit_balance org (d\<lparr>org_credits := (org_credits d)(org' \<mapsto> c)\<rparr>) =
     (if org = org' then cr_balance_usdc c else get_credit_balance org d)"
  by (simp add: get_credit_balance_def)

lemma upsert_credit_InrD:
  assumes "upsert_credit org amount d = Inr (b, d')"
  shows "\<exists>c. d' = d\<lparr>org_credits := (org_credits d)(org \<mapsto> c)\<rparr> \<and> cr_balance_usdc c = b \<and>
    b = get_credit_balance org d + amount \<and> 0 \<le> amount"
  using assms
  by (auto simp: upsert_credit_def get_credit_balance_def Let_def split: if_splits option.splits)

lemma add_balance_InrD:
  assumes "add_balance org amount d = Inr (Some b, d')"
  shows "\<exists>c. d' = d\<lparr>org_credits := (org_credits d)(org \<mapsto> c)\<rparr> \<and> cr_balance_usdc c = b \<and>
    b = get_credit_balance org d + amount"
  using assms
  by (auto simp: add_balance_def get_credit_balance_def Let_def split: if_splits option.splits)

lemma set_balance_InrD:
  assumes "set_balance org b d = Inr d'" and "org_credits d org = Some c0"
  shows "d' = d\<lparr>org_credits := (org_credits d)(org \<mapsto> c0\<lparr>cr_balance_usdc := b\<rparr>)\<rparr> \<and> 0 \<le> b \<and> bigint b"
  using assms by (auto simp: set_balance_def split: if_splits option.splits)

text \<open>
  The contract that every operation of the billing services has towards the credit tables: it keeps
  the audit invariant and only appends to the ledger.
\<close>

locale audited_operation =
  fixes run :: "db \<Rightarrow> db"
  assumes keeps_audit: "audited d \<Longrightarrow> audited (run d)"
    and ledger_grows: "\<exists>new. org_credit_ledger (run d) = org_credit_ledger d @ new"
begin

lemma entry_immutable:
  "i < length (org_credit_ledger d) \<Longrightarrow> org_credit_ledger (run d) ! i = org_credit_ledger d ! i"
  using ledger_grows [of d] by (auto simp: nth_append)

lemma balance_explained:
  assumes "audited d"
  shows "get_credit_balance org (run d) = get_credit_balance org d +
    ledger_balance (drop (length (org_credit_ledger d)) (org_credit_ledger (run d))) org"
  using ledger_grows [of d] audited_balance [OF assms] audited_balance [OF keeps_audit [OF assms]]
  by auto

lemma balance_nonneg: "audited d \<Longrightarrow> 0 \<le> get_credit_balance org (run d)"
  by (rule audited_balance_nonneg) (rule keeps_audit)

end

lemma audited_operation_comp:
  assumes "audited_operation f" and "audited_operation g"
  shows "audited_operation (\<lambda>d. g (f d))"
proof -
  have "\<exists>new. org_credit_ledger (g (f d)) = org_credit_ledger d @ new" for d
    using audited_operation.ledger_grows [OF assms(1), of d]
      audited_operation.ledger_grows [OF assms(2), of "f d"] by auto
  then show ?thesis
    by unfold_locales
      (auto intro: audited_operation.keeps_audit [OF assms(1)] audited_operation.keeps_audit [OF assms(2)])
qed

lemma audited_operation_id: "audited_operation (\<lambda>d. d)"
  by unfold_locales auto

section \<open>Debits are balanced and capped\<close>

lemma debit_locked_refused:
  "debit_credit_locked st now i org amount reason p d = Inr ((False, a, l), d') \<Longrightarrow> d' = d \<and> a = 0 \<and> l = None"
  by (auto simp: debit_credit_locked_def Let_def bindE_eq_Inr_iff split: option.splits if_splits prod.splits)

text \<open>Everything a successful locked debit implies.\<close>

lemma debit_locked_success:
  assumes "debit_credit_locked st now i org amount reason p d = Inr ((True, a, l), d')"
  obtains c o' where
    "org_credits d org = Some c" "orgs d org = Some o'" "a = amount" "l = Some i" "\<not> cr_is_paused c"
    "0 < effective_spending_limit st c o' \<Longrightarrow>
       get_daily_debit_spend now org d + amount \<le> effective_spending_limit st c o'"
    "principal_allows now org amount p d" "amount \<le> cr_balance_usdc c"
    "insert_ledger (debit_row i org amount (cr_balance_usdc c - amount) reason p now)
       (d\<lparr>org_credits := (org_credits d)(org \<mapsto> c\<lparr>cr_balance_usdc := cr_balance_usdc c - amount\<rparr>)\<rparr>) = Inr d'"
proof -
  obtain c o' where acct: "credit_account org d = Some (c, o')"
    using assms by (cases "credit_account org d") (auto simp: debit_credit_locked_def)
  let ?lim = "effective_spending_limit st c o'" and ?new = "cr_balance_usdc c - amount"
  have guards: "\<not> cr_is_paused c" "\<not> (0 < ?lim \<and> ?lim < get_daily_debit_spend now org d + amount)"
    "principal_allows now org amount p d" "\<not> cr_balance_usdc c < amount"
    and body: "bindE (set_balance org ?new d) (\<lambda>d1.
      bindE (insert_ledger (debit_row i org amount ?new reason p now) d1) (\<lambda>d2.
      Inr ((True, amount, Some i), d2))) = Inr ((True, a, l), d')"
    using assms acct by (simp_all add: debit_credit_locked_def Let_def split: if_splits)
  from body obtain d1 where set: "set_balance org ?new d = Inr d1"
    and ins: "insert_ledger (debit_row i org amount ?new reason p now) d1 = Inr d'"
    and eq: "a = amount" "l = Some i"
    by (auto simp: bindE_eq_Inr_iff)
  have rows: "org_credits d org = Some c" "orgs d org = Some o'"
    using acct by (auto simp: credit_account_def split: option.splits)
  have "d1 = d\<lparr>org_credits := (org_credits d)(org \<mapsto> c\<lparr>cr_balance_usdc := ?new\<rparr>)\<rparr>"
    using set_balance_InrD [OF set rows(1)] by simp
  with ins have "insert_ledger (debit_row i org amount ?new reason p now)
      (d\<lparr>org_credits := (org_credits d)(org \<mapsto> c\<lparr>cr_balance_usdc := ?new\<rparr>)\<rparr>) = Inr d'" by simp
  with rows eq guards show ?thesis by (intro that) auto
qed

lemma debit_row_sel [simp]:
  "led_id (debit_row i org amount b reason p now) = i"
  "led_org_id (debit_row i org amount b reason p now) = org"
  "led_operation (debit_row i org amount b reason p now) = Debit"
  "led_amount_usdc (debit_row i org amount b reason p now) = amount"
  "led_balance_usdc_after (debit_row i org amount b reason p now) = b"
  "led_principal_id (debit_row i org amount b reason p now) = p"
  "led_external_ref (debit_row i org amount b reason p now) = None"
  "led_reverses_ledger_id (debit_row i org amount b reason p now) = None"
  "led_created_at (debit_row i org amount b reason p now) = now"
  "signed_amount (debit_row i org amount b reason p now) = - amount"
  by (simp_all add: debit_row_def signed_amount_def)

lemma topup_row_sel [simp]:
  "led_id (topup_row i org amount b reason ref now) = i"
  "led_org_id (topup_row i org amount b reason ref now) = org"
  "led_operation (topup_row i org amount b reason ref now) = Topup"
  "led_amount_usdc (topup_row i org amount b reason ref now) = amount"
  "led_balance_usdc_after (topup_row i org amount b reason ref now) = b"
  "led_external_ref (topup_row i org amount b reason ref now) = ref"
  "led_reverses_ledger_id (topup_row i org amount b reason ref now) = None"
  "signed_amount (topup_row i org amount b reason ref now) = amount"
  by (simp_all add: topup_row_def signed_amount_def)

lemma debit_locked_audited:
  assumes "audited d" and "debit_credit_locked st now i org amount reason p d = Inr ((ok, a, l), d')"
  shows "audited d'"
proof (cases ok)
  case False
  with assms show ?thesis using debit_locked_refused by fastforce
next
  case True
  with assms(2) have "debit_credit_locked st now i org amount reason p d = Inr ((True, a, l), d')" by simp
  then show ?thesis
  proof (rule debit_locked_success)
    fix c :: credit_row and o'
    let ?c = "c\<lparr>cr_balance_usdc := cr_balance_usdc c - amount\<rparr>"
    assume row: "org_credits d org = Some c"
      and ins: "insert_ledger (debit_row i org amount (cr_balance_usdc c - amount) reason p now)
        (d\<lparr>org_credits := (org_credits d)(org \<mapsto> ?c)\<rparr>) = Inr d'"
    show ?thesis
      by (rule audited_post [OF assms(1) ins, where c = ?c]) (simp_all add: get_credit_balance_def row)
  qed
qed

lemma debit_locked_grows:
  assumes "debit_credit_locked st now i org amount reason p d = Inr ((ok, a, l), d')"
  shows "\<exists>new. org_credit_ledger d' = org_credit_ledger d @ new"
proof (cases ok)
  case False
  with assms show ?thesis using debit_locked_refused by fastforce
next
  case True
  with assms show ?thesis
    by (auto elim!: debit_locked_success dest!: insert_ledger_InrD(1))
qed

lemma invalidate_audited [simp]: "audited (invalidate_daily_spend_cache org d) = audited d"
  by (simp add: invalidate_daily_spend_cache_def)

lemma invalidate_frame [simp]:
  "org_credit_ledger (invalidate_daily_spend_cache org d) = org_credit_ledger d"
  "org_credits (invalidate_daily_spend_cache org d) = org_credits d"
  "orgs (invalidate_daily_spend_cache org d) = orgs d"
  "get_credit_balance x (invalidate_daily_spend_cache org d) = get_credit_balance x d"
  "pending_settlements (invalidate_daily_spend_cache org d) = pending_settlements d"
  "a2a_delegation_refund_outbox (invalidate_daily_spend_cache org d) = a2a_delegation_refund_outbox d"
  "org_principal_spend_limits (invalidate_daily_spend_cache org d) = org_principal_spend_limits d"
  by (simp_all add: invalidate_daily_spend_cache_def get_credit_balance_def)

interpretation debit: audited_operation "\<lambda>d. snd (debit_credit st now i org amount reason p d)"
  for st now i org amount reason p
proof unfold_locales
  show "audited (snd (debit_credit st now i org amount reason p d))" if "audited d" for d
    using that debit_locked_audited [OF that]
    by (auto simp: debit_credit_def transaction_def split: sum.splits prod.splits)
  show "\<exists>new. org_credit_ledger (snd (debit_credit st now i org amount reason p d)) =
      org_credit_ledger d @ new" for d
    using debit_locked_grows [of st now i org amount reason p d]
    by (auto simp: debit_credit_def transaction_def split: sum.splits prod.splits)
qed

lemma debit_credit_ok:
  assumes "debit_credit st now i org amount reason p d = ((True, a), d')" and "0 < amount"
  obtains d1 where "debit_credit_locked st now i org amount reason p d = Inr ((True, amount, Some i), d1)"
    and "d' = invalidate_daily_spend_cache org d1" and "a = amount"
  using assms
  by (auto simp: debit_credit_def transaction_def split: sum.splits prod.splits if_splits
      elim: debit_locked_success)

lemma debit_credit_refused:
  assumes "debit_credit st now i org amount reason p d = ((False, a), d')"
  shows "a = 0 \<and> d' = d"
  using assms debit_locked_refused
  by (fastforce simp: debit_credit_def transaction_def split: sum.splits prod.splits if_splits)

lemma debit_credit_frame:
  assumes "debit_credit st now i org amount reason p d = ((ok, a), d')" and "0 < amount"
  shows "org_onboarding_credit_grants d' = org_onboarding_credit_grants d \<and>
    set (org_credit_ledger d) \<subseteq> set (org_credit_ledger d') \<and>
    (\<forall>r \<in> set (org_credit_ledger d') - set (org_credit_ledger d). led_operation r = Debit)"
proof (cases ok)
  case False
  with assms(1) show ?thesis using debit_credit_refused by fastforce
next
  case True
  with assms obtain d1 where "debit_credit_locked st now i org amount reason p d = Inr ((True, amount, Some i), d1)"
    and "d' = invalidate_daily_spend_cache org d1"
    using debit_credit_ok by metis
  then show ?thesis
    by (auto simp: invalidate_daily_spend_cache_def elim!: debit_locked_success dest!: insert_ledger_InrD(1))
qed

text \<open>Appending a row that reverses nothing adds its amount to the rolling sums and changes nothing else.\<close>

lemma is_reversed_snoc [simp]:
  "led_reverses_ledger_id r = None \<Longrightarrow> is_reversed (rows @ [r]) x = is_reversed rows x"
  by (auto simp: is_reversed_def)

lemma fresh_not_reversed:
  assumes "ledger_wf rows" and "i \<notin> led_id ` set rows"
  shows "\<not> is_reversed rows i"
proof
  assume "is_reversed rows i"
  then have "i \<in> set (List.map_filter led_reverses_ledger_id rows)"
    by (auto simp: is_reversed_def in_map_filter)
  with assms show False unfolding ledger_wf_def by blast
qed

lemma counts_as_spend_snoc [simp]:
  "led_reverses_ledger_id r = None \<Longrightarrow> counts_as_spend now org (rows @ [r]) = counts_as_spend now org rows"
  by (simp add: counts_as_spend_def fun_eq_iff)

lemma spend_nonneg: "audited d \<Longrightarrow> 0 \<le> get_daily_debit_spend now org d"
  unfolding get_daily_debit_spend_def
  by (rule sum_where_nonneg) (auto simp: audited_def ledger_wf_def intro: less_imp_le)

lemma debit_locked_spend:
  assumes "audited d" and "debit_credit_locked st now i org amount reason p d = Inr ((True, a, l), d')"
  shows "get_daily_debit_spend now org d' = get_daily_debit_spend now org d + amount"
    and "p = Some q \<Longrightarrow>
      get_daily_principal_debit_spend now org q d' = get_daily_principal_debit_spend now org q d + amount"
proof -
  from assms(2) obtain c :: credit_row where ins:
    "insert_ledger (debit_row i org amount (cr_balance_usdc c - amount) reason p now)
       (d\<lparr>org_credits := (org_credits d)(org \<mapsto> c\<lparr>cr_balance_usdc := cr_balance_usdc c - amount\<rparr>)\<rparr>) = Inr d'"
    by (rule debit_locked_success) auto
  note r = insert_ledger_InrD [OF ins]
  have "\<not> is_reversed (org_credit_ledger d) i"
    using assms(1) r(5) fresh_not_reversed [of "org_credit_ledger d" i] by (simp add: audited_def)
  then have new: "counts_as_spend now org (org_credit_ledger d)
      (debit_row i org amount (cr_balance_usdc c - amount) reason p now)"
    by (simp add: counts_as_spend_def)
  show "get_daily_debit_spend now org d' = get_daily_debit_spend now org d + amount"
    using r(1) new by (simp add: get_daily_debit_spend_def)
  show "get_daily_principal_debit_spend now org q d' = get_daily_principal_debit_spend now org q d + amount"
    if "p = Some q"
    using r(1) new that by (simp add: get_daily_principal_debit_spend_def)
qed

lemma spend_invalidate [simp]:
  "get_daily_debit_spend now org (invalidate_daily_spend_cache x d) = get_daily_debit_spend now org d"
  "get_daily_principal_debit_spend now org q (invalidate_daily_spend_cache x d) =
     get_daily_principal_debit_spend now org q d"
  by (simp_all add: get_daily_debit_spend_def get_daily_principal_debit_spend_def)

section \<open>Top-ups are balanced and idempotent\<close>

lemma post_topup_InrD:
  assumes "post_topup now i org amount reason ref d = Inr (b, d')"
  obtains c where
    "b = get_credit_balance org d + amount" "cr_balance_usdc c = b"
    "insert_ledger (topup_row i org amount b reason ref now)
       (d\<lparr>org_credits := (org_credits d)(org \<mapsto> c)\<rparr>) = Inr d'"
  using assms upsert_credit_InrD by (fastforce simp: post_topup_def bindE_eq_Inr_iff)

lemma post_topup_audited:
  assumes "audited d" and "post_topup now i org amount reason ref d = Inr (b, d')"
  shows "audited d'"
  using assms(2)
proof (rule post_topup_InrD)
  fix c :: credit_row
  assume bal: "b = get_credit_balance org d + amount" "cr_balance_usdc c = b"
    and ins: "insert_ledger (topup_row i org amount b reason ref now)
      (d\<lparr>org_credits := (org_credits d)(org \<mapsto> c)\<rparr>) = Inr d'"
  show ?thesis by (rule audited_post [OF assms(1) ins, where c = c]) (simp_all add: bal)
qed

lemma post_topup_ledger:
  assumes "post_topup now i org amount reason ref d = Inr (b, d')"
  shows "org_credit_ledger d' = org_credit_ledger d @ [topup_row i org amount b reason ref now]"
    and "get_credit_balance x d' = get_credit_balance x d + (if x = org then amount else 0)"
  using assms
  by (auto elim!: post_topup_InrD dest!: insert_ledger_InrD(1) simp: get_credit_balance_def split: option.splits)

interpretation topup: audited_operation "\<lambda>d. snd (admin_topup_credit now i org amount reason ref d)"
  for now i org amount reason ref
proof unfold_locales
  show "audited (snd (admin_topup_credit now i org amount reason ref d))" if "audited d" for d
    using that post_topup_audited [OF that]
    by (auto simp: admin_topup_credit_def transaction_def split: sum.splits option.splits)
  show "\<exists>new. org_credit_ledger (snd (admin_topup_credit now i org amount reason ref d)) =
      org_credit_ledger d @ new" for d
    using post_topup_ledger(1) [of now i org amount reason ref d]
    by (auto simp: admin_topup_credit_def transaction_def split: sum.splits option.splits)
qed

section \<open>Properties\<close>

text \<open>A small database for the witnesses: one organisation with 100 atomic USDC and a limit of 60.\<close>

definition demo_db :: db where
  "demo_db = empty_db\<lparr>orgs := [''acme'' \<mapsto> \<lparr>org_acquisition_source = ''email''\<rparr>],
     org_credits := [''acme'' \<mapsto> \<lparr>cr_balance_usdc = 100, cr_spending_limit_usdc = 60, cr_is_paused = False\<rparr>],
     org_credit_ledger := [topup_row ''t0'' ''acme'' 100 100 ''seed'' (Some ''ref0'') 0],
     org_principal_spend_limits := [(''acme'', ''bob'') \<mapsto> \<lparr>pl_daily_limit_usdc = 50, pl_is_paused = False\<rparr>]\<rparr>"

lemmas demo_simps = demo_db_def empty_db_def topup_row_def debit_row_def

lemma demo_db_audited: "audited demo_db"
  by (auto simp: audited_def account_ok_def ledger_wf_def demo_simps ledger_balance_def signed_amount_def
      List.map_filter_def bigint_def split: if_splits)

lemmas debit_eval_simps = debit_credit_def debit_credit_locked_def credit_account_def
  effective_spending_limit_def is_machine_org_def principal_allows_def get_daily_debit_spend_def
  get_daily_principal_debit_spend_def counts_as_spend_def is_reversed_def set_balance_def
  insert_ledger_def transaction_def bigint_def hours_def seconds_def get_credit_balance_def

lemma debit_credit_effect:
  assumes "debit_credit st now i org amount reason p d = ((ok, a), d')" and "0 < amount"
  shows "if ok
    then a = amount \<and> amount \<le> get_credit_balance org d \<and>
      (\<forall>x. get_credit_balance x d' = get_credit_balance x d - (if x = org then amount else 0)) \<and>
      org_credit_ledger d' = org_credit_ledger d @
        [debit_row i org amount (get_credit_balance org d - amount) reason p now]
    else a = 0 \<and> d' = d"
proof (cases ok)
  case False
  with assms(1) show ?thesis using debit_credit_refused by simp
next
  case True
  with assms obtain d1 where locked:
    "debit_credit_locked st now i org amount reason p d = Inr ((True, amount, Some i), d1)"
    and d': "d' = invalidate_daily_spend_cache org d1" and a: "a = amount"
    using debit_credit_ok by (metis (full_types))
  from locked obtain c :: credit_row where c: "org_credits d org = Some c" "amount \<le> cr_balance_usdc c"
    and ins: "insert_ledger (debit_row i org amount (cr_balance_usdc c - amount) reason p now)
      (d\<lparr>org_credits := (org_credits d)(org \<mapsto> c\<lparr>cr_balance_usdc := cr_balance_usdc c - amount\<rparr>)\<rparr>) = Inr d1"
    by (rule debit_locked_success)
  have "get_credit_balance org d = cr_balance_usdc c" using c by (simp add: get_credit_balance_def)
  then show ?thesis
    using True a d' c insert_ledger_InrD(1) [OF ins] by (auto simp: get_credit_balance_def)
qed

text \<open>
  C1. A debit is all or nothing. When it succeeds, the organisation's balance drops by exactly the
  requested amount, which the balance covered; no other balance moves and the ledger gains exactly
  the matching debit row. When it does not succeed, nothing was deducted and the whole database is
  unchanged.
\<close>

theorem debit_credit_exact:
  assumes "debit_credit st now i org amount reason p d = ((ok, a), d')" and "0 < amount"
  shows "if ok
    then a = amount \<and> amount \<le> get_credit_balance org d \<and>
      (\<forall>x. get_credit_balance x d' = get_credit_balance x d - (if x = org then amount else 0)) \<and>
      org_credit_ledger d' = org_credit_ledger d @
        [debit_row i org amount (get_credit_balance org d - amount) reason p now]
    else a = 0 \<and> d' = d"
  by (rule debit_credit_effect [OF assms])

theorem debit_credit_exact_witness:
  "\<exists>a d'. debit_credit default_settings 5 ''x1'' ''acme'' 40 ''run'' (Some ''bob'') demo_db = ((True, a), d') \<and>
    a = 40 \<and> get_credit_balance ''acme'' d' = 60"
proof -
  obtain a d' where run: "debit_credit default_settings 5 ''x1'' ''acme'' 40 ''run'' (Some ''bob'') demo_db = ((True, a), d')"
    by (simp add: debit_eval_simps demo_simps Let_def)
  have bal: "get_credit_balance ''acme'' demo_db = 100" by (simp add: demo_simps get_credit_balance_def)
  from debit_credit_exact [OF run] bal run show ?thesis by auto
qed

text \<open>
  C2. The rolling caps hold after every debit: a successful debit leaves the organisation's 24-hour
  spend within its effective limit (the configured default for machine-provisioned organisations
  whose stored limit is zero) and the principal's 24-hour spend within the principal's limit, and a
  paused organisation or principal is never debited.
\<close>

theorem debit_credit_within_caps:
  assumes "audited d" and "0 < amount"
    and "debit_credit st now i org amount reason p d = ((True, a), d')"
  shows "\<exists>c o'. org_credits d org = Some c \<and> orgs d org = Some o' \<and> \<not> cr_is_paused c \<and>
    (0 < effective_spending_limit st c o' \<longrightarrow>
      get_daily_debit_spend now org d' \<le> effective_spending_limit st c o') \<and>
    (\<forall>q l. p = Some q \<longrightarrow> q \<noteq> [] \<longrightarrow> org_principal_spend_limits d (org, q) = Some l \<longrightarrow>
      \<not> pl_is_paused l \<and> get_daily_principal_debit_spend now org q d' \<le> pl_daily_limit_usdc l)"
proof -
  from assms obtain d1 where locked:
    "debit_credit_locked st now i org amount reason p d = Inr ((True, amount, Some i), d1)"
    and d': "d' = invalidate_daily_spend_cache org d1"
    using debit_credit_ok by metis
  note spend = debit_locked_spend [OF assms(1) locked]
  from locked show ?thesis
  proof (rule debit_locked_success)
    fix c o'
    assume "org_credits d org = Some c" "orgs d org = Some o'" "\<not> cr_is_paused c"
      and lim: "0 < effective_spending_limit st c o' \<Longrightarrow>
        get_daily_debit_spend now org d + amount \<le> effective_spending_limit st c o'"
      and "principal_allows now org amount p d"
    then show ?thesis
      using spend d' by (auto simp: principal_allows_def)
  qed
qed

theorem debit_credit_within_caps_witness:
  "\<exists>a d'. debit_credit default_settings 5 ''x1'' ''acme'' 40 ''run'' (Some ''bob'') demo_db = ((True, a), d') \<and>
    get_daily_debit_spend 5 ''acme'' d' \<le> 60 \<and> get_daily_principal_debit_spend 5 ''acme'' ''bob'' d' \<le> 50"
proof -
  obtain a d' where run: "debit_credit default_settings 5 ''x1'' ''acme'' 40 ''run'' (Some ''bob'') demo_db = ((True, a), d')"
    by (simp add: debit_eval_simps demo_simps Let_def)
  from debit_credit_within_caps [OF demo_db_audited _ run] run show ?thesis
    by (auto simp: demo_simps effective_spending_limit_def is_machine_org_def)
qed

lemma outstanding_nonneg:
  "\<forall>x \<in> set (pending_settlements d). 0 \<le> ps_amount_usdc x \<Longrightarrow>
   0 \<le> org_outstanding now org d \<and> 0 \<le> principal_outstanding now org p d"
  by (auto simp: org_outstanding_def principal_outstanding_def intro!: sum_where_nonneg)

lemma verify_principal_allows:
  assumes "verify_principal now org required p d = Verified" and "amount \<le> required"
    and "0 \<le> principal_outstanding now org p d"
  shows "principal_allows now org amount p d"
  using assms
  by (auto simp: verify_principal_def principal_allows_def Let_def split: option.splits if_splits)

lemma debit_locked_succeeds:
  assumes "audited d" and "org_credits d org = Some c" and "orgs d org = Some o'" and "\<not> cr_is_paused c"
    and "0 < effective_spending_limit st c o' \<Longrightarrow>
      get_daily_debit_spend now org d + amount \<le> effective_spending_limit st c o'"
    and "principal_allows now org amount p d" and "0 < amount" "amount \<le> cr_balance_usdc c"
    and "i \<notin> led_id ` set (org_credit_ledger d)"
  shows "\<exists>d'. debit_credit_locked st now i org amount reason p d = Inr ((True, amount, Some i), d')"
proof -
  have "bigint (cr_balance_usdc c)"
    by (rule account_ok_bigint [OF audited_account [OF assms(1,2)]])
  with assms show ?thesis
    by (force simp: debit_credit_locked_def credit_account_def Let_def set_balance_def insert_ledger_def bigint_def)
qed

text \<open>
  The preflight is sound: if \<open>verify_credit\<close> accepts a required amount, then a debit of any
  positive amount up to it, against the same database and with an unused ledger id, succeeds in
  full. (Charges still owed are counted against the caller, so they never help it.)
\<close>

lemma verify_credit_covers:
  assumes "audited d" and "\<forall>x \<in> set (pending_settlements d). 0 \<le> ps_amount_usdc x"
    and "verify_credit st now org required p d = Verified"
    and "0 < amount" "amount \<le> required" and "i \<notin> led_id ` set (org_credit_ledger d)"
  shows "fst (debit_credit st now i org amount reason p d) = (True, amount)"
proof -
  note out = outstanding_nonneg [OF assms(2), of now org]
  obtain c o' where acct: "credit_account org d = Some (c, o')"
    using assms(3-5) out
    by (cases "credit_account org d") (auto simp: verify_credit_def Let_def split: if_splits)
  then have rows: "org_credits d org = Some c" "orgs d org = Some o'"
    by (auto simp: credit_account_def split: option.splits)
  from assms(3) acct have v: "\<not> cr_is_paused c" "required \<le> cr_balance_usdc c - org_outstanding now org d"
    "0 < effective_spending_limit st c o' \<Longrightarrow> get_daily_debit_spend now org d +
       org_outstanding now org d + required \<le> effective_spending_limit st c o'"
    "verify_principal now org required p d = Verified"
    by (auto simp: verify_credit_def Let_def split: if_splits)
  have "\<exists>d'. debit_credit_locked st now i org amount reason p d = Inr ((True, amount, Some i), d')"
  proof (rule debit_locked_succeeds [OF assms(1) rows v(1)])
    show "principal_allows now org amount p d"
      using verify_principal_allows [OF v(4) assms(5)] out by simp
  qed (use v out assms in auto)
  with assms(4) show ?thesis by (auto simp: debit_credit_def transaction_def)
qed

text \<open>Replaying a reference already in the ledger is refused by its unique index.\<close>

lemma post_topup_replay:
  assumes "audited d" and "r \<in> set (org_credit_ledger d)" "led_external_ref r = Some x"
    and "led_org_id r = org" "led_amount_usdc r = amount"
    and "bigint (get_credit_balance org d + amount)"
  shows "post_topup now i org amount reason (Some x) d = Inl (DbError UniqueViolation)"
proof -
  obtain c where c: "org_credits d org = Some c"
    using assms(1,2,4) by (auto simp: audited_def)
  have pos: "0 < amount" using assms(1,2,5) by (auto simp: audited_def ledger_wf_def)
  have "0 \<le> cr_balance_usdc c" "bigint (cr_balance_usdc c + amount)" "bigint amount"
    using account_ok_nonneg [OF audited_account [OF assms(1) c]] assms(6) c pos
    by (auto simp: get_credit_balance_def bigint_def)
  with pos c have up: "upsert_credit org amount d = Inr (cr_balance_usdc c + amount,
      d\<lparr>org_credits := (org_credits d)(org \<mapsto> c\<lparr>cr_balance_usdc := cr_balance_usdc c + amount\<rparr>)\<rparr>)"
    by (simp add: upsert_credit_def Let_def)
  have dup: "\<exists>z \<in> set (org_credit_ledger d). led_external_ref z = Some x" using assms(2,3) by auto
  show ?thesis
    using \<open>bigint amount\<close> \<open>bigint (cr_balance_usdc c + amount)\<close> \<open>0 \<le> cr_balance_usdc c\<close> pos dup
    by (auto simp: post_topup_def up insert_ledger_def)
qed

lemma ledger_with_ref_unique:
  assumes "ledger_wf (org_credit_ledger d)" and "r \<in> set (org_credit_ledger d)" "led_external_ref r = Some x"
  shows "ledger_with_ref x d = Some r"
proof -
  obtain s where s: "ledger_with_ref x d = Some s"
    using assms(2,3) by (cases "ledger_with_ref x d") (auto simp: ledger_with_ref_def find_None)
  then have "s \<in> set (org_credit_ledger d)" "led_external_ref s = Some x"
    using find_SomeD by (fastforce simp: ledger_with_ref_def)+
  moreover have "distinct (List.map_filter led_external_ref (org_credit_ledger d))"
    using assms(1) by (simp add: ledger_wf_def)
  ultimately show ?thesis using s assms(2,3) map_filter_distinct_inj by metis
qed

lemma post_topup_dup_raises:
  assumes "r \<in> set (org_credit_ledger d)" "led_external_ref r = Some x"
  shows "\<exists>e. post_topup now i org amount reason (Some x) d = Inl e"
proof (cases "post_topup now i org amount reason (Some x) d")
  case (Inr res)
  then obtain b d' where "post_topup now i org amount reason (Some x) d = Inr (b, d')" by (cases res) auto
  then show ?thesis
  proof (rule post_topup_InrD)
    fix c
    assume "insert_ledger (topup_row i org amount b reason (Some x) now)
      (d\<lparr>org_credits := (org_credits d)(org \<mapsto> c)\<rparr>) = Inr d'"
    from insert_ledger_InrD(6) [OF this, of x] assms show ?thesis by (auto simp: in_map_filter)
  qed
qed simp

text \<open>
  A top-up with an external reference is credited at most once. Once the ledger holds the
  reference, repeating the top-up leaves the database unchanged whatever else differs; the same
  organisation and amount are answered with the current balance, any other combination raises.
\<close>

theorem admin_topup_once:
  assumes "audited d" and "r \<in> set (org_credit_ledger d)" "led_external_ref r = Some x"
    and "bigint (get_credit_balance org d + amount)"
  shows "snd (admin_topup_credit now i org amount reason (Some x) d) = d \<and>
    (if led_org_id r = org \<and> led_amount_usdc r = amount
     then fst (admin_topup_credit now i org amount reason (Some x) d) = Inr (get_credit_balance org d)
     else \<exists>e. fst (admin_topup_credit now i org amount reason (Some x) d) = Inl e)"
proof
  have wf: "ledger_wf (org_credit_ledger d)" using assms(1) by (simp add: audited_def)
  note ref = ledger_with_ref_unique [OF wf assms(2,3)]
  obtain e where e: "post_topup now i org amount reason (Some x) d = Inl e"
    using post_topup_dup_raises [OF assms(2,3)] by metis
  show "snd (admin_topup_credit now i org amount reason (Some x) d) = d"
    using e ref by (simp add: admin_topup_credit_def transaction_def)
  show "if led_org_id r = org \<and> led_amount_usdc r = amount
      then fst (admin_topup_credit now i org amount reason (Some x) d) = Inr (get_credit_balance org d)
      else \<exists>e. fst (admin_topup_credit now i org amount reason (Some x) d) = Inl e"
  proof (cases "led_org_id r = org \<and> led_amount_usdc r = amount")
    case True
    with post_topup_replay [OF assms(1-3)] assms(4)
    have "post_topup now i org amount reason (Some x) d = Inl (DbError UniqueViolation)" by simp
    with True ref show ?thesis by (simp add: admin_topup_credit_def transaction_def)
  next
    case False
    with e ref show ?thesis by (auto simp: admin_topup_credit_def transaction_def)
  qed
qed

theorem admin_topup_once_witness:
  "snd (admin_topup_credit 9 ''t1'' ''acme'' 100 ''again'' (Some ''ref0'') demo_db) = demo_db \<and>
   fst (admin_topup_credit 9 ''t1'' ''acme'' 100 ''again'' (Some ''ref0'') demo_db) = Inr 100"
proof -
  let ?r = "topup_row ''t0'' ''acme'' 100 100 ''seed'' (Some ''ref0'') 0"
  have r: "?r \<in> set (org_credit_ledger demo_db)" "led_external_ref ?r = Some ''ref0''"
    "bigint (get_credit_balance ''acme'' demo_db + 100)" "get_credit_balance ''acme'' demo_db = 100"
    by (simp_all add: demo_db_def empty_db_def get_credit_balance_def bigint_def)
  from admin_topup_once [OF demo_db_audited r(1-3), where now = 9 and i = "''t1''" and reason = "''again''"] r(4)
  show ?thesis by (simp add: topup_row_def)
qed

end
