(* ===== verification/Earnings.thy ===== *)
theory Earnings
  imports Credit "HOL-Library.Multiset"
begin

text \<open>
  Marketplace author earnings (\<^verbatim>\<open>marketplace/earnings.py\<close>) and the unified charge ledger
  (\<^verbatim>\<open>billing/charges.py\<close>). The lemmas show that a call is split into author and platform shares
  without loss, that self-calls earn nothing, and that a charge is recorded once per invocation and
  moves only along \<open>failed \<rightarrow> settled \<rightarrow> reverted\<close>.
\<close>

section \<open>Author earnings\<close>

definition insert_earning :: "earning_row \<Rightarrow> db \<Rightarrow> py_error + db" where
  "insert_earning r d =
    (if \<not> bigint (ea_amount_usdc r) \<or> \<not> bigint (ea_author_share_usdc r) \<or> \<not> bigint (ea_platform_share_usdc r)
     then Inl (DbError DataError)
     else if ea_amount_usdc r < 0 \<or> ea_author_share_usdc r < 0 \<or> ea_platform_share_usdc r < 0
     then Inl (DbError CheckViolation)
     else if exists_where (\<lambda>x. ea_id x = ea_id r) (tool_author_earnings d) then Inl (DbError UniqueViolation)
     else if orgs d (ea_org_id r) = None then Inl (DbError ForeignKeyViolation)
     else Inr (d\<lparr>tool_author_earnings := tool_author_earnings d @ [r]\<rparr>))"

definition author_share :: "settings \<Rightarrow> usdc \<Rightarrow> usdc" where
  "author_share st cost = cost * marketplace_default_revenue_share_bps st div 10000"

definition insert_tool_call_earnings ::
  "settings \<Rightarrow> instant \<Rightarrow> ident \<Rightarrow> ident \<Rightarrow> string \<Rightarrow> ident \<Rightarrow> usdc \<Rightarrow> db \<Rightarrow> py_error + (bool \<times> db)" where
  "insert_tool_call_earnings st now i author_org_id tool_name caller_org_id total_cost_usdc d =
    (if author_org_id = caller_org_id \<or> total_cost_usdc \<le> 0 then Inr (False, d)
     else
       (let share = author_share st total_cost_usdc in
        bindE (insert_earning
          \<lparr>ea_id = i, ea_org_id = author_org_id, ea_tool_name = tool_name, ea_caller_org_id = caller_org_id,
           ea_amount_usdc = total_cost_usdc, ea_author_share_usdc = share,
           ea_platform_share_usdc = total_cost_usdc - share, ea_status = EarningPending,
           ea_withdrawal_id = None, ea_created_at = now\<rparr> d) (\<lambda>d'. Inr (True, d'))))"

definition record_tool_call_earnings ::
  "settings \<Rightarrow> instant \<Rightarrow> ident \<Rightarrow> ident \<Rightarrow> string \<Rightarrow> ident \<Rightarrow> usdc \<Rightarrow> db \<Rightarrow> db" where
  "record_tool_call_earnings st now i author_org_id tool_name caller_org_id total_cost_usdc d =
    (if author_org_id = caller_org_id then d
     else case insert_tool_call_earnings st now i author_org_id tool_name caller_org_id total_cost_usdc d of
       Inl _ \<Rightarrow> d
     | Inr (_, d') \<Rightarrow> d')"

definition get_author_balance :: "ident \<Rightarrow> db \<Rightarrow> usdc" where
  "get_author_balance org d =
     sum_where (\<lambda>e. ea_org_id e = org \<and> ea_status e = EarningPending) ea_author_share_usdc
       (tool_author_earnings d)"

definition get_author_earnings_history ::
  "ident \<Rightarrow> nat \<Rightarrow> instant option \<Rightarrow> string option \<Rightarrow> db \<Rightarrow>
   py_error + (earning_row list \<times> instant option)" where
  "get_author_earnings_history org limit cursor tool d =
    (let earnings = take limit (sort_key (\<lambda>e. - ea_created_at e)
           (rows_where (\<lambda>e. ea_org_id e = org \<and>
               (case tool of None \<Rightarrow> True | Some t \<Rightarrow> ea_tool_name e = t) \<and>
               (case cursor of None \<Rightarrow> True | Some c \<Rightarrow> ea_created_at e < c))
             (tool_author_earnings d)))
     in if length earnings = limit
        then (if earnings = [] then Inl IndexError
              else Inr (earnings, Some (ea_created_at (last earnings))))
        else Inr (earnings, None))"

record earning_by_tool =
  bt_tool_name :: string
  bt_total_calls :: nat
  bt_total_amount_usdc :: usdc
  bt_total_author_share_usdc :: usdc
  bt_pending_author_share_usdc :: usdc
  bt_settled_author_share_usdc :: usdc
  bt_total_platform_share_usdc :: usdc

definition aggregate_tool :: "earning_row list \<Rightarrow> string \<Rightarrow> earning_by_tool" where
  "aggregate_tool rows t =
    (let own = rows_where (\<lambda>e. ea_tool_name e = t) rows in
     \<lparr>bt_tool_name = t, bt_total_calls = length own,
      bt_total_amount_usdc = sum_where (\<lambda>_. True) ea_amount_usdc own,
      bt_total_author_share_usdc = sum_where (\<lambda>_. True) ea_author_share_usdc own,
      bt_pending_author_share_usdc = sum_where (\<lambda>e. ea_status e = EarningPending) ea_author_share_usdc own,
      bt_settled_author_share_usdc = sum_where (\<lambda>e. ea_status e = EarningSettled) ea_author_share_usdc own,
      bt_total_platform_share_usdc = sum_where (\<lambda>_. True) ea_platform_share_usdc own\<rparr>)"

text \<open>
  \<^verbatim>\<open>GROUP BY tool_name ORDER BY total_author_share_usdc DESC, tool_name ASC\<close>: a stable sort by name and
  then by share.
\<close>

definition get_author_earnings_by_tool :: "(string \<Rightarrow> nat) \<Rightarrow> ident \<Rightarrow> db \<Rightarrow> earning_by_tool list" where
  "get_author_earnings_by_tool collate org d =
    (let rows = rows_where (\<lambda>e. ea_org_id e = org) (tool_author_earnings d);
         groups = map (aggregate_tool rows) (remdups (map ea_tool_name rows))
     in sort_key (\<lambda>b. - bt_total_author_share_usdc b) (sort_key (\<lambda>b. collate (bt_tool_name b)) groups))"

section \<open>The charge ledger\<close>

definition charge_id_for :: "(string \<Rightarrow> ident) \<Rightarrow> string \<Rightarrow> ident \<Rightarrow> ident" where
  "charge_id_for uuid5 source invocation_id = uuid5 (source @ '':'' @ invocation_id)"

definition charge_sources :: "string list" where
  "charge_sources = [''api'', ''schedule'', ''trigger'', ''a2a'', ''mcp'', ''mcp_v1'']"

definition insert_charge :: "charge_row \<Rightarrow> db \<Rightarrow> py_error + db" where
  "insert_charge r d =
    (if \<not> bigint (ch_amount_usdc r) \<or> \<not> bigint (ch_settled_amount_usdc r) then Inl (DbError DataError)
     else if ch_source r \<notin> set charge_sources \<or> ch_billing_method r \<notin> {''credit'', ''x402'', ''mpp''} \<or>
       ch_amount_usdc r < 0 \<or> ch_settled_amount_usdc r < 0 then Inl (DbError CheckViolation)
     else if exists_where (\<lambda>x. ch_source x = ch_source r \<and> ch_invocation_id x = ch_invocation_id r)
       (billing_charges d) then Inr d
     else if exists_where (\<lambda>x. ch_id x = ch_id r) (billing_charges d) then Inl (DbError UniqueViolation)
     else Inr (d\<lparr>billing_charges := billing_charges d @ [r]\<rparr>))"

definition record_charge ::
  "(string \<Rightarrow> ident) \<Rightarrow> string \<Rightarrow> ident \<Rightarrow> string \<Rightarrow> usdc \<Rightarrow> charge_status \<Rightarrow> usdc \<Rightarrow> string \<Rightarrow> ident \<Rightarrow> ident \<Rightarrow>
   string \<Rightarrow> string \<Rightarrow> ident \<Rightarrow> db \<Rightarrow> ident \<times> db" where
  "record_charge uuid5 source invocation_id method amount stat settled tx org prin payer capability
     usage_event_id d =
    (let cid = charge_id_for uuid5 source invocation_id in
     (cid,
      case insert_charge
        \<lparr>ch_id = cid, ch_source = source, ch_invocation_id = invocation_id,
         ch_usage_event_id = usage_event_id, ch_org_id = org, ch_principal_id = prin,
         ch_payer_address = py_lower (py_strip payer), ch_capability = capability,
         ch_billing_method = method, ch_amount_usdc = max 0 amount,
         ch_settled_amount_usdc = (if stat = ChargeSettled then max 0 settled else 0),
         ch_status = stat, ch_settlement_tx = (if stat = ChargeSettled then tx else [])\<rparr> d of
        Inl _ \<Rightarrow> d
      | Inr d' \<Rightarrow> d'))"

definition mark_charge_settled :: "ident \<Rightarrow> usdc \<Rightarrow> db \<Rightarrow> py_error + db" where
  "mark_charge_settled cid settled d =
    (if \<not> bigint (max 0 settled) then Inl (DbError DataError)
     else Inr (d\<lparr>billing_charges := update_where (\<lambda>c. ch_id c = cid \<and> ch_status c = ChargeFailed)
       (\<lambda>c. c\<lparr>ch_status := ChargeSettled, ch_settled_amount_usdc := max 0 settled\<rparr>) (billing_charges d)\<rparr>))"

definition mark_charge_reverted :: "ident \<Rightarrow> string \<Rightarrow> db \<Rightarrow> db" where
  "mark_charge_reverted usage_event_id tx d =
    (if usage_event_id = [] \<or> tx = [] then d
     else d\<lparr>billing_charges := update_where
       (\<lambda>c. ch_usage_event_id c = usage_event_id \<and> ch_settlement_tx c = tx \<and> ch_status c = ChargeSettled)
       (\<lambda>c. c\<lparr>ch_status := ChargeReverted\<rparr>) (billing_charges d)\<rparr>)"

text \<open>The trigger \<^verbatim>\<open>billing_charges_guard\<close>: what an update of a charge row may do.\<close>

definition same_charge_identity :: "charge_row \<Rightarrow> charge_row \<Rightarrow> bool" where
  "same_charge_identity a b \<longleftrightarrow>
     (ch_id a, ch_source a, ch_invocation_id a, ch_usage_event_id a, ch_org_id a, ch_principal_id a,
      ch_payer_address a, ch_capability a, ch_billing_method a, ch_amount_usdc a) =
     (ch_id b, ch_source b, ch_invocation_id b, ch_usage_event_id b, ch_org_id b, ch_principal_id b,
      ch_payer_address b, ch_capability b, ch_billing_method b, ch_amount_usdc b)"

definition billing_charges_guard :: "charge_row \<Rightarrow> charge_row \<Rightarrow> bool" where
  "billing_charges_guard old new \<longleftrightarrow>
     same_charge_identity old new \<and>
     ((ch_status old = ChargeFailed \<and> ch_status new = ChargeSettled) \<or>
      (ch_status old = ChargeSettled \<and> ch_status new = ChargeReverted \<and>
       ch_settled_amount_usdc new = ch_settled_amount_usdc old \<and>
       ch_settlement_tx new = ch_settlement_tx old))"

definition charges_evolve :: "charge_row list \<Rightarrow> charge_row list \<Rightarrow> bool" where
  "charges_evolve old new \<longleftrightarrow>
     (\<exists>upd ext. new = upd @ ext \<and> list_all2 (\<lambda>a b. b = a \<or> billing_charges_guard a b) old upd)"

section \<open>Lemmas\<close>

lemma author_share_bounds:
  assumes "0 \<le> cost" and "0 \<le> marketplace_default_revenue_share_bps st"
    "marketplace_default_revenue_share_bps st \<le> 10000"
  shows "0 \<le> author_share st cost \<and> author_share st cost \<le> cost"
proof
  let ?b = "marketplace_default_revenue_share_bps st"
  show "0 \<le> author_share st cost" using assms by (simp add: author_share_def pos_imp_zdiv_nonneg_iff)
  have "cost * ?b \<le> cost * 10000" using assms by (simp add: mult_left_mono)
  then have "cost * ?b div 10000 \<le> cost * 10000 div 10000" by (rule zdiv_mono1) simp
  then show "author_share st cost \<le> cost" by (simp add: author_share_def)
qed

lemma insert_earning_InrD:
  "insert_earning r d = Inr d' \<Longrightarrow> d' = d\<lparr>tool_author_earnings := tool_author_earnings d @ [r]\<rparr> \<and>
     ea_id r \<notin> ea_id ` set (tool_author_earnings d) \<and> 0 \<le> ea_author_share_usdc r \<and>
     orgs d (ea_org_id r) \<noteq> None"
  by (auto simp: insert_earning_def split: if_splits)

lemma insert_tool_call_earnings_InrD:
  assumes "insert_tool_call_earnings st now i author tool caller cost d = Inr (ok, d')"
  shows "\<exists>new. d' = d\<lparr>tool_author_earnings := tool_author_earnings d @ new\<rparr> \<and>
    (\<forall>e \<in> set new. ea_id e = i \<and> i \<notin> ea_id ` set (tool_author_earnings d) \<and>
       ea_status e = EarningPending \<and> ea_withdrawal_id e = None \<and> 0 \<le> ea_author_share_usdc e) \<and> length new \<le> 1"
proof (cases "author = caller \<or> cost \<le> 0")
  case True
  with assms have "d' = d" by (auto simp: insert_tool_call_earnings_def)
  then show ?thesis by (intro exI [of _ "[]"]) simp
next
  case False
  with assms obtain r where "insert_earning r d = Inr d'" "ea_id r = i" "ea_status r = EarningPending"
    "ea_withdrawal_id r = None"
    by (auto simp: insert_tool_call_earnings_def Let_def bindE_eq_Inr_iff)
  then show ?thesis using insert_earning_InrD by (intro exI [of _ "[r]"]) fastforce
qed

lemma sum_where_groups:
  "distinct ts \<Longrightarrow> sum_list (map (\<lambda>t. sum_where (\<lambda>e. p e \<and> k e = t) f rows) ts) =
     sum_where (\<lambda>e. p e \<and> k e \<in> set ts) f rows"
proof (induction ts)
  case Nil
  then show ?case by (simp add: sum_where_none)
next
  case (Cons t ts)
  have "sum_where (\<lambda>e. p e \<and> k e \<in> set (t # ts)) f rows =
      sum_where (\<lambda>e. (p e \<and> k e \<in> set (t # ts)) \<and> k e = t) f rows +
      sum_where (\<lambda>e. (p e \<and> k e \<in> set (t # ts)) \<and> k e \<noteq> t) f rows"
    by (rule sum_where_split)
  also have "sum_where (\<lambda>e. (p e \<and> k e \<in> set (t # ts)) \<and> k e = t) f rows =
      sum_where (\<lambda>e. p e \<and> k e = t) f rows" by (rule sum_where_cong) auto
  also have "sum_where (\<lambda>e. (p e \<and> k e \<in> set (t # ts)) \<and> k e \<noteq> t) f rows =
      sum_where (\<lambda>e. p e \<and> k e \<in> set ts) f rows"
    using Cons.prems by (intro sum_where_cong) auto
  finally show ?case using Cons by simp
qed

lemma sum_where_rows_where: "sum_where p f (rows_where q rows) = sum_where (\<lambda>e. p e \<and> q e) f rows"
  by (induction rows) (auto simp: rows_where_def)

lemma sum_list_map_sort_key:
  fixes g :: "'a \<Rightarrow> int"
  shows "sum_list (map g (sort_key k xs)) = sum_list (map g xs)"
proof -
  have "mset (map g (sort_key k xs)) = mset (map g xs)" by simp
  then show ?thesis by (metis sum_mset_sum_list)
qed

lemma update_where_guarded:
  assumes "\<And>c. c \<in> set rows \<Longrightarrow> p c \<Longrightarrow> billing_charges_guard c (f c)"
  shows "charges_evolve rows (update_where p f rows)"
proof -
  have "list_all2 (\<lambda>a b. b = a \<or> billing_charges_guard a b) rows (update_where p f rows)"
    using assms by (auto simp: list_all2_conv_all_nth update_where_def)
  then show ?thesis unfolding charges_evolve_def by (metis append_Nil2)
qed

lemma charges_evolve_refl: "charges_evolve rows rows"
  unfolding charges_evolve_def by (intro exI [of _ rows] exI [of _ "[]"]) (simp add: list_all2_refl)

lemma charges_evolve_append: "charges_evolve rows (rows @ ext)"
  unfolding charges_evolve_def by (intro exI [of _ rows] exI [of _ ext]) (simp add: list_all2_refl)

section \<open>Properties\<close>

text \<open>
  C11. A recorded tool call is split without loss: the new earnings row is pending, unclaimed, and its
  two shares add up to the call's cost; the author's share is the revenue share rounded down to the
  atomic unit, exactly that share is added to the author's balance, and no other author's balance
  moves. Self-calls and free calls record nothing.
\<close>

theorem earnings_split_exact:
  assumes "insert_tool_call_earnings st now i author tool caller cost d = Inr (ok, d')"
  shows "ok = (author \<noteq> caller \<and> 0 < cost) \<and>
    (if ok then \<exists>e. tool_author_earnings d' = tool_author_earnings d @ [e] \<and>
        ea_status e = EarningPending \<and> ea_withdrawal_id e = None \<and> ea_org_id e = author \<and>
        ea_author_share_usdc e + ea_platform_share_usdc e = cost \<and>
        ea_author_share_usdc e * 10000 \<le> cost * marketplace_default_revenue_share_bps st \<and>
        cost * marketplace_default_revenue_share_bps st < (ea_author_share_usdc e + 1) * 10000 \<and>
        (\<forall>org. get_author_balance org d' =
           get_author_balance org d + (if org = author then ea_author_share_usdc e else 0))
     else d' = d)"
proof (cases "author = caller \<or> cost \<le> 0")
  case True
  with assms show ?thesis by (auto simp: insert_tool_call_earnings_def)
next
  case False
  let ?s = "author_share st cost" and ?b = "marketplace_default_revenue_share_bps st"
  let ?e = "\<lparr>ea_id = i, ea_org_id = author, ea_tool_name = tool, ea_caller_org_id = caller,
    ea_amount_usdc = cost, ea_author_share_usdc = ?s, ea_platform_share_usdc = cost - ?s,
    ea_status = EarningPending, ea_withdrawal_id = None, ea_created_at = now\<rparr>"
  from False assms have ok: ok and "insert_earning ?e d = Inr d'"
    by (auto simp: insert_tool_call_earnings_def Let_def bindE_eq_Inr_iff)
  then have d': "d' = d\<lparr>tool_author_earnings := tool_author_earnings d @ [?e]\<rparr>"
    using insert_earning_InrD by blast
  have "?s * 10000 \<le> cost * ?b" "cost * ?b < (?s + 1) * 10000"
    unfolding author_share_def by simp_all
  with ok d' False show ?thesis by (auto simp: get_author_balance_def)
qed

theorem earnings_split_exact_witness:
  "\<exists>d'. insert_tool_call_earnings default_settings 7 ''e1'' ''acme'' ''quote'' ''other'' 15 demo_db = Inr (True, d') \<and>
     get_author_balance ''acme'' d' = 10"
proof -
  obtain d' where run:
    "insert_tool_call_earnings default_settings 7 ''e1'' ''acme'' ''quote'' ''other'' 15 demo_db = Inr (True, d')"
    by (simp add: insert_tool_call_earnings_def insert_earning_def author_share_def bigint_def
        default_settings_def demo_simps Let_def)
  obtain e where "tool_author_earnings d' = tool_author_earnings demo_db @ [e]"
      "get_author_balance ''acme'' d' = get_author_balance ''acme'' demo_db + ea_author_share_usdc e"
      "ea_author_share_usdc e * 10000 \<le> 15 * 7000" "15 * 7000 < (ea_author_share_usdc e + 1) * 10000"
    using earnings_split_exact [OF run] by (auto simp: default_settings_def)
  moreover have "get_author_balance ''acme'' demo_db = 0" by (simp add: get_author_balance_def demo_simps)
  ultimately show ?thesis using run by simp
qed

text \<open>
  The per-tool breakdown is complete: the pending shares of all tools of an author add up to the
  author's withdrawable balance.
\<close>

theorem earnings_by_tool_total:
  "sum_list (map bt_pending_author_share_usdc (get_author_earnings_by_tool collate org d)) =
   get_author_balance org d"
proof -
  let ?rows = "rows_where (\<lambda>e. ea_org_id e = org) (tool_author_earnings d)"
  let ?ts = "remdups (map ea_tool_name ?rows)"
  have "sum_list (map bt_pending_author_share_usdc (get_author_earnings_by_tool collate org d)) =
      sum_list (map bt_pending_author_share_usdc (map (aggregate_tool ?rows) ?ts))"
    by (simp only: get_author_earnings_by_tool_def Let_def sum_list_map_sort_key)
  also have "map bt_pending_author_share_usdc (map (aggregate_tool ?rows) ?ts) =
      map (\<lambda>t. sum_where (\<lambda>e. ea_status e = EarningPending \<and> ea_tool_name e = t) ea_author_share_usdc ?rows) ?ts"
    by (simp add: aggregate_tool_def Let_def sum_where_rows_where)
  also have "sum_list \<dots> = sum_where (\<lambda>e. ea_status e = EarningPending \<and> ea_tool_name e \<in> set ?ts)
      ea_author_share_usdc ?rows"
    by (rule sum_where_groups) simp
  also have "\<dots> = sum_where (\<lambda>e. ea_status e = EarningPending) ea_author_share_usdc ?rows"
    by (rule sum_where_cong) auto
  also have "\<dots> = get_author_balance org d"
    unfolding get_author_balance_def sum_where_rows_where by (rule sum_where_cong) auto
  finally show ?thesis .
qed

text \<open>
  The services respect the charge ledger's guard: recording, settling and reverting charges
  changes existing rows only in ways that the trigger \<^verbatim>\<open>billing_charges_guard\<close> accepts (identity
  fixed, \<open>failed\<close> to \<open>settled\<close>, or \<open>settled\<close> to \<open>reverted\<close> with the amount and transaction kept), so the
  trigger never rejects one of their updates.
\<close>

theorem charge_updates_guarded:
  "charges_evolve (billing_charges d) (billing_charges (snd (record_charge uuid5 source invocation method amount stat
      settled tx org prin payer cap ue d))) \<and>
   (\<forall>d'. mark_charge_settled cid n d = Inr d' \<longrightarrow> charges_evolve (billing_charges d) (billing_charges d')) \<and>
   charges_evolve (billing_charges d) (billing_charges (mark_charge_reverted ue' tx' d))"
proof (intro conjI allI impI)
  show "charges_evolve (billing_charges d) (billing_charges (snd (record_charge uuid5 source invocation method amount
      stat settled tx org prin payer cap ue d)))"
    by (auto simp: record_charge_def Let_def insert_charge_def charges_evolve_refl charges_evolve_append
        split: sum.splits if_splits)
  show "charges_evolve (billing_charges d) (billing_charges d')" if "mark_charge_settled cid n d = Inr d'" for d'
    using that by (auto simp: mark_charge_settled_def billing_charges_guard_def same_charge_identity_def
        split: if_splits intro!: update_where_guarded)
  show "charges_evolve (billing_charges d) (billing_charges (mark_charge_reverted ue' tx' d))"
    by (auto simp: mark_charge_reverted_def billing_charges_guard_def same_charge_identity_def
        charges_evolve_refl intro!: update_where_guarded)
qed

theorem charge_updates_guarded_witness:
  "charges_evolve [] (billing_charges (snd (record_charge (\<lambda>s. s) ''api'' ''run1'' ''credit'' 5 ChargeFailed 0 []
     ''acme'' [] [] [] [] empty_db)))"
  using charge_updates_guarded [of empty_db "\<lambda>s. s" "''api''" "''run1''" "''credit''" 5 ChargeFailed 0 "[]"
      "''acme''" "[]" "[]" "[]" "[]" "''c''" 5 "''u''" "''t''"]
  by (simp add: empty_db_def)

end
