(* ===== verification/Settlement.thy ===== *)
theory Settlement
  imports Earnings "HOL-Library.Char_ord" "HOL-Library.List_Lexorder" "HOL-Library.Product_Lexorder"
begin

text \<open>
  The settlement retry queue (\<^verbatim>\<open>billing/settlement.py\<close>): failed credit charges are queued, claimed
  under a five-minute lease, settled together with the author earnings they carry, retried with
  exponential backoff and exhausted after their retry budget; a top-up re-arms exhausted ones.

  \<^verbatim>\<open>NOW()\<close> may move while the worker walks its batch, so the worker takes a clock (one reading per
  statement group) and a supply of fresh identifiers; \<open>exc_str\<close> renders an exception as Python's
  \<^verbatim>\<open>str(exc)\<close> does.
\<close>

section \<open>Settling one claimed row\<close>

definition decode_earnings_allocations :: "stored_allocations \<Rightarrow> py_error + allocation_item list" where
  "decode_earnings_allocations raw =
    (case raw of
       UnreadableAllocations \<Rightarrow> Inl (ValueError ''earnings_allocations must be a JSON array'')
     | StoredAllocations items \<Rightarrow> Inr (filter (\<lambda>x. x \<noteq> NotAnObject) items))"

fun pay_allocations ::
  "settings \<Rightarrow> instant \<Rightarrow> (nat \<Rightarrow> ident) \<Rightarrow> nat \<Rightarrow> allocation_item list \<Rightarrow> db \<Rightarrow> db" where
  "pay_allocations st now fresh k [] d = d"
| "pay_allocations st now fresh k (Allocation author tool caller cost # items) d =
     (case insert_tool_call_earnings st now (fresh k) author tool caller cost d of
        Inl _ \<Rightarrow> pay_allocations st now fresh (Suc k) items d
      | Inr (_, d') \<Rightarrow> pay_allocations st now fresh (Suc k) items d')"
| "pay_allocations st now fresh k (_ # items) d = pay_allocations st now fresh (Suc k) items d"

definition holds_lease :: "instant \<Rightarrow> settlement_row \<Rightarrow> settlement_row \<Rightarrow> bool" where
  "holds_lease now row s \<longleftrightarrow>
     ps_id s = ps_id row \<and> ps_status s = Retrying \<and> ps_next_retry_at s = ps_next_retry_at row \<and>
     now < ps_next_retry_at s"

definition finalize_settlement :: "settlement_row \<Rightarrow> int \<Rightarrow> usdc \<Rightarrow> db \<Rightarrow> db" where
  "finalize_settlement row retry settled d =
     d\<lparr>pending_settlements := update_where
         (\<lambda>s. ps_id s = ps_id row \<and> ps_status s = Retrying \<and> ps_next_retry_at s = ps_next_retry_at row)
         (\<lambda>s. s\<lparr>ps_status := SettlementSettled, ps_retry_count := retry, ps_last_error := []\<rparr>)
         (pending_settlements d),
       usage_events := update_where
         (\<lambda>u. ue_id u = ps_usage_event_id row \<and> ue_settlement_status u \<noteq> ''settled'')
         (\<lambda>u. u\<lparr>ue_cost_usdc := settled, ue_settlement_tx := [], ue_settlement_status := ''settled''\<rparr>)
         (usage_events d)\<rparr>"

definition settle_claimed_credit_tx ::
  "settings \<Rightarrow> instant \<Rightarrow> (nat \<Rightarrow> ident) \<Rightarrow> settlement_row \<Rightarrow> int \<Rightarrow> db \<Rightarrow> py_error + ((bool \<times> usdc) \<times> db)" where
  "settle_claimed_credit_tx st now fresh row retry d =
    (if \<not> exists_where (holds_lease now row) (pending_settlements d) then Inl SettlementClaimLostError
     else
       bindE (debit_credit_locked st now (fresh 0) (ps_org_id row) (ps_amount_usdc row)
           (''run:'' @ ps_run_id row) (ps_principal_id row) d) (\<lambda>((success, settled, _), d1).
         if \<not> success then Inr ((False, 0), d1)
         else
           (let items = (case decode_earnings_allocations (ps_earnings_allocations row) of
                Inl _ \<Rightarrow> [] | Inr xs \<Rightarrow> xs);
              d2 = pay_allocations st now fresh 1 items d1;
              d3 = finalize_settlement row retry settled d2
            in bindE (if ps_charge_id row \<noteq> [] then mark_charge_settled (ps_charge_id row) settled d3 else Inr d3)
                 (\<lambda>d4. Inr ((True, settled), invalidate_daily_spend_cache (ps_org_id row) d4)))))"

definition settle_claimed_credit ::
  "settings \<Rightarrow> instant \<Rightarrow> (nat \<Rightarrow> ident) \<Rightarrow> settlement_row \<Rightarrow> int \<Rightarrow> db \<Rightarrow> (py_error + (bool \<times> usdc)) \<times> db" where
  "settle_claimed_credit st now fresh row retry = transaction (settle_claimed_credit_tx st now fresh row retry)"

section \<open>The queue\<close>

definition enqueue_failed_settlement ::
  "settings \<Rightarrow> instant \<Rightarrow> ident \<Rightarrow> ident \<Rightarrow> ident \<Rightarrow> ident \<Rightarrow> billing_method \<Rightarrow> usdc \<Rightarrow> string option \<Rightarrow>
   ident option \<Rightarrow> ident \<Rightarrow> allocation_item list \<Rightarrow> db \<Rightarrow> db" where
  "enqueue_failed_settlement st now i usage_event_id org run_id method amount payload p charge_id allocations d =
    (if amount \<le> 0 then d
     else if \<not> bigint amount \<or> exists_where (\<lambda>s. ps_id s = i) (pending_settlements d) then d
     else d\<lparr>pending_settlements := pending_settlements d @
       [\<lparr>ps_id = i, ps_usage_event_id = usage_event_id, ps_org_id = org, ps_run_id = run_id,
         ps_billing_method = method, ps_amount_usdc = amount, ps_payment_payload = payload,
         ps_principal_id = p, ps_retry_count = 0, ps_max_retries = settlement_max_retries st,
         ps_next_retry_at = now + seconds 2, ps_last_error = [], ps_status = SettlementPending,
         ps_charge_id = charge_id, ps_earnings_allocations = StoredAllocations allocations,
         ps_created_at = now\<rparr>]\<rparr>)"

definition is_due :: "instant \<Rightarrow> settlement_row \<Rightarrow> bool" where
  "is_due now s \<longleftrightarrow> ps_status s \<in> {SettlementPending, Retrying} \<and> ps_next_retry_at s \<le> now"

definition claim_row :: "instant \<Rightarrow> settlement_row \<Rightarrow> settlement_row" where
  "claim_row now s = s\<lparr>ps_status := Retrying, ps_next_retry_at := now + seconds 300\<rparr>"

definition claim_due_settlements :: "instant \<Rightarrow> db \<Rightarrow> settlement_row list \<times> db" where
  "claim_due_settlements now d =
    (let candidates = take 20 (sort_key ps_next_retry_at (rows_where (is_due now) (pending_settlements d)))
     in (map (claim_row now) candidates,
         d\<lparr>pending_settlements := update_where (\<lambda>s. ps_id s \<in> ps_id ` set candidates) (claim_row now)
             (pending_settlements d)\<rparr>))"

definition backoff_seconds :: "int \<Rightarrow> int" where
  "backoff_seconds retry = min (2 ^ nat retry) 300"

definition leased_update ::
  "settlement_row \<Rightarrow> (settlement_row \<Rightarrow> settlement_row) \<Rightarrow> db \<Rightarrow> db" where
  "leased_update row f d =
     d\<lparr>pending_settlements := update_where
       (\<lambda>s. ps_id s = ps_id row \<and> ps_status s = Retrying \<and> ps_next_retry_at s = ps_next_retry_at row) f
       (pending_settlements d)\<rparr>"

definition record_failed_attempt :: "instant \<Rightarrow> settlement_row \<Rightarrow> int \<Rightarrow> string \<Rightarrow> db \<Rightarrow> db" where
  "record_failed_attempt now row retry msg d =
    (if ps_max_retries row \<le> retry
     then leased_update row (\<lambda>s. s\<lparr>ps_status := SettlementExhausted, ps_retry_count := retry,
       ps_last_error := msg\<rparr>) d
     else leased_update row (\<lambda>s. s\<lparr>ps_status := Retrying, ps_retry_count := retry, ps_last_error := msg,
       ps_next_retry_at := now + seconds (backoff_seconds retry)\<rparr>) d)"

definition process_claimed_settlement ::
  "settings \<Rightarrow> (py_error \<Rightarrow> string) \<Rightarrow> instant \<Rightarrow> (nat \<Rightarrow> ident) \<Rightarrow> settlement_row \<Rightarrow> db \<Rightarrow> nat \<times> db" where
  "process_claimed_settlement st exc_str now fresh row d =
    (let retry = ps_retry_count row + 1 in
     case ps_billing_method row of
       CreditMethod \<Rightarrow>
         (case settle_claimed_credit st now fresh row retry d of
            (Inl SettlementClaimLostError, d') \<Rightarrow> (0, d')
          | (Inl e, d') \<Rightarrow> (0, record_failed_attempt now row retry (exc_str e) d')
          | (Inr (True, _), d') \<Rightarrow> (1, d')
          | (Inr (False, _), d') \<Rightarrow>
              (0, record_failed_attempt now row retry ''debit_credit returned False'' d'))
     | X402Method \<Rightarrow>
         (0, record_failed_attempt now row (ps_max_retries row)
               ''x402 settlements cannot be retried after initial failure'' d))"

fun process_claimed_settlements ::
  "settings \<Rightarrow> (py_error \<Rightarrow> string) \<Rightarrow> (nat \<Rightarrow> instant) \<Rightarrow> (nat \<Rightarrow> nat \<Rightarrow> ident) \<Rightarrow> nat \<Rightarrow>
   settlement_row list \<Rightarrow> db \<Rightarrow> nat \<times> db" where
  "process_claimed_settlements st exc_str clock fresh k [] d = (0, d)"
| "process_claimed_settlements st exc_str clock fresh k (row # rows) d =
     (let (n, d') = process_claimed_settlement st exc_str (clock k) (fresh k) row d;
          (m, d'') = process_claimed_settlements st exc_str clock fresh (Suc k) rows d'
      in (n + m, d''))"

definition process_pending_settlements ::
  "settings \<Rightarrow> (py_error \<Rightarrow> string) \<Rightarrow> (nat \<Rightarrow> instant) \<Rightarrow> (nat \<Rightarrow> nat \<Rightarrow> ident) \<Rightarrow> db \<Rightarrow> nat \<times> db" where
  "process_pending_settlements st exc_str clock fresh d =
    (let (rows, d') = claim_due_settlements (clock 0) d
     in process_claimed_settlements st exc_str clock fresh 1 rows d')"

definition get_pending_settlements :: "settlement_status option \<Rightarrow> nat \<Rightarrow> db \<Rightarrow> settlement_row list" where
  "get_pending_settlements stat limit d =
     take limit (sort_key (\<lambda>s. - ps_created_at s)
       (rows_where (\<lambda>s. case stat of None \<Rightarrow> True | Some x \<Rightarrow> ps_status s = x) (pending_settlements d)))"

definition rearm_row :: "instant \<Rightarrow> settlement_row \<Rightarrow> settlement_row" where
  "rearm_row now s = s\<lparr>ps_status := SettlementPending, ps_retry_count := 0, ps_next_retry_at := now\<rparr>"

text \<open>\<open>Some True\<close>: reset; \<open>Some False\<close>: no such exhausted row; \<open>None\<close>: an x402 row, which cannot be reset.\<close>

definition reset_exhausted_settlement :: "instant \<Rightarrow> ident \<Rightarrow> db \<Rightarrow> bool option \<times> db" where
  "reset_exhausted_settlement now i d =
    (case find (\<lambda>s. ps_id s = i \<and> ps_status s = SettlementExhausted) (pending_settlements d) of
       None \<Rightarrow> (Some False, d)
     | Some s \<Rightarrow>
         if ps_billing_method s = X402Method then (None, d)
         else (Some (length (rows_where (\<lambda>s. ps_id s = i \<and> ps_status s = SettlementExhausted)
                 (pending_settlements d)) = 1),
               d\<lparr>pending_settlements := update_where (\<lambda>s. ps_id s = i \<and> ps_status s = SettlementExhausted)
                   (rearm_row now) (pending_settlements d)\<rparr>))"

fun within_running_total :: "usdc \<Rightarrow> usdc \<Rightarrow> settlement_row list \<Rightarrow> settlement_row list" where
  "within_running_total cap acc [] = []"
| "within_running_total cap acc (s # rows) =
     (if acc + ps_amount_usdc s \<le> cap then [s] else []) @
     within_running_total cap (acc + ps_amount_usdc s) rows"

definition is_rearmable :: "instant \<Rightarrow> ident \<Rightarrow> settlement_row \<Rightarrow> bool" where
  "is_rearmable now org s \<longleftrightarrow>
     ps_org_id s = org \<and> ps_status s = SettlementExhausted \<and> ps_billing_method s = CreditMethod \<and>
     now - days 7 \<le> ps_created_at s"

definition rearm_candidates :: "instant \<Rightarrow> ident \<Rightarrow> usdc \<Rightarrow> db \<Rightarrow> settlement_row list" where
  "rearm_candidates now org cap d =
     within_running_total cap 0 (sort_key (\<lambda>s. (ps_created_at s, ps_id s))
       (rows_where (is_rearmable now org) (pending_settlements d)))"

definition rearm_exhausted_credit_settlements :: "instant \<Rightarrow> ident \<Rightarrow> usdc \<Rightarrow> db \<Rightarrow> nat \<times> db" where
  "rearm_exhausted_credit_settlements now org cap d =
    (if org = [] \<or> cap \<le> 0 then (0, d)
     else
       (let chosen = ps_id ` set (rearm_candidates now org cap d);
            hit = (\<lambda>s. ps_id s \<in> chosen \<and> ps_status s = SettlementExhausted)
        in (length (rows_where hit (pending_settlements d)),
            d\<lparr>pending_settlements := update_where hit (rearm_row now) (pending_settlements d)\<rparr>)))"

section \<open>Settling is exactly once\<close>

lemma pay_allocations_earnings:
  "\<exists>new. pay_allocations st now fresh k items d = d\<lparr>tool_author_earnings := tool_author_earnings d @ new\<rparr>"
proof (induction st now fresh k items d rule: pay_allocations.induct)
  case (2 st now fresh k author tool caller cost items d)
  show ?case
  proof (cases "insert_tool_call_earnings st now (fresh k) author tool caller cost d")
    case (Inl e)
    then show ?thesis using 2(1) by simp
  next
    case (Inr r)
    then obtain ok d' where r: "insert_tool_call_earnings st now (fresh k) author tool caller cost d = Inr (ok, d')"
      by (cases r) auto
    then obtain new where "d' = d\<lparr>tool_author_earnings := tool_author_earnings d @ new\<rparr>"
      using insert_tool_call_earnings_InrD by blast
    with 2(2) [OF r] r show ?thesis by fastforce
  qed
qed (auto intro: exI [of _ "[]"])

lemma pay_allocations_frame [simp]:
  "org_credit_ledger (pay_allocations st now fresh k items d) = org_credit_ledger d"
  "org_credits (pay_allocations st now fresh k items d) = org_credits d"
  "orgs (pay_allocations st now fresh k items d) = orgs d"
  "pending_settlements (pay_allocations st now fresh k items d) = pending_settlements d"
  "billing_charges (pay_allocations st now fresh k items d) = billing_charges d"
  "usage_events (pay_allocations st now fresh k items d) = usage_events d"
  "a2a_delegation_refund_outbox (pay_allocations st now fresh k items d) = a2a_delegation_refund_outbox d"
  "audited (pay_allocations st now fresh k items d) = audited d"
  using pay_allocations_earnings [of st now fresh k items d] by auto

lemma mark_charge_settled_frame:
  assumes "mark_charge_settled cid n d = Inr d'"
  shows "org_credit_ledger d' = org_credit_ledger d" "org_credits d' = org_credits d"
    "pending_settlements d' = pending_settlements d" "audited d' = audited d"
    "a2a_delegation_refund_outbox d' = a2a_delegation_refund_outbox d"
  using assms by (auto simp: mark_charge_settled_def split: if_splits)

text \<open>A committed settlement is a successful debit plus the row's move to \<^verbatim>\<open>settled\<close>.\<close>

lemma settle_tx_success:
  assumes "settle_claimed_credit_tx st now fresh row retry d = Inr ((True, a), d')"
  obtains d1 where
    "exists_where (holds_lease now row) (pending_settlements d)"
    "debit_credit_locked st now (fresh 0) (ps_org_id row) (ps_amount_usdc row) (''run:'' @ ps_run_id row)
       (ps_principal_id row) d = Inr ((True, a, Some (fresh 0)), d1)"
    "a = ps_amount_usdc row"
    "org_credit_ledger d' = org_credit_ledger d1" "org_credits d' = org_credits d1"
    "a2a_delegation_refund_outbox d' = a2a_delegation_refund_outbox d1"
    "audited d' = audited d1"
    "pending_settlements d' = pending_settlements (finalize_settlement row retry a d1)"
proof -
  have lease: "exists_where (holds_lease now row) (pending_settlements d)"
    using assms by (auto simp: settle_claimed_credit_tx_def split: if_splits)
  then obtain l d1 where debit: "debit_credit_locked st now (fresh 0) (ps_org_id row) (ps_amount_usdc row)
      (''run:'' @ ps_run_id row) (ps_principal_id row) d = Inr ((True, a, l), d1)"
    and rest: "bindE (if ps_charge_id row \<noteq> [] then mark_charge_settled (ps_charge_id row) a
        (finalize_settlement row retry a (pay_allocations st now fresh 1
          (case decode_earnings_allocations (ps_earnings_allocations row) of Inl _ \<Rightarrow> [] | Inr xs \<Rightarrow> xs) d1))
        else Inr (finalize_settlement row retry a (pay_allocations st now fresh 1
          (case decode_earnings_allocations (ps_earnings_allocations row) of Inl _ \<Rightarrow> [] | Inr xs \<Rightarrow> xs) d1)))
      (\<lambda>d4. Inr ((True, a), invalidate_daily_spend_cache (ps_org_id row) d4)) = Inr ((True, a), d')"
    using assms
    by (auto simp: settle_claimed_credit_tx_def Let_def bindE_eq_Inr_iff split: if_splits prod.splits)
  have "a = ps_amount_usdc row" "l = Some (fresh 0)" using debit by (auto elim: debit_locked_success)
  moreover from rest obtain items d4 where
    "d' = invalidate_daily_spend_cache (ps_org_id row) d4"
    and d4: "d4 = finalize_settlement row retry a (pay_allocations st now fresh 1 items d1) \<or>
      mark_charge_settled (ps_charge_id row) a
        (finalize_settlement row retry a (pay_allocations st now fresh 1 items d1)) = Inr d4"
    by (auto simp: bindE_eq_Inr_iff split: if_splits)
  moreover from d4 have "org_credit_ledger d4 = org_credit_ledger d1" "org_credits d4 = org_credits d1"
      "a2a_delegation_refund_outbox d4 = a2a_delegation_refund_outbox d1" "audited d4 = audited d1"
      "pending_settlements d4 = pending_settlements (finalize_settlement row retry a d1)"
    by (auto simp: mark_charge_settled_frame finalize_settlement_def)
  ultimately show ?thesis
    using that [OF lease, of d1] debit by simp
qed

lemma settle_tx_refused:
  assumes "settle_claimed_credit_tx st now fresh row retry d = Inr ((False, a), d')"
  shows "d' = d \<and> a = 0"
  using assms debit_locked_refused
  by (fastforce simp: settle_claimed_credit_tx_def Let_def bindE_eq_Inr_iff split: if_splits prod.splits)

lemma debit_locked_pending:
  assumes "debit_credit_locked st now i org amount reason p d = Inr ((ok, a, l), d')"
  shows "pending_settlements d' = pending_settlements d \<and>
    a2a_delegation_refund_outbox d' = a2a_delegation_refund_outbox d"
proof (cases ok)
  case False
  with assms show ?thesis using debit_locked_refused by fastforce
next
  case True
  with assms show ?thesis by (auto elim!: debit_locked_success dest!: insert_ledger_InrD(1))
qed

lemma finalize_settlement_no_lease:
  "\<not> exists_where (holds_lease now row) (pending_settlements (finalize_settlement row retry a d))"
  by (auto simp: finalize_settlement_def holds_lease_def elim!: in_update_whereE)

lemma settle_tx_posting:
  assumes "settle_claimed_credit_tx st now fresh row retry d = Inr ((True, a), d')"
  shows "a = ps_amount_usdc row \<and>
    (\<forall>org. get_credit_balance org d' = get_credit_balance org d - (if org = ps_org_id row then a else 0)) \<and>
    org_credit_ledger d' = org_credit_ledger d @
      [debit_row (fresh 0) (ps_org_id row) a (get_credit_balance (ps_org_id row) d - a)
         (''run:'' @ ps_run_id row) (ps_principal_id row) now]"
proof -
  from assms obtain d1 where debit: "debit_credit_locked st now (fresh 0) (ps_org_id row) (ps_amount_usdc row)
        (''run:'' @ ps_run_id row) (ps_principal_id row) d = Inr ((True, a, Some (fresh 0)), d1)"
      and a: "a = ps_amount_usdc row"
      and d': "org_credit_ledger d' = org_credit_ledger d1" "org_credits d' = org_credits d1"
    by (rule settle_tx_success)
  from debit obtain c :: credit_row where c: "org_credits d (ps_org_id row) = Some c"
    and ins: "insert_ledger (debit_row (fresh 0) (ps_org_id row) (ps_amount_usdc row)
        (cr_balance_usdc c - ps_amount_usdc row) (''run:'' @ ps_run_id row) (ps_principal_id row) now)
      (d\<lparr>org_credits := (org_credits d)(ps_org_id row \<mapsto>
        c\<lparr>cr_balance_usdc := cr_balance_usdc c - ps_amount_usdc row\<rparr>)\<rparr>) = Inr d1"
    by (rule debit_locked_success)
  show ?thesis
    using a c d' insert_ledger_InrD(1) [OF ins] by (auto simp: get_credit_balance_def)
qed

lemma settle_claimed_credit_audited:
  assumes "audited d"
  shows "audited (snd (settle_claimed_credit st now fresh row retry d))"
proof (cases "settle_claimed_credit_tx st now fresh row retry d")
  case (Inl e)
  with assms show ?thesis by (simp add: settle_claimed_credit_def transaction_def)
next
  case (Inr r)
  then obtain ok a d' where r: "settle_claimed_credit_tx st now fresh row retry d = Inr ((ok, a), d')"
    by (cases r) auto
  have "audited d'"
  proof (cases ok)
    case True
    with r assms show ?thesis by (auto elim!: settle_tx_success dest: debit_locked_audited)
  next
    case False
    with r assms show ?thesis using settle_tx_refused by fastforce
  qed
  with r show ?thesis by (simp add: settle_claimed_credit_def transaction_def)
qed

lemma settle_claimed_credit_grows:
  "\<exists>new. org_credit_ledger (snd (settle_claimed_credit st now fresh row retry d)) = org_credit_ledger d @ new"
proof (cases "settle_claimed_credit_tx st now fresh row retry d")
  case (Inl e)
  then show ?thesis by (simp add: settle_claimed_credit_def transaction_def)
next
  case (Inr r)
  then obtain ok a d' where r: "settle_claimed_credit_tx st now fresh row retry d = Inr ((ok, a), d')"
    by (cases r) auto
  have "\<exists>new. org_credit_ledger d' = org_credit_ledger d @ new"
  proof (cases ok)
    case True
    with r show ?thesis by (auto elim!: settle_tx_success dest: debit_locked_grows)
  next
    case False
    with r show ?thesis using settle_tx_refused by fastforce
  qed
  with r show ?thesis by (simp add: settle_claimed_credit_def transaction_def)
qed

interpretation settle: audited_operation "\<lambda>d. snd (settle_claimed_credit st now fresh row retry d)"
  for st now fresh row retry
  by unfold_locales (simp_all add: settle_claimed_credit_audited settle_claimed_credit_grows)

section \<open>The queue only moves forward\<close>

definition same_obligation :: "settlement_row \<Rightarrow> settlement_row \<Rightarrow> bool" where
  "same_obligation a b \<longleftrightarrow>
     (ps_id a, ps_usage_event_id a, ps_org_id a, ps_run_id a, ps_billing_method a, ps_amount_usdc a,
      ps_principal_id a, ps_max_retries a, ps_charge_id a, ps_earnings_allocations a, ps_created_at a) =
     (ps_id b, ps_usage_event_id b, ps_org_id b, ps_run_id b, ps_billing_method b, ps_amount_usdc b,
      ps_principal_id b, ps_max_retries b, ps_charge_id b, ps_earnings_allocations b, ps_created_at b)"

definition row_evolves :: "settlement_row \<Rightarrow> settlement_row \<Rightarrow> bool" where
  "row_evolves a b \<longleftrightarrow> same_obligation a b \<and> (ps_status a = SettlementSettled \<longrightarrow> b = a)"

definition queue_evolves :: "settlement_row list \<Rightarrow> settlement_row list \<Rightarrow> bool" where
  "queue_evolves old new \<longleftrightarrow>
     (distinct (map ps_id old) \<longrightarrow>
       (\<exists>upd ext. new = upd @ ext \<and> list_all2 row_evolves old upd) \<and> distinct (map ps_id new))"

lemma row_evolves_refl [simp]: "row_evolves a a"
  by (simp add: row_evolves_def same_obligation_def)

lemma row_evolves_trans: "row_evolves a b \<Longrightarrow> row_evolves b c \<Longrightarrow> row_evolves a c"
  by (auto simp: row_evolves_def same_obligation_def)

lemma queue_evolves_extend:
  "(distinct (map ps_id q) \<Longrightarrow> distinct (map ps_id (q @ ext))) \<Longrightarrow> queue_evolves q (q @ ext)"
  unfolding queue_evolves_def by (metis list_all2_refl row_evolves_refl)

lemma queue_evolves_refl [simp]: "queue_evolves q q"
  using queue_evolves_extend [of q "[]"] by simp

lemma queue_evolves_trans:
  assumes "queue_evolves a b" and "queue_evolves b c"
  shows "queue_evolves a c"
proof (cases "distinct (map ps_id a)")
  case True
  with assms(1) obtain u e where b: "b = u @ e" and u: "list_all2 row_evolves a u"
    and d: "distinct (map ps_id b)"
    by (auto simp: queue_evolves_def)
  with assms(2) obtain u' e' where c: "c = u' @ e'" and "list_all2 row_evolves (u @ e) u'"
    and d': "distinct (map ps_id c)"
    by (auto simp: queue_evolves_def)
  then obtain v w where "u' = v @ w" and v: "list_all2 row_evolves u v"
    by (auto simp: list_all2_append1)
  moreover have "list_all2 row_evolves a v"
    by (rule list_all2_trans [OF _ u v]) (rule row_evolves_trans)
  ultimately show ?thesis using d' c by (auto simp: queue_evolves_def)
qed (simp add: queue_evolves_def)

lemma queue_evolves_update:
  assumes "\<And>s. distinct (map ps_id q) \<Longrightarrow> s \<in> set q \<Longrightarrow> p s \<Longrightarrow> row_evolves s (f s)"
  shows "queue_evolves q (update_where p f q)"
proof (cases "distinct (map ps_id q)")
  case True
  have "list_all2 row_evolves q (update_where p f q)"
    using assms [OF True] by (auto simp: list_all2_conv_all_nth update_where_def)
  moreover have "map ps_id (update_where p f q) = map ps_id q"
    using assms [OF True] by (intro map_update_where) (auto simp: row_evolves_def same_obligation_def)
  ultimately show ?thesis by (auto simp: queue_evolves_def)
qed (simp add: queue_evolves_def)

lemma queue_evolves_snoc: "ps_id r \<notin> ps_id ` set q \<Longrightarrow> queue_evolves q (q @ [r])"
  by (rule queue_evolves_extend) auto

lemma queue_evolves_in:
  assumes "queue_evolves q q'" and "distinct (map ps_id q)" and "s \<in> set q"
  obtains s' where "s' \<in> set q'" "row_evolves s s'"
proof -
  from assms(1,2) obtain u e where "q' = u @ e" "list_all2 row_evolves q u" by (auto simp: queue_evolves_def)
  moreover from assms(3) obtain i where "i < length q" "q ! i = s" by (auto simp: in_set_conv_nth)
  ultimately show ?thesis using that [of "u ! i"] by (auto simp: list_all2_conv_all_nth)
qed

text \<open>
  The contract of every operation on the queue: it keeps each obligation with its identity and
  amount, and a settled row is never touched again.
\<close>

locale queue_operation =
  fixes run :: "db \<Rightarrow> db"
  assumes evolves: "queue_evolves (pending_settlements d) (pending_settlements (run d))"
begin

lemma settled_final:
  assumes "distinct (map ps_id (pending_settlements d))"
    and "s \<in> set (pending_settlements d)" and "ps_status s = SettlementSettled"
  shows "s \<in> set (pending_settlements (run d))"
  using queue_evolves_in [OF evolves assms(1,2)] assms(3) by (metis row_evolves_def)

lemma obligation_kept:
  assumes "distinct (map ps_id (pending_settlements d))" and "s \<in> set (pending_settlements d)"
  shows "\<exists>s' \<in> set (pending_settlements (run d)). same_obligation s s'"
  using queue_evolves_in [OF evolves assms] by (metis row_evolves_def)

lemma ids_distinct:
  "distinct (map ps_id (pending_settlements d)) \<Longrightarrow> distinct (map ps_id (pending_settlements (run d)))"
  using evolves by (simp add: queue_evolves_def)

end

interpretation enqueue_q: queue_operation
  "\<lambda>d. enqueue_failed_settlement st now i ue org run_id meth amount payload p cid items d"
  for st now i ue org run_id meth amount payload p cid items
  by unfold_locales (auto simp: enqueue_failed_settlement_def intro!: queue_evolves_snoc)

lemma claim_row_evolves: "is_due t s \<Longrightarrow> row_evolves s (claim_row now s)"
  by (auto simp: is_due_def row_evolves_def claim_row_def same_obligation_def)

lemma set_take_sort_rows: "set (take n (sort_key k (rows_where p rows))) \<subseteq> {r \<in> set rows. p r}"
  by (auto dest: in_set_takeD)

interpretation claim_q: queue_operation "\<lambda>d. snd (claim_due_settlements now d)" for now
proof unfold_locales
  fix d
  show "queue_evolves (pending_settlements d) (pending_settlements (snd (claim_due_settlements now d)))"
    unfolding claim_due_settlements_def Let_def
    using set_take_sort_rows [of 20 ps_next_retry_at "is_due now" "pending_settlements d"]
    by (auto intro!: queue_evolves_update claim_row_evolves dest: distinct_key_eq)
qed

lemma leased_update_evolves:
  assumes "\<And>s. same_obligation s (f s)"
  shows "queue_evolves (pending_settlements d) (pending_settlements (leased_update row f d))"
  using assms by (auto simp: leased_update_def row_evolves_def intro!: queue_evolves_update)

lemma record_failed_attempt_evolves:
  "queue_evolves (pending_settlements d) (pending_settlements (record_failed_attempt now row retry msg d))"
  by (auto simp: record_failed_attempt_def same_obligation_def intro!: leased_update_evolves)

lemma settle_claimed_credit_evolves:
  "queue_evolves (pending_settlements d) (pending_settlements (snd (settle_claimed_credit st now fresh row retry d)))"
proof (cases "settle_claimed_credit_tx st now fresh row retry d")
  case (Inl e)
  then show ?thesis by (simp add: settle_claimed_credit_def transaction_def)
next
  case (Inr r)
  then obtain ok a d' where r: "settle_claimed_credit_tx st now fresh row retry d = Inr ((ok, a), d')"
    by (cases r) auto
  have "queue_evolves (pending_settlements d) (pending_settlements d')"
  proof (cases ok)
    case True
    with r obtain d1 where "pending_settlements d' = pending_settlements (finalize_settlement row retry a d1)"
      "pending_settlements d1 = pending_settlements d"
      by (auto elim!: settle_tx_success dest: debit_locked_pending)
    then show ?thesis
      by (auto simp: finalize_settlement_def row_evolves_def same_obligation_def intro!: queue_evolves_update)
  next
    case False
    with r show ?thesis using settle_tx_refused by fastforce
  qed
  with r show ?thesis by (simp add: settle_claimed_credit_def transaction_def)
qed

lemma process_claimed_settlement_cases:
  obtains (settle) "snd (process_claimed_settlement st exc_str now fresh row d) =
      snd (settle_claimed_credit st now fresh row (ps_retry_count row + 1) d)"
    | (failed) retry msg d1 where "snd (process_claimed_settlement st exc_str now fresh row d) =
        record_failed_attempt now row retry msg d1"
      "d1 = d \<or> d1 = snd (settle_claimed_credit st now fresh row (ps_retry_count row + 1) d)"
  by (cases "ps_billing_method row")
    (fastforce simp: process_claimed_settlement_def Let_def split: sum.splits prod.splits py_error.splits bool.splits)+

interpretation process_q: queue_operation
  "\<lambda>d. snd (process_claimed_settlement st exc_str now fresh row d)" for st exc_str now fresh row
proof unfold_locales
  fix d
  show "queue_evolves (pending_settlements d)
      (pending_settlements (snd (process_claimed_settlement st exc_str now fresh row d)))"
    by (rule process_claimed_settlement_cases [of st exc_str now fresh row d])
      (auto intro: settle_claimed_credit_evolves record_failed_attempt_evolves queue_evolves_trans)
qed

lemma rearm_row_evolves: "ps_status s = SettlementExhausted \<Longrightarrow> row_evolves s (rearm_row now s)"
  by (simp add: row_evolves_def rearm_row_def same_obligation_def)

interpretation reset_q: queue_operation "\<lambda>d. snd (reset_exhausted_settlement now i d)" for now i
  by unfold_locales
    (auto simp: reset_exhausted_settlement_def rearm_row_evolves split: option.splits intro!: queue_evolves_update)

interpretation rearm_q: queue_operation "\<lambda>d. snd (rearm_exhausted_credit_settlements now org cap d)"
  for now org cap
  by unfold_locales
    (auto simp: rearm_exhausted_credit_settlements_def Let_def rearm_row_evolves intro!: queue_evolves_update)

lemma debit_locked_not_lost:
  "debit_credit_locked st now i org amount reason p d \<noteq> Inl SettlementClaimLostError"
  by (auto simp: debit_credit_locked_def set_balance_def insert_ledger_def Let_def bindE_eq_Inl_iff
      split: option.splits prod.splits)

section \<open>The queue and the credit ledger\<close>

lemma record_failed_attempt_frame [simp]:
  "org_credit_ledger (record_failed_attempt now row retry msg d) = org_credit_ledger d"
  "org_credits (record_failed_attempt now row retry msg d) = org_credits d"
  "audited (record_failed_attempt now row retry msg d) = audited d"
  "a2a_delegation_refund_outbox (record_failed_attempt now row retry msg d) = a2a_delegation_refund_outbox d"
  by (simp_all add: record_failed_attempt_def leased_update_def)

interpretation process_op: audited_operation
  "\<lambda>d. snd (process_claimed_settlement st exc_str now fresh row d)" for st exc_str now fresh row
proof unfold_locales
  fix d
  show "audited (snd (process_claimed_settlement st exc_str now fresh row d))" if "audited d"
    by (rule process_claimed_settlement_cases [of st exc_str now fresh row d])
      (use that settle_claimed_credit_audited in auto)
  show "\<exists>new. org_credit_ledger (snd (process_claimed_settlement st exc_str now fresh row d)) =
      org_credit_ledger d @ new"
    by (rule process_claimed_settlement_cases [of st exc_str now fresh row d])
      (use settle_claimed_credit_grows in auto)
qed

interpretation enqueue_op: audited_operation
  "\<lambda>d. enqueue_failed_settlement st now i ue org run_id meth amount payload p cid items d"
  for st now i ue org run_id meth amount payload p cid items
  by unfold_locales (simp_all add: enqueue_failed_settlement_def)

interpretation claim_op: audited_operation "\<lambda>d. snd (claim_due_settlements now d)" for now
  by unfold_locales (simp_all add: claim_due_settlements_def Let_def)

interpretation reset_op: audited_operation "\<lambda>d. snd (reset_exhausted_settlement now i d)" for now i
  by unfold_locales (auto simp: reset_exhausted_settlement_def split: option.splits)

interpretation rearm_op: audited_operation "\<lambda>d. snd (rearm_exhausted_credit_settlements now org cap d)"
  for now org cap
  by unfold_locales (simp_all add: rearm_exhausted_credit_settlements_def Let_def)

lemma backoff_seconds_bounds: "1 \<le> backoff_seconds retry \<and> backoff_seconds retry \<le> 300"
  by (simp add: backoff_seconds_def)

lemma leased_update_hit:
  "row \<in> set (pending_settlements d) \<Longrightarrow> ps_status row = Retrying \<Longrightarrow>
   f row \<in> set (pending_settlements (leased_update row f d))"
  by (force simp: leased_update_def set_update_where)

text \<open>What a failed attempt leaves in the queue.\<close>

lemma record_failed_attempt_row:
  assumes "row \<in> set (pending_settlements d)" and "ps_status row = Retrying"
  shows "\<exists>s \<in> set (pending_settlements (record_failed_attempt now row retry msg d)).
    same_obligation row s \<and> ps_retry_count s = retry \<and>
    (if ps_retry_count s < ps_max_retries row
     then ps_status s = Retrying \<and> now < ps_next_retry_at s \<and> ps_next_retry_at s \<le> now + seconds 300
     else ps_status s = SettlementExhausted)"
proof (cases "ps_max_retries row \<le> retry")
  case True
  show ?thesis
    by (rule rev_bexI, simp only: record_failed_attempt_def True if_True, rule leased_update_hit [OF assms])
      (use True in \<open>simp add: same_obligation_def\<close>)
next
  case False
  show ?thesis
    by (rule rev_bexI, simp only: record_failed_attempt_def False if_False, rule leased_update_hit [OF assms])
      (use backoff_seconds_bounds [of retry] False in \<open>simp add: same_obligation_def seconds_def\<close>)
qed

lemma finalize_settlement_row:
  assumes "row \<in> set (pending_settlements d)" and "ps_status row = Retrying"
  shows "\<exists>s \<in> set (pending_settlements (finalize_settlement row retry a d)).
    same_obligation row s \<and> ps_status s = SettlementSettled \<and> ps_retry_count s = retry"
proof -
  have "row\<lparr>ps_status := SettlementSettled, ps_retry_count := retry, ps_last_error := []\<rparr> \<in>
      set (pending_settlements (finalize_settlement row retry a d))"
    using assms by (force simp: finalize_settlement_def set_update_where)
  then show ?thesis by (rule rev_bexI) (simp add: same_obligation_def)
qed

lemma settle_tx_row:
  assumes "settle_claimed_credit_tx st now fresh row retry d = Inr ((True, a), d')"
    and "row \<in> set (pending_settlements d)" and "ps_status row = Retrying"
  shows "\<exists>s \<in> set (pending_settlements d').
    same_obligation row s \<and> ps_status s = SettlementSettled \<and> ps_retry_count s = retry"
proof -
  from assms(1) obtain d1 where q: "pending_settlements d' = pending_settlements (finalize_settlement row retry a d1)"
    and d1: "pending_settlements d1 = pending_settlements d"
    by (auto elim!: settle_tx_success dest: debit_locked_pending)
  show ?thesis unfolding q by (rule finalize_settlement_row) (simp_all add: d1 assms)
qed

lemma settle_tx_raises:
  assumes "exists_where (holds_lease now row) (pending_settlements d)"
    and "settle_claimed_credit_tx st now fresh row retry d = Inl e"
  shows "e \<noteq> SettlementClaimLostError"
  using assms debit_locked_not_lost
  by (auto simp: settle_claimed_credit_tx_def Let_def mark_charge_settled_def bindE_eq_Inl_iff
      simp del: exists_where_iff split: if_splits prod.splits)

section \<open>Re-arming\<close>

definition settlement_total :: "settlement_row list \<Rightarrow> usdc" where
  "settlement_total rows = sum_list (map ps_amount_usdc rows)"

lemma settlement_total_Cons [simp]: "settlement_total (s # rows) = ps_amount_usdc s + settlement_total rows"
  and settlement_total_Nil [simp]: "settlement_total [] = 0"
  by (simp_all add: settlement_total_def)

lemma within_running_total_prefix:
  assumes "\<forall>s \<in> set rows. 0 \<le> ps_amount_usdc s"
  shows "\<exists>k \<le> length rows. within_running_total cap acc rows = take k rows \<and>
    (k = 0 \<or> acc + settlement_total (take k rows) \<le> cap) \<and>
    (k < length rows \<longrightarrow> cap < acc + settlement_total (take (Suc k) rows))"
  using assms
proof (induction rows arbitrary: acc)
  case Nil
  then show ?case by simp
next
  case (Cons s rows)
  from Cons obtain k where k: "k \<le> length rows"
    "within_running_total cap (acc + ps_amount_usdc s) rows = take k rows"
    "k = 0 \<or> acc + ps_amount_usdc s + settlement_total (take k rows) \<le> cap"
    "k < length rows \<longrightarrow> cap < acc + ps_amount_usdc s + settlement_total (take (Suc k) rows)"
    by (metis list.set_intros(2))
  show ?case
  proof (cases "acc + ps_amount_usdc s \<le> cap")
    case True
    with k show ?thesis by (intro exI [of _ "Suc k"]) auto
  next
    case False
    have "0 \<le> settlement_total (take k rows)"
      using Cons.prems by (fastforce simp: settlement_total_def intro!: sum_list_nonneg dest: in_set_takeD)
    with False k have "k = 0" by auto
    with False k show ?thesis by (intro exI [of _ 0]) auto
  qed
qed

section \<open>Properties\<close>

text \<open>
  Any number of workers, requests that queue charges, operators that reset and top-ups that re-arm, and all
  that leaves the queue alone, in any order.
\<close>

inductive queue_step :: "db \<Rightarrow> db \<Rightarrow> bool" where
  enqueue: "queue_step d (enqueue_failed_settlement st now i ue org run_id meth amount payload p cid items d)"
| claim: "queue_step d (snd (claim_due_settlements now d))"
| process: "queue_step d (snd (process_claimed_settlement st exc_str now fresh row d))"
| reset: "queue_step d (snd (reset_exhausted_settlement now i d))"
| rearm: "queue_step d (snd (rearm_exhausted_credit_settlements now org cap d))"
| elsewhere: "pending_settlements d' = pending_settlements d \<Longrightarrow> queue_step d d'"

lemma queue_step_evolves: "queue_step d d' \<Longrightarrow> queue_evolves (pending_settlements d) (pending_settlements d')"
  by (induction rule: queue_step.induct)
    (simp_all add: enqueue_q.evolves claim_q.evolves process_q.evolves reset_q.evolves rearm_q.evolves)

lemma queue_history_evolves: "queue_step\<^sup>*\<^sup>* d d' \<Longrightarrow> queue_evolves (pending_settlements d) (pending_settlements d')"
  by (induction rule: rtranclp_induct) (auto intro: queue_evolves_trans queue_step_evolves)

lemma settle_leaves_settled:
  assumes "settle_claimed_credit_tx st now fresh row retry d = Inr ((True, a), d')"
  shows "\<exists>s \<in> set (pending_settlements d'). ps_id s = ps_id row \<and> ps_status s = SettlementSettled"
proof -
  from assms obtain d1 where q: "pending_settlements d' = pending_settlements (finalize_settlement row retry a d1)"
    and d1: "pending_settlements d1 = pending_settlements d"
    by (auto elim!: settle_tx_success dest: debit_locked_pending)
  have "exists_where (holds_lease now row) (pending_settlements d)"
    using assms by (auto simp: settle_claimed_credit_tx_def simp del: exists_where_iff split: if_splits)
  then obtain s where s: "s \<in> set (pending_settlements d)" "holds_lease now row s" by auto
  then have "s\<lparr>ps_status := SettlementSettled, ps_retry_count := retry, ps_last_error := []\<rparr> \<in> set (pending_settlements d')"
    unfolding q by (force simp: finalize_settlement_def set_update_where d1 holds_lease_def)
  then show ?thesis by (rule rev_bexI) (use s(2) in \<open>simp add: holds_lease_def\<close>)
qed

text \<open>
  C4. A queued charge is collected exactly once. When a claimed settlement commits, precisely its amount
  leaves the organisation's balance with one ledger row naming the run. From then on, whatever workers,
  operators and other services do to the queue in any order, the charge stays settled: no claim ever hands it
  out again, and every attempt to settle it, with whatever claim, is refused as lost and changes nothing.
\<close>

theorem settle_claimed_once:
  assumes "settle_claimed_credit st now fresh row retry d = (Inr (True, a), d1)"
    and "distinct (map ps_id (pending_settlements d))" "queue_step\<^sup>*\<^sup>* d1 d2"
  shows "a = ps_amount_usdc row \<and>
    (\<forall>org. get_credit_balance org d1 = get_credit_balance org d - (if org = ps_org_id row then a else 0)) \<and>
    org_credit_ledger d1 = org_credit_ledger d @
      [debit_row (fresh 0) (ps_org_id row) a (get_credit_balance (ps_org_id row) d - a)
         (''run:'' @ ps_run_id row) (ps_principal_id row) now] \<and>
    (\<exists>s \<in> set (pending_settlements d2). ps_id s = ps_id row \<and> ps_status s = SettlementSettled) \<and>
    ps_id row \<notin> ps_id ` set (fst (claim_due_settlements now' d2)) \<and>
    (\<forall>row'. ps_id row' = ps_id row \<longrightarrow>
       settle_claimed_credit st' now' fresh' row' retry' d2 = (Inl SettlementClaimLostError, d2))"
proof -
  have tx: "settle_claimed_credit_tx st now fresh row retry d = Inr ((True, a), d1)"
    using assms(1) by (auto simp: settle_claimed_credit_def transaction_def split: sum.splits)
  obtain s where s: "s \<in> set (pending_settlements d1)" "ps_id s = ps_id row" "ps_status s = SettlementSettled"
    using settle_leaves_settled [OF tx] by blast
  have ids1: "distinct (map ps_id (pending_settlements d1))"
    using settle_claimed_credit_evolves [of d st now fresh row retry] assms(1,2) by (simp add: queue_evolves_def)
  have ev: "queue_evolves (pending_settlements d1) (pending_settlements d2)" by (rule queue_history_evolves [OF assms(3)])
  have s2: "s \<in> set (pending_settlements d2)"
    using queue_evolves_in [OF ev ids1 s(1)] s(3) by (metis row_evolves_def)
  have only: "x = s" if "x \<in> set (pending_settlements d2)" "ps_id x = ps_id row" for x
    using distinct_key_eq [of ps_id "pending_settlements d2" x s] ev ids1 s2 s(2) that by (simp add: queue_evolves_def)
  have due: "\<not> is_due now' x" if "x \<in> set (pending_settlements d2)" "ps_id x = ps_id row" for x
    using only [OF that] s(3) by (simp add: is_due_def)
  have "ps_id row \<notin> ps_id ` set (fst (claim_due_settlements now' d2))"
    using due set_take_sort_rows [of 20 ps_next_retry_at "is_due now'" "pending_settlements d2"]
    by (force simp: claim_due_settlements_def Let_def claim_row_def)
  moreover have "settle_claimed_credit st' now' fresh' row' retry' d2 = (Inl SettlementClaimLostError, d2)"
    if "ps_id row' = ps_id row" for row'
  proof -
    have "\<not> exists_where (holds_lease now' row') (pending_settlements d2)"
      using only s(3) that by (auto simp: holds_lease_def)
    then show ?thesis by (simp add: settle_claimed_credit_def settle_claimed_credit_tx_def transaction_def del: exists_where_iff)
  qed
  ultimately show ?thesis using settle_tx_posting [OF tx] s2 s(2,3) by blast
qed

definition demo_settlement :: settlement_row where
  "demo_settlement = \<lparr>ps_id = ''s1'', ps_usage_event_id = ''u1'', ps_org_id = ''acme'', ps_run_id = ''r1'',
     ps_billing_method = CreditMethod, ps_amount_usdc = 30, ps_payment_payload = None,
     ps_principal_id = None, ps_retry_count = 0, ps_max_retries = 5, ps_next_retry_at = 400000000,
     ps_last_error = [], ps_status = Retrying, ps_charge_id = [],
     ps_earnings_allocations = StoredAllocations [], ps_created_at = 0\<rparr>"

definition demo_queue_db :: db where
  "demo_queue_db = demo_db\<lparr>pending_settlements := [demo_settlement]\<rparr>"

lemmas queue_eval_simps = settle_claimed_credit_def settle_claimed_credit_tx_def holds_lease_def
  decode_earnings_allocations_def demo_settlement_def demo_queue_db_def

theorem settle_claimed_once_witness:
  "\<exists>d'. settle_claimed_credit default_settings 5 (\<lambda>k. ''l1'') demo_settlement 1 demo_queue_db = (Inr (True, 30), d') \<and>
     get_credit_balance ''acme'' d' = 70 \<and>
     settle_claimed_credit default_settings 500000000 (\<lambda>k. ''l2'') demo_settlement 1 (snd (claim_due_settlements 500000000 d')) =
       (Inl SettlementClaimLostError, snd (claim_due_settlements 500000000 d'))"
proof -
  obtain d' where run: "settle_claimed_credit default_settings 5 (\<lambda>k. ''l1'') demo_settlement 1 demo_queue_db =
      (Inr (True, 30), d')"
    by (simp add: queue_eval_simps debit_eval_simps demo_simps Let_def)
  have "get_credit_balance ''acme'' demo_queue_db = 100" "ps_org_id demo_settlement = ''acme''"
    by (simp_all add: demo_queue_db_def demo_simps get_credit_balance_def demo_settlement_def)
  moreover have "queue_step\<^sup>*\<^sup>* d' (snd (claim_due_settlements 500000000 d'))" by (intro r_into_rtranclp queue_step.claim)
  moreover have "distinct (map ps_id (pending_settlements demo_queue_db))" by (simp add: demo_queue_db_def)
  ultimately show ?thesis using settle_claimed_once [OF run] run by simp
qed

text \<open>
  C5. Leases are exclusive: two workers that claim less than five minutes apart never hold the same
  settlement, and no claim takes more than twenty rows.
\<close>

theorem claims_disjoint:
  assumes "claim_due_settlements t1 d = (rows1, d1)" and "claim_due_settlements t2 d1 = (rows2, d2)"
    and "t2 < t1 + seconds 300"
  shows "ps_id ` set rows1 \<inter> ps_id ` set rows2 = {} \<and> length rows1 \<le> 20 \<and>
    (\<forall>s \<in> set rows1. ps_status s = Retrying \<and> ps_next_retry_at s = t1 + seconds 300)"
proof -
  let ?C = "\<lambda>t d. take 20 (sort_key ps_next_retry_at (rows_where (is_due t) (pending_settlements d)))"
  have rows: "rows1 = map (claim_row t1) (?C t1 d)" "rows2 = map (claim_row t2) (?C t2 d1)"
    and d1: "pending_settlements d1 =
      update_where (\<lambda>s. ps_id s \<in> ps_id ` set (?C t1 d)) (claim_row t1) (pending_settlements d)"
    using assms(1,2) by (auto simp: claim_due_settlements_def Let_def)
  have apart: "ps_id s \<notin> ps_id ` set (?C t1 d)" if "s \<in> set (?C t2 d1)" for s
  proof -
    have due: "is_due t2 s" and "s \<in> set (pending_settlements d1)"
      using that set_take_sort_rows by fastforce+
    then have "s \<in> set (update_where (\<lambda>s. ps_id s \<in> ps_id ` set (?C t1 d)) (claim_row t1) (pending_settlements d))"
      using d1 by simp
    then show ?thesis
    proof (cases rule: in_update_whereE)
      case hit
      with due assms(3) show ?thesis by (simp add: is_due_def claim_row_def)
    qed simp
  qed
  have "ps_id ` set (?C t1 d) \<inter> ps_id ` set (?C t2 d1) = {}"
    unfolding disjoint_iff by (metis (no_types) apart imageE)
  moreover have ids: "ps_id ` set (map (claim_row t) xs) = ps_id ` set xs" for t xs
    by (simp add: claim_row_def image_image)
  moreover have "\<forall>s \<in> set (map (claim_row t1) xs). ps_status s = Retrying \<and> ps_next_retry_at s = t1 + seconds 300" for xs
    by (simp add: claim_row_def)
  ultimately show ?thesis unfolding rows ids by simp
qed

theorem claims_disjoint_witness:
  "let d = demo_queue_db; d1 = snd (claim_due_settlements 400000000 d) in
   ps_id ` set (fst (claim_due_settlements 400000000 d)) = {''s1''} \<and>
   ps_id ` set (fst (claim_due_settlements 400000000 d)) \<inter>
     ps_id ` set (fst (claim_due_settlements 500000000 d1)) = {}"
proof -
  have "ps_id ` set (fst (claim_due_settlements 400000000 demo_queue_db)) = {''s1''}"
    by (simp add: claim_due_settlements_def Let_def queue_eval_simps rows_where_def is_due_def claim_row_def)
  moreover have "ps_id ` set (fst (claim_due_settlements 400000000 demo_queue_db)) \<inter>
     ps_id ` set (fst (claim_due_settlements 500000000 (snd (claim_due_settlements 400000000 demo_queue_db)))) = {}"
    using claims_disjoint [OF surjective_pairing surjective_pairing, of 500000000 400000000 demo_queue_db]
    by (simp add: seconds_def)
  ultimately show ?thesis unfolding Let_def by blast
qed

text \<open>
  C6. Every attempt on a held claim makes progress: the row is either settled with the charge
  debited, or nothing was debited and the row's retry count went up by one (to the maximum for x402
  rows, which are never retried) with the next attempt one second to five minutes away, or the retry
  budget is spent and the row is exhausted. A row is therefore attempted at most \<open>max_retries\<close> times.
\<close>

theorem retry_progress:
  assumes "row \<in> set (pending_settlements d)" and "ps_status row = Retrying"
    and "now < ps_next_retry_at row"
  shows "let (n, d') = process_claimed_settlement st exc_str now fresh row d in
    \<exists>s \<in> set (pending_settlements d'). same_obligation row s \<and>
      (if n = 1 then ps_status s = SettlementSettled \<and> ps_retry_count s = ps_retry_count row + 1 \<and>
         get_credit_balance (ps_org_id row) d' = get_credit_balance (ps_org_id row) d - ps_amount_usdc row
       else n = 0 \<and> org_credits d' = org_credits d \<and> org_credit_ledger d' = org_credit_ledger d \<and>
         ps_retry_count s = (if ps_billing_method row = CreditMethod then ps_retry_count row + 1 else ps_max_retries row) \<and>
         (if ps_retry_count s < ps_max_retries row
          then ps_status s = Retrying \<and> now < ps_next_retry_at s \<and> ps_next_retry_at s \<le> now + seconds 300
          else ps_status s = SettlementExhausted))"
proof -
  let ?retry = "ps_retry_count row + 1"
  have lease: "exists_where (holds_lease now row) (pending_settlements d)"
    using assms by (auto simp: holds_lease_def)
  note failed = record_failed_attempt_row [OF assms(1,2), of now]
  show ?thesis
  proof (cases "ps_billing_method row")
    case X402Method
    then show ?thesis
      using failed [of "ps_max_retries row"] unfolding process_claimed_settlement_def Let_def by simp
  next
    case CreditMethod
    show ?thesis
    proof (cases "settle_claimed_credit_tx st now fresh row ?retry d")
      case (Inl e)
      moreover have "e \<noteq> SettlementClaimLostError" by (rule settle_tx_raises [OF lease Inl])
      ultimately show ?thesis
        using failed [of ?retry] CreditMethod
        by (cases e) (simp_all add: process_claimed_settlement_def settle_claimed_credit_def transaction_def Let_def)
    next
      case (Inr r)
      then obtain ok a d' where tx: "settle_claimed_credit_tx st now fresh row ?retry d = Inr ((ok, a), d')"
        by (cases r) auto
      show ?thesis
      proof (cases ok)
        case True
        with tx have tx': "settle_claimed_credit_tx st now fresh row ?retry d = Inr ((True, a), d')" by simp
        from settle_tx_posting [OF tx'] settle_tx_row [OF tx' assms(1,2)] tx' CreditMethod show ?thesis
          by (simp add: process_claimed_settlement_def settle_claimed_credit_def transaction_def Let_def)
      next
        case False
        then have "d' = d" using tx settle_tx_refused by fastforce
        then show ?thesis
          using tx False CreditMethod failed [of ?retry]
          by (simp add: process_claimed_settlement_def settle_claimed_credit_def transaction_def Let_def)
      qed
    qed
  qed
qed

theorem retry_progress_witness:
  "\<exists>s \<in> set (pending_settlements (snd (process_claimed_settlement default_settings (\<lambda>_. []) 5 (\<lambda>k. ''l1'')
      demo_settlement demo_queue_db))). same_obligation demo_settlement s"
proof -
  have "demo_settlement \<in> set (pending_settlements demo_queue_db)" "ps_status demo_settlement = Retrying"
    "5 < ps_next_retry_at demo_settlement"
    by (simp_all add: demo_queue_db_def demo_settlement_def)
  from retry_progress [OF this, of default_settings "\<lambda>_. []" "\<lambda>k. ''l1''"] show ?thesis
    unfolding Let_def case_prod_beta by blast
qed

text \<open>
  A top-up re-arms the right charges: the rows returned to the queue are the oldest recent
  exhausted credit charges of that organisation, as many as fit into the credited amount (their total
  is at most the cap, and one more would exceed it), and no other row changes.
\<close>

theorem rearm_oldest_within_cap:
  assumes "distinct (map ps_id (pending_settlements d))"
    and "\<forall>s \<in> set (pending_settlements d). 0 \<le> ps_amount_usdc s"
    and "org \<noteq> []" and "0 < cap"
    and "rearm_exhausted_credit_settlements now org cap d = (n, d')"
  shows "let eligible = sort_key (\<lambda>s. (ps_created_at s, ps_id s)) (rows_where (is_rearmable now org) (pending_settlements d))
    in n \<le> length eligible \<and> settlement_total (take n eligible) \<le> cap \<and>
      (n < length eligible \<longrightarrow> cap < settlement_total (take (Suc n) eligible)) \<and>
      d' = d\<lparr>pending_settlements :=
        update_where (\<lambda>s. s \<in> set (take n eligible)) (rearm_row now) (pending_settlements d)\<rparr>"
proof -
  let ?q = "pending_settlements d"
  define eligible where "eligible = sort_key (\<lambda>s. (ps_created_at s, ps_id s)) (rows_where (is_rearmable now org) ?q)"
  have el: "set eligible = {s \<in> set ?q. is_rearmable now org s}" by (auto simp: eligible_def)
  obtain k where k: "k \<le> length eligible" "rearm_candidates now org cap d = take k eligible"
    "k = 0 \<or> settlement_total (take k eligible) \<le> cap"
    "k < length eligible \<longrightarrow> cap < settlement_total (take (Suc k) eligible)"
    using within_running_total_prefix [of eligible cap 0] assms(2) el
    by (auto simp: rearm_candidates_def eligible_def [symmetric])
  have sub: "set (take k eligible) \<subseteq> {s \<in> set ?q. is_rearmable now org s}"
    using el by (auto dest: in_set_takeD)
  let ?hit = "\<lambda>s. ps_id s \<in> ps_id ` set (take k eligible) \<and> ps_status s = SettlementExhausted"
  have hit: "?hit s = (s \<in> set (take k eligible))" if "s \<in> set ?q" for s
  proof
    assume "?hit s"
    then obtain r where r: "r \<in> set (take k eligible)" "ps_id s = ps_id r" by (auto simp del: set_take_subset)
    with sub have "r \<in> set ?q" by blast
    with r that show "s \<in> set (take k eligible)" using distinct_key_eq [OF assms(1)] by metis
  next
    assume s: "s \<in> set (take k eligible)"
    with sub have "is_rearmable now org s" by blast
    with s show "?hit s" by (simp add: is_rearmable_def)
  qed
  have d: "distinct ?q" "distinct (take k eligible)"
    using assms(1) by (auto simp: eligible_def rows_where_def distinct_map intro!: distinct_take)
  have "rows_where ?hit ?q = rows_where (\<lambda>s. s \<in> set (take k eligible)) ?q"
    by (rule rows_where_cong) (rule hit)
  moreover have "length (rows_where (\<lambda>s. s \<in> set (take k eligible)) ?q) = length (take k eligible)"
    by (rule length_rows_where_set [OF d]) (use sub in blast)
  ultimately have "length (rows_where ?hit ?q) = k" using k(1) by simp
  moreover have "update_where ?hit (rearm_row now) ?q =
      update_where (\<lambda>s. s \<in> set (take k eligible)) (rearm_row now) ?q"
    by (rule update_where_cong) (rule hit)
  ultimately have "n = k" "d' = d\<lparr>pending_settlements :=
      update_where (\<lambda>s. s \<in> set (take k eligible)) (rearm_row now) ?q\<rparr>"
    using assms(3-5) unfolding rearm_exhausted_credit_settlements_def Let_def k(2) by auto
  then show ?thesis using k assms(4) by (auto simp: eligible_def [symmetric])
qed

theorem rearm_oldest_within_cap_witness:
  "\<exists>d'. rearm_exhausted_credit_settlements 9 ''acme'' 50
     (demo_queue_db\<lparr>pending_settlements := [demo_settlement\<lparr>ps_status := SettlementExhausted\<rparr>]\<rparr>) = (1, d') \<and>
     d' = demo_queue_db\<lparr>pending_settlements := [rearm_row 9 (demo_settlement\<lparr>ps_status := SettlementExhausted\<rparr>)]\<rparr>"
proof -
  let ?d = "demo_queue_db\<lparr>pending_settlements := [demo_settlement\<lparr>ps_status := SettlementExhausted\<rparr>]\<rparr>"
  have el: "is_rearmable 9 ''acme'' (demo_settlement\<lparr>ps_status := SettlementExhausted\<rparr>)"
    by (simp add: is_rearmable_def demo_settlement_def days_def hours_def seconds_def)
  obtain d' where run: "rearm_exhausted_credit_settlements 9 ''acme'' 50 ?d = (1, d')"
    by (simp add: rearm_exhausted_credit_settlements_def rearm_candidates_def rows_where_def el Let_def)
      (simp add: demo_settlement_def)
  from rearm_oldest_within_cap [OF _ _ _ _ run] el run show ?thesis
    by (simp add: rows_where_def Let_def) (simp add: demo_settlement_def)
qed

end
