(* ===== verification/Topups.thy ===== *)
theory Topups
  imports Settlement
begin

text \<open>
  The ways credit enters the ledger besides the administrator's top-up: the x402 bootstrap payment
  of a machine-provisioned organisation and the verified-email grant with its retry outbox
  (\<^verbatim>\<open>billing/credit.py\<close>), the Stripe webhook (\<^verbatim>\<open>billing/stripe.py\<close>) and the on-chain USDC top-up
  (\<^verbatim>\<open>billing/x402.py\<close>), with the client credential that the bootstrap creates
  (\<^verbatim>\<open>teardrop/users/credentials.py\<close>).

  Each of them is guarded by a unique row (ledger reference, grant marker, event id, transaction
  hash). The locale \<open>credited_once\<close> states what that guard gives; every rail interprets it.
  Stripe's signature check \<^verbatim>\<open>construct_event\<close> and the salted password hash are parameters.
\<close>

section \<open>Client credentials\<close>

definition insert_credential :: "credential_row \<Rightarrow> db \<Rightarrow> py_error + db" where
  "insert_credential r d =
    (if cc_scope r \<notin> {''read'', ''publish'', ''withdraw''} then Inl (DbError CheckViolation)
     else if exists_where (\<lambda>x. cc_client_id x = cc_client_id r) (org_client_credentials d)
     then Inl (DbError UniqueViolation)
     else if orgs d (cc_org_id r) = None then Inl (DbError ForeignKeyViolation)
     else Inr (d\<lparr>org_client_credentials := org_client_credentials d @ [r]\<rparr>))"

text \<open>The fresh secrets of one call: client id, plaintext secret, and \<^verbatim>\<open>_hash_secret\<close> of it.\<close>

record fresh_credential =
  fc_client_id :: ident
  fc_secret :: string
  fc_hashed :: string
  fc_salt :: string

definition create_client_credential_in_transaction ::
  "instant \<Rightarrow> fresh_credential \<Rightarrow> ident \<Rightarrow> string \<Rightarrow> db \<Rightarrow> py_error + ((credential_row \<times> string option) \<times> db)" where
  "create_client_credential_in_transaction now fc org scope d =
    (let r = \<lparr>cc_client_id = fc_client_id fc, cc_org_id = org, cc_hashed_secret = fc_hashed fc,
              cc_salt = fc_salt fc, cc_created_at = now, cc_scope = scope, cc_disabled_at = None\<rparr>
     in bindE (insert_credential r d) (\<lambda>d'. Inr ((r, Some (fc_secret fc)), d')))"

definition active_credential :: "ident \<Rightarrow> db \<Rightarrow> credential_row option" where
  "active_credential org d =
    (case sort_key cc_created_at
        (rows_where (\<lambda>c. cc_org_id c = org \<and> cc_disabled_at c = None) (org_client_credentials d)) of
       [] \<Rightarrow> None | c # _ \<Rightarrow> Some c)"

section \<open>Bootstrap payment\<close>

definition insert_provisioning_event :: "provisioning_event_row \<Rightarrow> db \<Rightarrow> py_error + db" where
  "insert_provisioning_event r d =
    (if \<not> (- (2 ^ 31) \<le> pe_chain_id r \<and> pe_chain_id r < 2 ^ 31) \<or> \<not> bigint (pe_amount_usdc r)
     then Inl (DbError DataError)
     else if pe_amount_usdc r < 0 then Inl (DbError CheckViolation)
     else if exists_where (\<lambda>x. pe_id x = pe_id r) (org_provisioning_events d) then Inl (DbError UniqueViolation)
     else if orgs d (pe_org_id r) = None then Inl (DbError ForeignKeyViolation)
     else Inr (d\<lparr>org_provisioning_events := org_provisioning_events d @ [r]\<rparr>))"

definition credential_or_create ::
  "instant \<Rightarrow> fresh_credential \<Rightarrow> ident \<Rightarrow> db \<Rightarrow> py_error + ((credential_row \<times> string option) \<times> db)" where
  "credential_or_create now fc org d =
    (case active_credential org d of
       Some c \<Rightarrow> Inr ((c, None), d)
     | None \<Rightarrow> create_client_credential_in_transaction now fc org ''publish'' d)"

definition record_onboarding_settlement_tx ::
  "instant \<Rightarrow> fresh_credential \<Rightarrow> ident \<Rightarrow> ident \<Rightarrow> ident \<Rightarrow> usdc \<Rightarrow> string \<Rightarrow> string \<Rightarrow> int \<Rightarrow> string \<Rightarrow> db \<Rightarrow>
   py_error + ((credential_row \<times> string option) \<times> db)" where
  "record_onboarding_settlement_tx now fc ledger_id event_id org amount ref payer chain tx d =
    (case ledger_with_ref ref d of
       Some r \<Rightarrow>
         if led_org_id r \<noteq> org \<or> led_amount_usdc r \<noteq> amount
         then Inl (ValueError ''Onboarding payment reference is bound to a different settlement'')
         else credential_or_create now fc org d
     | None \<Rightarrow>
         bindE (credential_or_create now fc org d) (\<lambda>(cred, d1).
         bindE (post_topup now ledger_id org amount ''x402_onboarding'' (Some ref) d1) (\<lambda>(_, d2).
         bindE (insert_provisioning_event
           \<lparr>pe_id = event_id, pe_org_id = org, pe_payer_address = payer, pe_chain_id = chain,
            pe_settlement_tx = tx, pe_payment_ref = ref, pe_amount_usdc = amount\<rparr> d2) (\<lambda>d3.
         Inr (cred, d3)))))"

definition record_onboarding_settlement ::
  "instant \<Rightarrow> fresh_credential \<Rightarrow> ident \<Rightarrow> ident \<Rightarrow> ident \<Rightarrow> usdc \<Rightarrow> string \<Rightarrow> string \<Rightarrow> int \<Rightarrow> string \<Rightarrow> db \<Rightarrow>
   (py_error + (credential_row \<times> string option)) \<times> db" where
  "record_onboarding_settlement now fc ledger_id event_id org amount ref payer chain tx d =
    (if amount \<le> 0 then (Inl (ValueError ''onboarding settlement amount must be positive''), d)
     else if ref = [] \<or> tx = []
     then (Inl (ValueError ''onboarding settlement requires payment and transaction references''), d)
     else transaction (record_onboarding_settlement_tx now fc ledger_id event_id org amount ref payer chain tx) d)"

section \<open>Verified-email grant\<close>

definition insert_grant :: "grant_row \<Rightarrow> db \<Rightarrow> py_error + (usdc option \<times> db)" where
  "insert_grant g d =
    (if \<not> bigint (gr_amount_usdc g) then Inl (DbError DataError)
     else if gr_amount_usdc g \<le> 0 then Inl (DbError CheckViolation)
     else if exists_where (\<lambda>x. gr_org_id x = gr_org_id g) (org_onboarding_credit_grants d) then Inr (None, d)
     else if exists_where (\<lambda>x. gr_ledger_entry_id x = gr_ledger_entry_id g) (org_onboarding_credit_grants d)
     then Inl (DbError UniqueViolation)
     else if orgs d (gr_org_id g) = None then Inl (DbError ForeignKeyViolation)
     else Inr (Some (gr_amount_usdc g),
       d\<lparr>org_onboarding_credit_grants := org_onboarding_credit_grants d @ [g]\<rparr>))"

definition grant_onboarding_credit_tx :: "instant \<Rightarrow> ident \<Rightarrow> ident \<Rightarrow> usdc \<Rightarrow> db \<Rightarrow> py_error + (usdc \<times> db)" where
  "grant_onboarding_credit_tx now ledger_id org amount d =
     bindE (insert_grant \<lparr>gr_org_id = org, gr_amount_usdc = amount, gr_ledger_entry_id = ledger_id\<rparr> d) (\<lambda>(g, d1).
       case g of
         None \<Rightarrow> Inr (0, d1)
       | Some granted \<Rightarrow>
           bindE (post_topup now ledger_id org granted ''onboarding_grant'' None d1) (\<lambda>(_, d2). Inr (granted, d2)))"

definition grant_onboarding_credit :: "instant \<Rightarrow> ident \<Rightarrow> ident \<Rightarrow> usdc \<Rightarrow> db \<Rightarrow> (py_error + usdc) \<times> db" where
  "grant_onboarding_credit now ledger_id org amount d =
    (if amount \<le> 0 then (Inl (ValueError ''onboarding credit amount must be positive''), d)
     else transaction (grant_onboarding_credit_tx now ledger_id org amount) d)"

definition clear_onboarding_credit_outbox :: "ident \<Rightarrow> db \<Rightarrow> db" where
  "clear_onboarding_credit_outbox org d =
     d\<lparr>org_onboarding_credit_outbox := rows_where (\<lambda>r. go_org_id r \<noteq> org) (org_onboarding_credit_outbox d)\<rparr>"

definition note_grant_failure :: "ident \<Rightarrow> string \<Rightarrow> db \<Rightarrow> db" where
  "note_grant_failure org msg d =
    (if exists_where (\<lambda>r. go_org_id r = org \<and> 2 ^ 31 \<le> go_attempts r + 1) (org_onboarding_credit_outbox d) then d
     else d\<lparr>org_onboarding_credit_outbox := update_where (\<lambda>r. go_org_id r = org)
       (\<lambda>r. r\<lparr>go_attempts := go_attempts r + 1, go_last_error := Some (take 500 msg)\<rparr>)
       (org_onboarding_credit_outbox d)\<rparr>)"

fun retry_grants ::
  "(py_error \<Rightarrow> string) \<Rightarrow> instant \<Rightarrow> (nat \<Rightarrow> ident) \<Rightarrow> nat \<Rightarrow> grant_outbox_row list \<Rightarrow> db \<Rightarrow> nat \<times> db" where
  "retry_grants exc_str now fresh k [] d = (0, d)"
| "retry_grants exc_str now fresh k (r # rows) d =
    (case grant_onboarding_credit now (fresh k) (go_org_id r) (go_amount_usdc r) d of
       (Inl e, d1) \<Rightarrow> retry_grants exc_str now fresh (Suc k) rows (note_grant_failure (go_org_id r) (exc_str e) d1)
     | (Inr _, d1) \<Rightarrow>
         (let (n, d2) = retry_grants exc_str now fresh (Suc k) rows (clear_onboarding_credit_outbox (go_org_id r) d1)
          in (Suc n, d2)))"

definition process_onboarding_credit_outbox ::
  "(py_error \<Rightarrow> string) \<Rightarrow> instant \<Rightarrow> (nat \<Rightarrow> ident) \<Rightarrow> nat \<Rightarrow> db \<Rightarrow> nat \<times> db" where
  "process_onboarding_credit_outbox exc_str now fresh limit d =
     retry_grants exc_str now fresh 0 (take limit (sort_key go_created_at (org_onboarding_credit_outbox d))) d"

definition is_promotional_credit :: "ident \<Rightarrow> db \<Rightarrow> bool" where
  "is_promotional_credit org d =
    (case find (\<lambda>g. gr_org_id g = org) (org_onboarding_credit_grants d) of
       None \<Rightarrow> False
     | Some g \<Rightarrow> \<not> exists_where (\<lambda>r. led_org_id r = org \<and> led_operation r = Topup \<and>
         led_id r \<noteq> gr_ledger_entry_id g) (org_credit_ledger d))"

section \<open>Stripe webhook\<close>

record stripe_event =
  se_id :: ident
  se_type :: string
  se_payment_status :: string
  se_client_reference_id :: "string option"
  se_metadata :: "string \<rightharpoonup> string"
  se_amount_total :: "int option"

definition stripe_org :: "stripe_event \<Rightarrow> string option" where
  "stripe_org ev =
    (if truthy (se_client_reference_id ev) then se_client_reference_id ev
     else if truthy (se_metadata ev ''org_id'') then se_metadata ev ''org_id'' else None)"

definition stripe_amount :: "stripe_event \<Rightarrow> usdc" where
  "stripe_amount ev =
    (let cents = (case se_amount_total ev of None \<Rightarrow> 0 | Some n \<Rightarrow> n)
     in case se_metadata ev ''amount_usdc'' of
          None \<Rightarrow> cents * 10000
        | Some raw \<Rightarrow>
            if raw = [] then cents * 10000
            else (case py_int raw of None \<Rightarrow> cents * 10000 | Some n \<Rightarrow> n))"

text \<open>
  The idempotency tables of both payment rails have the same shape: \<^verbatim>\<open>INSERT .. ON CONFLICT DO
  NOTHING RETURNING\<close>, where \<open>False\<close> is the empty result.
\<close>

definition insert_event_guard ::
  "db \<Rightarrow> ident \<times> ident \<times> usdc \<Rightarrow> (ident \<times> ident \<times> usdc) list \<Rightarrow> py_error + (bool \<times> (ident \<times> ident \<times> usdc) list)" where
  "insert_event_guard d = (\<lambda>(key, org, amount) rows.
    if \<not> bigint amount then Inl (DbError DataError)
    else if amount \<le> 0 then Inl (DbError CheckViolation)
    else if exists_where (\<lambda>x. fst x = key) rows then Inr (False, rows)
    else if orgs d org = None then Inl (DbError ForeignKeyViolation)
    else Inr (True, rows @ [(key, org, amount)]))"

definition stripe_credit_tx :: "instant \<Rightarrow> ident \<Rightarrow> ident \<Rightarrow> ident \<Rightarrow> usdc \<Rightarrow> db \<Rightarrow> py_error + (bool \<times> db)" where
  "stripe_credit_tx now ledger_id event_id org amount d =
     bindE (insert_event_guard d (event_id, org, amount) (stripe_webhook_events d)) (\<lambda>(inserted, rows).
       if \<not> inserted then Inr (False, d)
       else bindE (post_topup now ledger_id org amount (''stripe:'' @ event_id) None
           (d\<lparr>stripe_webhook_events := rows\<rparr>)) (\<lambda>(_, d'). Inr (True, d')))"

definition process_stripe_event :: "instant \<Rightarrow> ident \<Rightarrow> stripe_event \<Rightarrow> db \<Rightarrow> (py_error + unit) \<times> db" where
  "process_stripe_event now ledger_id ev d =
    (if se_type ev \<noteq> ''checkout.session.completed'' then (Inr (), d)
     else if se_payment_status ev \<noteq> ''paid'' then (Inr (), d)
     else case stripe_org ev of
       None \<Rightarrow> (Inr (), d)
     | Some org \<Rightarrow>
         if stripe_amount ev \<le> 0 then (Inr (), d)
         else if orgs d org = None then (Inl (ValueError ''unknown org_id''), d)
         else case transaction (stripe_credit_tx now ledger_id (se_id ev) org (stripe_amount ev)) d of
           (Inl e, d') \<Rightarrow> (Inl e, d')
         | (Inr False, d') \<Rightarrow> (Inr (), d')
         | (Inr True, d') \<Rightarrow> (Inr (), snd (rearm_exhausted_credit_settlements now org (stripe_amount ev) d')))"

definition handle_stripe_webhook ::
  "('p \<Rightarrow> string \<Rightarrow> py_error + stripe_event) \<Rightarrow> instant \<Rightarrow> ident \<Rightarrow> 'p \<Rightarrow> string \<Rightarrow> db \<Rightarrow> (py_error + unit) \<times> db" where
  "handle_stripe_webhook construct_event now ledger_id payload sig_header d =
    (if sig_header = [] then (Inl (ValueError ''Missing Stripe-Signature header''), d)
     else case construct_event payload sig_header of
       Inl e \<Rightarrow> (Inl e, d)
     | Inr ev \<Rightarrow> process_stripe_event now ledger_id ev d)"

section \<open>On-chain top-up\<close>

definition credit_usdc_topup_tx ::
  "instant \<Rightarrow> ident \<Rightarrow> ident \<Rightarrow> usdc \<Rightarrow> string \<Rightarrow> db \<Rightarrow> py_error + (usdc option \<times> db)" where
  "credit_usdc_topup_tx now ledger_id org amount tx d =
     bindE (insert_event_guard d (tx, org, amount) (usdc_topup_events d)) (\<lambda>(inserted, rows).
       if \<not> inserted then Inr (None, d)
       else bindE (post_topup now ledger_id org amount (''usdc_onchain:'' @ tx) None
           (d\<lparr>usdc_topup_events := rows\<rparr>)) (\<lambda>(balance, d'). Inr (Some balance, d')))"

definition credit_usdc_topup ::
  "instant \<Rightarrow> ident \<Rightarrow> ident \<Rightarrow> usdc \<Rightarrow> string \<Rightarrow> db \<Rightarrow> (py_error + usdc option) \<times> db" where
  "credit_usdc_topup now ledger_id org amount tx d =
    (case transaction (credit_usdc_topup_tx now ledger_id org amount tx) d of
       (Inr (Some balance), d') \<Rightarrow>
         (Inr (Some balance), snd (rearm_exhausted_credit_settlements now org amount d'))
     | r \<Rightarrow> r)"

section \<open>Every rail credits once\<close>

definition money :: "db \<Rightarrow> (ident \<rightharpoonup> credit_row) \<times> ledger_row list" where
  "money d = (org_credits d, org_credit_ledger d)"

lemma money_frame [simp]:
  "money (d\<lparr>org_client_credentials := a\<rparr>) = money d"
  "money (d\<lparr>org_provisioning_events := b\<rparr>) = money d"
  "money (d\<lparr>org_onboarding_credit_grants := c\<rparr>) = money d"
  "money (d\<lparr>org_onboarding_credit_outbox := e\<rparr>) = money d"
  "money (d\<lparr>stripe_webhook_events := f\<rparr>) = money d"
  "money (d\<lparr>usdc_topup_events := f\<rparr>) = money d"
  "money (d\<lparr>pending_settlements := g\<rparr>) = money d"
  by (simp_all add: money_def)

lemma money_balance: "money d = money d' \<Longrightarrow> get_credit_balance org d = get_credit_balance org d'"
  by (simp add: money_def get_credit_balance_def)

text \<open>
  The contract of a credit rail: \<open>run k\<close> is one delivery of the payment (\<open>k\<close> the clock and the fresh
  identifiers of that delivery), \<open>seen\<close> the guard row it leaves behind. A delivery that raises moves
  no money, one that returns leaves its guard, and a guarded delivery moves no money.
\<close>

locale credited_once =
  fixes run :: "'k \<Rightarrow> db \<Rightarrow> (py_error + 'a) \<times> db" and seen :: "db \<Rightarrow> bool"
  assumes raise_keeps: "fst (run k d) = Inl e \<Longrightarrow> money (snd (run k d)) = money d \<and> seen (snd (run k d)) = seen d"
    and return_seen: "fst (run k d) = Inr x \<Longrightarrow> seen (snd (run k d))"
    and replay: "seen d \<Longrightarrow> money (snd (run k d)) = money d"
begin

lemma seen_stays: "seen d \<Longrightarrow> seen (snd (run k d))"
  using raise_keeps [of k d] return_seen [of k d] by (cases "fst (run k d)") auto

lemma redeliveries_seen: "seen d \<Longrightarrow> money (fold (\<lambda>k d. snd (run k d)) ks d) = money d"
proof (induction ks arbitrary: d)
  case (Cons k ks)
  then show ?case using replay [of d k] seen_stays [of d k] by simp
qed simp

text \<open>However often the payment is redelivered after it was accepted, it is credited once.\<close>

lemma redeliveries:
  "fst (run k d) = Inr x \<Longrightarrow> money (fold (\<lambda>k d. snd (run k d)) ks (snd (run k d))) = money (snd (run k d))"
  using return_seen by (rule redeliveries_seen)

end

lemma rearm_frame [simp]:
  "money (snd (rearm_exhausted_credit_settlements now org cap d)) = money d"
  "stripe_webhook_events (snd (rearm_exhausted_credit_settlements now org cap d)) = stripe_webhook_events d"
  "usdc_topup_events (snd (rearm_exhausted_credit_settlements now org cap d)) = usdc_topup_events d"
  by (simp_all add: rearm_exhausted_credit_settlements_def Let_def)

lemma post_topup_frame:
  assumes "post_topup now i org amount reason ref d = Inr (b, d')"
  shows "stripe_webhook_events d' = stripe_webhook_events d" "usdc_topup_events d' = usdc_topup_events d"
    "org_onboarding_credit_grants d' = org_onboarding_credit_grants d" "orgs d' = orgs d"
    "org_client_credentials d' = org_client_credentials d"
    "pending_settlements d' = pending_settlements d"
  using assms by (auto elim!: post_topup_InrD dest!: insert_ledger_InrD(1))

lemma insert_event_guard_InrD:
  assumes "insert_event_guard d (key, org, amount) rows = Inr (ok, rows')"
  shows "if ok then rows' = rows @ [(key, org, amount)] \<and> key \<notin> fst ` set rows
    else rows' = rows \<and> key \<in> fst ` set rows"
    and "ok \<Longrightarrow> orgs d org \<noteq> None"
  using assms by (force simp: insert_event_guard_def split: if_splits)+

definition stripe_ignored :: "stripe_event \<Rightarrow> bool" where
  "stripe_ignored ev \<longleftrightarrow> se_type ev \<noteq> ''checkout.session.completed'' \<or> se_payment_status ev \<noteq> ''paid'' \<or>
     stripe_org ev = None \<or> stripe_amount ev \<le> 0"

definition stripe_seen :: "stripe_event \<Rightarrow> db \<Rightarrow> bool" where
  "stripe_seen ev d \<longleftrightarrow> stripe_ignored ev \<or> se_id ev \<in> fst ` set (stripe_webhook_events d)"

lemma stripe_credit_tx_InrD:
  assumes "stripe_credit_tx now i key org amount d = Inr (ok, d1)"
  shows "if ok then key \<notin> fst ` set (stripe_webhook_events d) \<and> orgs d org \<noteq> None \<and>
      (\<exists>b. post_topup now i org amount (''stripe:'' @ key) None
        (d\<lparr>stripe_webhook_events := stripe_webhook_events d @ [(key, org, amount)]\<rparr>) = Inr (b, d1))
    else key \<in> fst ` set (stripe_webhook_events d) \<and> d1 = d"
proof -
  obtain ins rows where g: "insert_event_guard d (key, org, amount) (stripe_webhook_events d) = Inr (ins, rows)"
    and rest: "if ins then \<exists>b. ok \<and> post_topup now i org amount (''stripe:'' @ key) None
        (d\<lparr>stripe_webhook_events := rows\<rparr>) = Inr (b, d1) else \<not> ok \<and> d1 = d"
    using assms by (auto simp: stripe_credit_tx_def bindE_eq_Inr_iff split: if_splits)
  show ?thesis using insert_event_guard_InrD [OF g] rest by (auto split: if_splits)
qed

lemma credit_usdc_topup_tx_InrD:
  assumes "credit_usdc_topup_tx now i org amount tx d = Inr (res, d1)"
  shows "case res of
      Some b \<Rightarrow> tx \<notin> fst ` set (usdc_topup_events d) \<and>
        post_topup now i org amount (''usdc_onchain:'' @ tx) None
          (d\<lparr>usdc_topup_events := usdc_topup_events d @ [(tx, org, amount)]\<rparr>) = Inr (b, d1)
    | None \<Rightarrow> tx \<in> fst ` set (usdc_topup_events d) \<and> d1 = d"
proof -
  obtain ins rows where g: "insert_event_guard d (tx, org, amount) (usdc_topup_events d) = Inr (ins, rows)"
    and rest: "if ins then \<exists>b. res = Some b \<and> post_topup now i org amount (''usdc_onchain:'' @ tx) None
        (d\<lparr>usdc_topup_events := rows\<rparr>) = Inr (b, d1) else res = None \<and> d1 = d"
    using assms by (auto simp: credit_usdc_topup_tx_def bindE_eq_Inr_iff split: if_splits)
  show ?thesis using insert_event_guard_InrD [OF g] rest by (auto split: if_splits)
qed

text \<open>The three outcomes of a webhook delivery.\<close>

lemma process_stripe_event_cases:
  obtains (unchanged) r where "process_stripe_event now i ev d = (r, d)" "\<And>x. r = Inr x \<Longrightarrow> stripe_seen ev d"
    | (credited) org b d1 d' where "process_stripe_event now i ev d = (Inr (), d')" "\<not> stripe_seen ev d"
      "stripe_org ev = Some org" "0 < stripe_amount ev" "\<not> stripe_ignored ev"
      "post_topup now i org (stripe_amount ev) (''stripe:'' @ se_id ev) None
         (d\<lparr>stripe_webhook_events := stripe_webhook_events d @ [(se_id ev, org, stripe_amount ev)]\<rparr>) = Inr (b, d1)"
      "d' = snd (rearm_exhausted_credit_settlements now org (stripe_amount ev) d1)"
proof (cases "stripe_ignored ev")
  case True
  then have "process_stripe_event now i ev d = (Inr (), d)"
    by (auto simp: process_stripe_event_def stripe_ignored_def split: option.splits)
  with True show ?thesis by (intro unchanged) (auto simp: stripe_seen_def)
next
  case False
  then obtain org where org: "stripe_org ev = Some org" and amt: "0 < stripe_amount ev"
    by (auto simp: stripe_ignored_def)
  have run: "process_stripe_event now i ev d =
      (if orgs d org = None then (Inl (ValueError ''unknown org_id''), d)
       else case transaction (stripe_credit_tx now i (se_id ev) org (stripe_amount ev)) d of
         (Inl e, d') \<Rightarrow> (Inl e, d')
       | (Inr False, d') \<Rightarrow> (Inr (), d')
       | (Inr True, d') \<Rightarrow> (Inr (), snd (rearm_exhausted_credit_settlements now org (stripe_amount ev) d')))"
    using False org amt by (simp add: process_stripe_event_def stripe_ignored_def)
  show ?thesis
  proof (cases "stripe_credit_tx now i (se_id ev) org (stripe_amount ev) d")
    case (Inl e)
    then obtain e' where "process_stripe_event now i ev d = (Inl e', d)"
      using run by (cases "orgs d org") (auto simp: transaction_def)
    then show ?thesis by (intro unchanged) auto
  next
    case (Inr r)
    then obtain ok d1 where tx: "stripe_credit_tx now i (se_id ev) org (stripe_amount ev) d = Inr (ok, d1)"
      by (cases r) auto
    note res = stripe_credit_tx_InrD [OF tx]
    show ?thesis
    proof (cases ok)
      case True
      then obtain b where "post_topup now i org (stripe_amount ev) (''stripe:'' @ se_id ev) None
          (d\<lparr>stripe_webhook_events := stripe_webhook_events d @ [(se_id ev, org, stripe_amount ev)]\<rparr>) = Inr (b, d1)"
        using res by auto
      moreover have "process_stripe_event now i ev d =
          (Inr (), snd (rearm_exhausted_credit_settlements now org (stripe_amount ev) d1))"
        using True res run tx by (auto simp: transaction_def)
      ultimately show ?thesis using credited org amt False True res by (auto simp: stripe_seen_def)
    next
      case not_ok: False
      then obtain r where "process_stripe_event now i ev d = (r, d)"
        using run res tx by (cases "orgs d org") (auto simp: transaction_def)
      then show ?thesis using not_ok res by (intro unchanged) (auto simp: stripe_seen_def)
    qed
  qed
qed

interpretation stripe_once: credited_once "\<lambda>(now, i). process_stripe_event now i ev" "stripe_seen ev" for ev
proof (unfold_locales, safe)
  fix now i d e
  assume raised: "fst (process_stripe_event now i ev d) = Inl e"
  show "money (snd (process_stripe_event now i ev d)) = money d"
    "stripe_seen ev (snd (process_stripe_event now i ev d)) \<Longrightarrow> stripe_seen ev d"
    "stripe_seen ev d \<Longrightarrow> stripe_seen ev (snd (process_stripe_event now i ev d))"
    using raised by (auto intro: process_stripe_event_cases [of now i ev d])
next
  fix now i d x
  assume "fst (process_stripe_event now i ev d) = Inr x"
  then show "stripe_seen ev (snd (process_stripe_event now i ev d))"
    by (cases rule: process_stripe_event_cases [of now i ev d])
      (auto simp: stripe_seen_def post_topup_frame)
next
  fix now i d
  assume "stripe_seen ev d"
  then show "money (snd (process_stripe_event now i ev d)) = money d"
    by (cases rule: process_stripe_event_cases [of now i ev d]) auto
qed

lemma credit_usdc_topup_cases:
  obtains (unchanged) r where "credit_usdc_topup now i org amount tx d = (r, d)"
      "\<And>x. r = Inr x \<Longrightarrow> x = None \<and> tx \<in> fst ` set (usdc_topup_events d)"
    | (credited) b d1 where
      "credit_usdc_topup now i org amount tx d =
         (Inr (Some b), snd (rearm_exhausted_credit_settlements now org amount d1))"
      "tx \<notin> fst ` set (usdc_topup_events d)"
      "post_topup now i org amount (''usdc_onchain:'' @ tx) None
         (d\<lparr>usdc_topup_events := usdc_topup_events d @ [(tx, org, amount)]\<rparr>) = Inr (b, d1)"
proof (cases "credit_usdc_topup_tx now i org amount tx d")
  case (Inl e)
  then show ?thesis by (intro unchanged) (auto simp: credit_usdc_topup_def transaction_def)
next
  case (Inr r)
  then obtain res d1 where tx: "credit_usdc_topup_tx now i org amount tx d = Inr (res, d1)" by (cases r) auto
  note out = credit_usdc_topup_tx_InrD [OF tx]
  show ?thesis
  proof (cases res)
    case None
    with tx out show ?thesis by (intro unchanged) (auto simp: credit_usdc_topup_def transaction_def)
  next
    case (Some b)
    with tx out show ?thesis by (intro credited) (auto simp: credit_usdc_topup_def transaction_def)
  qed
qed

interpretation usdc_once: credited_once "\<lambda>(now, i). credit_usdc_topup now i org amount tx"
  "\<lambda>d. tx \<in> fst ` set (usdc_topup_events d)" for org amount tx
proof (unfold_locales, goal_cases)
  case (1 k d e)
  then show ?case
    by (cases k, cases rule: credit_usdc_topup_cases [of "fst k" "snd k" org amount tx d]) auto
next
  case (2 k d x)
  then show ?case
    by (cases k, cases rule: credit_usdc_topup_cases [of "fst k" "snd k" org amount tx d])
      (auto simp: post_topup_frame)
next
  case (3 d k)
  then show ?case
    by (cases k, cases rule: credit_usdc_topup_cases [of "fst k" "snd k" org amount tx d]) auto
qed

lemma grant_onboarding_credit_cases:
  obtains (unchanged) r where "grant_onboarding_credit now i org amount d = (r, d)"
      "\<And>x. r = Inr x \<Longrightarrow> x = 0 \<and> org \<in> gr_org_id ` set (org_onboarding_credit_grants d)"
    | (granted) b d1 where
      "grant_onboarding_credit now i org amount d = (Inr amount, d1)" "0 < amount"
      "org \<notin> gr_org_id ` set (org_onboarding_credit_grants d)"
      "post_topup now i org amount ''onboarding_grant'' None
        (d\<lparr>org_onboarding_credit_grants := org_onboarding_credit_grants d @
            [\<lparr>gr_org_id = org, gr_amount_usdc = amount, gr_ledger_entry_id = i\<rparr>]\<rparr>) = Inr (b, d1)"
proof (cases "grant_onboarding_credit_tx now i org amount d")
  case (Inl e)
  then obtain e' where "grant_onboarding_credit now i org amount d = (Inl e', d)"
    by (cases "amount \<le> 0") (auto simp: grant_onboarding_credit_def transaction_def)
  then show ?thesis by (intro unchanged) auto
next
  case (Inr r)
  then obtain a d1 where tx: "grant_onboarding_credit_tx now i org amount d = Inr (a, d1)" by (cases r) auto
  let ?g = "\<lparr>gr_org_id = org, gr_amount_usdc = amount, gr_ledger_entry_id = i\<rparr>"
  show ?thesis
  proof (cases "amount \<le> 0 \<or> org \<in> gr_org_id ` set (org_onboarding_credit_grants d)")
    case True
    with tx obtain r where "grant_onboarding_credit now i org amount d = (r, d)"
        "\<And>x. r = Inr x \<Longrightarrow> x = 0 \<and> org \<in> gr_org_id ` set (org_onboarding_credit_grants d)"
      by (cases "amount \<le> 0")
        (auto simp: grant_onboarding_credit_def transaction_def grant_onboarding_credit_tx_def insert_grant_def
          split: if_splits)
    then show ?thesis by (rule unchanged)
  next
    case False
    with tx obtain b where "post_topup now i org amount ''onboarding_grant'' None
        (d\<lparr>org_onboarding_credit_grants := org_onboarding_credit_grants d @ [?g]\<rparr>) = Inr (b, d1)"
      "grant_onboarding_credit now i org amount d = (Inr amount, d1)"
      by (auto simp: grant_onboarding_credit_def transaction_def grant_onboarding_credit_tx_def insert_grant_def
          bindE_eq_Inr_iff split: if_splits)
    with False show ?thesis by (intro granted) auto
  qed
qed

interpretation grant_once: credited_once "\<lambda>(now, i, amount). grant_onboarding_credit now i org amount"
  "\<lambda>d. org \<in> gr_org_id ` set (org_onboarding_credit_grants d)" for org
proof (unfold_locales, goal_cases)
  case (1 k d e)
  then show ?case
    by (cases k, cases rule: grant_onboarding_credit_cases [of "fst k" "fst (snd k)" org "snd (snd k)" d]) auto
next
  case (2 k d x)
  then show ?case
    by (cases k, cases rule: grant_onboarding_credit_cases [of "fst k" "fst (snd k)" org "snd (snd k)" d])
      (auto simp: post_topup_frame)
next
  case (3 d k)
  then show ?case
    by (cases k, cases rule: grant_onboarding_credit_cases [of "fst k" "fst (snd k)" org "snd (snd k)" d]) auto
qed

lemma credential_or_create_frame:
  assumes "credential_or_create now fc org d = Inr (cred, d')"
  shows "money d' = money d" "audited d' = audited d" "org_credit_ledger d' = org_credit_ledger d" "orgs d' = orgs d"
    "get_credit_balance x d' = get_credit_balance x d" "pending_settlements d' = pending_settlements d"
    "ledger_with_ref ref d' = ledger_with_ref ref d"
proof -
  have "d' = d \<or> (\<exists>cs. d' = d\<lparr>org_client_credentials := cs\<rparr>)"
    using assms
    by (auto simp: credential_or_create_def create_client_credential_in_transaction_def insert_credential_def
        Let_def bindE_eq_Inr_iff split: option.splits if_splits)
  then show "money d' = money d" "audited d' = audited d" "org_credit_ledger d' = org_credit_ledger d" "orgs d' = orgs d"
    "get_credit_balance x d' = get_credit_balance x d" "pending_settlements d' = pending_settlements d"
    "ledger_with_ref ref d' = ledger_with_ref ref d"
    by (auto simp: get_credit_balance_def ledger_with_ref_def)
qed

lemma insert_provisioning_event_InrD:
  "insert_provisioning_event r d = Inr d' \<Longrightarrow>
     d' = d\<lparr>org_provisioning_events := org_provisioning_events d @ [r]\<rparr>"
  by (auto simp: insert_provisioning_event_def split: if_splits)

text \<open>What a committed bootstrap payment did: replayed, or credited with its audit row.\<close>

lemma onboarding_tx_cases:
  assumes "record_onboarding_settlement_tx now fc i ev org amount ref payer chain tx d = Inr (cred, d')"
  obtains (replayed) r where "ledger_with_ref ref d = Some r" "led_org_id r = org" "led_amount_usdc r = amount"
      "credential_or_create now fc org d = Inr (cred, d')"
    | (credited) d1 b d2 where "ledger_with_ref ref d = None" "credential_or_create now fc org d = Inr (cred, d1)"
      "post_topup now i org amount ''x402_onboarding'' (Some ref) d1 = Inr (b, d2)"
      "d' = d2\<lparr>org_provisioning_events := org_provisioning_events d2 @
        [\<lparr>pe_id = ev, pe_org_id = org, pe_payer_address = payer, pe_chain_id = chain,
          pe_settlement_tx = tx, pe_payment_ref = ref, pe_amount_usdc = amount\<rparr>]\<rparr>"
proof (cases "ledger_with_ref ref d")
  case (Some r)
  with assms show ?thesis
    by (intro replayed [of r]) (auto simp: record_onboarding_settlement_tx_def split: if_splits)
next
  case None
  with assms obtain d1 b d2 where steps: "credential_or_create now fc org d = Inr (cred, d1)"
      "post_topup now i org amount ''x402_onboarding'' (Some ref) d1 = Inr (b, d2)"
      "insert_provisioning_event \<lparr>pe_id = ev, pe_org_id = org, pe_payer_address = payer, pe_chain_id = chain,
          pe_settlement_tx = tx, pe_payment_ref = ref, pe_amount_usdc = amount\<rparr> d2 = Inr d'"
    by (auto simp: record_onboarding_settlement_tx_def bindE_eq_Inr_iff)
  show ?thesis by (rule credited [OF None steps(1,2) insert_provisioning_event_InrD [OF steps(3)]])
qed

lemma ledger_with_ref_snoc [simp]:
  "ledger_with_ref ref d = None \<Longrightarrow> org_credit_ledger d' = org_credit_ledger d @ [topup_row i org a b reason (Some ref) now] \<Longrightarrow>
   ledger_with_ref ref d' = Some (topup_row i org a b reason (Some ref) now)"
  by (simp add: ledger_with_ref_def find_append)

definition onboarding_seen :: "ident \<Rightarrow> usdc \<Rightarrow> string \<Rightarrow> db \<Rightarrow> bool" where
  "onboarding_seen org amount ref d \<longleftrightarrow>
     (case ledger_with_ref ref d of Some r \<Rightarrow> led_org_id r = org \<and> led_amount_usdc r = amount | None \<Rightarrow> False)"

lemma onboarding_tx_seen:
  assumes "record_onboarding_settlement_tx now fc i ev org amount ref payer chain tx d = Inr (cred, d')"
  shows "onboarding_seen org amount ref d' \<and> (onboarding_seen org amount ref d \<longrightarrow> money d' = money d)"
  using assms
proof (cases rule: onboarding_tx_cases)
  case (replayed r)
  then show ?thesis by (simp add: onboarding_seen_def credential_or_create_frame)
next
  case (credited d1 b d2)
  have "ledger_with_ref ref d' = Some (topup_row i org amount b ''x402_onboarding'' (Some ref) now)"
    using ledger_with_ref_snoc [of ref d1 d'] post_topup_ledger(1) [OF credited(3)] credited
    by (simp add: credential_or_create_frame)
  with credited(1) show ?thesis by (simp add: onboarding_seen_def)
qed

interpretation onboarding_once: credited_once
  "\<lambda>(now, fc, i, ev). record_onboarding_settlement now fc i ev org amount ref payer chain tx"
  "onboarding_seen org amount ref" for org amount ref payer chain tx
proof (unfold_locales, goal_cases)
  case (1 k d e)
  then show ?case
    by (cases k) (auto simp: record_onboarding_settlement_def transaction_def split: if_splits sum.splits)
next
  case (2 k d x)
  then show ?case
    by (cases k) (auto simp: record_onboarding_settlement_def transaction_def dest: onboarding_tx_seen
        split: if_splits sum.splits)
next
  case (3 d k)
  then show ?case
    by (cases k) (auto simp: record_onboarding_settlement_def transaction_def dest: onboarding_tx_seen
        split: if_splits sum.splits)
qed

lemma credential_or_create_active:
  assumes "credential_or_create now fc org d = Inr ((cred, secret), d')"
  shows "cc_org_id cred = org \<and> cc_disabled_at cred = None \<and> cred \<in> set (org_client_credentials d')"
proof (cases "active_credential org d")
  case None
  with assms show ?thesis
    by (auto simp: credential_or_create_def create_client_credential_in_transaction_def insert_credential_def
        Let_def bindE_eq_Inr_iff split: if_splits)
next
  case (Some c)
  then obtain cs where "sort_key cc_created_at
      (rows_where (\<lambda>c. cc_org_id c = org \<and> cc_disabled_at c = None) (org_client_credentials d)) = c # cs"
    by (auto simp: active_credential_def split: list.splits)
  then have "c \<in> set (rows_where (\<lambda>c. cc_org_id c = org \<and> cc_disabled_at c = None) (org_client_credentials d))"
    by (metis list.set_intros(1) set_sort)
  with Some assms show ?thesis by (auto simp: credential_or_create_def)
qed

lemma onboarding_tx_credential:
  assumes "record_onboarding_settlement_tx now fc i ev org amount ref payer chain tx d = Inr ((cred, secret), d')"
  shows "cc_org_id cred = org \<and> cc_disabled_at cred = None \<and> cred \<in> set (org_client_credentials d')"
  using assms
  by (cases rule: onboarding_tx_cases) (auto simp: post_topup_frame dest: credential_or_create_active)

section \<open>Every rail is audited\<close>

interpretation stripe_op: audited_operation "\<lambda>d. snd (process_stripe_event now i ev d)" for now i ev
proof unfold_locales
  fix d
  show "audited (snd (process_stripe_event now i ev d))" if "audited d"
    using that by (cases rule: process_stripe_event_cases [of now i ev d])
      (auto intro: rearm_op.keeps_audit dest: post_topup_audited [rotated])
  show "\<exists>new. org_credit_ledger (snd (process_stripe_event now i ev d)) = org_credit_ledger d @ new"
    by (cases rule: process_stripe_event_cases [of now i ev d])
      (auto simp: rearm_exhausted_credit_settlements_def Let_def dest: post_topup_ledger(1))
qed

interpretation usdc_op: audited_operation "\<lambda>d. snd (credit_usdc_topup now i org amount tx d)" for now i org amount tx
proof unfold_locales
  fix d
  show "audited (snd (credit_usdc_topup now i org amount tx d))" if "audited d"
    using that by (cases rule: credit_usdc_topup_cases [of now i org amount tx d])
      (auto intro: rearm_op.keeps_audit dest: post_topup_audited [rotated])
  show "\<exists>new. org_credit_ledger (snd (credit_usdc_topup now i org amount tx d)) = org_credit_ledger d @ new"
    by (cases rule: credit_usdc_topup_cases [of now i org amount tx d])
      (auto simp: rearm_exhausted_credit_settlements_def Let_def dest: post_topup_ledger(1))
qed

interpretation grant_op: audited_operation "\<lambda>d. snd (grant_onboarding_credit now i org amount d)" for now i org amount
proof unfold_locales
  fix d
  show "audited (snd (grant_onboarding_credit now i org amount d))" if "audited d"
    using that by (cases rule: grant_onboarding_credit_cases [of now i org amount d])
      (auto dest: post_topup_audited [rotated])
  show "\<exists>new. org_credit_ledger (snd (grant_onboarding_credit now i org amount d)) = org_credit_ledger d @ new"
    by (cases rule: grant_onboarding_credit_cases [of now i org amount d])
      (auto dest: post_topup_ledger(1))
qed

interpretation onboarding_op: audited_operation
  "\<lambda>d. snd (record_onboarding_settlement now fc i ev org amount ref payer chain tx d)"
  for now fc i ev org amount ref payer chain tx
proof unfold_locales
  fix d
  show "audited (snd (record_onboarding_settlement now fc i ev org amount ref payer chain tx d))" if "audited d"
    using that
    by (auto simp: record_onboarding_settlement_def transaction_def credential_or_create_frame
        split: sum.splits elim!: onboarding_tx_cases dest: post_topup_audited [rotated])
  show "\<exists>new. org_credit_ledger (snd (record_onboarding_settlement now fc i ev org amount ref payer chain tx d)) =
      org_credit_ledger d @ new"
    by (auto simp: record_onboarding_settlement_def transaction_def credential_or_create_frame
        split: sum.splits elim!: onboarding_tx_cases dest: post_topup_ledger(1))
qed

lemma retry_grants_Cons:
  obtains d2 where
    "snd (retry_grants exc_str now fresh k (r # rows) d) = snd (retry_grants exc_str now fresh (Suc k) rows d2)"
    "audited d2 = audited (snd (grant_onboarding_credit now (fresh k) (go_org_id r) (go_amount_usdc r) d))"
    "org_credit_ledger d2 =
       org_credit_ledger (snd (grant_onboarding_credit now (fresh k) (go_org_id r) (go_amount_usdc r) d))"
proof (cases "grant_onboarding_credit now (fresh k) (go_org_id r) (go_amount_usdc r) d")
  case (Pair res d1)
  show ?thesis
  proof (cases res)
    case (Inl e)
    with Pair that [of "note_grant_failure (go_org_id r) (exc_str e) d1"] show ?thesis
      by (simp add: note_grant_failure_def)
  next
    case (Inr n)
    with Pair that [of "clear_onboarding_credit_outbox (go_org_id r) d1"] show ?thesis
      by (simp add: clear_onboarding_credit_outbox_def case_prod_beta Let_def)
  qed
qed

lemma retry_grants_audited:
  "audited d \<Longrightarrow> audited (snd (retry_grants exc_str now fresh k rows d))"
proof (induction rows arbitrary: k d)
  case (Cons r rows)
  then show ?case
    using grant_op.keeps_audit [OF Cons.prems] retry_grants_Cons [of exc_str now fresh k r rows d] by metis
qed simp

lemma retry_grants_grows:
  "\<exists>new. org_credit_ledger (snd (retry_grants exc_str now fresh k rows d)) = org_credit_ledger d @ new"
proof (induction rows arbitrary: k d)
  case (Cons r rows)
  obtain d2 where d2: "snd (retry_grants exc_str now fresh k (r # rows) d) = snd (retry_grants exc_str now fresh (Suc k) rows d2)"
    "org_credit_ledger d2 = org_credit_ledger (snd (grant_onboarding_credit now (fresh k) (go_org_id r) (go_amount_usdc r) d))"
    by (rule retry_grants_Cons)
  from grant_op.ledger_grows [of now "fresh k" "go_org_id r" "go_amount_usdc r" d] d2(2)
  obtain new where "org_credit_ledger d2 = org_credit_ledger d @ new" by auto
  with d2(1) Cons.IH [of "Suc k" d2] show ?case by auto
qed simp

interpretation outbox_op: audited_operation
  "\<lambda>d. snd (process_onboarding_credit_outbox exc_str now fresh limit d)" for exc_str now fresh limit
  by unfold_locales (simp_all add: process_onboarding_credit_outbox_def retry_grants_audited retry_grants_grows)

section \<open>Properties\<close>

text \<open>
  A paid Stripe checkout is credited exactly once. An accepted webhook delivery either leaves all
  balances and the ledger alone (an event of another kind, unpaid, without organisation or amount, or
  already processed) or adds the event's amount to its organisation; redelivering the payload any
  number of times afterwards moves no money.
\<close>

theorem stripe_credited_once:
  assumes "handle_stripe_webhook construct_event now i payload sig d = (Inr (), d1)"
  shows "(\<exists>ev. construct_event payload sig = Inr ev \<and>
      (if stripe_seen ev d then money d1 = money d
       else \<exists>org. stripe_org ev = Some org \<and> 0 < stripe_amount ev \<and>
         (\<forall>x. get_credit_balance x d1 = get_credit_balance x d + (if x = org then stripe_amount ev else 0)))) \<and>
    money (fold (\<lambda>(now', i') d'. snd (handle_stripe_webhook construct_event now' i' payload sig d')) ks d1) = money d1"
proof -
  from assms obtain ev where ev: "sig \<noteq> []" "construct_event payload sig = Inr ev"
    and run: "process_stripe_event now i ev d = (Inr (), d1)"
    by (auto simp: handle_stripe_webhook_def split: if_splits sum.splits)
  have handle: "(\<lambda>(now', i') d'. snd (handle_stripe_webhook construct_event now' i' payload sig d')) =
      (\<lambda>k d'. snd (case k of (now', i') \<Rightarrow> process_stripe_event now' i' ev d'))"
    using ev by (auto simp: handle_stripe_webhook_def fun_eq_iff)
  have "money (fold (\<lambda>k d'. snd (case k of (now', i') \<Rightarrow> process_stripe_event now' i' ev d')) ks d1) = money d1"
    using stripe_once.redeliveries [of ev "(now, i)" d "()" ks] run by (simp add: case_prod_beta)
  moreover have "if stripe_seen ev d then money d1 = money d
       else \<exists>org. stripe_org ev = Some org \<and> 0 < stripe_amount ev \<and>
         (\<forall>x. get_credit_balance x d1 = get_credit_balance x d + (if x = org then stripe_amount ev else 0))"
  proof (cases rule: process_stripe_event_cases [of now i ev d])
    case (credited org b d2 d')
    have "get_credit_balance x d1 = get_credit_balance x d2" for x
      using credited run by (intro money_balance) simp
    with post_topup_ledger(2) [OF credited(6)] credited show ?thesis by (simp add: get_credit_balance_def)
  qed (use run in auto)
  ultimately show ?thesis using ev handle by simp
qed

definition demo_stripe_event :: stripe_event where
  "demo_stripe_event = \<lparr>se_id = ''evt1'', se_type = ''checkout.session.completed'', se_payment_status = ''paid'',
     se_client_reference_id = Some ''acme'', se_metadata = [''amount_usdc'' \<mapsto> ''25''], se_amount_total = None\<rparr>"

lemmas topup_eval_simps = post_topup_def upsert_credit_def insert_ledger_def transaction_def bigint_def
  insert_event_guard_def get_credit_balance_def

lemma demo_stripe_fields: "se_id demo_stripe_event = ''evt1''" "se_type demo_stripe_event = ''checkout.session.completed''"
  "se_payment_status demo_stripe_event = ''paid''"
  by (simp_all add: demo_stripe_event_def)

lemma demo_stripe_amount: "stripe_amount demo_stripe_event = 25" "stripe_org demo_stripe_event = Some ''acme''"
  by (simp_all add: stripe_amount_def stripe_org_def demo_stripe_event_def truthy_def py_int_def py_strip_def
      py_isspace_def py_unsigned_def digit_value_def)

theorem stripe_credited_once_witness:
  "\<exists>d1. handle_stripe_webhook (\<lambda>p s. Inr demo_stripe_event) 7 ''t1'' () ''sig'' demo_db = (Inr (), d1) \<and>
     get_credit_balance ''acme'' d1 = 125 \<and>
     money (snd (handle_stripe_webhook (\<lambda>p s. Inr demo_stripe_event) 8 ''t2'' () ''sig'' d1)) = money d1"
proof -
  obtain d1 where run: "handle_stripe_webhook (\<lambda>p s. Inr demo_stripe_event) 7 ''t1'' () ''sig'' demo_db = (Inr (), d1)"
    by (simp add: handle_stripe_webhook_def process_stripe_event_def demo_stripe_amount demo_stripe_fields
        stripe_credit_tx_def topup_eval_simps demo_simps Let_def)
  have "\<not> stripe_seen demo_stripe_event demo_db"
    by (simp add: stripe_seen_def stripe_ignored_def demo_stripe_amount demo_stripe_fields demo_simps)
  moreover have "get_credit_balance ''acme'' demo_db = 100" by (simp add: demo_simps get_credit_balance_def)
  ultimately show ?thesis
    using stripe_credited_once [OF run, of "[(8, ''t2'')]"] run by (simp add: demo_stripe_amount)
qed

text \<open>
  C15. An on-chain top-up is credited once per transaction hash: the first accepted call adds its
  amount to the organisation and returns the new balance; every later call with that hash, for
  whatever organisation and amount, credits nothing and never reports a balance.
\<close>

theorem usdc_topup_once:
  assumes "credit_usdc_topup now i org amount tx d = (Inr (Some b), d1)"
  shows "b = get_credit_balance org d + amount \<and>
    (\<forall>x. get_credit_balance x d1 = get_credit_balance x d + (if x = org then amount else 0)) \<and>
    money (snd (credit_usdc_topup now' i' org' amount' tx d1)) = money d1 \<and>
    (\<forall>b'. fst (credit_usdc_topup now' i' org' amount' tx d1) \<noteq> Inr (Some b'))"
proof (cases rule: credit_usdc_topup_cases [of now i org amount tx d])
  case (unchanged r)
  with assms show ?thesis by auto
next
  case (credited b' d2)
  have "get_credit_balance x d1 = get_credit_balance x d2" for x
    using credited assms by (intro money_balance) simp
  moreover have "b' = get_credit_balance org d + amount"
    using credited(3) by (auto elim!: post_topup_InrD simp: get_credit_balance_def)
  moreover have seen: "tx \<in> fst ` set (usdc_topup_events d1)"
    using credited assms post_topup_frame(2) [OF credited(3)] by auto
  moreover have "money (snd (credit_usdc_topup now' i' org' amount' tx d1)) = money d1"
    using usdc_once.replay [OF seen, of org' amount' "(now', i')"] by simp
  moreover have "fst (credit_usdc_topup now' i' org' amount' tx d1) \<noteq> Inr (Some c)" for c
    using seen by (cases rule: credit_usdc_topup_cases [of now' i' org' amount' tx d1]) auto
  ultimately show ?thesis
    using post_topup_ledger(2) [OF credited(3)] credited assms by (simp add: get_credit_balance_def)
qed

theorem usdc_topup_once_witness:
  "\<exists>d1. credit_usdc_topup 7 ''t1'' ''acme'' 11 ''0xabc'' demo_db = (Inr (Some 111), d1) \<and>
     get_credit_balance ''acme'' d1 = 111 \<and> money (snd (credit_usdc_topup 9 ''t2'' ''acme'' 11 ''0xabc'' d1)) = money d1"
proof -
  obtain d1 where run: "credit_usdc_topup 7 ''t1'' ''acme'' 11 ''0xabc'' demo_db = (Inr (Some 111), d1)"
    by (simp add: credit_usdc_topup_def credit_usdc_topup_tx_def topup_eval_simps demo_simps Let_def)
  have "get_credit_balance ''acme'' demo_db = 100" by (simp add: demo_simps get_credit_balance_def)
  with usdc_topup_once [OF run, of 9 "''t2''" "''acme''" 11] run show ?thesis by simp
qed

text \<open>
  An organisation receives the verified-email grant once: a grant that returns a positive amount
  added exactly that amount under the ledger id recorded in its marker, and every later grant to the
  organisation, of any amount and from any retry, returns zero or raises and moves no money.
\<close>

theorem onboarding_grant_once:
  assumes "grant_onboarding_credit now i org amount d = (Inr a, d1)" and "0 < a"
  shows "a = amount \<and>
    (\<forall>x. get_credit_balance x d1 = get_credit_balance x d + (if x = org then amount else 0)) \<and>
    \<lparr>gr_org_id = org, gr_amount_usdc = amount, gr_ledger_entry_id = i\<rparr> \<in> set (org_onboarding_credit_grants d1) \<and>
    money (fold (\<lambda>(now', i', amount') d'. snd (grant_onboarding_credit now' i' org amount' d')) ks d1) = money d1 \<and>
    fst (grant_onboarding_credit now' i' org amount' d1) \<in> {Inr 0} \<union> range Inl"
proof (cases rule: grant_onboarding_credit_cases [of now i org amount d])
  case (unchanged r)
  with assms show ?thesis by auto
next
  case (granted b d2)
  have seen: "org \<in> gr_org_id ` set (org_onboarding_credit_grants d1)"
    using granted assms post_topup_frame(3) [OF granted(4)] by auto
  have "(\<lambda>(now', i', amount') d'. snd (grant_onboarding_credit now' i' org amount' d')) =
      (\<lambda>k d'. snd ((case k of (now', i', amount') \<Rightarrow> grant_onboarding_credit now' i' org amount') d'))"
    by (auto simp: fun_eq_iff)
  then have "money (fold (\<lambda>(now', i', amount') d'. snd (grant_onboarding_credit now' i' org amount' d')) ks d1) = money d1"
    using grant_once.redeliveries_seen [OF seen, of ks] by simp
  moreover have "fst (grant_onboarding_credit now' i' org amount' d1) \<in> {Inr 0} \<union> range Inl"
  proof (cases rule: grant_onboarding_credit_cases [of now' i' org amount' d1])
    case (unchanged r)
    then show ?thesis by (cases r) auto
  qed (use seen in simp)
  ultimately show ?thesis
    using post_topup_ledger(2) [OF granted(4)] post_topup_frame(3) [OF granted(4)] granted assms
    by (simp add: get_credit_balance_def)
qed

theorem onboarding_grant_once_witness:
  "\<exists>d1. grant_onboarding_credit 7 ''g1'' ''acme'' 50 demo_db = (Inr 50, d1) \<and> get_credit_balance ''acme'' d1 = 150"
proof -
  obtain d1 where run: "grant_onboarding_credit 7 ''g1'' ''acme'' 50 demo_db = (Inr 50, d1)"
    by (simp add: grant_onboarding_credit_def grant_onboarding_credit_tx_def insert_grant_def topup_eval_simps
        demo_simps Let_def)
  have "get_credit_balance ''acme'' demo_db = 100" by (simp add: demo_simps get_credit_balance_def)
  with onboarding_grant_once [OF run, of "[]" 0 "[]" 0] run show ?thesis by simp
qed

text \<open>What a first delivery needs to be recorded: the organisation exists, the amount fits, the fresh ids are fresh.\<close>

definition onboarding_recordable ::
  "fresh_credential \<Rightarrow> ident \<Rightarrow> ident \<Rightarrow> ident \<Rightarrow> usdc \<Rightarrow> int \<Rightarrow> db \<Rightarrow> bool" where
  "onboarding_recordable fc i ev org amount chain d \<longleftrightarrow>
     orgs d org \<noteq> None \<and> 0 < amount \<and> 0 \<le> get_credit_balance org d \<and> bigint (get_credit_balance org d + amount) \<and>
     - (2 ^ 31) \<le> chain \<and> chain < 2 ^ 31 \<and>
     i \<notin> led_id ` set (org_credit_ledger d) \<and> ev \<notin> pe_id ` set (org_provisioning_events d) \<and>
     fc_client_id fc \<notin> cc_client_id ` set (org_client_credentials d)"

lemma credential_or_create_ok:
  assumes "orgs d org \<noteq> None" and "fc_client_id fc \<notin> cc_client_id ` set (org_client_credentials d)"
  shows "\<exists>cred secret d'. credential_or_create now fc org d = Inr ((cred, secret), d') \<and>
    org_provisioning_events d' = org_provisioning_events d \<and> org_credits d' = org_credits d"
  using assms
  by (auto simp: credential_or_create_def create_client_credential_in_transaction_def insert_credential_def
      Let_def exists_where_def list_ex_iff image_iff split: option.split)

lemma post_topup_ok:
  assumes "orgs d org \<noteq> None" and "0 < amount" and "0 \<le> get_credit_balance org d"
    and "bigint (get_credit_balance org d + amount)" and "i \<notin> led_id ` set (org_credit_ledger d)"
    and "ledger_with_ref ref d = None"
  shows "\<exists>b d'. post_topup now i org amount reason (Some ref) d = Inr (b, d') \<and>
    org_provisioning_events d' = org_provisioning_events d"
proof -
  have "bigint amount" using assms(2-4) by (auto simp: bigint_def)
  with assms show ?thesis
    by (cases "org_credits d org")
      (auto simp: post_topup_def upsert_credit_def insert_ledger_def topup_row_def get_credit_balance_def Let_def
        ledger_with_ref_def find_None exists_where_def list_ex_iff image_iff)
qed

lemma onboarding_tx_first:
  assumes "onboarding_recordable fc i ev org amount chain d" and "ledger_with_ref ref d = None"
  shows "\<exists>cred secret d'. record_onboarding_settlement_tx now fc i ev org amount ref payer chain tx d = Inr ((cred, secret), d') \<and>
    org_provisioning_events d' = org_provisioning_events d @
      [\<lparr>pe_id = ev, pe_org_id = org, pe_payer_address = payer, pe_chain_id = chain,
        pe_settlement_tx = tx, pe_payment_ref = ref, pe_amount_usdc = amount\<rparr>] \<and>
    org_credit_ledger d' = org_credit_ledger d @
      [topup_row i org amount (get_credit_balance org d + amount) ''x402_onboarding'' (Some ref) now] \<and>
    (\<forall>x. get_credit_balance x d' = get_credit_balance x d + (if x = org then amount else 0))"
proof -
  note ok = assms(1) [unfolded onboarding_recordable_def]
  obtain cred secret d1 where c: "credential_or_create now fc org d = Inr ((cred, secret), d1)"
      "org_provisioning_events d1 = org_provisioning_events d"
    using credential_or_create_ok [of d org fc now] ok by auto
  note frame = credential_or_create_frame [OF c(1)]
  obtain b d2 where p: "post_topup now i org amount ''x402_onboarding'' (Some ref) d1 = Inr (b, d2)"
      "org_provisioning_events d2 = org_provisioning_events d1"
    using post_topup_ok [of d1 org amount i ref now "''x402_onboarding''"] ok assms(2) frame by auto
  have "bigint amount" using ok by (auto simp: bigint_def)
  then have "record_onboarding_settlement_tx now fc i ev org amount ref payer chain tx d = Inr ((cred, secret),
      d2\<lparr>org_provisioning_events := org_provisioning_events d2 @
        [\<lparr>pe_id = ev, pe_org_id = org, pe_payer_address = payer, pe_chain_id = chain,
          pe_settlement_tx = tx, pe_payment_ref = ref, pe_amount_usdc = amount\<rparr>]\<rparr>)"
    using assms(2) c p ok frame post_topup_frame(4) [OF p(1)]
    by (auto simp: record_onboarding_settlement_tx_def insert_provisioning_event_def exists_where_def list_ex_iff)
  moreover have "b = get_credit_balance org d + amount"
    using p(1) frame by (auto elim!: post_topup_InrD)
  ultimately show ?thesis
    using c(2) p(2) frame post_topup_ledger [OF p(1)] by (auto simp: get_credit_balance_def)
qed

text \<open>A recording that raises, whatever its arguments, leaves the database as it was.\<close>

lemma onboarding_raise_keeps:
  "record_onboarding_settlement now fc i ev org amount ref payer chain tx d = (Inl e, d') \<Longrightarrow> d' = d"
  by (auto simp: record_onboarding_settlement_def transaction_def split: if_splits sum.splits)

lemma onboarding_replays_free:
  assumes "record_onboarding_settlement_tx now fc i ev org amount ref payer chain tx d = Inr (c, d')"
  shows "money (fold (\<lambda>(now', fc', i', ev') d''. snd (record_onboarding_settlement now' fc' i' ev' org amount ref payer
    chain tx d'')) ks d') = money d'"
proof -
  have "(\<lambda>(now', fc', i', ev') d''. snd (record_onboarding_settlement now' fc' i' ev' org amount ref payer chain tx d'')) =
      (\<lambda>k d''. snd ((case k of (now', fc', i', ev') \<Rightarrow>
        record_onboarding_settlement now' fc' i' ev' org amount ref payer chain tx) d''))"
    by (auto simp: fun_eq_iff)
  then show ?thesis
    using onboarding_once.redeliveries_seen [of org amount ref d' payer chain tx ks] onboarding_tx_seen [OF assms] by simp
qed

text \<open>
  C16. A settled bootstrap payment is recorded, once and whole. When the organisation exists, the new
  balance fits and the fresh ids are fresh, a payment with a reference not yet in the ledger is accepted:
  the organisation's balance grows by exactly the amount and no other balance changes, the ledger gets
  exactly the one top-up row with the reference and the new balance, the audit table gets exactly the row
  with payer, chain, transaction, reference and amount, an active credential of the organisation is
  returned, and recording the payment again any number of times moves no money. A reference already bound
  to another organisation or amount is refused with nothing changed; one already recorded for this
  payment moves no money, adds no audit row and returns an active credential. Whatever the arguments, a
  recording that raises changes nothing.
\<close>

theorem onboarding_settlement_atomic:
  assumes "onboarding_recordable fc i ev org amount chain d" and "ref \<noteq> []" and "tx \<noteq> []"
  shows "(case ledger_with_ref ref d of
      None \<Rightarrow> \<exists>cred secret d'. record_onboarding_settlement now fc i ev org amount ref payer chain tx d = (Inr (cred, secret), d') \<and>
        (\<forall>x. get_credit_balance x d' = get_credit_balance x d + (if x = org then amount else 0)) \<and>
        org_credit_ledger d' = org_credit_ledger d @
          [topup_row i org amount (get_credit_balance org d + amount) ''x402_onboarding'' (Some ref) now] \<and>
        org_provisioning_events d' = org_provisioning_events d @
          [\<lparr>pe_id = ev, pe_org_id = org, pe_payer_address = payer, pe_chain_id = chain,
            pe_settlement_tx = tx, pe_payment_ref = ref, pe_amount_usdc = amount\<rparr>] \<and>
        cc_org_id cred = org \<and> cc_disabled_at cred = None \<and> cred \<in> set (org_client_credentials d') \<and>
        money (fold (\<lambda>(now', fc', i', ev') d''. snd (record_onboarding_settlement now' fc' i' ev' org amount ref payer
          chain tx d'')) ks d') = money d'
    | Some r \<Rightarrow>
        if led_org_id r = org \<and> led_amount_usdc r = amount
        then \<exists>cred secret d'. record_onboarding_settlement now fc i ev org amount ref payer chain tx d = (Inr (cred, secret), d') \<and>
          money d' = money d \<and> org_provisioning_events d' = org_provisioning_events d \<and>
          cc_org_id cred = org \<and> cc_disabled_at cred = None \<and> cred \<in> set (org_client_credentials d')
        else record_onboarding_settlement now fc i ev org amount ref payer chain tx d =
          (Inl (ValueError ''Onboarding payment reference is bound to a different settlement''), d)) \<and>
    (case record_onboarding_settlement now1 fc1 i1 ev1 org1 amount1 ref1 payer1 chain1 tx1 d1 of
       (Inl e, d') \<Rightarrow> d' = d1 | (Inr _, _) \<Rightarrow> True)"
proof -
  have raise: "case record_onboarding_settlement now1 fc1 i1 ev1 org1 amount1 ref1 payer1 chain1 tx1 d1 of
       (Inl e, d') \<Rightarrow> d' = d1 | (Inr _, _) \<Rightarrow> True"
    using onboarding_raise_keeps by (auto split: prod.split sum.split)
  have run: "record_onboarding_settlement now fc i ev org amount ref payer chain tx d =
      transaction (record_onboarding_settlement_tx now fc i ev org amount ref payer chain tx) d"
    using assms by (simp add: record_onboarding_settlement_def onboarding_recordable_def)
  show ?thesis
  proof (cases "ledger_with_ref ref d")
    case None
    then obtain cred secret d' where tx: "record_onboarding_settlement_tx now fc i ev org amount ref payer chain tx d =
        Inr ((cred, secret), d')"
      and books: "org_provisioning_events d' = org_provisioning_events d @
          [\<lparr>pe_id = ev, pe_org_id = org, pe_payer_address = payer, pe_chain_id = chain,
            pe_settlement_tx = tx, pe_payment_ref = ref, pe_amount_usdc = amount\<rparr>]"
        "org_credit_ledger d' = org_credit_ledger d @
          [topup_row i org amount (get_credit_balance org d + amount) ''x402_onboarding'' (Some ref) now]"
        "\<forall>x. get_credit_balance x d' = get_credit_balance x d + (if x = org then amount else 0)"
      using onboarding_tx_first [OF assms(1), of ref now payer tx] by blast
    show ?thesis
      using None run tx books onboarding_tx_credential [OF tx] onboarding_replays_free [OF tx, of ks] raise
      by (simp add: transaction_def)
  next
    case (Some r)
    obtain cred secret d' where c: "credential_or_create now fc org d = Inr ((cred, secret), d')"
        "org_provisioning_events d' = org_provisioning_events d"
      using credential_or_create_ok [of d org fc now] assms(1) by (auto simp: onboarding_recordable_def)
    show ?thesis
      using Some run c credential_or_create_frame(1) [OF c(1)] credential_or_create_active [OF c(1)] raise
      by (simp add: transaction_def record_onboarding_settlement_tx_def)
  qed
qed

definition demo_fresh_credential :: fresh_credential where
  "demo_fresh_credential = \<lparr>fc_client_id = ''client'', fc_secret = ''secret'', fc_hashed = ''hash'', fc_salt = ''salt''\<rparr>"

theorem onboarding_settlement_atomic_witness:
  "\<exists>cred secret d'. record_onboarding_settlement 7 demo_fresh_credential ''l1'' ''e1'' ''acme'' 25 ''ref1'' ''0xpayer'' 8453 ''0xtx''
      demo_db = (Inr (cred, secret), d') \<and>
    get_credit_balance ''acme'' d' = 125 \<and>
    org_provisioning_events d' = [\<lparr>pe_id = ''e1'', pe_org_id = ''acme'', pe_payer_address = ''0xpayer'', pe_chain_id = 8453,
      pe_settlement_tx = ''0xtx'', pe_payment_ref = ''ref1'', pe_amount_usdc = 25\<rparr>] \<and>
    money (snd (record_onboarding_settlement 8 demo_fresh_credential ''l2'' ''e2'' ''acme'' 25 ''ref1'' ''0xpayer'' 8453 ''0xtx'' d')) =
      money d'"
proof -
  have ok: "onboarding_recordable demo_fresh_credential ''l1'' ''e1'' ''acme'' 25 8453 demo_db"
    by (simp add: onboarding_recordable_def demo_simps get_credit_balance_def bigint_def)
  have new: "ledger_with_ref ''ref1'' demo_db = None" by (simp add: ledger_with_ref_def demo_simps)
  have start: "get_credit_balance ''acme'' demo_db = 100" "org_provisioning_events demo_db = []"
    by (simp_all add: demo_simps get_credit_balance_def)
  from onboarding_settlement_atomic [OF ok, where ref = "''ref1''" and tx = "''0xtx''" and now = 7 and payer = "''0xpayer''"
        and ks = "[(8, demo_fresh_credential, ''l2'', ''e2'')]", THEN conjunct1] new start
  obtain cred secret d' where run: "record_onboarding_settlement 7 demo_fresh_credential ''l1'' ''e1'' ''acme'' 25 ''ref1''
      ''0xpayer'' 8453 ''0xtx'' demo_db = (Inr (cred, secret), d')"
    and rest: "\<forall>x. get_credit_balance x d' = get_credit_balance x demo_db + (if x = ''acme'' then 25 else 0)"
      "org_provisioning_events d' = [\<lparr>pe_id = ''e1'', pe_org_id = ''acme'', pe_payer_address = ''0xpayer'', pe_chain_id = 8453,
        pe_settlement_tx = ''0xtx'', pe_payment_ref = ''ref1'', pe_amount_usdc = 25\<rparr>]"
      "money (snd (record_onboarding_settlement 8 demo_fresh_credential ''l2'' ''e2'' ''acme'' 25 ''ref1'' ''0xpayer'' 8453
        ''0xtx'' d')) = money d'"
    by auto
  from rest(1) have "get_credit_balance ''acme'' d' = 125" using start by simp
  with run rest(2,3) show ?thesis by blast
qed

text \<open>
  Promotional standing lasts until the first other top-up: debits keep a grant-only organisation
  promotional, and any further top-up of it, from any rail, ends that standing.
\<close>

theorem promotional_until_topup:
  assumes "is_promotional_credit org d"
    and "\<forall>g \<in> set (org_onboarding_credit_grants d). gr_ledger_entry_id g \<in> led_id ` set (org_credit_ledger d)"
    and "debit_credit st now i org amount reason p d = ((ok, a), d1)" and "0 < amount"
    and "post_topup now' j org amount' reason' ref d1 = Inr (b, d2)"
  shows "is_promotional_credit org d1 \<and> \<not> is_promotional_credit org d2"
proof -
  obtain g where g: "find (\<lambda>g. gr_org_id g = org) (org_onboarding_credit_grants d) = Some g"
    and only: "\<forall>r \<in> set (org_credit_ledger d). led_org_id r = org \<longrightarrow> led_operation r = Topup \<longrightarrow>
      led_id r = gr_ledger_entry_id g"
    using assms(1) by (auto simp: is_promotional_credit_def split: option.splits)
  have d1: "org_onboarding_credit_grants d1 = org_onboarding_credit_grants d"
    "set (org_credit_ledger d) \<subseteq> set (org_credit_ledger d1)"
    "\<forall>r \<in> set (org_credit_ledger d1) - set (org_credit_ledger d). led_operation r = Debit"
    using debit_credit_frame [OF assms(3,4)] by auto
  have "j \<notin> led_id ` set (org_credit_ledger d1)"
    using assms(5) by (auto elim!: post_topup_InrD dest!: insert_ledger_InrD(5))
  moreover have "gr_ledger_entry_id g \<in> led_id ` set (org_credit_ledger d1)"
    using assms(2) find_SomeD [OF g] d1(2) by blast
  ultimately have "j \<noteq> gr_ledger_entry_id g" by auto
  with g only d1 post_topup_ledger(1) [OF assms(5)] post_topup_frame(3) [OF assms(5)] show ?thesis
    by (auto simp: is_promotional_credit_def)
qed

theorem promotional_until_topup_witness:
  "\<exists>d0 a d1 b d2. grant_onboarding_credit 0 ''g1'' ''acme'' 50 (empty_db\<lparr>orgs := [''acme'' \<mapsto> \<lparr>org_acquisition_source = ''email''\<rparr>]\<rparr>)
      = (Inr 50, d0) \<and>
     debit_credit default_settings 5 ''x1'' ''acme'' 20 ''run'' None d0 = ((True, a), d1) \<and>
     post_topup 6 ''t1'' ''acme'' 7 ''paid'' None d1 = Inr (b, d2) \<and>
     is_promotional_credit ''acme'' d1 \<and> \<not> is_promotional_credit ''acme'' d2"
proof -
  let ?e = "empty_db\<lparr>orgs := [''acme'' \<mapsto> \<lparr>org_acquisition_source = ''email''\<rparr>]\<rparr>"
  let ?d0 = "snd (grant_onboarding_credit 0 ''g1'' ''acme'' 50 ?e)"
  let ?r1 = "debit_credit default_settings 5 ''x1'' ''acme'' 20 ''run'' None ?d0"
  have d0: "grant_onboarding_credit 0 ''g1'' ''acme'' 50 ?e = (Inr 50, ?d0)"
    and prom: "is_promotional_credit ''acme'' ?d0"
    and linked: "\<forall>g \<in> set (org_onboarding_credit_grants ?d0). gr_ledger_entry_id g \<in> led_id ` set (org_credit_ledger ?d0)"
    by (simp_all add: grant_onboarding_credit_def grant_onboarding_credit_tx_def insert_grant_def topup_eval_simps
        demo_simps Let_def is_promotional_credit_def)
  have "\<exists>a d1 b d2. ?r1 = ((True, a), d1) \<and> post_topup 6 ''t1'' ''acme'' 7 ''paid'' None d1 = Inr (b, d2)"
    by (simp add: grant_onboarding_credit_def grant_onboarding_credit_tx_def insert_grant_def topup_eval_simps
        debit_eval_simps demo_simps Let_def invalidate_daily_spend_cache_def)
  then obtain a d1 b d2 where r: "?r1 = ((True, a), d1)" "post_topup 6 ''t1'' ''acme'' 7 ''paid'' None d1 = Inr (b, d2)"
    by blast
  from promotional_until_topup [OF prom linked r(1) _ r(2)] d0 r show ?thesis by auto
qed

end
