(* ===== verification/Delegation.thy ===== *)
theory Delegation
  imports Settlement
begin

text \<open>
  Billing of outbound agent-to-agent calls (\<^verbatim>\<open>billing/delegation.py\<close>,
  \<^verbatim>\<open>BillingDelegationService\<close>): a delegation is debited up front, held in the refund outbox,
  trimmed to the signed charge when delivery starts, and ends confirmed (the charge is captured) or
  refunded (the whole hold returns as a reversal of the debit). A crash between two calls leaves a
  state from which the outbox worker continues.

  The lemmas show that the two status columns of a row move through a fixed state machine, that
  balance plus held amounts is the same before and after every operation, that a debit is reversed
  at most once, and that the treasury's 24-hour outflow stays within its cap.
\<close>

section \<open>Normalisation\<close>

definition delegation_task_types :: "string list" where
  "delegation_task_types = [''general'', ''research'', ''analysis'', ''data_retrieval'', ''coding'', ''transaction'', ''automation'']"

definition normalize_task_type :: "string \<Rightarrow> string" where
  "normalize_task_type s = (let n = py_lower (py_strip s) in if n \<in> set delegation_task_types then n else ''general'')"

definition normalize_failure_origin :: "string \<Rightarrow> string" where
  "normalize_failure_origin s =
    (let n = py_lower (py_strip s) in if n \<in> {''unknown'', ''local'', ''remote''} then n else ''unknown'')"

definition is_transaction_hash :: "string \<Rightarrow> bool" where
  "is_transaction_hash s \<longleftrightarrow> take 2 s = ''0x'' \<and> length s = 66 \<and> list_all is_hex_char (drop 2 s)"

definition normalize_delivery_transaction :: "string option \<Rightarrow> string" where
  "normalize_delivery_transaction tx =
    (let v = py_strip (case tx of None \<Rightarrow> [] | Some s \<Rightarrow> s) in if v = [] \<or> is_transaction_hash v then v else [])"

section \<open>Preflight\<close>

datatype delegation_refusal =
    ExceedsGlobalCap usdc usdc
  | DelegationOrgPaused
  | DelegationInsufficientCredit usdc usdc
  | DelegationDailyLimit usdc usdc
  | DelegationPrincipalPaused
  | DelegationPrincipalLimit

definition check_delegation_budget ::
  "settings \<Rightarrow> instant \<Rightarrow> ident \<Rightarrow> usdc \<Rightarrow> ident option \<Rightarrow> db \<Rightarrow> delegation_refusal option" where
  "check_delegation_budget st now org cost p d =
    (if \<not> a2a_delegation_billing_enabled st then None
     else if cost > a2a_delegation_max_cost_usdc st then Some (ExceedsGlobalCap cost (a2a_delegation_max_cost_usdc st))
     else
       (let row = org_credits d org;
            balance = (case row of Some c \<Rightarrow> cr_balance_usdc c | None \<Rightarrow> 0);
            limit = (case row of Some c \<Rightarrow> cr_spending_limit_usdc c | None \<Rightarrow> 0);
            paused = (case row of Some c \<Rightarrow> cr_is_paused c | None \<Rightarrow> False)
        in if paused then Some DelegationOrgPaused
           else if balance < cost then Some (DelegationInsufficientCredit balance cost)
           else if limit > 0 \<and> get_daily_debit_spend now org d + cost > limit
           then Some (DelegationDailyLimit (get_daily_debit_spend now org d) limit)
           else case p of
             None \<Rightarrow> None
           | Some q \<Rightarrow>
               if q = [] then None
               else case org_principal_spend_limits d (org, q) of
                 None \<Rightarrow> None
               | Some l \<Rightarrow>
                   if pl_is_paused l then Some DelegationPrincipalPaused
                   else if get_daily_principal_debit_spend now org q d + cost > pl_daily_limit_usdc l
                   then Some DelegationPrincipalLimit else None))"

section \<open>Funding\<close>

definition fund_delegation ::
  "settings \<Rightarrow> instant \<Rightarrow> ident \<Rightarrow> ident \<Rightarrow> usdc \<Rightarrow> ident \<Rightarrow> string \<Rightarrow> ident \<Rightarrow> ident option \<Rightarrow> db \<Rightarrow> bool \<times> db" where
  "fund_delegation st now ledger_id org cost run_id agent_url delegation_id p d =
    (let ((success, _), d') = debit_credit_with_delegation_refund st now ledger_id org cost
       (''a2a_delegation run='' @ run_id @ '' agent='' @ agent_url) delegation_id run_id p d
     in (success, d'))"

section \<open>The outbox row\<close>

text \<open>The \<^verbatim>\<open>CHECK\<close> constraints of the outbox table, applied to every updated row.\<close>

definition outbox_check :: "refund_outbox_row \<Rightarrow> bool" where
  "outbox_check r \<longleftrightarrow>
     0 < ob_amount_usdc r \<and> bigint (ob_amount_usdc r) \<and>
     (ob_resolved_at r = None \<longleftrightarrow> ob_status r \<in> {RefundPending, RefundRequested})"

definition update_outbox ::
  "(refund_outbox_row \<Rightarrow> bool) \<Rightarrow> (refund_outbox_row \<Rightarrow> refund_outbox_row) \<Rightarrow> db \<Rightarrow> py_error + db" where
  "update_outbox p f d =
    (if list_all (\<lambda>r. p r \<longrightarrow> outbox_check (f r)) (a2a_delegation_refund_outbox d)
     then Inr (d\<lparr>a2a_delegation_refund_outbox := update_where p f (a2a_delegation_refund_outbox d)\<rparr>)
     else Inl (DbError CheckViolation))"

definition coalesce :: "'a option \<Rightarrow> 'a \<Rightarrow> 'a option" where
  "coalesce x y = (case x of None \<Rightarrow> Some y | Some v \<Rightarrow> Some v)"

definition is_delegation :: "ident \<Rightarrow> ident \<Rightarrow> refund_outbox_row \<Rightarrow> bool" where
  "is_delegation org i r \<longleftrightarrow> ob_id r = i \<and> ob_org_id r = org"

text \<open>\<^verbatim>\<open>LEFT JOIN org_credit_ledger AS debit\<close>: the principal of the debit row.\<close>

definition debit_principal :: "refund_outbox_row \<Rightarrow> db \<Rightarrow> ident option" where
  "debit_principal r d =
    (case find (\<lambda>l. Some (led_id l) = ob_debit_ledger_id r \<and> led_org_id l = ob_org_id r) (org_credit_ledger d) of
       None \<Rightarrow> None | Some l \<Rightarrow> led_principal_id l)"

section \<open>Delivery\<close>

definition credit_delegation_adjustment_locked ::
  "instant \<Rightarrow> ident \<Rightarrow> ident \<Rightarrow> ident \<Rightarrow> refund_outbox_row \<Rightarrow> usdc \<Rightarrow> db \<Rightarrow> py_error + db" where
  "credit_delegation_adjustment_locked now ledger_id org delegation_id r amount d =
     bindE (add_balance org amount d) (\<lambda>(balance, d1).
       case balance of
         None \<Rightarrow> Inl (RuntimeError ''Credit account is missing for delegation adjustment'')
       | Some b \<Rightarrow> insert_ledger
           \<lparr>led_id = ledger_id, led_org_id = org, led_operation = Topup, led_amount_usdc = amount,
            led_balance_usdc_after = b,
            led_reason = ''a2a:adjust delegation='' @ delegation_id @ '' run='' @ ob_run_id r,
            led_principal_id = debit_principal r d, led_external_ref = None, led_reverses_ledger_id = None,
            led_created_at = now\<rparr> d1)"

definition treasury_outflow_24h :: "instant \<Rightarrow> db \<Rightarrow> usdc" where
  "treasury_outflow_24h now d =
     sum_where (\<lambda>r. case ob_delivery_started_at r of None \<Rightarrow> False | Some t \<Rightarrow> now - hours 24 \<le> t)
       ob_amount_usdc (a2a_delegation_refund_outbox d)"

definition mark_delivery_tx ::
  "settings \<Rightarrow> instant \<Rightarrow> ident \<Rightarrow> ident \<Rightarrow> ident \<Rightarrow> usdc option \<Rightarrow> db \<Rightarrow> py_error + (bool \<times> db)" where
  "mark_delivery_tx st now ledger_id org delegation_id charge d =
    (case find_delegation org delegation_id d of
       None \<Rightarrow> Inr (False, d)
     | Some r \<Rightarrow>
         if ob_delivery_status r \<in> {PossiblyDelivered, Confirmed} then Inr (True, d)
         else if ob_delivery_status r \<noteq> NotAttempted \<or> ob_status r \<notin> {RefundPending, RefundRequested} then Inr (False, d)
         else
           (let held = ob_amount_usdc r in
            if (case charge of None \<Rightarrow> False | Some c \<Rightarrow> c \<le> 0 \<or> held < c) then Inr (False, d)
            else
              (let final = (case charge of None \<Rightarrow> held | Some c \<Rightarrow> c) in
               if treasury_outflow_24h now d + final > a2a_treasury_daily_outflow_cap_usdc st then Inr (False, d)
               else
                 bindE (if final < held
                        then credit_delegation_adjustment_locked now ledger_id org delegation_id r (held - final) d
                        else Inr d) (\<lambda>d1.
                 bindE (update_outbox (is_delegation org delegation_id)
                   (\<lambda>x. x\<lparr>ob_delivery_status := PossiblyDelivered,
                           ob_delivery_started_at := coalesce (ob_delivery_started_at x) now,
                           ob_delivery_error := [], ob_amount_usdc := final\<rparr>) d1) (\<lambda>d2.
                 Inr (True, d2))))))"

text \<open>\<^verbatim>\<open>except Exception: return False\<close> around a transaction.\<close>

definition or_false :: "(db \<Rightarrow> py_error + (bool \<times> db)) \<Rightarrow> db \<Rightarrow> bool \<times> db" where
  "or_false body d = (case transaction body d of (Inl _, d') \<Rightarrow> (False, d') | (Inr b, d') \<Rightarrow> (b, d'))"

definition mark_delegation_possibly_delivered ::
  "settings \<Rightarrow> instant \<Rightarrow> ident \<Rightarrow> ident \<Rightarrow> ident \<Rightarrow> usdc option \<Rightarrow> db \<Rightarrow> bool \<times> db" where
  "mark_delegation_possibly_delivered st now ledger_id org delegation_id charge =
     or_false (mark_delivery_tx st now ledger_id org delegation_id charge)"

definition close_refund :: "ident \<Rightarrow> ident \<Rightarrow> (refund_outbox_row \<Rightarrow> instant option) \<Rightarrow> db \<Rightarrow> py_error + db" where
  "close_refund org delegation_id resolved d =
     update_outbox (\<lambda>x. is_delegation org delegation_id x \<and> ob_status x = RefundRequested \<and>
         ob_delivery_status x \<in> {NotAttempted, DeliveryFailed})
       (\<lambda>x. x\<lparr>ob_status := Refunded, ob_resolved_at := resolved x\<rparr>) d"

definition complete_refund_locked ::
  "instant \<Rightarrow> ident \<Rightarrow> ident \<Rightarrow> ident \<Rightarrow> refund_outbox_row \<Rightarrow> ident option \<Rightarrow> db \<Rightarrow> py_error + (bool \<times> db)" where
  "complete_refund_locked now ledger_id org delegation_id r p d =
    (if truthy (ob_debit_ledger_id r) \<and>
       exists_where (\<lambda>l. led_reverses_ledger_id l = ob_debit_ledger_id r) (org_credit_ledger d)
     then bindE (close_refund org delegation_id (\<lambda>x. coalesce (ob_resolved_at x) now) d) (\<lambda>d1. Inr (True, d1))
     else
       bindE (add_balance org (ob_amount_usdc r) d) (\<lambda>(balance, d1).
         case balance of
           None \<Rightarrow> Inl (RuntimeError ''Credit account is missing for delegation refund'')
         | Some b \<Rightarrow>
             bindE (insert_ledger
               \<lparr>led_id = ledger_id, led_org_id = org, led_operation = Topup, led_amount_usdc = ob_amount_usdc r,
                led_balance_usdc_after = b,
                led_reason = ''a2a:refund delegation='' @ delegation_id @ '' run='' @ ob_run_id r,
                led_principal_id = p, led_external_ref = None,
                led_reverses_ledger_id = ob_debit_ledger_id r, led_created_at = now\<rparr> d1) (\<lambda>d2.
             bindE (close_refund org delegation_id (\<lambda>x. Some now) d2) (\<lambda>d3.
             Inr (True, d3)))))"

definition confirm_delivery_tx ::
  "instant \<Rightarrow> ident \<Rightarrow> ident \<Rightarrow> string \<Rightarrow> db \<Rightarrow> py_error + (bool \<times> db)" where
  "confirm_delivery_tx now org delegation_id tx d =
    (case find_delegation org delegation_id d of
       None \<Rightarrow> Inr (False, d)
     | Some r \<Rightarrow>
         if ob_delivery_status r = Confirmed then Inr (ob_status r \<noteq> Refunded, d)
         else if ob_delivery_status r = DeliveryFailed \<or> ob_status r = Refunded then Inr (False, d)
         else if ob_delivery_status r \<notin> {NotAttempted, PossiblyDelivered} then Inr (False, d)
         else
           bindE (update_outbox (is_delegation org delegation_id)
             (\<lambda>x. x\<lparr>ob_delivery_status := Confirmed,
                     ob_delivery_resolved_at := coalesce (ob_delivery_resolved_at x) now,
                     ob_delivery_settlement_tx := (if tx = [] then ob_delivery_settlement_tx x else tx),
                     ob_delivery_error := []\<rparr>) d) (\<lambda>d1.
           bindE (if ob_status r \<in> {RefundPending, RefundRequested}
                  then update_outbox (\<lambda>x. is_delegation org delegation_id x \<and> ob_status x \<in> {RefundPending, RefundRequested})
                    (\<lambda>x. x\<lparr>ob_status := RefundCancelled, ob_resolved_at := coalesce (ob_resolved_at x) now\<rparr>) d1
                  else Inr d1) (\<lambda>d2.
           Inr (True, d2))))"

definition confirm_delegation_delivery :: "instant \<Rightarrow> ident \<Rightarrow> ident \<Rightarrow> string \<Rightarrow> db \<Rightarrow> bool \<times> db" where
  "confirm_delegation_delivery now org delegation_id tx =
     or_false (confirm_delivery_tx now org delegation_id (normalize_delivery_transaction (Some tx)))"

definition invalidate_when :: "bool \<Rightarrow> ident \<Rightarrow> db \<Rightarrow> db" where
  "invalidate_when b org d = (if b then invalidate_daily_spend_cache org d else d)"

definition fail_delivery_tx ::
  "instant \<Rightarrow> ident \<Rightarrow> ident \<Rightarrow> ident \<Rightarrow> string \<Rightarrow> db \<Rightarrow> py_error + (bool \<times> db)" where
  "fail_delivery_tx now ledger_id org delegation_id reason d =
    (case find_delegation org delegation_id d of
       None \<Rightarrow> Inr (False, d)
     | Some r \<Rightarrow>
         if ob_delivery_status r = Confirmed \<or> ob_status r = RefundCancelled then Inr (False, d)
         else if ob_delivery_status r = DeliveryFailed \<and> ob_status r = Refunded then Inr (True, d)
         else if ob_status r = Refunded then Inr (False, d)
         else if ob_delivery_status r \<notin> {PossiblyDelivered, DeliveryFailed} then Inr (False, d)
         else
           bindE (update_outbox (is_delegation org delegation_id)
             (\<lambda>x. x\<lparr>ob_delivery_status := DeliveryFailed,
                     ob_delivery_resolved_at := coalesce (ob_delivery_resolved_at x) now,
                     ob_delivery_error := reason\<rparr>) d) (\<lambda>d1.
           bindE (if ob_status r = RefundPending
                  then update_outbox (\<lambda>x. is_delegation org delegation_id x \<and> ob_status x = RefundPending)
                    (\<lambda>x. x\<lparr>ob_status := RefundRequested\<rparr>) d1
                  else Inr d1) (\<lambda>d2.
           bindE (complete_refund_locked now ledger_id org delegation_id r (debit_principal r d) d2) (\<lambda>(resolved, d3).
           Inr (resolved, invalidate_when resolved org d3)))))"

definition fail_delegation_delivery ::
  "instant \<Rightarrow> ident \<Rightarrow> ident \<Rightarrow> ident \<Rightarrow> string \<Rightarrow> db \<Rightarrow> bool \<times> db" where
  "fail_delegation_delivery now ledger_id org delegation_id reason =
     or_false (fail_delivery_tx now ledger_id org delegation_id (take 500 (py_strip reason)))"

section \<open>Refunds\<close>

definition delegation_status :: "ident \<Rightarrow> ident \<Rightarrow> db \<Rightarrow> refund_status option" where
  "delegation_status org delegation_id d = map_option ob_status (find_delegation org delegation_id d)"

definition request_refund_tx :: "ident \<Rightarrow> ident \<Rightarrow> db \<Rightarrow> py_error + (bool \<times> db)" where
  "request_refund_tx org delegation_id d =
    (let hit = (\<lambda>x. is_delegation org delegation_id x \<and> ob_status x = RefundPending \<and>
                  ob_delivery_status x \<in> {NotAttempted, DeliveryFailed})
     in if exists_where hit (a2a_delegation_refund_outbox d)
        then bindE (update_outbox hit (\<lambda>x. x\<lparr>ob_status := RefundRequested\<rparr>) d) (\<lambda>d1. Inr (True, d1))
        else Inr (delegation_status org delegation_id d \<in> {Some RefundRequested, Some Refunded}, d))"

definition request_delegation_refund :: "ident \<Rightarrow> ident \<Rightarrow> db \<Rightarrow> bool \<times> db" where
  "request_delegation_refund org delegation_id = or_false (request_refund_tx org delegation_id)"

definition cancel_refund_tx :: "instant \<Rightarrow> ident \<Rightarrow> ident \<Rightarrow> db \<Rightarrow> py_error + (bool \<times> db)" where
  "cancel_refund_tx now org delegation_id d =
    (let hit = (\<lambda>x. is_delegation org delegation_id x \<and> ob_status x \<in> {RefundPending, RefundRequested} \<and>
                  ob_delivery_status x \<in> {NotAttempted, PossiblyDelivered, Confirmed});
         open' = (\<lambda>x. ob_delivery_status x \<in> {NotAttempted, PossiblyDelivered})
     in bindE (update_outbox hit
          (\<lambda>x. x\<lparr>ob_status := RefundCancelled, ob_resolved_at := coalesce (ob_resolved_at x) now,
                  ob_delivery_status := (if open' x then Confirmed else ob_delivery_status x),
                  ob_delivery_resolved_at := (if open' x then coalesce (ob_delivery_resolved_at x) now
                    else ob_delivery_resolved_at x),
                  ob_delivery_error := []\<rparr>) d) (\<lambda>d1.
        if length (rows_where hit (a2a_delegation_refund_outbox d)) = 1 then Inr (True, d1)
        else Inr (delegation_status org delegation_id d1 = Some RefundCancelled, d1)))"

definition cancel_delegation_refund :: "instant \<Rightarrow> ident \<Rightarrow> ident \<Rightarrow> db \<Rightarrow> bool \<times> db" where
  "cancel_delegation_refund now org delegation_id = or_false (cancel_refund_tx now org delegation_id)"

definition complete_refund_tx :: "instant \<Rightarrow> ident \<Rightarrow> ident \<Rightarrow> ident \<Rightarrow> db \<Rightarrow> py_error + (bool \<times> db)" where
  "complete_refund_tx now ledger_id org delegation_id d =
    (case find_delegation org delegation_id d of
       None \<Rightarrow> Inr (False, d)
     | Some r \<Rightarrow>
         if ob_status r = RefundRequested \<and> ob_delivery_status r \<in> {NotAttempted, DeliveryFailed}
         then bindE (complete_refund_locked now ledger_id org delegation_id r (debit_principal r d) d) (\<lambda>(resolved, d1).
                Inr (resolved, invalidate_when resolved org d1))
         else Inr (ob_status r = Refunded, d))"

definition complete_delegation_refund :: "instant \<Rightarrow> ident \<Rightarrow> ident \<Rightarrow> ident \<Rightarrow> db \<Rightarrow> bool \<times> db" where
  "complete_delegation_refund now ledger_id org delegation_id =
     or_false (complete_refund_tx now ledger_id org delegation_id)"

definition refund_delegation :: "instant \<Rightarrow> ident \<Rightarrow> ident \<Rightarrow> usdc \<Rightarrow> ident \<Rightarrow> db \<Rightarrow> bool \<times> db" where
  "refund_delegation now ledger_id org cost delegation_id d =
    (if cost \<le> 0 then (True, d)
     else
       (let (requested, d1) = request_delegation_refund org delegation_id d
        in if \<not> requested then (False, d1) else complete_delegation_refund now ledger_id org delegation_id d1))"

section \<open>The outbox worker\<close>

definition delegation_event :: "refund_outbox_row \<Rightarrow> db \<Rightarrow> delegation_event_row option" where
  "delegation_event r d = find (\<lambda>e. ev_id e = ob_id r \<and> ev_org_id e = ob_org_id r) (a2a_delegation_events d)"

definition needs_reconciling :: "db \<Rightarrow> refund_outbox_row \<Rightarrow> bool" where
  "needs_reconciling d r \<longleftrightarrow>
     ob_delivery_status r \<noteq> PossiblyDelivered \<and>
     (ob_status r = RefundRequested \<or>
      (ob_status r = RefundPending \<and>
       (case delegation_event r d of None \<Rightarrow> False | Some e \<Rightarrow> ev_task_status e \<noteq> ''possibly_delivered'')))"

fun reconcile_delegations ::
  "instant \<Rightarrow> (nat \<Rightarrow> ident) \<Rightarrow> nat \<Rightarrow> (refund_outbox_row \<times> delegation_event_row option) list \<Rightarrow> db \<Rightarrow> nat \<times> db" where
  "reconcile_delegations now fresh k [] d = (0, d)"
| "reconcile_delegations now fresh k ((r, ev) # rows) d =
    (if ob_delivery_status r = PossiblyDelivered \<or>
        (case ev of None \<Rightarrow> False | Some e \<Rightarrow> ev_task_status e = ''possibly_delivered'')
     then reconcile_delegations now fresh (Suc k) rows d
     else
       (let (resolved, d1) =
              (if (case ev of None \<Rightarrow> False | Some e \<Rightarrow> ev_task_status e = ''completed'' \<and> ev_cost_usdc e \<noteq> 0)
               then cancel_delegation_refund now (ob_org_id r) (ob_id r) d
               else (let (_, d') = request_delegation_refund (ob_org_id r) (ob_id r) d
                     in complete_delegation_refund now (fresh k) (ob_org_id r) (ob_id r) d'));
            (n, d2) = reconcile_delegations now fresh (Suc k) rows d1
        in (if resolved then Suc n else n, d2)))"

definition process_delegation_refund_outbox :: "instant \<Rightarrow> (nat \<Rightarrow> ident) \<Rightarrow> nat \<Rightarrow> db \<Rightarrow> nat \<times> db" where
  "process_delegation_refund_outbox now fresh limit d =
     reconcile_delegations now fresh 0
       (map (\<lambda>r. (r, delegation_event r d))
         (take limit (sort_key ob_created_at (rows_where (needs_reconciling d) (a2a_delegation_refund_outbox d))))) d"

section \<open>Events\<close>

definition record_delegation_event ::
  "instant \<Rightarrow> ident \<Rightarrow> ident \<Rightarrow> ident \<Rightarrow> string \<Rightarrow> string \<Rightarrow> string \<Rightarrow> usdc \<Rightarrow> string \<Rightarrow> string \<Rightarrow> string \<Rightarrow>
   string \<Rightarrow> ident option \<Rightarrow> string \<Rightarrow> db \<Rightarrow> bool \<times> db" where
  "record_delegation_event now fresh_id org run_id agent_url agent_name task_status cost meth tx err
     task_type delegation_id failure_origin d =
    (let event_id = (case delegation_id of None \<Rightarrow> fresh_id | Some i \<Rightarrow> if i = [] then fresh_id else i) in
     if \<not> bigint cost then (False, d)
     else if exists_where (\<lambda>e. ev_id e = event_id) (a2a_delegation_events d) then (True, d)
     else if orgs d org = None then (False, d)
     else (True, d\<lparr>a2a_delegation_events := a2a_delegation_events d @
       [\<lparr>ev_id = event_id, ev_org_id = org, ev_run_id = run_id, ev_agent_url = agent_url,
         ev_agent_name = agent_name, ev_task_status = task_status, ev_cost_usdc = cost,
         ev_billing_method = meth, ev_settlement_tx = tx, ev_error = err,
         ev_failure_origin = normalize_failure_origin failure_origin,
         ev_task_type = normalize_task_type task_type, ev_created_at = now\<rparr>]\<rparr>))"

definition get_delegation_events ::
  "ident \<Rightarrow> nat \<Rightarrow> instant option \<Rightarrow> db \<Rightarrow> (delegation_event_row \<times> delivery_status \<times> refund_outbox_row option) list" where
  "get_delegation_events org limit cursor d =
     map (\<lambda>e. let o' = find (\<lambda>r. ob_id r = ev_id e \<and> ob_org_id r = ev_org_id e) (a2a_delegation_refund_outbox d)
              in (e, (case o' of None \<Rightarrow> NotAttempted | Some r \<Rightarrow> ob_delivery_status r), o'))
       (take limit (sort_key (\<lambda>e. - ev_created_at e)
         (rows_where (\<lambda>e. ev_org_id e = org \<and> (case cursor of None \<Rightarrow> True | Some t \<Rightarrow> ev_created_at e < t))
           (a2a_delegation_events d))))"

definition get_possibly_delivered_delegations ::
  "ident option \<Rightarrow> int \<Rightarrow> db \<Rightarrow> (refund_outbox_row \<times> delegation_event_row option) list" where
  "get_possibly_delivered_delegations org limit d =
     map (\<lambda>r. (r, delegation_event r d))
       (take (nat (min (max limit 1) 200)) (sort_key (\<lambda>r. - ob_created_at r)
         (rows_where (\<lambda>r. ob_delivery_status r = PossiblyDelivered \<and>
             (case org of None \<Rightarrow> True | Some x \<Rightarrow> ob_org_id r = x))
           (a2a_delegation_refund_outbox d))))"

section \<open>The delegation state machine\<close>

text \<open>What every outbox row satisfies between operations.\<close>

definition delegation_wf :: "refund_outbox_row \<Rightarrow> bool" where
  "delegation_wf r \<longleftrightarrow>
     outbox_check r \<and>
     (ob_status r = RefundCancelled \<longleftrightarrow> ob_delivery_status r = Confirmed) \<and>
     (ob_status r = Refunded \<longrightarrow> ob_delivery_status r \<in> {NotAttempted, DeliveryFailed}) \<and>
     (ob_delivery_status r = DeliveryFailed \<longrightarrow> ob_status r = Refunded) \<and>
     (ob_delivery_status r = NotAttempted \<longrightarrow> ob_delivery_started_at r = None) \<and>
     (ob_delivery_status r \<in> {PossiblyDelivered, DeliveryFailed} \<longrightarrow> ob_delivery_started_at r \<noteq> None)"

definition debit_link_ok :: "ledger_row list \<Rightarrow> refund_outbox_row \<Rightarrow> bool" where
  "debit_link_ok ledger r \<longleftrightarrow>
     (\<forall>i. ob_debit_ledger_id r = Some i \<longrightarrow>
        i \<in> led_id ` set ledger \<and> is_reversed ledger i = (ob_status r = Refunded))"

definition delegations_ok :: "db \<Rightarrow> bool" where
  "delegations_ok d \<longleftrightarrow>
     audited d \<and> distinct (map ob_id (a2a_delegation_refund_outbox d)) \<and>
     distinct (List.map_filter ob_debit_ledger_id (a2a_delegation_refund_outbox d)) \<and>
     (\<forall>r \<in> set (a2a_delegation_refund_outbox d). delegation_wf r \<and> debit_link_ok (org_credit_ledger d) r)"

definition held_amount :: "refund_outbox_row \<Rightarrow> usdc" where
  "held_amount r = (if ob_status r = Refunded then 0 else ob_amount_usdc r)"

text \<open>An organisation's balance together with what its delegations hold or have captured.\<close>

definition net_position :: "ident \<Rightarrow> db \<Rightarrow> usdc" where
  "net_position org d = get_credit_balance org d +
     sum_where (\<lambda>r. ob_org_id r = org) held_amount (a2a_delegation_refund_outbox d)"

definition delegation_progress :: "refund_outbox_row \<Rightarrow> refund_outbox_row \<Rightarrow> bool" where
  "delegation_progress r r' \<longleftrightarrow>
     ob_id r' = ob_id r \<and> ob_org_id r' = ob_org_id r \<and> ob_run_id r' = ob_run_id r \<and>
     ob_debit_ledger_id r' = ob_debit_ledger_id r \<and> ob_amount_usdc r' \<le> ob_amount_usdc r \<and>
     (ob_status r \<in> {Refunded, RefundCancelled} \<longrightarrow> r' = r)"

lemma delegation_progress_refl [simp]: "delegation_progress r r"
  by (simp add: delegation_progress_def)

lemma delegation_progress_trans:
  "delegation_progress a b \<Longrightarrow> delegation_progress b c \<Longrightarrow> delegation_progress a c"
  by (auto simp: delegation_progress_def)

definition replace_row :: "'r \<Rightarrow> 'r \<Rightarrow> 'r list \<Rightarrow> 'r list" where
  "replace_row r r' rows = map (\<lambda>x. if x = r then r' else x) rows"

lemma set_replace_row: "set (replace_row r r' rows) \<subseteq> insert r' (set rows - {r})"
  by (auto simp: replace_row_def)

lemma in_replace_row: "r \<in> set rows \<Longrightarrow> r' \<in> set (replace_row r r' rows)"
  by (force simp: replace_row_def)

lemma map_replace_row [simp]: "k r' = k r \<Longrightarrow> map k (replace_row r r' rows) = map k rows"
  by (auto simp: replace_row_def)

lemma map_filter_cong_map: "map k xs = map k ys \<Longrightarrow> List.map_filter k xs = List.map_filter k ys"
proof (induction xs arbitrary: ys)
  case (Cons x xs)
  then obtain y zs where "ys = y # zs" "k x = k y" "map k xs = map k zs" by (cases ys) auto
  with Cons.IH [of zs] show ?case by (simp add: List.map_filter_simps split: option.split)
qed (simp add: List.map_filter_simps)

lemma replace_row_trans:
  assumes "distinct (map k rows)" "r \<in> set rows" "k r' = k r"
  shows "replace_row r' r'' (replace_row r r' rows) = replace_row r r'' rows"
  using distinct_key_eq [OF assms(1), of r' r] assms(2,3) by (auto simp: replace_row_def)

lemma update_where_replace:
  assumes "distinct (map k rows)" "r \<in> set rows" "p r" "\<And>x. x \<in> set rows \<Longrightarrow> p x \<Longrightarrow> k x = k r"
  shows "update_where p f rows = replace_row r (f r) rows"
proof -
  have "p x \<longleftrightarrow> x = r" if "x \<in> set rows" for x
  proof
    assume "p x"
    with that assms(4) have "k x = k r" by blast
    with that show "x = r" using distinct_key_eq [OF assms(1) _ assms(2)] by blast
  qed (use assms(3) in simp)
  then show ?thesis by (auto simp: update_where_def replace_row_def)
qed

lemma sum_replace_row:
  assumes "distinct (map k rows)" "r \<in> set rows"
  shows "sum_where p f (replace_row r r' rows) =
    sum_where p f rows - (if p r then f r else 0) + (if p r' then f r' else 0)"
proof -
  have "replace_row r r' rows = update_where (\<lambda>x. x = r) (\<lambda>_. r') rows"
    by (simp add: replace_row_def update_where_def)
  then show ?thesis using sum_where_update_one [OF assms, of "\<lambda>x. x = r" p f "\<lambda>_. r'"] by simp
qed

lemma update_outbox_row:
  assumes "update_outbox p f d = Inr d'" and "distinct (map ob_id (a2a_delegation_refund_outbox d))"
    and "r \<in> set (a2a_delegation_refund_outbox d)" "p r" "\<And>x. p x \<Longrightarrow> ob_id x = ob_id r"
  shows "d' = d\<lparr>a2a_delegation_refund_outbox := replace_row r (f r) (a2a_delegation_refund_outbox d)\<rparr>"
    and "outbox_check (f r)"
proof -
  have "update_where p f (a2a_delegation_refund_outbox d) = replace_row r (f r) (a2a_delegation_refund_outbox d)"
    by (rule update_where_replace [where k = ob_id and p = p, OF assms(2,3,4)]) (rule assms(5))
  with assms(1) show "d' = d\<lparr>a2a_delegation_refund_outbox := replace_row r (f r) (a2a_delegation_refund_outbox d)\<rparr>"
    by (auto simp: update_outbox_def split: if_splits)
  show "outbox_check (f r)" using assms(1,3,4) by (auto simp: update_outbox_def list_all_iff split: if_splits)
qed

lemma update_outbox_miss:
  assumes "update_outbox p f d = Inr d'" and "\<And>x. x \<in> set (a2a_delegation_refund_outbox d) \<Longrightarrow> \<not> p x"
  shows "d' = d"
  using assms by (auto simp: update_outbox_def update_where_none split: if_splits)

lemma find_delegationD:
  "find_delegation org i d = Some r \<Longrightarrow>
     r \<in> set (a2a_delegation_refund_outbox d) \<and> ob_id r = i \<and> ob_org_id r = org"
  using find_SomeD by (fastforce simp: find_delegation_def)

lemma is_reversed_append: "is_reversed (rows @ [l]) i = (is_reversed rows i \<or> led_reverses_ledger_id l = Some i)"
  by (auto simp: is_reversed_def)

text \<open>A credit through \<open>add_balance\<close> followed by its ledger row is a balanced posting.\<close>

lemma credit_posting:
  assumes add: "add_balance org amount d = Inr (Some b, d1)" and ins: "insert_ledger l d1 = Inr d2"
    and l: "led_org_id l = org" "led_operation l = Topup" "led_amount_usdc l = amount" "led_balance_usdc_after l = b"
  shows "audited d \<Longrightarrow> audited d2" "org_credit_ledger d2 = org_credit_ledger d @ [l]"
    "get_credit_balance x d2 = get_credit_balance x d + (if x = org then amount else 0)"
    "a2a_delegation_refund_outbox d2 = a2a_delegation_refund_outbox d"
    "pending_settlements d2 = pending_settlements d"
proof -
  from add_balance_InrD [OF add] obtain c :: credit_row where
    d1: "d1 = d\<lparr>org_credits := (org_credits d)(org \<mapsto> c)\<rparr>" and c: "cr_balance_usdc c = b"
    "b = get_credit_balance org d + amount" by blast
  have ins': "insert_ledger l (d\<lparr>org_credits := (org_credits d)(led_org_id l \<mapsto> c)\<rparr>) = Inr d2"
    using ins d1 l(1) by simp
  note d2 = insert_ledger_InrD(1) [OF ins']
  show "audited d2" if "audited d"
    by (rule audited_post [OF that ins', where c = c]) (use c l in \<open>simp_all add: signed_amount_def\<close>)
  show "org_credit_ledger d2 = org_credit_ledger d @ [l]"
    "a2a_delegation_refund_outbox d2 = a2a_delegation_refund_outbox d"
    "pending_settlements d2 = pending_settlements d"
    using d2 by simp_all
  show "get_credit_balance x d2 = get_credit_balance x d + (if x = org then amount else 0)"
    using d2 c l by (simp add: get_credit_balance_def)
qed

text \<open>
  The effect of one operation on one delegation: the row \<open>r\<close> becomes \<open>r'\<close>, what the row no longer
  holds is back on the balance, and a reversal of its debit is posted exactly when it is refunded.
\<close>

definition moved :: "refund_outbox_row \<Rightarrow> refund_outbox_row \<Rightarrow> db \<Rightarrow> db \<Rightarrow> bool" where
  "moved r r' d d' \<longleftrightarrow>
     a2a_delegation_refund_outbox d' = replace_row r r' (a2a_delegation_refund_outbox d) \<and>
     delegation_wf r' \<and> delegation_progress r r' \<and> audited d' \<and>
     pending_settlements d' = pending_settlements d \<and>
     (\<forall>x. get_credit_balance x d' = get_credit_balance x d +
        (if x = ob_org_id r then held_amount r - held_amount r' else 0)) \<and>
     (\<exists>new. org_credit_ledger d' = org_credit_ledger d @ new) \<and>
     led_id ` set (org_credit_ledger d) \<subseteq> led_id ` set (org_credit_ledger d') \<and>
     (\<forall>i. is_reversed (org_credit_ledger d') i \<longleftrightarrow> is_reversed (org_credit_ledger d) i \<or>
        (ob_status r \<noteq> Refunded \<and> ob_status r' = Refunded \<and> ob_debit_ledger_id r = Some i))"

lemma moved_ok:
  assumes ok: "delegations_ok d" and r: "r \<in> set (a2a_delegation_refund_outbox d)" and m: "moved r r' d d'"
  shows "delegations_ok d'" "net_position org d' = net_position org d"
proof -
  let ?O = "a2a_delegation_refund_outbox d"
  have dist: "distinct (map ob_id ?O)" "distinct (List.map_filter ob_debit_ledger_id ?O)"
    using ok by (auto simp: delegations_ok_def)
  have prog: "delegation_progress r r'" and out: "a2a_delegation_refund_outbox d' = replace_row r r' ?O"
    using m by (auto simp: moved_def)
  then have keys: "ob_id r' = ob_id r" "ob_debit_ledger_id r' = ob_debit_ledger_id r" "ob_org_id r' = ob_org_id r"
    by (auto simp: delegation_progress_def)
  have "delegation_wf x \<and> debit_link_ok (org_credit_ledger d') x" if x: "x \<in> set (replace_row r r' ?O)" for x
  proof (cases "x = r'")
    case True
    have "debit_link_ok (org_credit_ledger d) r" using ok r by (auto simp: delegations_ok_def)
    moreover have "ob_status r = Refunded \<Longrightarrow> r' = r" using prog by (simp add: delegation_progress_def)
    ultimately show ?thesis using m True keys
      unfolding debit_link_ok_def moved_def by (metis subsetD)
  next
    case False
    with x set_replace_row [of r r' ?O] have x: "x \<in> set ?O" "x \<noteq> r" by auto
    then have "delegation_wf x" "debit_link_ok (org_credit_ledger d) x" using ok by (auto simp: delegations_ok_def)
    moreover have "ob_debit_ledger_id x = Some i \<Longrightarrow> ob_debit_ledger_id r \<noteq> Some i" for i
      using map_filter_distinct_inj [OF dist(2) x(1) r] x(2) by metis
    ultimately show ?thesis using m unfolding debit_link_ok_def moved_def by (metis subsetD)
  qed
  moreover have "map ob_id (replace_row r r' ?O) = map ob_id ?O" using keys by simp
  moreover have "List.map_filter ob_debit_ledger_id (replace_row r r' ?O) = List.map_filter ob_debit_ledger_id ?O"
    using keys by (intro map_filter_cong_map) simp
  ultimately show "delegations_ok d'" using m dist out by (simp add: delegations_ok_def moved_def)
  show "net_position org d' = net_position org d"
    using m keys out sum_replace_row [OF dist(1) r, of "\<lambda>r. ob_org_id r = org" held_amount r']
    by (simp add: net_position_def moved_def)
qed

text \<open>A row update that leaves the held amount and the ledger alone.\<close>

lemma moved_plain:
  assumes "delegations_ok d" "r \<in> set (a2a_delegation_refund_outbox d)"
    and "d' = d\<lparr>a2a_delegation_refund_outbox := replace_row r r' (a2a_delegation_refund_outbox d)\<rparr>"
    and "delegation_wf r'" "delegation_progress r r'" "held_amount r' = held_amount r"
    and "ob_status r \<noteq> Refunded \<Longrightarrow> ob_status r' \<noteq> Refunded"
  shows "moved r r' d d'"
  using assms by (auto simp: moved_def delegations_ok_def get_credit_balance_def)

text \<open>
  The contract of every delegation operation: it keeps the invariant, conserves each organisation's
  net position, and moves every row forward.
\<close>

locale delegation_operation =
  fixes run :: "db \<Rightarrow> db"
  assumes keeps_ok: "delegations_ok d \<Longrightarrow> delegations_ok (run d)"
    and conserves: "delegations_ok d \<Longrightarrow> net_position org (run d) = net_position org d"
    and progresses: "delegations_ok d \<Longrightarrow> r \<in> set (a2a_delegation_refund_outbox d) \<Longrightarrow>
      \<exists>r' \<in> set (a2a_delegation_refund_outbox (run d)). delegation_progress r r'"
    and appends: "delegations_ok d \<Longrightarrow> \<exists>new. org_credit_ledger (run d) = org_credit_ledger d @ new"
begin

lemma resolved_final:
  assumes "delegations_ok d" "r \<in> set (a2a_delegation_refund_outbox d)" "ob_status r \<in> {Refunded, RefundCancelled}"
  shows "r \<in> set (a2a_delegation_refund_outbox (run d))"
  using progresses [OF assms(1,2)] assms(3) by (auto simp: delegation_progress_def)

end

lemma delegation_operation_comp:
  assumes f: "delegation_operation f" and g: "delegation_operation g"
  shows "delegation_operation (\<lambda>d. g (f d))"
proof
  fix d :: db and org r
  assume ok: "delegations_ok d"
  note ok' = delegation_operation.keeps_ok [OF f ok]
  show "delegations_ok (g (f d))" by (rule delegation_operation.keeps_ok [OF g ok'])
  show "net_position org (g (f d)) = net_position org d"
    using delegation_operation.conserves [OF g ok'] delegation_operation.conserves [OF f ok] by simp
  show "\<exists>r' \<in> set (a2a_delegation_refund_outbox (g (f d))). delegation_progress r r'"
    if "r \<in> set (a2a_delegation_refund_outbox d)"
    using delegation_operation.progresses [OF f ok that] delegation_operation.progresses [OF g ok']
      delegation_progress_trans by meson
  show "\<exists>new. org_credit_ledger (g (f d)) = org_credit_ledger d @ new"
    using delegation_operation.appends [OF f ok] delegation_operation.appends [OF g ok'] by auto
qed

lemma delegation_operation_id: "delegation_operation (\<lambda>d. d)"
  by unfold_locales (simp_all, blast intro: delegation_progress_refl)

text \<open>An operation that leaves the database alone or moves one row fulfils the contract.\<close>

lemma delegation_operationI:
  assumes "\<And>d. delegations_ok d \<Longrightarrow> run d = d \<or> (\<exists>r r' . r \<in> set (a2a_delegation_refund_outbox d) \<and> moved r r' d (run d))"
  shows "delegation_operation run"
proof
  fix d :: db and org r
  assume ok: "delegations_ok d"
  show "delegations_ok (run d)" using assms [OF ok] moved_ok(1) [OF ok] ok by metis
  show "net_position org (run d) = net_position org d" using assms [OF ok] moved_ok(2) [OF ok] by metis
  show "\<exists>r' \<in> set (a2a_delegation_refund_outbox (run d)). delegation_progress r r'"
    if r: "r \<in> set (a2a_delegation_refund_outbox d)"
    using assms [OF ok]
  proof (elim disjE exE conjE)
    fix x x'
    assume x: "x \<in> set (a2a_delegation_refund_outbox d)" and m: "moved x x' d (run d)"
    then have "a2a_delegation_refund_outbox (run d) = replace_row x x' (a2a_delegation_refund_outbox d)"
      "delegation_progress x x'" by (auto simp: moved_def)
    with r show ?thesis by (cases "r = x") (force simp: replace_row_def)+
  qed (use r in \<open>auto intro: bexI [of _ r]\<close>)
  show "\<exists>new. org_credit_ledger (run d) = org_credit_ledger d @ new"
    using assms [OF ok] by (auto simp: moved_def)
qed

lemma or_false_cases:
  obtains (raised) "or_false body d = (False, d)" | (returned) b d' where "body d = Inr (b, d')" "or_false body d = (b, d')"
  by (cases "body d") (auto simp: or_false_def transaction_def)

lemma moved_invalidate [simp]: "moved r r' d (invalidate_daily_spend_cache org d') = moved r r' d d'"
  by (simp add: moved_def)

section \<open>Every operation moves one row\<close>

lemma adjustment_posting:
  assumes "audited d"
    and "(if final < held then credit_delegation_adjustment_locked now l org i r (held - final) d else Inr d) = Inr d1"
    and "final \<le> held"
  shows "audited d1 \<and> a2a_delegation_refund_outbox d1 = a2a_delegation_refund_outbox d \<and>
    pending_settlements d1 = pending_settlements d \<and>
    (\<forall>x. get_credit_balance x d1 = get_credit_balance x d + (if x = org then held - final else 0)) \<and>
    (\<exists>new. org_credit_ledger d1 = org_credit_ledger d @ new \<and> (\<forall>y \<in> set new. led_reverses_ledger_id y = None))"
proof (cases "final < held")
  case True
  with assms(2) obtain b d0 row where add: "add_balance org (held - final) d = Inr (Some b, d0)"
    and ins: "insert_ledger row d0 = Inr d1"
    and row: "led_org_id row = org" "led_operation row = Topup" "led_amount_usdc row = held - final"
      "led_balance_usdc_after row = b" "led_reverses_ledger_id row = None"
    by (auto simp: credit_delegation_adjustment_locked_def bindE_eq_Inr_iff split: option.splits)
  note p = credit_posting [OF add ins row(1-4)]
  show ?thesis using p(1) [OF assms(1)] p(2-5) row(5) by simp
qed (use assms in simp)

lemma update_outbox_again:
  assumes "update_outbox p f d1 = Inr d2" and "distinct (map ob_id rows)" and "r \<in> set rows"
    and d1: "a2a_delegation_refund_outbox d1 = replace_row r r1 rows" and "ob_id r1 = ob_id r"
    and "p r1" "\<And>x. p x \<Longrightarrow> ob_id x = ob_id r1"
  shows "d2 = d1\<lparr>a2a_delegation_refund_outbox := replace_row r (f r1) rows\<rparr>" and "outbox_check (f r1)"
proof -
  have dist: "distinct (map ob_id (a2a_delegation_refund_outbox d1))" using assms(2,5) d1 by simp
  have mem: "r1 \<in> set (a2a_delegation_refund_outbox d1)" using d1 in_replace_row [OF assms(3)] by simp
  have "replace_row r1 (f r1) (a2a_delegation_refund_outbox d1) = replace_row r (f r1) rows"
    unfolding d1 by (rule replace_row_trans [OF assms(2,3,5)])
  then show "d2 = d1\<lparr>a2a_delegation_refund_outbox := replace_row r (f r1) rows\<rparr>"
    using update_outbox_row(1) [OF assms(1) dist mem assms(6) assms(7)] by simp
  show "outbox_check (f r1)" by (rule update_outbox_row(2) [OF assms(1) dist mem assms(6) assms(7)])
qed

lemma delegations_okD:
  assumes "delegations_ok d"
  shows "audited d" "distinct (map ob_id (a2a_delegation_refund_outbox d))"
    and "r \<in> set (a2a_delegation_refund_outbox d) \<Longrightarrow> delegation_wf r"
    and "r \<in> set (a2a_delegation_refund_outbox d) \<Longrightarrow> debit_link_ok (org_credit_ledger d) r"
  using assms by (auto simp: delegations_ok_def)

lemma confirm_moved:
  assumes ok: "delegations_ok d" and run: "confirm_delivery_tx now org i tx d = Inr (b, d')"
  shows "d' = d \<or> (\<exists>r r'. r \<in> set (a2a_delegation_refund_outbox d) \<and> moved r r' d d')"
proof (cases "find_delegation org i d")
  case None
  with run show ?thesis by (simp add: confirm_delivery_tx_def)
next
  case (Some r)
  note r = find_delegationD [OF Some] and ok' = delegations_okD [OF ok]
  have wf: "delegation_wf r" using r ok' by blast
  show ?thesis
  proof (cases "ob_delivery_status r \<in> {NotAttempted, PossiblyDelivered} \<and> ob_status r \<noteq> Refunded")
    case False
    with run Some show ?thesis by (auto simp: confirm_delivery_tx_def split: if_splits)
  next
    case True
    with wf have st: "ob_status r \<in> {RefundPending, RefundRequested}"
      by (cases "ob_status r") (auto simp: delegation_wf_def)
    let ?f = "\<lambda>x. x\<lparr>ob_delivery_status := Confirmed,
      ob_delivery_resolved_at := coalesce (ob_delivery_resolved_at x) now,
      ob_delivery_settlement_tx := (if tx = [] then ob_delivery_settlement_tx x else tx),
      ob_delivery_error := []\<rparr>"
    let ?g = "\<lambda>x. x\<lparr>ob_status := RefundCancelled, ob_resolved_at := coalesce (ob_resolved_at x) now\<rparr>"
    from run Some True st obtain d1 where
      u1: "update_outbox (is_delegation org i) ?f d = Inr d1" and
      u2: "update_outbox (\<lambda>x. is_delegation org i x \<and> ob_status x \<in> {RefundPending, RefundRequested}) ?g d1 = Inr d'"
      by (auto simp: confirm_delivery_tx_def bindE_eq_Inr_iff split: if_splits)
    have d1: "d1 = d\<lparr>a2a_delegation_refund_outbox := replace_row r (?f r) (a2a_delegation_refund_outbox d)\<rparr>"
      by (rule update_outbox_row(1) [OF u1 ok'(2)]) (use r in \<open>auto simp: is_delegation_def\<close>)
    have d': "d' = d1\<lparr>a2a_delegation_refund_outbox := replace_row r (?g (?f r)) (a2a_delegation_refund_outbox d)\<rparr>"
      and chk: "outbox_check (?g (?f r))"
      by (rule update_outbox_again [OF u2 ok'(2), of r]; use d1 r st in \<open>simp add: is_delegation_def\<close>)+
    have "moved r (?g (?f r)) d d'"
    proof (rule moved_plain [OF ok])
      show "d' = d\<lparr>a2a_delegation_refund_outbox := replace_row r (?g (?f r)) (a2a_delegation_refund_outbox d)\<rparr>"
        using d' d1 by simp
      show "r \<in> set (a2a_delegation_refund_outbox d)" using r by simp
      show "delegation_wf (?g (?f r))" using chk by (simp add: delegation_wf_def)
      show "delegation_progress r (?g (?f r))" using st by (auto simp: delegation_progress_def)
      show "held_amount (?g (?f r)) = held_amount r" using st by (auto simp: held_amount_def)
    qed simp
    with r show ?thesis by blast
  qed
qed

interpretation confirm_dlg: delegation_operation "\<lambda>d. snd (confirm_delegation_delivery now org i tx d)" for now org i tx
proof (rule delegation_operationI)
  fix d assume "delegations_ok d"
  then show "snd (confirm_delegation_delivery now org i tx d) = d \<or> (\<exists>r r'. r \<in> set (a2a_delegation_refund_outbox d) \<and>
      moved r r' d (snd (confirm_delegation_delivery now org i tx d)))"
    unfolding confirm_delegation_delivery_def
    by (cases rule: or_false_cases [of "confirm_delivery_tx now org i (normalize_delivery_transaction (Some tx))" d])
      (auto dest: confirm_moved)
qed

lemma mark_moved:
  assumes ok: "delegations_ok d" and run: "mark_delivery_tx st now l org i charge d = Inr (b, d')"
  shows "d' = d \<or> (\<exists>r r'. r \<in> set (a2a_delegation_refund_outbox d) \<and> moved r r' d d' \<and>
    find_delegation org i d = Some r \<and> ob_delivery_status r' = PossiblyDelivered \<and>
    ob_delivery_status r = NotAttempted \<and> ob_delivery_started_at r' = Some now \<and> b \<and>
    treasury_outflow_24h now d + ob_amount_usdc r' \<le> a2a_treasury_daily_outflow_cap_usdc st)"
proof (cases "d' = d")
  case False
  then obtain r where Some: "find_delegation org i d = Some r"
    using run by (auto simp: mark_delivery_tx_def split: option.splits)
  note r = find_delegationD [OF Some] and ok' = delegations_okD [OF ok]
  have wf: "delegation_wf r" using r ok' by blast
  define final where "final = (case charge of None \<Rightarrow> ob_amount_usdc r | Some c \<Rightarrow> c)"
  let ?f = "\<lambda>x. x\<lparr>ob_delivery_status := PossiblyDelivered, ob_delivery_started_at := coalesce (ob_delivery_started_at x) now,
      ob_delivery_error := [], ob_amount_usdc := final\<rparr>"
  from run Some False have st: "ob_delivery_status r = NotAttempted" "ob_status r \<in> {RefundPending, RefundRequested}"
      and fin: "0 < final" "final \<le> ob_amount_usdc r"
      and cap: "treasury_outflow_24h now d + final \<le> a2a_treasury_daily_outflow_cap_usdc st"
    using wf by (auto simp: mark_delivery_tx_def Let_def final_def delegation_wf_def outbox_check_def
        split: if_splits option.splits)
  with run Some False obtain d1 where
    adj: "(if final < ob_amount_usdc r then credit_delegation_adjustment_locked now l org i r (ob_amount_usdc r - final) d
      else Inr d) = Inr d1" and
    upd: "update_outbox (is_delegation org i) ?f d1 = Inr d'" and b
    unfolding mark_delivery_tx_def Let_def final_def
    by (auto simp: bindE_eq_Inr_iff simp del: not_less split: if_splits option.splits)
  have post: "audited d1" "a2a_delegation_refund_outbox d1 = a2a_delegation_refund_outbox d"
      "pending_settlements d1 = pending_settlements d"
      "\<forall>x. get_credit_balance x d1 = get_credit_balance x d + (if x = org then ob_amount_usdc r - final else 0)"
      "\<exists>new. org_credit_ledger d1 = org_credit_ledger d @ new \<and> (\<forall>y \<in> set new. led_reverses_ledger_id y = None)"
    using adjustment_posting [OF ok'(1) adj fin(2)] by auto
  have d': "d' = d1\<lparr>a2a_delegation_refund_outbox := replace_row r (?f r) (a2a_delegation_refund_outbox d1)\<rparr>"
    and chk: "outbox_check (?f r)"
    using update_outbox_row [OF upd, of r] post(2) ok'(2) r by (auto simp: is_delegation_def)
  have "moved r (?f r) d d'"
    unfolding moved_def
  proof (intro conjI)
    show "delegation_wf (?f r)" using wf chk st by (auto simp: delegation_wf_def coalesce_def split: option.splits)
    show "delegation_progress r (?f r)" using fin st by (auto simp: delegation_progress_def)
    show "\<forall>x. is_reversed (org_credit_ledger d') x \<longleftrightarrow> is_reversed (org_credit_ledger d) x \<or>
        ob_status r \<noteq> Refunded \<and> ob_status (?f r) = Refunded \<and> ob_debit_ledger_id r = Some x"
      using post(5) d' st by (auto simp: is_reversed_def)
  qed (use d' post r st in \<open>auto simp: held_amount_def get_credit_balance_def\<close>)
  moreover have "ob_delivery_started_at (?f r) = Some now"
    using wf st by (simp add: delegation_wf_def coalesce_def)
  ultimately show ?thesis using r Some st cap \<open>b\<close>
    by (intro disjI2 exI [of _ r] exI [of _ "?f r"]) simp
qed simp

interpretation mark_dlg: delegation_operation
  "\<lambda>d. snd (mark_delegation_possibly_delivered st now l org i charge d)" for st now l org i charge
proof (rule delegation_operationI)
  fix d assume "delegations_ok d"
  then show "snd (mark_delegation_possibly_delivered st now l org i charge d) = d \<or>
      (\<exists>r r'. r \<in> set (a2a_delegation_refund_outbox d) \<and>
        moved r r' d (snd (mark_delegation_possibly_delivered st now l org i charge d)))"
    unfolding mark_delegation_possibly_delivered_def
    by (cases rule: or_false_cases [of "mark_delivery_tx st now l org i charge" d]) (auto dest: mark_moved)
qed

lemma replace_row_same [simp]: "replace_row r r rows = rows"
  by (simp add: replace_row_def)

text \<open>
  A refund of a row that is not refunded yet always takes the crediting branch, because by the
  invariant its debit has no reversal.
\<close>

lemma refund_moved:
  assumes ok: "delegations_ok d" and r: "r \<in> set (a2a_delegation_refund_outbox d)" "ob_status r \<noteq> Refunded"
    "ob_id r = i" "ob_org_id r = org"
    and d2: "d2 = d\<lparr>a2a_delegation_refund_outbox := replace_row r r1 (a2a_delegation_refund_outbox d)\<rparr>"
    and r1: "delegation_progress r r1" "ob_amount_usdc r1 = ob_amount_usdc r" "ob_status r1 = RefundRequested"
      "ob_delivery_status r1 \<in> {NotAttempted, DeliveryFailed}"
    and wf: "outbox_check (r1\<lparr>ob_status := Refunded, ob_resolved_at := Some now\<rparr>) \<Longrightarrow>
      delegation_wf (r1\<lparr>ob_status := Refunded, ob_resolved_at := Some now\<rparr>)"
    and run: "complete_refund_locked now l org i r p d2 = Inr (b, d3)"
  shows "b \<and> moved r (r1\<lparr>ob_status := Refunded, ob_resolved_at := Some now\<rparr>) d d3"
proof -
  let ?r' = "r1\<lparr>ob_status := Refunded, ob_resolved_at := Some now\<rparr>"
  note ok' = delegations_okD [OF ok]
  have keys: "ob_id r1 = ob_id r" "ob_org_id r1 = ob_org_id r" "ob_debit_ledger_id r1 = ob_debit_ledger_id r"
    "ob_run_id r1 = ob_run_id r"
    using r1(1) by (simp_all add: delegation_progress_def)
  have "\<not> (truthy (ob_debit_ledger_id r) \<and>
      exists_where (\<lambda>l. led_reverses_ledger_id l = ob_debit_ledger_id r) (org_credit_ledger d2))"
    using ok'(4) [OF r(1)] r(2) d2
    by (auto simp: debit_link_ok_def is_reversed_def truthy_def split: option.splits)
  with run obtain bal d0 row d1 where add: "add_balance org (ob_amount_usdc r) d2 = Inr (Some bal, d0)"
    and ins: "insert_ledger row d0 = Inr d1" and close: "close_refund org i (\<lambda>x. Some now) d1 = Inr d3" and b
    and row: "led_org_id row = org" "led_operation row = Topup" "led_amount_usdc row = ob_amount_usdc r"
      "led_balance_usdc_after row = bal" "led_reverses_ledger_id row = ob_debit_ledger_id r"
    by (auto simp: complete_refund_locked_def bindE_eq_Inr_iff simp del: exists_where_iff split: if_splits option.splits)
  note post = credit_posting [OF add ins row(1-4)]
  have out: "a2a_delegation_refund_outbox d1 = replace_row r r1 (a2a_delegation_refund_outbox d)"
    using post(4) d2 by simp
  have d3: "d3 = d1\<lparr>a2a_delegation_refund_outbox := replace_row r ?r' (a2a_delegation_refund_outbox d)\<rparr>"
    and chk: "outbox_check ?r'"
    by (rule update_outbox_again [OF close [unfolded close_refund_def] ok'(2) r(1) out keys(1)];
        use r r1 keys in \<open>simp add: is_delegation_def\<close>)+
  have "audited d1" using post(1) ok'(1) d2 by simp
  have "moved r ?r' d d3"
    unfolding moved_def
  proof (intro conjI)
    show "delegation_wf ?r'" by (rule wf [OF chk])
    show "delegation_progress r ?r'" using r1 by (auto simp: delegation_progress_def)
    show "\<forall>x. is_reversed (org_credit_ledger d3) x \<longleftrightarrow> is_reversed (org_credit_ledger d) x \<or>
        ob_status r \<noteq> Refunded \<and> ob_status ?r' = Refunded \<and> ob_debit_ledger_id r = Some x"
      using post(2) d3 d2 row(5) r(2) by (simp add: is_reversed_append)
    show "\<forall>x. get_credit_balance x d3 = get_credit_balance x d +
        (if x = ob_org_id r then held_amount r - held_amount ?r' else 0)"
      using post(3) d3 d2 r by (simp add: held_amount_def get_credit_balance_def)
  qed (use d3 d2 post(2,5) \<open>audited d1\<close> in auto)
  with \<open>b\<close> show ?thesis by simp
qed

lemma complete_moved:
  assumes ok: "delegations_ok d" and run: "complete_refund_tx now l org i d = Inr (b, d')"
  shows "d' = d \<or> (\<exists>r r'. r \<in> set (a2a_delegation_refund_outbox d) \<and> moved r r' d d')"
proof (cases "find_delegation org i d")
  case None
  with run show ?thesis by (simp add: complete_refund_tx_def)
next
  case (Some r)
  note r = find_delegationD [OF Some] and ok' = delegations_okD [OF ok]
  have wf: "delegation_wf r" using r ok' by blast
  show ?thesis
  proof (cases "ob_status r = RefundRequested \<and> ob_delivery_status r \<in> {NotAttempted, DeliveryFailed}")
    case False
    with run Some show ?thesis by (auto simp: complete_refund_tx_def)
  next
    case True
    with run Some obtain d1 where c: "complete_refund_locked now l org i r (debit_principal r d) d = Inr (b, d1)"
      and d': "d' = invalidate_when b org d1"
      by (auto simp: complete_refund_tx_def bindE_eq_Inr_iff)
    have "b \<and> moved r (r\<lparr>ob_status := Refunded, ob_resolved_at := Some now\<rparr>) d d1"
      by (rule refund_moved [OF ok _ _ _ _ _ _ _ _ _ _ c, of r])
        (use r True wf in \<open>auto simp: delegation_wf_def\<close>)
    with r d' show ?thesis by (auto simp: invalidate_when_def)
  qed
qed

interpretation complete_dlg: delegation_operation "\<lambda>d. snd (complete_delegation_refund now l org i d)" for now l org i
proof (rule delegation_operationI)
  fix d assume "delegations_ok d"
  then show "snd (complete_delegation_refund now l org i d) = d \<or> (\<exists>r r'. r \<in> set (a2a_delegation_refund_outbox d) \<and>
      moved r r' d (snd (complete_delegation_refund now l org i d)))"
    unfolding complete_delegation_refund_def
    by (cases rule: or_false_cases [of "complete_refund_tx now l org i" d]) (auto dest: complete_moved)
qed

lemma fail_moved:
  assumes ok: "delegations_ok d" and run: "fail_delivery_tx now l org i reason d = Inr (b, d')"
  shows "d' = d \<and> (b \<longrightarrow> (\<exists>r. find_delegation org i d = Some r \<and> ob_status r = Refunded)) \<or>
    (\<exists>r r'. r \<in> set (a2a_delegation_refund_outbox d) \<and> moved r r' d d' \<and> b \<and>
    find_delegation org i d = Some r \<and> ob_status r \<noteq> Refunded \<and>
    ob_status r' = Refunded \<and> ob_delivery_status r' = DeliveryFailed)"
proof (cases "find_delegation org i d")
  case None
  with run show ?thesis by (simp add: fail_delivery_tx_def)
next
  case (Some r)
  note r = find_delegationD [OF Some] and ok' = delegations_okD [OF ok]
  have wf: "delegation_wf r" using r ok' by blast
  show ?thesis
  proof (cases "ob_delivery_status r = PossiblyDelivered")
    case False
    with run Some wf show ?thesis
      by (cases "ob_delivery_status r") (auto simp: fail_delivery_tx_def delegation_wf_def split: if_splits)
  next
    case True
    with wf have st: "ob_status r \<in> {RefundPending, RefundRequested}"
      by (cases "ob_status r") (auto simp: delegation_wf_def)
    let ?f = "\<lambda>x. x\<lparr>ob_delivery_status := DeliveryFailed,
      ob_delivery_resolved_at := coalesce (ob_delivery_resolved_at x) now, ob_delivery_error := reason\<rparr>"
    let ?g = "\<lambda>x. x\<lparr>ob_status := RefundRequested\<rparr>"
    from run Some True st obtain d1 d2 d3 where
      u1: "update_outbox (is_delegation org i) ?f d = Inr d1" and
      u2: "(if ob_status r = RefundPending then update_outbox (\<lambda>x. is_delegation org i x \<and> ob_status x = RefundPending) ?g d1
        else Inr d1) = Inr d2" and
      c: "complete_refund_locked now l org i r (debit_principal r d) d2 = Inr (b, d3)" and
      d': "d' = invalidate_when b org d3"
      by (auto simp: fail_delivery_tx_def bindE_eq_Inr_iff split: if_splits)
    have d1: "d1 = d\<lparr>a2a_delegation_refund_outbox := replace_row r (?f r) (a2a_delegation_refund_outbox d)\<rparr>"
      by (rule update_outbox_row(1) [OF u1 ok'(2)]) (use r in \<open>auto simp: is_delegation_def\<close>)
    have d2: "d2 = d\<lparr>a2a_delegation_refund_outbox := replace_row r (?g (?f r)) (a2a_delegation_refund_outbox d)\<rparr>"
    proof (cases "ob_status r = RefundPending")
      case True
      with u2 have u: "update_outbox (\<lambda>x. is_delegation org i x \<and> ob_status x = RefundPending) ?g d1 = Inr d2" by simp
      have "d2 = d1\<lparr>a2a_delegation_refund_outbox := replace_row r (?g (?f r)) (a2a_delegation_refund_outbox d)\<rparr>"
        by (rule update_outbox_again(1) [OF u ok'(2), of r]; use d1 r True in \<open>simp add: is_delegation_def\<close>)
      with d1 show ?thesis by simp
    next
      case False
      with st have "?g (?f r) = ?f r" by simp
      with u2 False d1 show ?thesis by simp
    qed
    have "b \<and> moved r (?g (?f r)\<lparr>ob_status := Refunded, ob_resolved_at := Some now\<rparr>) d d3"
    proof (rule refund_moved [OF ok _ _ _ _ d2 _ _ _ _ _ c])
      show "delegation_progress r (?g (?f r))" using st by (auto simp: delegation_progress_def)
      assume "outbox_check (?g (?f r)\<lparr>ob_status := Refunded, ob_resolved_at := Some now\<rparr>)"
      then show "delegation_wf (?g (?f r)\<lparr>ob_status := Refunded, ob_resolved_at := Some now\<rparr>)"
        using wf True by (simp add: delegation_wf_def)
    qed (use r st in auto)
    with r Some st d' show ?thesis
      by (intro disjI2 exI [of _ r] exI [of _ "?g (?f r)\<lparr>ob_status := Refunded, ob_resolved_at := Some now\<rparr>"])
        (auto simp: invalidate_when_def)
  qed
qed

interpretation fail_dlg: delegation_operation "\<lambda>d. snd (fail_delegation_delivery now l org i reason d)" for now l org i reason
proof (rule delegation_operationI)
  fix d assume "delegations_ok d"
  then show "snd (fail_delegation_delivery now l org i reason d) = d \<or> (\<exists>r r'. r \<in> set (a2a_delegation_refund_outbox d) \<and>
      moved r r' d (snd (fail_delegation_delivery now l org i reason d)))"
    unfolding fail_delegation_delivery_def
    by (cases rule: or_false_cases [of "fail_delivery_tx now l org i (take 500 (py_strip reason))" d])
      (auto dest: fail_moved)
qed

lemma request_moved:
  assumes ok: "delegations_ok d" and run: "request_refund_tx org i d = Inr (b, d')"
  shows "d' = d \<or> (\<exists>r r'. r \<in> set (a2a_delegation_refund_outbox d) \<and> moved r r' d d')"
proof -
  let ?hit = "\<lambda>x. is_delegation org i x \<and> ob_status x = RefundPending \<and> ob_delivery_status x \<in> {NotAttempted, DeliveryFailed}"
  let ?f = "\<lambda>x. x\<lparr>ob_status := RefundRequested\<rparr>"
  show ?thesis
  proof (cases "exists_where ?hit (a2a_delegation_refund_outbox d)")
    case False
    with run show ?thesis by (auto simp: request_refund_tx_def Let_def simp del: exists_where_iff)
  next
    case True
    then obtain r where r: "r \<in> set (a2a_delegation_refund_outbox d)" "?hit r" by auto
    note ok' = delegations_okD [OF ok]
    have wf: "delegation_wf r" using r ok' by blast
    from True run have u: "update_outbox ?hit ?f d = Inr d'"
      by (auto simp: request_refund_tx_def Let_def bindE_eq_Inr_iff simp del: exists_where_iff)
    have id: "\<And>x. ?hit x \<Longrightarrow> ob_id x = ob_id r" using r(2) by (simp add: is_delegation_def)
    note d' = update_outbox_row [OF u ok'(2) r id]
    have "moved r (?f r) d d'"
      by (rule moved_plain [OF ok r(1) d'(1)])
        (use r wf d'(2) in \<open>auto simp: delegation_wf_def delegation_progress_def held_amount_def\<close>)
    with r show ?thesis by blast
  qed
qed

interpretation request_dlg: delegation_operation "\<lambda>d. snd (request_delegation_refund org i d)" for org i
proof (rule delegation_operationI)
  fix d assume "delegations_ok d"
  then show "snd (request_delegation_refund org i d) = d \<or> (\<exists>r r'. r \<in> set (a2a_delegation_refund_outbox d) \<and>
      moved r r' d (snd (request_delegation_refund org i d)))"
    unfolding request_delegation_refund_def
    by (cases rule: or_false_cases [of "request_refund_tx org i" d]) (auto dest: request_moved)
qed

lemma cancel_moved:
  assumes ok: "delegations_ok d" and run: "cancel_refund_tx now org i d = Inr (b, d')"
  shows "d' = d \<or> (\<exists>r r'. r \<in> set (a2a_delegation_refund_outbox d) \<and> moved r r' d d')"
proof -
  let ?hit = "\<lambda>x. is_delegation org i x \<and> ob_status x \<in> {RefundPending, RefundRequested} \<and>
    ob_delivery_status x \<in> {NotAttempted, PossiblyDelivered, Confirmed}"
  let ?f = "\<lambda>x. x\<lparr>ob_status := RefundCancelled, ob_resolved_at := coalesce (ob_resolved_at x) now,
    ob_delivery_status := (if ob_delivery_status x \<in> {NotAttempted, PossiblyDelivered} then Confirmed else ob_delivery_status x),
    ob_delivery_resolved_at := (if ob_delivery_status x \<in> {NotAttempted, PossiblyDelivered}
      then coalesce (ob_delivery_resolved_at x) now else ob_delivery_resolved_at x),
    ob_delivery_error := []\<rparr>"
  note ok' = delegations_okD [OF ok]
  from run have u: "update_outbox ?hit ?f d = Inr d'"
    unfolding cancel_refund_tx_def Let_def bindE_eq_Inr_iff by (auto split: if_splits)
  show ?thesis
  proof (cases "\<exists>r \<in> set (a2a_delegation_refund_outbox d). ?hit r")
    case False
    then show ?thesis using update_outbox_miss [OF u] by blast
  next
    case True
    then obtain r where r: "r \<in> set (a2a_delegation_refund_outbox d)" "?hit r" by blast
    have wf: "delegation_wf r" using r ok' by blast
    have id: "\<And>x. ?hit x \<Longrightarrow> ob_id x = ob_id r" using r(2) by (simp add: is_delegation_def)
    note d' = update_outbox_row [OF u ok'(2) r id]
    have st: "ob_status r \<in> {RefundPending, RefundRequested}" "ob_delivery_status r \<in> {NotAttempted, PossiblyDelivered}"
      using r(2) wf by (auto simp: delegation_wf_def)
    have "moved r (?f r) d d'"
    proof (rule moved_plain [OF ok r(1) d'(1)])
      show "delegation_wf (?f r)" using d'(2) st by (simp add: delegation_wf_def)
      show "delegation_progress r (?f r)" using st by (auto simp: delegation_progress_def)
      show "held_amount (?f r) = held_amount r" using st by (auto simp: held_amount_def)
      show "ob_status (?f r) \<noteq> Refunded" by (cases r) simp
    qed
    with r show ?thesis by blast
  qed
qed

interpretation cancel_dlg: delegation_operation "\<lambda>d. snd (cancel_delegation_refund now org i d)" for now org i
proof (rule delegation_operationI)
  fix d assume "delegations_ok d"
  then show "snd (cancel_delegation_refund now org i d) = d \<or> (\<exists>r r'. r \<in> set (a2a_delegation_refund_outbox d) \<and>
      moved r r' d (snd (cancel_delegation_refund now org i d)))"
    unfolding cancel_delegation_refund_def
    by (cases rule: or_false_cases [of "cancel_refund_tx now org i" d]) (auto dest: cancel_moved)
qed

text \<open>Funding: either nothing happened, or a debit and its outbox row were committed together.\<close>

lemma debit_with_refund_cases:
  obtains (unchanged) r where "debit_credit_with_delegation_refund st now l org amount reason i run_id p d = (r, d)"
      "fst r \<Longrightarrow> 0 < amount \<Longrightarrow> (\<exists>x. find_delegation org i d = Some x \<and> ob_status x = RefundPending \<and> ob_amount_usdc x = amount)"
    | (funded) d1 row where
      "debit_credit_with_delegation_refund st now l org amount reason i run_id p d =
        ((True, amount), invalidate_daily_spend_cache org
          (d1\<lparr>a2a_delegation_refund_outbox := a2a_delegation_refund_outbox d @ [row]\<rparr>))"
      "0 < amount" "debit_credit_locked st now l org amount reason p d = Inr ((True, amount, Some l), d1)"
      "insert_refund_outbox row d1 = Inr (d1\<lparr>a2a_delegation_refund_outbox := a2a_delegation_refund_outbox d @ [row]\<rparr>)"
      "row = \<lparr>ob_id = i, ob_org_id = org, ob_run_id = run_id, ob_amount_usdc = amount,
         ob_status = RefundPending, ob_created_at = now, ob_resolved_at = None,
         ob_debit_ledger_id = Some l, ob_delivery_status = NotAttempted,
         ob_delivery_started_at = None, ob_delivery_resolved_at = None,
         ob_delivery_settlement_tx = [], ob_delivery_error = []\<rparr>"
proof (cases "amount \<le> 0")
  case True
  then show ?thesis by (intro unchanged) (auto simp: debit_credit_with_delegation_refund_def)
next
  case pos: False
  show ?thesis
  proof (cases "debit_credit_with_delegation_refund_tx st now l org amount reason i run_id p d")
    case (Inl e)
    with pos show ?thesis
      by (intro unchanged) (auto simp: debit_credit_with_delegation_refund_def transaction_def)
  next
    case (Inr res)
    then obtain s a d' where tx: "debit_credit_with_delegation_refund_tx st now l org amount reason i run_id p d = Inr ((s, a), d')"
      by (cases res) auto
    then have run: "debit_credit_with_delegation_refund st now l org amount reason i run_id p d = ((s, a), d')"
      using pos by (simp add: debit_credit_with_delegation_refund_def transaction_def)
    show ?thesis
    proof (cases "find_delegation org i d")
      case (Some x)
      with tx run show ?thesis
        by (intro unchanged) (auto simp: debit_credit_with_delegation_refund_tx_def split: if_splits)
    next
      case None
      with tx obtain ok a' k d1 where db: "debit_credit_locked st now l org amount reason p d = Inr ((ok, a', k), d1)"
        by (auto simp: debit_credit_with_delegation_refund_tx_def bindE_eq_Inr_iff)
      show ?thesis
      proof (cases ok)
        case False
        with db tx None run show ?thesis
          using debit_locked_refused [of st now l org amount reason p d a' k d1]
          by (intro unchanged) (auto simp: debit_credit_with_delegation_refund_tx_def)
      next
        case True
        with db have eq: "a' = amount" "k = Some l" by (auto elim: debit_locked_success)
        note fr = debit_locked_pending [OF db]
        from True db tx None eq obtain d2 row where ins: "insert_refund_outbox row d1 = Inr d2"
          and row: "row = \<lparr>ob_id = i, ob_org_id = org, ob_run_id = run_id, ob_amount_usdc = amount,
             ob_status = RefundPending, ob_created_at = now, ob_resolved_at = None,
             ob_debit_ledger_id = Some l, ob_delivery_status = NotAttempted,
             ob_delivery_started_at = None, ob_delivery_resolved_at = None,
             ob_delivery_settlement_tx = [], ob_delivery_error = []\<rparr>"
          and out: "s" "a = amount" "d' = invalidate_daily_spend_cache org d2"
          by (auto simp: debit_credit_with_delegation_refund_tx_def bindE_eq_Inr_iff)
        have "d2 = d1\<lparr>a2a_delegation_refund_outbox := a2a_delegation_refund_outbox d @ [row]\<rparr>"
          using ins fr by (auto simp: insert_refund_outbox_def split: if_splits)
        with funded [of row d1] run pos db True eq ins row out show ?thesis by simp
      qed
    qed
  qed
qed

lemma funded_ok:
  assumes ok: "delegations_ok d" and amount: "0 < amount"
    and db: "debit_credit_locked st now l org amount reason p d = Inr ((True, amount, Some l), d1)"
    and ins: "insert_refund_outbox row d1 = Inr d2"
    and row: "row = \<lparr>ob_id = i, ob_org_id = org, ob_run_id = run_id, ob_amount_usdc = amount,
         ob_status = RefundPending, ob_created_at = now, ob_resolved_at = None,
         ob_debit_ledger_id = Some l, ob_delivery_status = NotAttempted,
         ob_delivery_started_at = None, ob_delivery_resolved_at = None,
         ob_delivery_settlement_tx = [], ob_delivery_error = []\<rparr>"
  shows "delegations_ok d2" "net_position x d2 = net_position x d"
proof -
  note ok' = delegations_okD [OF ok]
  have ledger: "org_credit_ledger d1 = org_credit_ledger d @ [debit_row l org amount (get_credit_balance org d - amount) reason p now]"
      "l \<notin> led_id ` set (org_credit_ledger d)"
      "\<And>x. get_credit_balance x d1 = get_credit_balance x d - (if x = org then amount else 0)"
    using db by (auto elim!: debit_locked_success dest: insert_ledger_InrD(1,5) simp: get_credit_balance_def)
  have out: "a2a_delegation_refund_outbox d1 = a2a_delegation_refund_outbox d" using debit_locked_pending [OF db] by simp
  have d2: "d2 = d1\<lparr>a2a_delegation_refund_outbox := a2a_delegation_refund_outbox d @ [row]\<rparr>"
    and fresh: "i \<notin> ob_id ` set (a2a_delegation_refund_outbox d)" and big: "bigint amount"
    using ins out row by (auto simp: insert_refund_outbox_def split: if_splits)
  have rev: "is_reversed (org_credit_ledger d1) j = is_reversed (org_credit_ledger d) j" for j
    using ledger(1) by (simp add: is_reversed_append)
  have "\<not> is_reversed (org_credit_ledger d) l"
    using fresh_not_reversed [OF _ ledger(2)] ok'(1) by (simp add: audited_def)
  then have "delegation_wf row \<and> debit_link_ok (org_credit_ledger d1) row"
    using row amount big ledger(1) rev by (simp add: delegation_wf_def outbox_check_def debit_link_ok_def)
  moreover have "delegation_wf r \<and> debit_link_ok (org_credit_ledger d1) r" if "r \<in> set (a2a_delegation_refund_outbox d)" for r
    using ok'(3,4) [OF that] rev ledger(1) by (auto simp: debit_link_ok_def)
  moreover have "l \<notin> set (List.map_filter ob_debit_ledger_id (a2a_delegation_refund_outbox d))"
    using ok'(4) ledger(2) by (auto simp: in_map_filter debit_link_ok_def)
  ultimately show "delegations_ok d2"
    using ok d2 fresh row debit_locked_audited [OF ok'(1) db] by (auto simp: delegations_ok_def)
  show "net_position x d2 = net_position x d"
    using d2 row ledger(3) by (simp add: net_position_def held_amount_def get_credit_balance_def)
qed

lemma delegations_ok_invalidate [simp]:
  "delegations_ok (invalidate_daily_spend_cache org d) = delegations_ok d"
  "net_position x (invalidate_daily_spend_cache org d) = net_position x d"
  by (simp_all add: delegations_ok_def net_position_def)

interpretation fund_dlg: delegation_operation
  "\<lambda>d. snd (fund_delegation st now l org cost run_id url i p d)" for st now l org cost run_id url i p
proof unfold_locales
  fix d :: db and x r
  assume ok: "delegations_ok d"
  let ?run = "debit_credit_with_delegation_refund st now l org cost (''a2a_delegation run='' @ run_id @ '' agent='' @ url) i run_id p"
  have eq: "snd (fund_delegation st now l org cost run_id url i p d) = snd (?run d)"
    by (simp add: fund_delegation_def case_prod_beta Let_def)
  have all: "delegations_ok (snd (?run d)) \<and> net_position x (snd (?run d)) = net_position x d \<and>
      set (a2a_delegation_refund_outbox d) \<subseteq> set (a2a_delegation_refund_outbox (snd (?run d))) \<and>
      (\<exists>new. org_credit_ledger (snd (?run d)) = org_credit_ledger d @ new)" for x
  proof (cases rule: debit_with_refund_cases [of st now l org cost "''a2a_delegation run='' @ run_id @ '' agent='' @ url" i run_id p d])
    case (funded d1 row)
    have "org_credit_ledger (snd (?run d)) = org_credit_ledger d1" using funded by simp
    moreover have "\<exists>new. org_credit_ledger d1 = org_credit_ledger d @ new"
      using funded(3) by (auto elim!: debit_locked_success dest: insert_ledger_InrD(1))
    ultimately show ?thesis using funded_ok [OF ok funded(2,3,4,5)] funded by auto
  qed (use ok in auto)
  show "delegations_ok (snd (fund_delegation st now l org cost run_id url i p d))"
    "net_position x (snd (fund_delegation st now l org cost run_id url i p d)) = net_position x d"
    using all eq by auto
  show "\<exists>r' \<in> set (a2a_delegation_refund_outbox (snd (fund_delegation st now l org cost run_id url i p d))). delegation_progress r r'"
    if "r \<in> set (a2a_delegation_refund_outbox d)"
    using all that eq delegation_progress_refl by (metis subsetD)
  show "\<exists>new. org_credit_ledger (snd (fund_delegation st now l org cost run_id url i p d)) = org_credit_ledger d @ new"
    using all eq by auto
qed

section \<open>The worker\<close>

lemma delegation_operation_choice:
  assumes "\<And>d. \<exists>f \<in> F. run d = f d" and "\<And>f. f \<in> F \<Longrightarrow> delegation_operation f"
  shows "delegation_operation run"
proof
  fix d :: db and org r
  assume ok: "delegations_ok d"
  obtain f where f: "delegation_operation f" "run d = f d" using assms by blast
  show "delegations_ok (run d)" "net_position org (run d) = net_position org d"
    using delegation_operation.keeps_ok [OF f(1) ok] delegation_operation.conserves [OF f(1) ok] f(2) by simp_all
  show "\<exists>r' \<in> set (a2a_delegation_refund_outbox (run d)). delegation_progress r r'"
    if "r \<in> set (a2a_delegation_refund_outbox d)"
    using delegation_operation.progresses [OF f(1) ok that] f(2) by simp
  show "\<exists>new. org_credit_ledger (run d) = org_credit_ledger d @ new"
    using delegation_operation.appends [OF f(1) ok] f(2) by simp
qed

lemma request_complete_dlg:
  "delegation_operation (\<lambda>d. snd (complete_delegation_refund now l org i (snd (request_delegation_refund org i d))))"
  by (rule delegation_operation_comp [OF request_dlg.delegation_operation_axioms complete_dlg.delegation_operation_axioms])

lemmas worker_dlgs = delegation_operation_id request_complete_dlg request_dlg.delegation_operation_axioms
  cancel_dlg.delegation_operation_axioms

lemma refund_delegation_dlg: "delegation_operation (\<lambda>d. snd (refund_delegation now l org cost i d))"
  by (rule delegation_operation_choice [where F = "{\<lambda>d. d, \<lambda>d. snd (request_delegation_refund org i d),
      \<lambda>d. snd (complete_delegation_refund now l org i (snd (request_delegation_refund org i d)))}"])
    (auto simp: refund_delegation_def case_prod_beta Let_def worker_dlgs)

interpretation refund_dlg: delegation_operation "\<lambda>d. snd (refund_delegation now l org cost i d)" for now l org cost i
  by (rule refund_delegation_dlg)

definition reconcile_one ::
  "instant \<Rightarrow> ident \<Rightarrow> refund_outbox_row \<times> delegation_event_row option \<Rightarrow> db \<Rightarrow> db" where
  "reconcile_one now l row d =
    (let (r, ev) = row in
     if ob_delivery_status r = PossiblyDelivered \<or>
        (case ev of None \<Rightarrow> False | Some e \<Rightarrow> ev_task_status e = ''possibly_delivered'') then d
     else if (case ev of None \<Rightarrow> False | Some e \<Rightarrow> ev_task_status e = ''completed'' \<and> ev_cost_usdc e \<noteq> 0)
     then snd (cancel_delegation_refund now (ob_org_id r) (ob_id r) d)
     else snd (complete_delegation_refund now l (ob_org_id r) (ob_id r)
       (snd (request_delegation_refund (ob_org_id r) (ob_id r) d))))"

lemma reconcile_Cons:
  "snd (reconcile_delegations now fresh k (row # rows) d) =
   snd (reconcile_delegations now fresh (Suc k) rows (reconcile_one now (fresh k) row d))"
  by (cases row) (simp add: reconcile_one_def case_prod_beta Let_def)

lemma reconcile_one_dlg: "delegation_operation (reconcile_one now l row)"
  by (rule delegation_operation_choice [where F = "{\<lambda>d. d,
      \<lambda>d. snd (cancel_delegation_refund now (ob_org_id (fst row)) (ob_id (fst row)) d),
      \<lambda>d. snd (complete_delegation_refund now l (ob_org_id (fst row)) (ob_id (fst row))
        (snd (request_delegation_refund (ob_org_id (fst row)) (ob_id (fst row)) d)))}"])
    (auto simp: reconcile_one_def case_prod_beta Let_def worker_dlgs)

lemma reconcile_dlg: "delegation_operation (\<lambda>d. snd (reconcile_delegations now fresh k rows d))"
proof (induction rows arbitrary: k)
  case Nil
  then show ?case by (simp add: delegation_operation_id)
next
  case (Cons row rows)
  show ?case unfolding reconcile_Cons by (rule delegation_operation_comp [OF reconcile_one_dlg Cons.IH])
qed

text \<open>The operations of the worker touch only the row they are called for.\<close>

lemma update_outbox_other:
  assumes "update_outbox p f d = Inr d'" "x \<in> set (a2a_delegation_refund_outbox d)" "\<not> p x"
  shows "x \<in> set (a2a_delegation_refund_outbox d')"
  using assms by (force simp: update_outbox_def set_update_where split: if_splits)

lemma add_balance_outbox:
  "add_balance org a d = Inr (b, d') \<Longrightarrow> a2a_delegation_refund_outbox d' = a2a_delegation_refund_outbox d"
  by (auto simp: add_balance_def Let_def split: option.splits if_splits)

lemma insert_ledger_outbox:
  "insert_ledger l d = Inr d' \<Longrightarrow> a2a_delegation_refund_outbox d' = a2a_delegation_refund_outbox d"
  by (drule insert_ledger_InrD(1)) simp

lemma worker_other:
  assumes x: "x \<in> set (a2a_delegation_refund_outbox d)" "ob_id x \<noteq> i"
  shows "x \<in> set (a2a_delegation_refund_outbox (snd (request_delegation_refund org i d)))"
    and "x \<in> set (a2a_delegation_refund_outbox (snd (cancel_delegation_refund now org i d)))"
    and "x \<in> set (a2a_delegation_refund_outbox (snd (complete_delegation_refund now l org i d)))"
proof -
  have miss: "\<not> is_delegation org i x" using x by (simp add: is_delegation_def)
  have "x \<in> set (a2a_delegation_refund_outbox d')" if "request_refund_tx org i d = Inr (b, d')" for b d'
    using that update_outbox_other [OF _ x(1)] miss x(1)
    by (fastforce simp: request_refund_tx_def Let_def bindE_eq_Inr_iff split: if_splits)
  then show "x \<in> set (a2a_delegation_refund_outbox (snd (request_delegation_refund org i d)))"
    using x(1) unfolding request_delegation_refund_def
    by (cases rule: or_false_cases [of "request_refund_tx org i" d]) auto
  have "x \<in> set (a2a_delegation_refund_outbox d')" if "cancel_refund_tx now org i d = Inr (b, d')" for b d'
    using that update_outbox_other [OF _ x(1)] miss
    unfolding cancel_refund_tx_def Let_def bindE_eq_Inr_iff by (fastforce split: if_splits)
  then show "x \<in> set (a2a_delegation_refund_outbox (snd (cancel_delegation_refund now org i d)))"
    using x(1) unfolding cancel_delegation_refund_def
    by (cases rule: or_false_cases [of "cancel_refund_tx now org i" d]) auto
  have "x \<in> set (a2a_delegation_refund_outbox d')" if "complete_refund_locked now l org i r p d = Inr (b, d')" for r p b d'
    using that miss x(1)
    by (auto simp: complete_refund_locked_def close_refund_def bindE_eq_Inr_iff add_balance_outbox insert_ledger_outbox
        simp del: exists_where_iff split: if_splits option.splits elim!: update_outbox_other)
  then have "x \<in> set (a2a_delegation_refund_outbox d')" if "complete_refund_tx now l org i d = Inr (b, d')" for b d'
    using that x(1)
    by (auto simp: complete_refund_tx_def bindE_eq_Inr_iff invalidate_when_def split: option.splits if_splits)
  then show "x \<in> set (a2a_delegation_refund_outbox (snd (complete_delegation_refund now l org i d)))"
    using x(1) unfolding complete_delegation_refund_def
    by (cases rule: or_false_cases [of "complete_refund_tx now l org i" d]) auto
qed

lemma reconcile_other:
  assumes "x \<in> set (a2a_delegation_refund_outbox d)" "ob_id x \<notin> ob_id ` fst ` set rows"
  shows "x \<in> set (a2a_delegation_refund_outbox (snd (reconcile_delegations now fresh k rows d)))"
  using assms
proof (induction rows arbitrary: k d)
  case (Cons row rows)
  have ne: "ob_id x \<noteq> ob_id (fst row)" using Cons.prems(2) by auto
  have "x \<in> set (a2a_delegation_refund_outbox (reconcile_one now (fresh k) row d))"
    using Cons.prems(1) worker_other [OF _ ne] by (simp add: reconcile_one_def case_prod_beta Let_def)
  then show ?case unfolding reconcile_Cons using Cons by simp
qed simp

lemma mark_changes:
  assumes "find_delegation org i d = Some r" "ob_delivery_status r = NotAttempted"
    and "mark_delivery_tx st now l org i charge d = Inr (True, d')"
  shows "d' \<noteq> d \<and> (\<forall>c r'. charge = Some c \<longrightarrow> find_delegation org i d' = Some r' \<longrightarrow> ob_amount_usdc r' = c)"
proof -
  define final where "final = (case charge of None \<Rightarrow> ob_amount_usdc r | Some c \<Rightarrow> c)"
  let ?f = "\<lambda>x. x\<lparr>ob_delivery_status := PossiblyDelivered, ob_delivery_started_at := coalesce (ob_delivery_started_at x) now,
      ob_delivery_error := [], ob_amount_usdc := final\<rparr>"
  from assms obtain d1 where upd: "update_outbox (is_delegation org i) ?f d1 = Inr d'"
    unfolding mark_delivery_tx_def Let_def final_def
    by (auto simp: bindE_eq_Inr_iff split: if_splits option.splits)
  then have "a2a_delegation_refund_outbox d' = update_where (is_delegation org i) ?f (a2a_delegation_refund_outbox d1)"
    by (auto simp: update_outbox_def split: if_splits)
  then have all: "ob_delivery_status x = PossiblyDelivered \<and> ob_amount_usdc x = final"
    if "x \<in> set (a2a_delegation_refund_outbox d')" "ob_id x = i" "ob_org_id x = org" for x
    using that by (auto simp: is_delegation_def elim!: in_update_whereE)
  have "d' \<noteq> d" using all [of r] find_delegationD [OF assms(1)] assms(2) by auto
  then show ?thesis using all find_delegationD [of org i d'] by (auto simp: final_def)
qed

lemma find_replaced:
  assumes "delegations_ok d" "find_delegation org i d = Some r" "delegation_progress r r'"
    and "a2a_delegation_refund_outbox d' = replace_row r r' (a2a_delegation_refund_outbox d)"
  shows "find_delegation org i d' = Some r'"
proof -
  note r = find_delegationD [OF assms(2)]
  have keys: "ob_id r' = i" "ob_org_id r' = org" using assms(3) r by (auto simp: delegation_progress_def)
  then have dist: "distinct (map ob_id (a2a_delegation_refund_outbox d'))"
    using assms(4) delegations_okD(2) [OF assms(1)] r by simp
  have mem: "r' \<in> set (a2a_delegation_refund_outbox d')" using in_replace_row r assms(4) by metis
  obtain x where x: "find_delegation org i d' = Some x"
    using mem keys by (cases "find_delegation org i d'") (auto simp: find_delegation_def find_None)
  with find_delegationD [OF x] keys mem distinct_key_eq [OF dist] show ?thesis by metis
qed

section \<open>Histories\<close>

text \<open>
  One call of any operation by any process, with any clock, identifiers and arguments; the calls of
  concurrent processes interleave as sequences of such steps, because each runs under its row lock.
\<close>

inductive delegation_step :: "settings \<Rightarrow> db \<Rightarrow> db \<Rightarrow> bool" for st where
  fund: "delegation_step st d (snd (fund_delegation st now l org cost run_id url i p d))"
| mark: "delegation_step st d (snd (mark_delegation_possibly_delivered st now l org i charge d))"
| confirm: "delegation_step st d (snd (confirm_delegation_delivery now org i tx d))"
| fail: "delegation_step st d (snd (fail_delegation_delivery now l org i reason d))"
| request: "delegation_step st d (snd (request_delegation_refund org i d))"
| cancel: "delegation_step st d (snd (cancel_delegation_refund now org i d))"
| complete: "delegation_step st d (snd (complete_delegation_refund now l org i d))"

inductive_cases delegation_stepE: "delegation_step st d d'"

lemmas delegation_operations [service_contracts] =
  fund_dlg.delegation_operation_axioms mark_dlg.delegation_operation_axioms confirm_dlg.delegation_operation_axioms
  fail_dlg.delegation_operation_axioms request_dlg.delegation_operation_axioms cancel_dlg.delegation_operation_axioms
  complete_dlg.delegation_operation_axioms

lemma delegation_step_contract:
  assumes "delegation_step st d d'"
  obtains run where "delegation_operation run" "d' = run d"
  using assms by cases (blast intro: that service_contracts)+

lemma delegation_history:
  assumes "(delegation_step st)\<^sup>*\<^sup>* d d'"
  obtains run where "delegation_operation run" "d' = run d"
proof -
  from assms have "\<exists>run. delegation_operation run \<and> d' = run d"
  proof (induction rule: rtranclp_induct)
    case base
    then show ?case using delegation_operation_id by blast
  next
    case (step y z)
    then show ?case using delegation_operation_comp delegation_step_contract by metis
  qed
  then show ?thesis using that by blast
qed

section \<open>Properties\<close>

text \<open>
  C12. Delegation money is conserved. Along every history of funding, delivery marking, confirmation,
  failure, refund request, cancellation and completion calls, in any interleaving, each
  organisation's balance plus the amounts its delegations hold or have captured stays the same, the
  invariant of the outbox and the audit of the ledger hold throughout, and a delegation once
  refunded or captured never changes again.
\<close>

theorem delegation_conservation:
  assumes "(delegation_step st)\<^sup>*\<^sup>* d d'" and "delegations_ok d"
  shows "delegations_ok d' \<and> (\<forall>org. net_position org d' = net_position org d) \<and>
    (\<forall>r \<in> set (a2a_delegation_refund_outbox d). ob_status r \<in> {Refunded, RefundCancelled} \<longrightarrow>
       r \<in> set (a2a_delegation_refund_outbox d'))"
proof -
  obtain run where run: "delegation_operation run" "d' = run d" using assms(1) by (rule delegation_history)
  show ?thesis
    using delegation_operation.keeps_ok [OF run(1) assms(2)] delegation_operation.conserves [OF run(1) assms(2)]
      delegation_operation.resolved_final [OF run(1) assms(2)] run(2) by blast
qed

lemma demo_db_delegations_ok: "delegations_ok demo_db"
  using demo_db_audited by (simp add: delegations_ok_def demo_db_def empty_db_def List.map_filter_def)

definition demo_funded_db :: db where
  "demo_funded_db = snd (fund_delegation default_settings 5 ''l1'' ''acme'' 40 ''r1'' ''https://a'' ''del1'' None demo_db)"

lemmas dlg_eval_simps = fund_delegation_def debit_credit_with_delegation_refund_def
  debit_credit_with_delegation_refund_tx_def insert_refund_outbox_def find_delegation_def debit_eval_simps
  invalidate_daily_spend_cache_def

lemma demo_funded_ok: "delegations_ok demo_funded_db"
  unfolding demo_funded_db_def by (rule fund_dlg.keeps_ok) (rule demo_db_delegations_ok)

lemma demo_funded_rows:
  "\<exists>r. a2a_delegation_refund_outbox demo_funded_db = [r] \<and> ob_id r = ''del1'' \<and> ob_org_id r = ''acme'' \<and>
    ob_amount_usdc r = 40 \<and> ob_status r = RefundPending \<and> ob_delivery_status r = NotAttempted \<and>
    ob_delivery_started_at r = None \<and> ob_debit_ledger_id r = Some ''l1''"
  by (simp add: demo_funded_db_def dlg_eval_simps demo_simps Let_def)

lemma demo_funded_find:
  "\<exists>r. find_delegation ''acme'' ''del1'' demo_funded_db = Some r \<and> ob_amount_usdc r = 40 \<and>
    ob_status r = RefundPending \<and> ob_delivery_status r = NotAttempted"
  using demo_funded_rows by (auto simp: find_delegation_def)

lemma demo_funded_balance: "get_credit_balance ''acme'' demo_funded_db = 60"
  by (simp add: demo_funded_db_def dlg_eval_simps demo_simps Let_def)

theorem delegation_conservation_witness:
  "delegations_ok demo_funded_db \<and> net_position ''acme'' demo_funded_db = 100"
proof -
  have "delegation_step default_settings demo_db demo_funded_db"
    unfolding demo_funded_db_def by (rule delegation_step.fund)
  then have "(delegation_step default_settings)\<^sup>*\<^sup>* demo_db demo_funded_db" by blast
  moreover have "net_position ''acme'' demo_db = 100"
    by (simp add: net_position_def demo_simps get_credit_balance_def)
  ultimately show ?thesis using delegation_conservation demo_db_delegations_ok by metis
qed

lemma reversal_count:
  assumes "ledger_wf rows"
  shows "length (filter (\<lambda>l. led_reverses_ledger_id l = Some i) rows) = (if is_reversed rows i then 1 else 0)"
proof -
  have "distinct (List.map_filter led_reverses_ledger_id rows)" using assms by (simp add: ledger_wf_def)
  then show ?thesis
  proof (induction rows)
    case (Cons l rows)
    then have IH: "length (filter (\<lambda>l. led_reverses_ledger_id l = Some i) rows) = (if is_reversed rows i then 1 else 0)"
      by (auto simp: List.map_filter_simps split: option.splits)
    have "\<not> is_reversed rows i" if "led_reverses_ledger_id l = Some i"
      using Cons.prems that by (auto simp: List.map_filter_simps is_reversed_def in_map_filter)
    with IH show ?case by (auto simp: is_reversed_def)
  qed (simp add: is_reversed_def)
qed

text \<open>
  C13. A debit is reversed at most once: along every history the number of ledger rows that reverse a
  delegation's debit is one when the delegation is refunded and zero otherwise.
\<close>

theorem delegation_refunded_once:
  assumes "(delegation_step st)\<^sup>*\<^sup>* d d'" and "delegations_ok d"
    and "r \<in> set (a2a_delegation_refund_outbox d')" and "ob_debit_ledger_id r = Some i"
  shows "length (filter (\<lambda>l. led_reverses_ledger_id l = Some i) (org_credit_ledger d')) =
    (if ob_status r = Refunded then 1 else 0)"
proof -
  obtain run where run: "delegation_operation run" "d' = run d" using assms(1) by (rule delegation_history)
  have ok: "delegations_ok d'" using delegation_operation.keeps_ok [OF run(1) assms(2)] run(2) by simp
  then have "ledger_wf (org_credit_ledger d')" "is_reversed (org_credit_ledger d') i = (ob_status r = Refunded)"
    using assms(3,4) by (auto simp: delegations_ok_def audited_def debit_link_ok_def)
  then show ?thesis by (simp add: reversal_count)
qed

definition demo_refunded_db :: db where
  "demo_refunded_db = snd (complete_delegation_refund 8 ''l3'' ''acme'' ''del1'' (snd (complete_delegation_refund 7 ''l2'' ''acme'' ''del1''
     (snd (request_delegation_refund ''acme'' ''del1'' demo_funded_db)))))"

lemma demo_refunded_row:
  "\<exists>r. a2a_delegation_refund_outbox demo_refunded_db = [r] \<and> ob_debit_ledger_id r = Some ''l1'' \<and> ob_status r = Refunded"
  by (simp add: demo_refunded_db_def complete_delegation_refund_def complete_refund_tx_def complete_refund_locked_def
      request_delegation_refund_def request_refund_tx_def or_false_def transaction_def close_refund_def debit_principal_def
      invalidate_when_def update_outbox_def outbox_check_def is_delegation_def coalesce_def add_balance_def demo_funded_db_def dlg_eval_simps demo_simps Let_def)

theorem delegation_refunded_once_witness:
  "length (filter (\<lambda>l. led_reverses_ledger_id l = Some ''l1'') (org_credit_ledger demo_refunded_db)) = 1 \<and>
   length (filter (\<lambda>l. led_reverses_ledger_id l = Some ''l1'') (org_credit_ledger demo_funded_db)) = 0"
proof -
  obtain r where r: "r \<in> set (a2a_delegation_refund_outbox demo_refunded_db)" "ob_debit_ledger_id r = Some ''l1''" "ob_status r = Refunded"
    using demo_refunded_row by auto
  obtain r0 where r0: "r0 \<in> set (a2a_delegation_refund_outbox demo_funded_db)" "ob_debit_ledger_id r0 = Some ''l1''"
    "ob_status r0 = RefundPending"
    using demo_funded_rows by auto
  have funded: "(delegation_step default_settings)\<^sup>*\<^sup>* demo_db demo_funded_db"
    unfolding demo_funded_db_def by (blast intro: delegation_step.fund)
  moreover have "(delegation_step default_settings)\<^sup>*\<^sup>* demo_funded_db demo_refunded_db"
    unfolding demo_refunded_db_def
    by (meson delegation_step.request delegation_step.complete r_into_rtranclp rtranclp.rtrancl_into_rtrancl)
  ultimately have refunded: "(delegation_step default_settings)\<^sup>*\<^sup>* demo_db demo_refunded_db" by simp
  show ?thesis
    using delegation_refunded_once [OF refunded demo_db_delegations_ok r(1,2)] r(3)
      delegation_refunded_once [OF funded demo_db_delegations_ok r0(1,2)] r0(3) by simp
qed

text \<open>
  C14. Treasury outflow is capped: when marking a delegation for delivery succeeds on a delegation
  that had not been attempted, the signed charge is positive and at most the amount held, the
  difference is back on the organisation's balance, and the total signed in the last 24 hours,
  including this charge, is within the daily cap.
\<close>

theorem treasury_outflow_capped:
  assumes "delegations_ok d" and "find_delegation org i d = Some r" and "ob_delivery_status r = NotAttempted"
    and "mark_delegation_possibly_delivered st now l org i charge d = (True, d')"
  shows "treasury_outflow_24h now d' \<le> a2a_treasury_daily_outflow_cap_usdc st \<and>
    (\<exists>r'. find_delegation org i d' = Some r' \<and> ob_delivery_status r' = PossiblyDelivered \<and>
      0 < ob_amount_usdc r' \<and> ob_amount_usdc r' \<le> ob_amount_usdc r \<and>
      (\<forall>c. charge = Some c \<longrightarrow> ob_amount_usdc r' = c) \<and>
      get_credit_balance org d' = get_credit_balance org d + (ob_amount_usdc r - ob_amount_usdc r'))"
proof -
  note r = find_delegationD [OF assms(2)] and ok' = delegations_okD [OF assms(1)]
  have wf: "delegation_wf r" using r ok' by blast
  from assms(4) have tx: "mark_delivery_tx st now l org i charge d = Inr (True, d')"
    unfolding mark_delegation_possibly_delivered_def
    by (cases rule: or_false_cases [of "mark_delivery_tx st now l org i charge" d]) auto
  have chg: "d' \<noteq> d" and amt: "\<And>c r'. charge = Some c \<Longrightarrow> find_delegation org i d' = Some r' \<Longrightarrow> ob_amount_usdc r' = c"
    using mark_changes [OF assms(2,3) tx] by blast+
  from mark_moved [OF assms(1) tx] chg assms(2) obtain r' where m: "moved r r' d d'"
      and r': "ob_delivery_status r' = PossiblyDelivered" "ob_delivery_started_at r' = Some now"
      and cap: "treasury_outflow_24h now d + ob_amount_usdc r' \<le> a2a_treasury_daily_outflow_cap_usdc st"
    by auto
  have prog: "delegation_progress r r'" and wf': "delegation_wf r'"
    and out: "a2a_delegation_refund_outbox d' = replace_row r r' (a2a_delegation_refund_outbox d)"
    using m by (auto simp: moved_def)
  have st: "ob_status r \<noteq> Refunded"
    using m r' wf' prog by (auto simp: delegation_progress_def delegation_wf_def)
  have st': "ob_status r' \<noteq> Refunded" using wf' r' by (auto simp: delegation_wf_def)
  have "treasury_outflow_24h now d' = treasury_outflow_24h now d + ob_amount_usdc r'"
    unfolding treasury_outflow_24h_def out
    using sum_replace_row [OF ok'(2), of r _ ob_amount_usdc r'] r r' wf assms(3)
    by (simp add: delegation_wf_def hours_def seconds_def)
  moreover have "find_delegation org i d' = Some r'"
    using find_replaced [OF assms(1,2) prog out] .
  ultimately show ?thesis
    using cap r' wf' prog m amt st st' r
    by (auto simp: delegation_progress_def delegation_wf_def outbox_check_def moved_def held_amount_def)
qed

theorem treasury_outflow_capped_witness:
  "\<exists>d'. mark_delegation_possibly_delivered default_settings 9 ''l2'' ''acme'' ''del1'' (Some 25) demo_funded_db = (True, d') \<and>
     treasury_outflow_24h 9 d' \<le> 5000000 \<and> get_credit_balance ''acme'' d' = 75"
proof -
  obtain r where r: "find_delegation ''acme'' ''del1'' demo_funded_db = Some r" "ob_delivery_status r = NotAttempted"
    "ob_amount_usdc r = 40"
    using demo_funded_find by auto
  obtain d' where run: "mark_delegation_possibly_delivered default_settings 9 ''l2'' ''acme'' ''del1'' (Some 25) demo_funded_db = (True, d')"
    by (simp add: mark_delegation_possibly_delivered_def or_false_def mark_delivery_tx_def treasury_outflow_24h_def
        credit_delegation_adjustment_locked_def add_balance_def update_outbox_def outbox_check_def is_delegation_def
        demo_funded_db_def dlg_eval_simps demo_simps default_settings_def Let_def)
  from treasury_outflow_capped [OF demo_funded_ok r(1,2) run] run r(3) demo_funded_balance show ?thesis
    by (auto simp: default_settings_def)
qed

text \<open>
  Definitive non-delivery returns the whole hold: when failing a delegation succeeds and it was
  not refunded before, the organisation's balance grows by exactly the amount still held, the row is
  refunded with delivery failed, and repeating the call reports success and changes nothing.
\<close>

theorem failed_delivery_refunds:
  assumes "delegations_ok d" and "find_delegation org i d = Some r" and "ob_status r \<noteq> Refunded"
    and "fail_delegation_delivery now l org i reason d = (True, d')"
  shows "get_credit_balance org d' = get_credit_balance org d + ob_amount_usdc r \<and>
    (\<exists>r'. find_delegation org i d' = Some r' \<and> ob_status r' = Refunded \<and> ob_delivery_status r' = DeliveryFailed) \<and>
    fail_delegation_delivery now' l' org i reason' d' = (True, d')"
proof -
  note r = find_delegationD [OF assms(2)]
  from assms(4) have tx: "fail_delivery_tx now l org i (take 500 (py_strip reason)) d = Inr (True, d')"
    unfolding fail_delegation_delivery_def
    by (cases rule: or_false_cases [of "fail_delivery_tx now l org i (take 500 (py_strip reason))" d]) auto
  from fail_moved [OF assms(1) tx] assms(2,3) obtain r' where m: "moved r r' d d'"
    and r': "ob_status r' = Refunded" "ob_delivery_status r' = DeliveryFailed" by auto
  have f: "find_delegation org i d' = Some r'"
    using find_replaced [OF assms(1,2)] m by (simp add: moved_def)
  then have "fail_delegation_delivery now' l' org i reason' d' = (True, d')"
    using r' by (simp add: fail_delegation_delivery_def or_false_def transaction_def fail_delivery_tx_def)
  then show ?thesis using m r f r' assms(3) by (auto simp: moved_def held_amount_def)
qed

definition demo_marked_db :: db where
  "demo_marked_db =
     snd (mark_delegation_possibly_delivered default_settings 9 ''l2'' ''acme'' ''del1'' None demo_funded_db)"

lemmas mark_eval_simps = mark_delegation_possibly_delivered_def or_false_def mark_delivery_tx_def treasury_outflow_24h_def
  add_balance_def update_outbox_def outbox_check_def is_delegation_def demo_funded_db_def dlg_eval_simps demo_simps
  default_settings_def Let_def

lemma demo_marked_rows:
  "\<exists>r. find_delegation ''acme'' ''del1'' demo_marked_db = Some r \<and> ob_status r \<noteq> Refunded \<and> ob_amount_usdc r = 40"
  "get_credit_balance ''acme'' demo_marked_db = 60"
  by (simp_all add: demo_marked_db_def mark_eval_simps)

lemma demo_marked_fails: "\<exists>d2. fail_delegation_delivery 10 ''l3'' ''acme'' ''del1'' ''timeout'' demo_marked_db = (True, d2)"
  by (simp add: demo_marked_db_def mark_eval_simps fail_delegation_delivery_def fail_delivery_tx_def
      complete_refund_locked_def close_refund_def truthy_def invalidate_when_def)

lemma demo_marked_ok: "delegations_ok demo_marked_db"
  unfolding demo_marked_db_def by (rule mark_dlg.keeps_ok) (rule demo_funded_ok)

theorem failed_delivery_refunds_witness:
  "\<exists>d2. fail_delegation_delivery 10 ''l3'' ''acme'' ''del1'' ''timeout'' demo_marked_db = (True, d2) \<and>
     get_credit_balance ''acme'' d2 = 100"
proof -
  obtain r where r: "find_delegation ''acme'' ''del1'' demo_marked_db = Some r" "ob_status r \<noteq> Refunded"
    "ob_amount_usdc r = 40"
    using demo_marked_rows(1) by blast
  obtain d2 where run: "fail_delegation_delivery 10 ''l3'' ''acme'' ''del1'' ''timeout'' demo_marked_db = (True, d2)"
    using demo_marked_fails by blast
  from failed_delivery_refunds [OF demo_marked_ok r(1,2) run] run r(3) demo_marked_rows(2) show ?thesis by simp
qed

text \<open>
  The worker leaves ambiguous deliveries to the operator: a pass of the refund outbox keeps the
  invariant and the net positions, and every delegation held as possibly delivered is still there,
  unchanged, afterwards.
\<close>

theorem worker_keeps_ambiguous:
  assumes "delegations_ok d"
  shows "delegations_ok (snd (process_delegation_refund_outbox now fresh limit d)) \<and>
    net_position org (snd (process_delegation_refund_outbox now fresh limit d)) = net_position org d \<and>
    (\<forall>r \<in> set (a2a_delegation_refund_outbox d). ob_delivery_status r = PossiblyDelivered \<longrightarrow>
      r \<in> set (a2a_delegation_refund_outbox (snd (process_delegation_refund_outbox now fresh limit d))))"
proof (intro conjI ballI impI)
  show "delegations_ok (snd (process_delegation_refund_outbox now fresh limit d))"
    "net_position org (snd (process_delegation_refund_outbox now fresh limit d)) = net_position org d"
    unfolding process_delegation_refund_outbox_def
    using delegation_operation.keeps_ok [OF reconcile_dlg assms] delegation_operation.conserves [OF reconcile_dlg assms]
    by blast+
next
  fix r
  assume r: "r \<in> set (a2a_delegation_refund_outbox d)" "ob_delivery_status r = PossiblyDelivered"
  let ?sel = "take limit (sort_key ob_created_at (rows_where (needs_reconciling d) (a2a_delegation_refund_outbox d)))"
  have apart: "ob_id r \<noteq> ob_id x" if "x \<in> set ?sel" for x
  proof
    assume eq: "ob_id r = ob_id x"
    from that set_take_sort_rows [of limit ob_created_at "needs_reconciling d"] have
      x: "x \<in> set (a2a_delegation_refund_outbox d)" "needs_reconciling d x" by blast+
    with eq r(1) distinct_key_eq [OF delegations_okD(2) [OF assms]] have "x = r" by metis
    with x(2) r(2) show False by (simp add: needs_reconciling_def)
  qed
  have "ob_id r \<notin> ob_id ` fst ` set (map (\<lambda>r. (r, delegation_event r d)) ?sel)"
    unfolding set_map image_image fst_conv using apart by blast
  from reconcile_other [OF r(1) this] show
    "r \<in> set (a2a_delegation_refund_outbox (snd (process_delegation_refund_outbox now fresh limit d)))"
    unfolding process_delegation_refund_outbox_def .
qed

theorem worker_keeps_ambiguous_witness:
  "net_position ''acme'' (snd (process_delegation_refund_outbox 20 (\<lambda>k. ''l9'') 50 demo_funded_db)) =
     net_position ''acme'' demo_funded_db"
  using worker_keeps_ambiguous [OF demo_funded_ok, of 20 "\<lambda>k. ''l9''" 50 "''acme''"] by blast

text \<open>
  The delegation preflight is sound for organisations with their own limit or without a default
  cap: if delegation billing is on and the budget check passes, funding a fresh delegation of that
  positive cost succeeds.
\<close>

theorem delegation_budget_sound:
  assumes "delegations_ok d" and "a2a_delegation_billing_enabled st"
    and "check_delegation_budget st now org cost p d = None"
    and "0 < cost" and "orgs d org = Some o'" and "org_credits d org = Some c"
    and "is_machine_org o' \<longrightarrow> 0 < cr_spending_limit_usdc c \<or> machine_org_daily_spend_limit_usdc st \<le> 0"
    and "l \<notin> led_id ` set (org_credit_ledger d)" and "i \<notin> ob_id ` set (a2a_delegation_refund_outbox d)"
  shows "fst (fund_delegation st now l org cost run_id url i p d)"
proof -
  note ok' = delegations_okD [OF assms(1)]
  have chk: "\<not> cr_is_paused c" "cost \<le> cr_balance_usdc c"
    "0 < cr_spending_limit_usdc c \<Longrightarrow> get_daily_debit_spend now org d + cost \<le> cr_spending_limit_usdc c"
    "principal_allows now org cost p d"
    using assms(2,3,6) by (auto simp: check_delegation_budget_def principal_allows_def Let_def
        split: if_splits option.splits)
  let ?reason = "''a2a_delegation run='' @ run_id @ '' agent='' @ url"
  have "\<exists>d'. debit_credit_locked st now l org cost ?reason p d = Inr ((True, cost, Some l), d')"
    using chk(3) assms(7)
    by (intro debit_locked_succeeds [OF ok'(1) assms(6,5) chk(1) _ chk(4) assms(4) chk(2) assms(8)])
      (auto simp: effective_spending_limit_def split: if_splits)
  then obtain d1 where db: "debit_credit_locked st now l org cost ?reason p d = Inr ((True, cost, Some l), d1)" by blast
  have big: "bigint cost"
    using chk(2) account_ok_bigint [OF audited_account [OF ok'(1) assms(6)]] assms(4) by (auto simp: bigint_def)
  have fr: "a2a_delegation_refund_outbox d1 = a2a_delegation_refund_outbox d" "orgs d1 = orgs d"
    "l \<in> led_id ` set (org_credit_ledger d1)"
    using db by (auto elim!: debit_locked_success dest!: insert_ledger_InrD(1))
  have nf: "find_delegation org i d = None" using assms(9) by (auto simp: find_delegation_def find_None)
  show ?thesis
    using assms(4,5,9) db fr nf big
    by (auto simp: fund_delegation_def debit_credit_with_delegation_refund_def transaction_def
        debit_credit_with_delegation_refund_tx_def insert_refund_outbox_def)
qed

theorem delegation_budget_sound_witness:
  "fst (fund_delegation (default_settings\<lparr>a2a_delegation_billing_enabled := True\<rparr>) 5 ''l1'' ''acme'' 40 ''r1'' ''https://a''
     ''del1'' None demo_db)"
  by (rule delegation_budget_sound [OF demo_db_delegations_ok, where c = "\<lparr>cr_balance_usdc = 100, cr_spending_limit_usdc = 60,
      cr_is_paused = False\<rparr>" and o' = "\<lparr>org_acquisition_source = ''email''\<rparr>"])
    (simp_all add: demo_simps default_settings_def check_delegation_budget_def get_daily_debit_spend_def
      counts_as_spend_def is_reversed_def is_machine_org_def Let_def)

text \<open>
  The remaining case is a gap of the preflight: a wallet-provisioned organisation whose stored limit
  is zero falls under the default machine cap when it is debited, but the budget check does not
  look at that cap. Here it accepts a cost of 40 that the debit refuses under a cap of 30.
\<close>

lemma delegation_budget_machine_gap:
  fixes d :: db and st :: settings
  defines "d \<equiv> demo_db\<lparr>orgs := [''acme'' \<mapsto> \<lparr>org_acquisition_source = ''siwe''\<rparr>],
      org_credits := [''acme'' \<mapsto> \<lparr>cr_balance_usdc = 100, cr_spending_limit_usdc = 0, cr_is_paused = False\<rparr>]\<rparr>"
    and "st \<equiv> default_settings\<lparr>a2a_delegation_billing_enabled := True, machine_org_daily_spend_limit_usdc := 30\<rparr>"
  shows "check_delegation_budget st 5 ''acme'' 40 None d = None \<and>
    fund_delegation st 5 ''l1'' ''acme'' 40 ''r1'' ''https://a'' ''del1'' None d = (False, d)"
  unfolding d_def st_def
  by (simp add: check_delegation_budget_def dlg_eval_simps demo_simps default_settings_def Let_def)

end
