(* ===== verification/Billing.thy ===== *)
theory Billing
  imports Topups Delegation
begin

text \<open>
  The billing services together. The abstract specification is a set of books: a balance per organisation
  and postings that are refused when they would overdraw. Every operation of the credit, settlement,
  top-up and delegation components is shown to refine it, by one lemma per contract (\<open>audited_operation\<close>,
  \<open>delegation_operation\<close>), in every interleaving.
\<close>

section \<open>The books\<close>

type_synonym books = "ident \<Rightarrow> usdc"

fun post_all :: "(ident \<times> usdc) list \<Rightarrow> books \<Rightarrow> books option" where
  "post_all [] b = Some b"
| "post_all ((org, a) # ps) b = (if a = 0 \<or> b org + a < 0 then None else post_all ps (b(org := b org + a)))"

definition balances :: "db \<Rightarrow> books" where
  "balances d org = get_credit_balance org d"

definition posting :: "ledger_row \<Rightarrow> ident \<times> usdc" where
  "posting r = (led_org_id r, signed_amount r)"

definition new_postings :: "db \<Rightarrow> db \<Rightarrow> (ident \<times> usdc) list" where
  "new_postings d d' = map posting (drop (length (org_credit_ledger d)) (org_credit_ledger d'))"

lemma post_all_append: "post_all (ps @ qs) b = (case post_all ps b of None \<Rightarrow> None | Some b' \<Rightarrow> post_all qs b')"
  by (induction ps b rule: post_all.induct) (simp_all add: fun_upd_def)

lemma ledger_wf_posts:
  "ledger_wf (old @ new) \<Longrightarrow> post_all (map posting new) (ledger_balance old) = Some (ledger_balance (old @ new))"
proof (induction new arbitrary: old)
  case (Cons r new)
  then have wf: "ledger_wf ((old @ [r]) @ new)" by simp
  have "r \<in> set (old @ r # new)" by simp
  with Cons.prems have "0 < led_amount_usdc r" "0 \<le> led_balance_usdc_after r" by (auto simp: ledger_wf_def)
  moreover have "led_balance_usdc_after ((old @ r # new) ! length old) =
      ledger_balance (take (Suc (length old)) (old @ r # new)) (led_org_id ((old @ r # new) ! length old))"
    using Cons.prems unfolding ledger_wf_def by (metis length_append length_Cons less_add_Suc1 add_Suc_right)
  then have "led_balance_usdc_after r = ledger_balance old (led_org_id r) + signed_amount r" by simp
  moreover have "ledger_balance (old @ [r]) = (ledger_balance old)(led_org_id r := ledger_balance old (led_org_id r) + signed_amount r)"
    by auto
  moreover have "signed_amount r \<noteq> 0" using calculation(1) by (simp add: signed_amount_def split: ledger_operation.split)
  ultimately show ?case using Cons.IH [OF wf] by (simp add: posting_def fun_upd_def del: ledger_balance_append)
qed simp

lemma audited_refines:
  assumes "audited d" "audited d'" and new: "org_credit_ledger d' = org_credit_ledger d @ new"
  shows "post_all (new_postings d d') (balances d) = Some (balances d')"
proof -
  have "balances x = ledger_balance (org_credit_ledger x)" if "audited x" for x
    using audited_balance [OF that] by (auto simp: balances_def)
  moreover have "ledger_wf (org_credit_ledger d @ new)" using assms by (simp add: audited_def)
  ultimately show ?thesis using ledger_wf_posts assms by (simp add: new_postings_def)
qed

context audited_operation
begin

lemma refines_books: "audited d \<Longrightarrow> post_all (new_postings d (run d)) (balances d) = Some (balances (run d))"
  using ledger_grows [of d] keeps_audit audited_refines by blast

end

section \<open>Operations that are no delegation\<close>

definition plain_change :: "db \<Rightarrow> db \<Rightarrow> bool" where
  "plain_change d d' \<longleftrightarrow> a2a_delegation_refund_outbox d' = a2a_delegation_refund_outbox d \<and>
     is_reversed (org_credit_ledger d') = is_reversed (org_credit_ledger d)"

lemma plain_change_refl [simp]: "plain_change d d"
  by (simp add: plain_change_def)

lemma plain_change_trans: "plain_change d d1 \<Longrightarrow> plain_change d1 d2 \<Longrightarrow> plain_change d d2"
  by (simp add: plain_change_def)

lemma plain_change_invalidate: "plain_change d (invalidate_daily_spend_cache org d') = plain_change d d'"
  by (simp add: plain_change_def)

text \<open>The contract: an audited operation that touches no delegation and reverses no ledger entry.\<close>

locale wallet_operation = audited_operation +
  assumes plain: "plain_change d (run d)"
begin

lemma keeps_delegations:
  assumes "delegations_ok d"
  shows "delegations_ok (run d)"
proof -
  obtain new where new: "org_credit_ledger (run d) = org_credit_ledger d @ new" using ledger_grows by blast
  have "debit_link_ok (org_credit_ledger (run d)) r" if "debit_link_ok (org_credit_ledger d) r" for r
    using that plain [of d] new by (auto simp: debit_link_ok_def plain_change_def)
  with assms keeps_audit [of d] plain [of d] show ?thesis by (auto simp: delegations_ok_def plain_change_def)
qed

end

lemma debit_locked_plain:
  assumes "debit_credit_locked st now i org amount reason p d = Inr ((ok, a, l), d')"
  shows "plain_change d d'"
proof (cases ok)
  case False
  with assms show ?thesis using debit_locked_refused by fastforce
next
  case True
  with assms have "is_reversed (org_credit_ledger d') = is_reversed (org_credit_ledger d)"
    by (auto elim!: debit_locked_success dest!: insert_ledger_InrD(1) simp: is_reversed_append)
  with debit_locked_pending [OF assms] show ?thesis by (simp add: plain_change_def)
qed

lemma post_topup_plain:
  assumes "post_topup now i org amount reason ref d = Inr (b, d')"
  shows "plain_change d d'"
proof -
  have "a2a_delegation_refund_outbox d' = a2a_delegation_refund_outbox d"
    using assms by (auto elim!: post_topup_InrD dest!: insert_ledger_InrD(1))
  with post_topup_ledger(1) [OF assms] show ?thesis by (auto simp: plain_change_def is_reversed_append)
qed

lemma rearm_plain: "plain_change d (snd (rearm_exhausted_credit_settlements now org cap d))"
  by (simp add: plain_change_def rearm_exhausted_credit_settlements_def Let_def)

interpretation debit_wallet: wallet_operation "\<lambda>d. snd (debit_credit st now i org amount reason p d)"
  for st now i org amount reason p
proof unfold_locales
  fix d
  show "plain_change d (snd (debit_credit st now i org amount reason p d))"
    by (auto simp: debit_credit_def transaction_def plain_change_invalidate split: sum.splits prod.splits
        dest: debit_locked_plain)
qed

interpretation topup_wallet: wallet_operation "\<lambda>d. snd (admin_topup_credit now i org amount reason ref d)"
  for now i org amount reason ref
proof unfold_locales
  show "plain_change d (snd (admin_topup_credit now i org amount reason ref d))" for d
    by (auto simp: admin_topup_credit_def transaction_def split: sum.splits option.splits dest: post_topup_plain)
qed

lemma settle_plain: "plain_change d (snd (settle_claimed_credit st now fresh row retry d))"
proof (cases "settle_claimed_credit_tx st now fresh row retry d")
  case (Inl e)
  then show ?thesis by (simp add: settle_claimed_credit_def transaction_def)
next
  case (Inr r)
  then obtain ok a d' where r: "settle_claimed_credit_tx st now fresh row retry d = Inr ((ok, a), d')"
    by (cases r) auto
  have "plain_change d d'"
  proof (cases ok)
    case True
    with r show ?thesis by (auto elim!: settle_tx_success dest!: debit_locked_plain simp: plain_change_def)
  next
    case False
    with r show ?thesis using settle_tx_refused by fastforce
  qed
  with r show ?thesis by (simp add: settle_claimed_credit_def transaction_def)
qed

interpretation process_wallet: wallet_operation
  "\<lambda>d. snd (process_claimed_settlement st exc_str now fresh row d)" for st exc_str now fresh row
proof unfold_locales
  fix d
  have "plain_change d (record_failed_attempt now row retry msg d1) = plain_change d d1" for retry msg d1
    by (simp add: plain_change_def)
  then show "plain_change d (snd (process_claimed_settlement st exc_str now fresh row d))"
    by (cases rule: process_claimed_settlement_cases [of st exc_str now fresh row d]) (use settle_plain in auto)
qed

interpretation enqueue_wallet: wallet_operation
  "\<lambda>d. enqueue_failed_settlement st now i ue org run_id meth amount payload p cid items d"
  for st now i ue org run_id meth amount payload p cid items
  by unfold_locales (simp add: enqueue_failed_settlement_def plain_change_def)

interpretation claim_wallet: wallet_operation "\<lambda>d. snd (claim_due_settlements now d)" for now
  by unfold_locales (simp add: claim_due_settlements_def Let_def plain_change_def)

interpretation reset_wallet: wallet_operation "\<lambda>d. snd (reset_exhausted_settlement now i d)" for now i
  by unfold_locales (simp add: reset_exhausted_settlement_def plain_change_def split: option.splits)

interpretation rearm_wallet: wallet_operation "\<lambda>d. snd (rearm_exhausted_credit_settlements now org cap d)" for now org cap
  by unfold_locales (rule rearm_plain)

lemma plain_change_frame [simp]:
  "plain_change (d\<lparr>stripe_webhook_events := e\<rparr>) d' = plain_change d d'"
  "plain_change (d\<lparr>usdc_topup_events := f\<rparr>) d' = plain_change d d'"
  "plain_change (d\<lparr>org_onboarding_credit_grants := g\<rparr>) d' = plain_change d d'"
  "plain_change d (d'\<lparr>org_provisioning_events := h\<rparr>) = plain_change d d'"
  "plain_change d (d'\<lparr>org_onboarding_credit_outbox := k\<rparr>) = plain_change d d'"
  by (simp_all add: plain_change_def)

interpretation stripe_wallet: wallet_operation "\<lambda>d. snd (process_stripe_event now i ev d)" for now i ev
proof unfold_locales
  show "plain_change d (snd (process_stripe_event now i ev d))" for d
    by (cases rule: process_stripe_event_cases [of now i ev d])
      (auto dest!: post_topup_plain intro: plain_change_trans [OF _ rearm_plain])
qed

interpretation usdc_wallet: wallet_operation "\<lambda>d. snd (credit_usdc_topup now i org amount tx d)" for now i org amount tx
proof unfold_locales
  show "plain_change d (snd (credit_usdc_topup now i org amount tx d))" for d
    by (cases rule: credit_usdc_topup_cases [of now i org amount tx d])
      (auto dest!: post_topup_plain intro: plain_change_trans [OF _ rearm_plain])
qed

interpretation grant_wallet: wallet_operation "\<lambda>d. snd (grant_onboarding_credit now i org amount d)" for now i org amount
proof unfold_locales
  show "plain_change d (snd (grant_onboarding_credit now i org amount d))" for d
    by (cases rule: grant_onboarding_credit_cases [of now i org amount d]) (auto dest!: post_topup_plain)
qed

lemma credential_or_create_plain:
  assumes "credential_or_create now fc org d = Inr (cred, d')"
  shows "plain_change d d'"
proof -
  have "a2a_delegation_refund_outbox d' = a2a_delegation_refund_outbox d"
    using assms
    by (auto simp: credential_or_create_def create_client_credential_in_transaction_def insert_credential_def
        Let_def bindE_eq_Inr_iff split: option.splits if_splits)
  with credential_or_create_frame(3) [OF assms] show ?thesis by (simp add: plain_change_def)
qed

interpretation onboarding_wallet: wallet_operation
  "\<lambda>d. snd (record_onboarding_settlement now fc i ev org amount ref payer chain tx d)"
  for now fc i ev org amount ref payer chain tx
proof unfold_locales
  show "plain_change d (snd (record_onboarding_settlement now fc i ev org amount ref payer chain tx d))" for d
    by (auto simp: record_onboarding_settlement_def transaction_def split: sum.splits elim!: onboarding_tx_cases
        dest!: post_topup_plain credential_or_create_plain intro: plain_change_trans)
qed

lemma retry_grants_plain: "plain_change d (snd (retry_grants exc_str now fresh k rows d))"
proof (induction rows arbitrary: k d)
  case (Cons r rows)
  let ?run = "grant_onboarding_credit now (fresh k) (go_org_id r) (go_amount_usdc r)"
  obtain res d1 where run: "?run d = (res, d1)" by fastforce
  with grant_wallet.plain [of d now "fresh k" "go_org_id r" "go_amount_usdc r"] have "plain_change d d1" by simp
  moreover define d2 where "d2 = (case res of Inl e \<Rightarrow> note_grant_failure (go_org_id r) (exc_str e) d1
    | Inr _ \<Rightarrow> clear_onboarding_credit_outbox (go_org_id r) d1)"
  then have "plain_change d1 d2"
    by (simp add: note_grant_failure_def clear_onboarding_credit_outbox_def split: sum.split)
  moreover have "snd (retry_grants exc_str now fresh k (r # rows) d) = snd (retry_grants exc_str now fresh (Suc k) rows d2)"
    by (simp add: run d2_def case_prod_beta Let_def split: sum.split)
  ultimately show ?case using Cons.IH [of d2 "Suc k"] plain_change_trans by metis
qed simp

interpretation outbox_wallet: wallet_operation
  "\<lambda>d. snd (process_onboarding_credit_outbox exc_str now fresh limit d)" for exc_str now fresh limit
  by unfold_locales (simp add: process_onboarding_credit_outbox_def retry_grants_plain)

section \<open>All services interleaved\<close>

inductive billing_step :: "settings \<Rightarrow> db \<Rightarrow> db \<Rightarrow> bool" for st where
  debit: "billing_step st d (snd (debit_credit st now i org amount reason p d))"
| topup: "billing_step st d (snd (admin_topup_credit now i org amount reason ref d))"
| enqueue: "billing_step st d (enqueue_failed_settlement st now i ue org run_id meth amount payload p cid items d)"
| claim: "billing_step st d (snd (claim_due_settlements now d))"
| settle: "billing_step st d (snd (process_claimed_settlement st exc_str now fresh row d))"
| reset: "billing_step st d (snd (reset_exhausted_settlement now i d))"
| rearm: "billing_step st d (snd (rearm_exhausted_credit_settlements now org cap d))"
| stripe: "billing_step st d (snd (process_stripe_event now i ev d))"
| usdc: "billing_step st d (snd (credit_usdc_topup now i org amount tx d))"
| grant: "billing_step st d (snd (grant_onboarding_credit now i org amount d))"
| grants: "billing_step st d (snd (process_onboarding_credit_outbox exc_str now fresh limit d))"
| onboarding: "billing_step st d (snd (record_onboarding_settlement now fc i ev org amount ref payer chain tx d))"
| delegation: "delegation_step st d d' \<Longrightarrow> billing_step st d d'"

lemmas wallet_operations [service_contracts] =
  debit_wallet.wallet_operation_axioms topup_wallet.wallet_operation_axioms enqueue_wallet.wallet_operation_axioms
  claim_wallet.wallet_operation_axioms process_wallet.wallet_operation_axioms reset_wallet.wallet_operation_axioms
  rearm_wallet.wallet_operation_axioms stripe_wallet.wallet_operation_axioms usdc_wallet.wallet_operation_axioms
  grant_wallet.wallet_operation_axioms outbox_wallet.wallet_operation_axioms onboarding_wallet.wallet_operation_axioms

lemma billing_step_cases:
  assumes "billing_step st d d'"
  obtains (wallet) run where "wallet_operation run" "d' = run d" | (delegation) "delegation_step st d d'"
  using assms by cases (blast intro: that service_contracts)+

lemma billing_step_ok:
  assumes ok: "delegations_ok d" and step: "billing_step st d d'"
  shows "delegations_ok d' \<and> (\<exists>new. org_credit_ledger d' = org_credit_ledger d @ new)"
  using step
proof (cases rule: billing_step_cases)
  case (wallet run)
  then have op: "audited_operation run" by (simp add: wallet_operation_def)
  show ?thesis using wallet_operation.keeps_delegations [OF wallet(1) ok] audited_operation.ledger_grows [OF op] wallet(2)
    by blast
next
  case delegation
  then obtain run where "delegation_operation run" "d' = run d" by (rule delegation_step_contract)
  with ok show ?thesis using delegation_operation.keeps_ok delegation_operation.appends by blast
qed

lemma billing_history:
  assumes "(billing_step st)\<^sup>*\<^sup>* d d'" and ok: "delegations_ok d"
  shows "delegations_ok d' \<and> (\<exists>new. org_credit_ledger d' = org_credit_ledger d @ new)"
  using assms(1)
proof (induction rule: rtranclp_induct)
  case base
  then show ?case using ok by simp
next
  case (step d1 d2)
  then show ?case using billing_step_ok [OF _ step(2)] by fastforce
qed

end
