(* ===== verification/Schedules.thy ===== *)
theory Schedules
  imports Database "HOL-Library.Char_ord" "HOL-Library.List_Lexorder" "HOL-Library.Product_Lexorder"
begin

text \<open>
  Scheduled runs and event triggers (\<^verbatim>\<open>scheduling/crud.py\<close>): the tables with their constraints, the
  claims of due schedules, the idempotency keys and execution leases of event dispatches, the recovery of
  abandoned leases, the publication slots and the retention of old rows (\<^verbatim>\<open>teardrop/retention.py\<close>).

  Every operation is one statement or one transaction, so an \<open>Inl\<close> leaves the tables as they were.
  Identifiers are UUIDs, on which the order of the database is the order of strings. The advisory lock of the
  reservation serialises reservations; rows locked by another worker (\<^verbatim>\<open>SKIP LOCKED\<close>) are an argument of
  the claims.

  The lemmas show that the constraints of the tables and the facts the services rely on are kept by every
  operation, that a dispatch key runs once, that leases only progress and that a run is settled once.
\<close>

section \<open>Tables\<close>

datatype schedule_kind = IntervalKind | EventKind

datatype callback_format = CallbackJson | CallbackText | CallbackX

record scheduled_run =
  sr_id :: ident
  sr_org_id :: ident
  sr_user_id :: ident
  sr_name :: string
  sr_prompt :: string
  sr_schedule_kind :: schedule_kind
  sr_interval_seconds :: "int option"
  sr_cron_expr :: "string option"
  sr_enabled :: bool
  sr_callback_url :: "string option"
  sr_callback_format :: callback_format
  sr_trigger_token :: "string option"
  sr_secret_hash :: "string option"
  sr_next_trigger_id :: "ident option"
  sr_next_run_at :: "instant option"
  sr_last_run_at :: "instant option"
  sr_consecutive_failures :: int
  sr_created_at :: instant
  sr_updated_at :: instant

datatype run_status = RunCompleted | RunFailed | RunTimeout | RunSkipped

record run_result =
  rr_id :: ident
  rr_schedule_id :: ident
  rr_org_id :: ident
  rr_run_id :: ident
  rr_status :: run_status
  rr_output_text :: string
  rr_cost_usdc :: usdc
  rr_error :: string
  rr_created_at :: instant

record dispatch_key =
  dk_schedule_id :: ident
  dk_idempotency_key :: string
  dk_run_id :: ident
  dk_chain_id :: ident
  dk_hop_index :: int
  dk_created_at :: instant

datatype lease_status = LeaseReserved | LeaseRunning | LeaseCompleted | LeaseFailed

record dispatch_lease =
  dl_run_id :: ident
  dl_schedule_id :: ident
  dl_org_id :: ident
  dl_idempotency_key :: string
  dl_owner_id :: ident
  dl_status :: lease_status
  dl_lease_expires_at :: instant
  dl_started_at :: "instant option"
  dl_finished_at :: "instant option"
  dl_last_error :: string

datatype trigger_event_type =
    TriggerCreated | TriggerUpdated | TriggerDeleted | SecretRotated | SecretRejected
  | DispatchAccepted | DispatchDuplicate | RunSettled | ChainDispatchSkipped

record trigger_event =
  te_id :: ident
  te_schedule_id :: ident
  te_org_id :: ident
  te_run_id :: ident
  te_event_type :: trigger_event_type
  te_status :: "run_status option"
  te_cost_usdc :: usdc
  te_error :: string
  te_created_at :: instant

record x_broadcast =
  xb_run_id :: ident
  xb_schedule_id :: ident
  xb_org_id :: ident
  xb_tweet_id :: string
  xb_created_at :: instant

record sched_db =
  sd_runs :: "scheduled_run list"
  sd_results :: "run_result list"
  sd_keys :: "dispatch_key list"
  sd_leases :: "dispatch_lease list"
  sd_events :: "trigger_event list"
  sd_broadcasts :: "x_broadcast list"

definition int4 :: "int \<Rightarrow> bool" where
  "int4 n \<longleftrightarrow> - (2 ^ 31) \<le> n \<and> n < 2 ^ 31"

definition int2 :: "int \<Rightarrow> bool" where
  "int2 n \<longleftrightarrow> - (2 ^ 15) \<le> n \<and> n < 2 ^ 15"

definition run_range :: "scheduled_run \<Rightarrow> bool" where
  "run_range r \<longleftrightarrow> (\<forall>n \<in> set_option (sr_interval_seconds r). int4 n) \<and> int4 (sr_consecutive_failures r)"

definition run_checks :: "scheduled_run \<Rightarrow> bool" where
  "run_checks r \<longleftrightarrow>
     (\<forall>n \<in> set_option (sr_interval_seconds r). 0 < n) \<and>
     (sr_schedule_kind r = EventKind \<longrightarrow> sr_trigger_token r \<noteq> None \<and> sr_secret_hash r \<noteq> None) \<and>
     (sr_next_trigger_id r \<noteq> None \<longrightarrow> sr_schedule_kind r = EventKind) \<and>
     (sr_callback_format r = CallbackX \<longrightarrow> sr_callback_url r = None)"

definition insert_run :: "scheduled_run \<Rightarrow> sched_db \<Rightarrow> py_error + sched_db" where
  "insert_run r s =
    (if \<not> run_range r then Inl (DbError DataError)
     else if \<not> run_checks r then Inl (DbError CheckViolation)
     else if exists_where (\<lambda>r'. sr_id r' = sr_id r) (sd_runs s) then Inl (DbError UniqueViolation)
     else if sr_trigger_token r \<noteq> None \<and> exists_where (\<lambda>r'. sr_trigger_token r' = sr_trigger_token r) (sd_runs s)
     then Inl (DbError UniqueViolation)
     else if sr_next_trigger_id r \<noteq> None \<and> sr_next_trigger_id r \<notin> Some ` sr_id ` set (r # sd_runs s)
     then Inl (DbError ForeignKeyViolation)
     else Inr (s\<lparr>sd_runs := sd_runs s @ [r]\<rparr>))"

text \<open>
  \<^verbatim>\<open>UPDATE scheduled_runs SET .. WHERE id = .. AND ..\<close>: at most one row, whose new version has to satisfy
  the constraints. The result is the new row.
\<close>

definition update_run ::
  "ident \<Rightarrow> (scheduled_run \<Rightarrow> bool) \<Rightarrow> (scheduled_run \<Rightarrow> scheduled_run) \<Rightarrow> sched_db \<Rightarrow> py_error + (scheduled_run option \<times> sched_db)" where
  "update_run i p f s =
    (case find (\<lambda>r. sr_id r = i \<and> p r) (sd_runs s) of
       None \<Rightarrow> Inr (None, s)
     | Some r \<Rightarrow>
         if \<not> run_range (f r) then Inl (DbError DataError)
         else if \<not> run_checks (f r) then Inl (DbError CheckViolation)
         else if sr_next_trigger_id (f r) \<noteq> None \<and> sr_next_trigger_id (f r) \<notin> Some ` sr_id ` set (sd_runs s)
         then Inl (DbError ForeignKeyViolation)
         else Inr (Some (f r), s\<lparr>sd_runs := update_where (\<lambda>x. sr_id x = i \<and> p x) f (sd_runs s)\<rparr>))"

definition insert_result :: "run_result \<Rightarrow> sched_db \<Rightarrow> py_error + sched_db" where
  "insert_result r s =
    (if \<not> bigint (rr_cost_usdc r) then Inl (DbError DataError)
     else if exists_where (\<lambda>r'. rr_id r' = rr_id r) (sd_results s) then Inl (DbError UniqueViolation)
     else if exists_where (\<lambda>r'. rr_schedule_id r' = rr_schedule_id r \<and> rr_run_id r' = rr_run_id r) (sd_results s)
     then Inl (DbError UniqueViolation)
     else if \<not> exists_where (\<lambda>x. sr_id x = rr_schedule_id r) (sd_runs s) then Inl (DbError ForeignKeyViolation)
     else Inr (s\<lparr>sd_results := sd_results s @ [r]\<rparr>))"

definition insert_key :: "dispatch_key \<Rightarrow> sched_db \<Rightarrow> py_error + sched_db" where
  "insert_key k s =
    (if \<not> int2 (dk_hop_index k) then Inl (DbError DataError)
     else if \<not> (0 \<le> dk_hop_index k \<and> (0 < dk_hop_index k \<or> dk_chain_id k = dk_run_id k)) then Inl (DbError CheckViolation)
     else if exists_where (\<lambda>k'. dk_schedule_id k' = dk_schedule_id k \<and> dk_idempotency_key k' = dk_idempotency_key k) (sd_keys s)
     then Inl (DbError UniqueViolation)
     else if exists_where (\<lambda>k'. dk_chain_id k' = dk_chain_id k \<and> dk_hop_index k' = dk_hop_index k) (sd_keys s)
     then Inl (DbError UniqueViolation)
     else if \<not> exists_where (\<lambda>x. sr_id x = dk_schedule_id k) (sd_runs s) then Inl (DbError ForeignKeyViolation)
     else Inr (s\<lparr>sd_keys := sd_keys s @ [k]\<rparr>))"

definition insert_lease :: "dispatch_lease \<Rightarrow> sched_db \<Rightarrow> py_error + sched_db" where
  "insert_lease l s =
    (if exists_where (\<lambda>l'. dl_run_id l' = dl_run_id l) (sd_leases s) then Inl (DbError UniqueViolation)
     else if \<not> exists_where (\<lambda>k. dk_schedule_id k = dl_schedule_id l \<and> dk_idempotency_key k = dl_idempotency_key l) (sd_keys s)
     then Inl (DbError ForeignKeyViolation)
     else Inr (s\<lparr>sd_leases := sd_leases s @ [l]\<rparr>))"

definition insert_event_row :: "trigger_event \<Rightarrow> sched_db \<Rightarrow> py_error + sched_db" where
  "insert_event_row e s =
    (if \<not> bigint (te_cost_usdc e) then Inl (DbError DataError)
     else if te_cost_usdc e < 0 then Inl (DbError CheckViolation)
     else if exists_where (\<lambda>e'. te_id e' = te_id e) (sd_events s) then Inl (DbError UniqueViolation)
     else Inr (s\<lparr>sd_events := sd_events s @ [e]\<rparr>))"

section \<open>Schedules and triggers\<close>

text \<open>The audit of an operation never fails it: an exception is logged.\<close>

definition record_event_trigger_event ::
  "instant \<Rightarrow> ident \<Rightarrow> ident \<Rightarrow> ident \<Rightarrow> trigger_event_type \<Rightarrow> ident \<Rightarrow> run_status option \<Rightarrow> usdc \<Rightarrow> string \<Rightarrow> sched_db \<Rightarrow> sched_db" where
  "record_event_trigger_event now eid schedule_id org_id event_type run_id status cost error s =
    (case insert_event_row
       \<lparr>te_id = eid, te_schedule_id = schedule_id, te_org_id = org_id, te_run_id = run_id, te_event_type = event_type,
        te_status = status, te_cost_usdc = max 0 cost, te_error = take 1024 error, te_created_at = now\<rparr> s of
       Inl _ \<Rightarrow> s
     | Inr s' \<Rightarrow> s')"

definition count_scheduled_runs :: "ident \<Rightarrow> schedule_kind \<Rightarrow> sched_db \<Rightarrow> nat" where
  "count_scheduled_runs org kind s = length (rows_where (\<lambda>r. sr_org_id r = org \<and> sr_schedule_kind r = kind) (sd_runs s))"

definition create_scheduled_run ::
  "instant \<Rightarrow> ident \<Rightarrow> ident \<Rightarrow> ident \<Rightarrow> string \<Rightarrow> string \<Rightarrow> int \<Rightarrow> string option \<Rightarrow> callback_format \<Rightarrow> instant option \<Rightarrow>
   sched_db \<Rightarrow> py_error + (scheduled_run \<times> sched_db)" where
  "create_scheduled_run now run_id org user name prompt interval url fmt first s =
    (let r = \<lparr>sr_id = run_id, sr_org_id = org, sr_user_id = user, sr_name = name, sr_prompt = prompt,
          sr_schedule_kind = IntervalKind, sr_interval_seconds = Some interval, sr_cron_expr = None, sr_enabled = True,
          sr_callback_url = url, sr_callback_format = fmt, sr_trigger_token = None, sr_secret_hash = None,
          sr_next_trigger_id = None,
          sr_next_run_at = Some (case first of None \<Rightarrow> now + seconds interval | Some t \<Rightarrow> t),
          sr_last_run_at = None, sr_consecutive_failures = 0, sr_created_at = now, sr_updated_at = now\<rparr>
     in bindE (insert_run r s) (\<lambda>s'. Inr (r, s')))"

definition create_event_trigger ::
  "instant \<Rightarrow> ident \<Rightarrow> ident \<Rightarrow> ident \<Rightarrow> string \<Rightarrow> string \<Rightarrow> string option \<Rightarrow> string \<Rightarrow> string \<Rightarrow> callback_format \<Rightarrow> ident option \<Rightarrow>
   sched_db \<Rightarrow> py_error + (scheduled_run \<times> sched_db)" where
  "create_event_trigger now run_id org user name prompt url token secret_hash fmt next_trigger s =
    (let r = \<lparr>sr_id = run_id, sr_org_id = org, sr_user_id = user, sr_name = name, sr_prompt = prompt,
          sr_schedule_kind = EventKind, sr_interval_seconds = None, sr_cron_expr = None, sr_enabled = True,
          sr_callback_url = url, sr_callback_format = fmt, sr_trigger_token = Some token, sr_secret_hash = Some secret_hash,
          sr_next_trigger_id = next_trigger, sr_next_run_at = None,
          sr_last_run_at = None, sr_consecutive_failures = 0, sr_created_at = now, sr_updated_at = now\<rparr>
     in bindE (insert_run r s) (\<lambda>s'. Inr (r, s')))"

definition list_runs_of_kind :: "schedule_kind \<Rightarrow> ident \<Rightarrow> sched_db \<Rightarrow> scheduled_run list" where
  "list_runs_of_kind kind org s =
     rev (sort_key (\<lambda>r. (sr_created_at r, sr_id r)) (rows_where (\<lambda>r. sr_org_id r = org \<and> sr_schedule_kind r = kind) (sd_runs s)))"

definition list_scheduled_runs :: "ident \<Rightarrow> sched_db \<Rightarrow> scheduled_run list" where
  "list_scheduled_runs org s = list_runs_of_kind IntervalKind org s"

definition list_event_triggers :: "ident \<Rightarrow> sched_db \<Rightarrow> scheduled_run list" where
  "list_event_triggers org s = list_runs_of_kind EventKind org s"

definition get_scheduled_run :: "ident \<Rightarrow> ident \<Rightarrow> sched_db \<Rightarrow> scheduled_run option" where
  "get_scheduled_run i org s = find (\<lambda>r. sr_id r = i \<and> sr_org_id r = org) (sd_runs s)"

definition get_event_trigger_for_dispatch :: "string \<Rightarrow> sched_db \<Rightarrow> (scheduled_run \<times> string option) option" where
  "get_event_trigger_for_dispatch token s =
     map_option (\<lambda>r. (r, sr_secret_hash r))
       (find (\<lambda>r. sr_trigger_token r = Some token \<and> sr_schedule_kind r = EventKind) (sd_runs s))"

text \<open>The keyword arguments of an update: \<open>None\<close> is the sentinel \<^verbatim>\<open>_UNSET\<close>.\<close>

record run_update =
  up_name :: "string option"
  up_prompt :: "string option"
  up_interval_seconds :: "int option"
  up_enabled :: "bool option"
  up_callback_url :: "string option option"
  up_callback_format :: "callback_format option"
  up_next_trigger_id :: "ident option option"

definition set_if :: "'v option \<Rightarrow> ('v \<Rightarrow> 'r \<Rightarrow> 'r) \<Rightarrow> 'r \<Rightarrow> 'r" where
  "set_if v f r = (case v of None \<Rightarrow> r | Some x \<Rightarrow> f x r)"

definition no_update :: "run_update \<Rightarrow> bool" where
  "no_update u \<longleftrightarrow> up_name u = None \<and> up_prompt u = None \<and> up_interval_seconds u = None \<and> up_enabled u = None \<and>
     up_callback_url u = None \<and> up_callback_format u = None \<and> up_next_trigger_id u = None"

text \<open>
  The assignments refer to the old row. Enabling without a new interval restarts the interval of the row;
  \<^verbatim>\<open>NOW() + interval_seconds * INTERVAL\<close> is \<^verbatim>\<open>NULL\<close> for a missing interval.
\<close>

definition apply_update :: "instant \<Rightarrow> run_update \<Rightarrow> scheduled_run \<Rightarrow> scheduled_run" where
  "apply_update now u r =
    (set_if (up_next_trigger_id u) (\<lambda>v r. r\<lparr>sr_next_trigger_id := v\<rparr>)
     (set_if (up_callback_format u) (\<lambda>v r. r\<lparr>sr_callback_format := v\<rparr>)
     (set_if (up_callback_url u) (\<lambda>v r. r\<lparr>sr_callback_url := v\<rparr>)
     (set_if (up_enabled u) (\<lambda>v r'. r'\<lparr>sr_enabled := v,
        sr_next_run_at := (if v \<and> up_interval_seconds u = None \<and> sr_schedule_kind r = IntervalKind
                           then map_option (\<lambda>n. now + seconds n) (sr_interval_seconds r) else sr_next_run_at r')\<rparr>)
     (set_if (up_interval_seconds u) (\<lambda>v r. r\<lparr>sr_interval_seconds := Some v, sr_next_run_at := Some (now + seconds v)\<rparr>)
     (set_if (up_prompt u) (\<lambda>v r. r\<lparr>sr_prompt := v\<rparr>)
     (set_if (up_name u) (\<lambda>v r. r\<lparr>sr_name := v\<rparr>) r)))))))\<lparr>sr_updated_at := now\<rparr>"

definition update_scheduled_run ::
  "instant \<Rightarrow> ident \<Rightarrow> ident \<Rightarrow> run_update \<Rightarrow> sched_db \<Rightarrow> py_error + (scheduled_run option \<times> sched_db)" where
  "update_scheduled_run now i org u s =
    (if no_update u then Inr (get_scheduled_run i org s, s)
     else update_run i (\<lambda>r. sr_org_id r = org) (apply_update now u) s)"

definition queue_scheduled_run_now :: "instant \<Rightarrow> ident \<Rightarrow> ident \<Rightarrow> sched_db \<Rightarrow> py_error + (scheduled_run option \<times> sched_db)" where
  "queue_scheduled_run_now now i org s =
     update_run i (\<lambda>r. sr_org_id r = org \<and> sr_schedule_kind r = IntervalKind \<and> sr_enabled r)
       (\<lambda>r. r\<lparr>sr_next_run_at := Some now, sr_updated_at := now\<rparr>) s"

text \<open>\<^verbatim>\<open>LEAST\<close> ignores a \<^verbatim>\<open>NULL\<close>.\<close>

definition requeue_scheduled_run_after_capacity :: "instant \<Rightarrow> ident \<Rightarrow> sched_db \<Rightarrow> py_error + (unit \<times> sched_db)" where
  "requeue_scheduled_run_after_capacity now i s =
     bindE (update_run i (\<lambda>r. sr_schedule_kind r = IntervalKind \<and> sr_enabled r)
       (\<lambda>r. r\<lparr>sr_next_run_at := Some (case sr_next_run_at r of None \<Rightarrow> now + seconds 60 | Some t \<Rightarrow> min t (now + seconds 60)),
              sr_updated_at := now\<rparr>) s)
       (\<lambda>(_, s'). Inr ((), s'))"

definition rotate_event_trigger_secret :: "instant \<Rightarrow> ident \<Rightarrow> ident \<Rightarrow> string \<Rightarrow> sched_db \<Rightarrow> py_error + (bool \<times> sched_db)" where
  "rotate_event_trigger_secret now i org secret_hash s =
     bindE (update_run i (\<lambda>r. sr_org_id r = org \<and> sr_schedule_kind r = EventKind)
       (\<lambda>r. r\<lparr>sr_secret_hash := Some secret_hash, sr_updated_at := now\<rparr>) s)
       (\<lambda>(r, s'). Inr (r \<noteq> None, s'))"

text \<open>
  Deleting cascades to the results and the keys of the schedule, from the keys to their leases, and clears
  the links of other triggers; the audit and the publication slots stay.
\<close>

definition lease_of_key :: "dispatch_lease \<Rightarrow> dispatch_key \<Rightarrow> bool" where
  "lease_of_key l k \<longleftrightarrow> dl_schedule_id l = dk_schedule_id k \<and> dl_idempotency_key l = dk_idempotency_key k"

definition delete_keys :: "(dispatch_key \<Rightarrow> bool) \<Rightarrow> sched_db \<Rightarrow> sched_db" where
  "delete_keys p s = s\<lparr>sd_keys := rows_where (\<lambda>k. \<not> p k) (sd_keys s),
     sd_leases := rows_where (\<lambda>l. \<not> exists_where (\<lambda>k. p k \<and> lease_of_key l k) (sd_keys s)) (sd_leases s)\<rparr>"

definition delete_scheduled_run :: "ident \<Rightarrow> ident \<Rightarrow> sched_db \<Rightarrow> bool \<times> sched_db" where
  "delete_scheduled_run i org s =
    (if \<not> exists_where (\<lambda>r. sr_id r = i \<and> sr_org_id r = org) (sd_runs s) then (False, s)
     else (True, (delete_keys (\<lambda>k. dk_schedule_id k = i) s)
       \<lparr>sd_runs := update_where (\<lambda>r. sr_next_trigger_id r = Some i) (\<lambda>r. r\<lparr>sr_next_trigger_id := None\<rparr>)
          (rows_where (\<lambda>r. sr_id r \<noteq> i) (sd_runs s)),
        sd_results := rows_where (\<lambda>r. rr_schedule_id r \<noteq> i) (sd_results s)\<rparr>))"

section \<open>Results and publication slots\<close>

text \<open>A keyset cursor: rows strictly before it, by time alone when it carries no row identifier.\<close>

definition before_cursor :: "(instant \<times> ident option) option \<Rightarrow> run_result \<Rightarrow> bool" where
  "before_cursor cursor r =
    (case cursor of
       None \<Rightarrow> True
     | Some (t, None) \<Rightarrow> rr_created_at r < t
     | Some (t, Some i) \<Rightarrow> (rr_created_at r, rr_id r) < (t, i))"

text \<open>The \<^verbatim>\<open>LEFT JOIN\<close> gives one row per key with the schedule and run of the result, or one without lineage.\<close>

definition with_lineage :: "sched_db \<Rightarrow> run_result \<Rightarrow> (run_result \<times> (ident \<times> int) option) list" where
  "with_lineage s r =
    (case rows_where (\<lambda>k. dk_schedule_id k = rr_schedule_id r \<and> dk_run_id k = rr_run_id r) (sd_keys s) of
       [] \<Rightarrow> [(r, None)]
     | ks \<Rightarrow> map (\<lambda>k. (r, Some (dk_chain_id k, dk_hop_index k))) ks)"

definition list_scheduled_run_results ::
  "ident \<Rightarrow> ident \<Rightarrow> nat \<Rightarrow> (instant \<times> ident option) option \<Rightarrow> sched_db \<Rightarrow> (run_result \<times> (ident \<times> int) option) list" where
  "list_scheduled_run_results i org limit cursor s =
     take limit (concat (map (with_lineage s)
       (rev (sort_key (\<lambda>r. (rr_created_at r, rr_id r))
         (rows_where (\<lambda>r. rr_schedule_id r = i \<and> rr_org_id r = org \<and> before_cursor cursor r) (sd_results s))))))"

definition get_scheduled_run_result :: "ident \<Rightarrow> ident \<Rightarrow> ident \<Rightarrow> sched_db \<Rightarrow> run_result option" where
  "get_scheduled_run_result i org run_id s =
    (case rev (sort_key (\<lambda>r. (rr_created_at r, rr_id r))
        (rows_where (\<lambda>r. rr_schedule_id r = i \<and> rr_org_id r = org \<and> rr_run_id r = run_id) (sd_results s))) of
       [] \<Rightarrow> None
     | r # _ \<Rightarrow> Some r)"

definition record_scheduled_run_result ::
  "instant \<Rightarrow> ident \<Rightarrow> ident \<Rightarrow> ident \<Rightarrow> ident \<Rightarrow> run_status \<Rightarrow> string \<Rightarrow> usdc \<Rightarrow> string \<Rightarrow> sched_db \<Rightarrow> py_error + (run_result \<times> sched_db)" where
  "record_scheduled_run_result now result_id i org run_id status output cost error s =
    (let r = \<lparr>rr_id = result_id, rr_schedule_id = i, rr_org_id = org, rr_run_id = run_id, rr_status = status,
          rr_output_text = output, rr_cost_usdc = cost, rr_error = error, rr_created_at = now\<rparr>
     in bindE (insert_result r s) (\<lambda>s'. Inr (r, s')))"

definition reserve_x_broadcast :: "instant \<Rightarrow> ident \<Rightarrow> ident \<Rightarrow> ident \<Rightarrow> sched_db \<Rightarrow> bool \<times> sched_db" where
  "reserve_x_broadcast now run_id i org s =
    (if exists_where (\<lambda>x. xb_run_id x = run_id) (sd_broadcasts s) then (False, s)
     else (True, s\<lparr>sd_broadcasts := sd_broadcasts s @
       [\<lparr>xb_run_id = run_id, xb_schedule_id = i, xb_org_id = org, xb_tweet_id = [], xb_created_at = now\<rparr>]\<rparr>))"

definition record_x_broadcast_tweet :: "ident \<Rightarrow> string \<Rightarrow> sched_db \<Rightarrow> sched_db" where
  "record_x_broadcast_tweet run_id tweet_id s =
     s\<lparr>sd_broadcasts := update_where (\<lambda>x. xb_run_id x = run_id) (\<lambda>x. x\<lparr>xb_tweet_id := tweet_id\<rparr>) (sd_broadcasts s)\<rparr>"

section \<open>Dispatch leases\<close>

datatype lease_outcome = LeaseDuplicate | LeaseSaturated | LeaseAccepted

definition lease_open :: "dispatch_lease \<Rightarrow> bool" where
  "lease_open l \<longleftrightarrow> dl_status l \<in> {LeaseReserved, LeaseRunning}"

definition lease_active :: "instant \<Rightarrow> dispatch_lease \<Rightarrow> bool" where
  "lease_active now l \<longleftrightarrow> lease_open l \<and> now < dl_lease_expires_at l"

definition active_leases :: "instant \<Rightarrow> sched_db \<Rightarrow> dispatch_lease list" where
  "active_leases now s = rows_where (lease_active now) (sd_leases s)"

definition active_org_leases :: "instant \<Rightarrow> ident \<Rightarrow> sched_db \<Rightarrow> dispatch_lease list" where
  "active_org_leases now org s = rows_where (\<lambda>l. dl_org_id l = org \<and> lease_active now l) (sd_leases s)"

record reservation =
  rv_schedule_id :: ident
  rv_org_id :: ident
  rv_idempotency_key :: string
  rv_run_id :: ident
  rv_owner_id :: ident
  rv_lease_seconds :: int
  rv_global_limit :: int
  rv_org_limit :: int
  rv_chain_id :: ident
  rv_hop_index :: int

definition existing_dispatch :: "ident \<Rightarrow> string \<Rightarrow> sched_db \<Rightarrow> dispatch_key option" where
  "existing_dispatch i key s = find (\<lambda>k. dk_schedule_id k = i \<and> dk_idempotency_key k = key) (sd_keys s)"

definition reserve_event_dispatch_lease ::
  "instant \<Rightarrow> ident \<Rightarrow> reservation \<Rightarrow> sched_db \<Rightarrow> py_error + ((ident \<times> lease_outcome) \<times> sched_db)" where
  "reserve_event_dispatch_lease now eid rv s =
    (case existing_dispatch (rv_schedule_id rv) (rv_idempotency_key rv) s of
       Some k \<Rightarrow> Inr ((dk_run_id k, LeaseDuplicate), s)
     | None \<Rightarrow>
         if rv_global_limit rv \<le> int (length (active_leases now s)) then Inr ((rv_run_id rv, LeaseSaturated), s)
         else if rv_org_limit rv \<le> int (length (active_org_leases now (rv_org_id rv) s)) then Inr ((rv_run_id rv, LeaseSaturated), s)
         else
           bindE (insert_key \<lparr>dk_schedule_id = rv_schedule_id rv, dk_idempotency_key = rv_idempotency_key rv,
               dk_run_id = rv_run_id rv, dk_chain_id = rv_chain_id rv, dk_hop_index = rv_hop_index rv, dk_created_at = now\<rparr> s) (\<lambda>s1.
           bindE (insert_lease \<lparr>dl_run_id = rv_run_id rv, dl_schedule_id = rv_schedule_id rv, dl_org_id = rv_org_id rv,
               dl_idempotency_key = rv_idempotency_key rv, dl_owner_id = rv_owner_id rv, dl_status = LeaseReserved,
               dl_lease_expires_at = now + seconds (rv_lease_seconds rv), dl_started_at = None, dl_finished_at = None,
               dl_last_error = []\<rparr> s1) (\<lambda>s2.
           bindE (insert_event_row \<lparr>te_id = eid, te_schedule_id = rv_schedule_id rv, te_org_id = rv_org_id rv,
               te_run_id = rv_run_id rv, te_event_type = DispatchAccepted, te_status = None, te_cost_usdc = 0,
               te_error = [], te_created_at = now\<rparr> s2) (\<lambda>s3.
           Inr ((rv_run_id rv, LeaseAccepted), s3)))))"

definition update_leases :: "(dispatch_lease \<Rightarrow> bool) \<Rightarrow> (dispatch_lease \<Rightarrow> dispatch_lease) \<Rightarrow> sched_db \<Rightarrow> bool \<times> sched_db" where
  "update_leases p f s = (exists_where p (sd_leases s), s\<lparr>sd_leases := update_where p f (sd_leases s)\<rparr>)"

definition start_event_dispatch_lease :: "instant \<Rightarrow> ident \<Rightarrow> ident \<Rightarrow> int \<Rightarrow> sched_db \<Rightarrow> bool \<times> sched_db" where
  "start_event_dispatch_lease now run_id owner lease_seconds s =
     update_leases (\<lambda>l. dl_run_id l = run_id \<and> dl_owner_id l = owner \<and> dl_status l = LeaseReserved)
       (\<lambda>l. l\<lparr>dl_status := LeaseRunning, dl_started_at := (case dl_started_at l of None \<Rightarrow> Some now | t \<Rightarrow> t),
              dl_lease_expires_at := now + seconds lease_seconds\<rparr>) s"

definition renew_event_dispatch_lease :: "instant \<Rightarrow> ident \<Rightarrow> ident \<Rightarrow> int \<Rightarrow> sched_db \<Rightarrow> bool \<times> sched_db" where
  "renew_event_dispatch_lease now run_id owner lease_seconds s =
     update_leases (\<lambda>l. dl_run_id l = run_id \<and> dl_owner_id l = owner \<and> dl_status l = LeaseRunning)
       (\<lambda>l. l\<lparr>dl_lease_expires_at := now + seconds lease_seconds\<rparr>) s"

definition close_lease :: "instant \<Rightarrow> run_status \<Rightarrow> string \<Rightarrow> dispatch_lease \<Rightarrow> dispatch_lease" where
  "close_lease now status error l =
     l\<lparr>dl_status := (if status = RunCompleted then LeaseCompleted else LeaseFailed), dl_finished_at := Some now,
       dl_lease_expires_at := now, dl_last_error := (if status = RunCompleted then [] else error)\<rparr>"

definition settled_event :: "instant \<Rightarrow> ident \<Rightarrow> ident \<Rightarrow> ident \<Rightarrow> ident \<Rightarrow> run_result \<Rightarrow> string \<Rightarrow> trigger_event" where
  "settled_event now eid i org run_id result error =
     \<lparr>te_id = eid, te_schedule_id = i, te_org_id = org, te_run_id = run_id, te_event_type = RunSettled,
      te_status = Some (rr_status result), te_cost_usdc = max 0 (rr_cost_usdc result), te_error = error, te_created_at = now\<rparr>"

definition event_run_failed :: string where
  "event_run_failed = ''Event run failed.''"

definition finish_event_dispatch_lease ::
  "instant \<Rightarrow> ident \<Rightarrow> ident \<Rightarrow> ident \<Rightarrow> ident \<Rightarrow> ident \<Rightarrow> run_result \<Rightarrow> sched_db \<Rightarrow> py_error + (bool \<times> sched_db)" where
  "finish_event_dispatch_lease now eid i org run_id owner result s =
    (let (updated, s1) = update_leases (\<lambda>l. dl_run_id l = run_id \<and> dl_owner_id l = owner \<and> lease_open l)
           (close_lease now (rr_status result) event_run_failed) s
     in if \<not> updated then Inr (False, s)
        else bindE (insert_event_row (settled_event now eid i org run_id result
               (if rr_status result = RunCompleted then [] else event_run_failed)) s1) (\<lambda>s2.
             Inr (True, s2)))"

text \<open>
  The failed result of a run that has none, with the failure counted on its schedule. The unique index on
  schedule and run makes the insert do nothing when another organisation's row is in the way; the row is
  then read again, and \<^verbatim>\<open>dict(None)\<close> raises when there is none.
\<close>

definition count_failure :: "instant \<Rightarrow> int \<Rightarrow> scheduled_run \<Rightarrow> scheduled_run" where
  "count_failure now limit r =
     r\<lparr>sr_last_run_at := Some now, sr_consecutive_failures := sr_consecutive_failures r + 1,
       sr_enabled := (if limit \<le> sr_consecutive_failures r + 1 then False else sr_enabled r), sr_updated_at := now\<rparr>"

definition failed_result :: "instant \<Rightarrow> ident \<Rightarrow> ident \<Rightarrow> ident \<Rightarrow> ident \<Rightarrow> string \<Rightarrow> run_result" where
  "failed_result now result_id i org run_id error =
     \<lparr>rr_id = result_id, rr_schedule_id = i, rr_org_id = org, rr_run_id = run_id, rr_status = RunFailed,
      rr_output_text = [], rr_cost_usdc = 0, rr_error = error, rr_created_at = now\<rparr>"

definition ensure_result ::
  "instant \<Rightarrow> ident \<Rightarrow> ident \<Rightarrow> ident \<Rightarrow> ident \<Rightarrow> int \<Rightarrow> string \<Rightarrow> sched_db \<Rightarrow> py_error + (run_result \<times> sched_db)" where
  "ensure_result now result_id i org run_id limit error s =
    (case get_scheduled_run_result i org run_id s of
       Some r \<Rightarrow> Inr (r, s)
     | None \<Rightarrow>
         if exists_where (\<lambda>r. rr_schedule_id r = i \<and> rr_run_id r = run_id) (sd_results s)
         then Inl (TypeError ''NoneType object is not iterable'')
         else
           bindE (insert_result (failed_result now result_id i org run_id error) s) (\<lambda>s1.
           bindE (update_run i (\<lambda>_. True) (count_failure now limit) s1) (\<lambda>(_, s2).
           Inr (failed_result now result_id i org run_id error, s2))))"

definition fail_event_dispatch ::
  "instant \<Rightarrow> ident \<Rightarrow> ident \<Rightarrow> ident \<Rightarrow> ident \<Rightarrow> ident \<Rightarrow> ident \<Rightarrow> int \<Rightarrow> string \<Rightarrow> sched_db \<Rightarrow> py_error + (run_result option \<times> sched_db)" where
  "fail_event_dispatch now result_id eid i org run_id owner limit error s =
    (case find (\<lambda>l. dl_run_id l = run_id \<and> dl_owner_id l = owner) (sd_leases s) of
       None \<Rightarrow> Inr (None, s)
     | Some lease \<Rightarrow>
         if \<not> lease_open lease then Inr (None, s)
         else
           bindE (ensure_result now result_id i org run_id limit (take 1024 error) s) (\<lambda>(stored, s1).
           bindE (insert_event_row (settled_event now eid i org run_id stored (take 1024 error))
             (snd (update_leases (\<lambda>l. dl_run_id l = run_id \<and> dl_owner_id l = owner)
               (close_lease now (rr_status stored) (take 1024 error)) s1))) (\<lambda>s2.
           Inr (Some stored, s2))))"

text \<open>\<open>locked\<close>: the rows other workers have locked. A pass is one transaction.\<close>

definition recovery_error :: string where
  "recovery_error = ''Event run recovery timed out.''"

definition recover_lease :: "instant \<Rightarrow> ident \<Rightarrow> ident \<Rightarrow> int \<Rightarrow> dispatch_lease \<Rightarrow> sched_db \<Rightarrow> py_error + sched_db" where
  "recover_lease now result_id eid limit lease s =
     bindE (ensure_result now result_id (dl_schedule_id lease) (dl_org_id lease) (dl_run_id lease) limit recovery_error s) (\<lambda>(stored, s1).
     insert_event_row (settled_event now eid (dl_schedule_id lease) (dl_org_id lease) (dl_run_id lease) stored
         (if rr_status stored = RunCompleted then [] else recovery_error))
       (snd (update_leases (\<lambda>l. dl_run_id l = dl_run_id lease) (close_lease now (rr_status stored) recovery_error) s1)))"

fun recover_leases :: "instant \<Rightarrow> (nat \<Rightarrow> ident) \<Rightarrow> (nat \<Rightarrow> ident) \<Rightarrow> int \<Rightarrow> nat \<Rightarrow> dispatch_lease list \<Rightarrow> sched_db \<Rightarrow> py_error + (nat \<times> sched_db)" where
  "recover_leases now rid eid limit k [] s = Inr (k, s)"
| "recover_leases now rid eid limit k (l # ls) s =
     bindE (recover_lease now (rid k) (eid k) limit l s) (\<lambda>s'. recover_leases now rid eid limit (Suc k) ls s')"

definition expired_leases :: "instant \<Rightarrow> ident set \<Rightarrow> nat \<Rightarrow> sched_db \<Rightarrow> dispatch_lease list" where
  "expired_leases now locked n s =
     take n (sort_key (\<lambda>l. (dl_lease_expires_at l, dl_run_id l))
       (rows_where (\<lambda>l. lease_open l \<and> dl_lease_expires_at l \<le> now \<and> dl_run_id l \<notin> locked) (sd_leases s)))"

definition recover_expired_event_dispatches ::
  "instant \<Rightarrow> ident set \<Rightarrow> (nat \<Rightarrow> ident) \<Rightarrow> (nat \<Rightarrow> ident) \<Rightarrow> nat \<Rightarrow> int \<Rightarrow> sched_db \<Rightarrow> py_error + (nat \<times> sched_db)" where
  "recover_expired_event_dispatches now locked rid eid n limit s =
     recover_leases now rid eid limit 0 (expired_leases now locked n s) s"

definition get_existing_dispatch :: "ident \<Rightarrow> string \<Rightarrow> sched_db \<Rightarrow> ident option" where
  "get_existing_dispatch i key s = map_option dk_run_id (existing_dispatch i key s)"

definition get_event_dispatch_lineage :: "ident \<Rightarrow> ident \<Rightarrow> sched_db \<Rightarrow> (ident \<times> int) option" where
  "get_event_dispatch_lineage i run_id s =
     map_option (\<lambda>k. (dk_chain_id k, dk_hop_index k)) (find (\<lambda>k. dk_schedule_id k = i \<and> dk_run_id k = run_id) (sd_keys s))"

section \<open>Outcomes and claims of schedules\<close>

definition mark_scheduled_run_skipped :: "instant \<Rightarrow> ident \<Rightarrow> sched_db \<Rightarrow> py_error + (unit \<times> sched_db)" where
  "mark_scheduled_run_skipped now i s =
     bindE (update_run i (\<lambda>_. True) (\<lambda>r. r\<lparr>sr_last_run_at := Some now, sr_updated_at := now\<rparr>) s) (\<lambda>(_, s'). Inr ((), s'))"

definition mark_scheduled_run_succeeded :: "instant \<Rightarrow> ident \<Rightarrow> sched_db \<Rightarrow> py_error + (unit \<times> sched_db)" where
  "mark_scheduled_run_succeeded now i s =
     bindE (update_run i (\<lambda>_. True) (\<lambda>r. r\<lparr>sr_last_run_at := Some now, sr_consecutive_failures := 0, sr_updated_at := now\<rparr>) s)
       (\<lambda>(_, s'). Inr ((), s'))"

definition mark_scheduled_run_failed :: "instant \<Rightarrow> ident \<Rightarrow> int \<Rightarrow> sched_db \<Rightarrow> py_error + (scheduled_run option \<times> sched_db)" where
  "mark_scheduled_run_failed now i limit s = update_run i (\<lambda>_. True) (count_failure now limit) s"

definition schedule_due :: "instant \<Rightarrow> scheduled_run \<Rightarrow> bool" where
  "schedule_due now r \<longleftrightarrow> sr_enabled r \<and> sr_schedule_kind r = IntervalKind \<and> (\<exists>t \<in> set_option (sr_next_run_at r). t \<le> now)"

definition advance :: "instant \<Rightarrow> scheduled_run \<Rightarrow> scheduled_run" where
  "advance now r = r\<lparr>sr_next_run_at := map_option (\<lambda>n. now + seconds n) (sr_interval_seconds r), sr_updated_at := now\<rparr>"

definition due_schedules :: "instant \<Rightarrow> ident set \<Rightarrow> nat \<Rightarrow> sched_db \<Rightarrow> scheduled_run list" where
  "due_schedules now locked n s =
     take n (sort_key (\<lambda>r. (the (sr_next_run_at r), sr_id r))
       (rows_where (\<lambda>r. schedule_due now r \<and> sr_id r \<notin> locked) (sd_runs s)))"

definition claim_due_schedules :: "instant \<Rightarrow> ident set \<Rightarrow> nat \<Rightarrow> sched_db \<Rightarrow> scheduled_run list \<times> sched_db" where
  "claim_due_schedules now locked n s =
    (let due = sr_id ` set (due_schedules now locked n s)
     in (map (advance now) (rows_where (\<lambda>r. sr_id r \<in> due) (sd_runs s)),
         s\<lparr>sd_runs := update_where (\<lambda>r. sr_id r \<in> due) (advance now) (sd_runs s)\<rparr>))"

section \<open>Retention\<close>

text \<open>
  One batch deletes the oldest rows past their time to live; the sweep repeats batches until one is not
  full, with one clock reading per statement. \<open>locked\<close>: the rows other transactions hold, which a statement
  skips (\<^verbatim>\<open>FOR UPDATE SKIP LOCKED\<close>). Keys of open leases are kept.
\<close>

definition old_results :: "instant \<Rightarrow> run_result set \<Rightarrow> int \<Rightarrow> nat \<Rightarrow> sched_db \<Rightarrow> run_result list" where
  "old_results now locked ttl_days n s =
     take n (sort_key rr_created_at
       (rows_where (\<lambda>r. rr_created_at r < now - days ttl_days \<and> r \<notin> locked) (sd_results s)))"

definition delete_old_results :: "instant \<Rightarrow> run_result set \<Rightarrow> int \<Rightarrow> nat \<Rightarrow> sched_db \<Rightarrow> nat \<times> sched_db" where
  "delete_old_results now locked ttl_days n s =
    (let old = old_results now locked ttl_days n s
     in (length old, s\<lparr>sd_results := rows_where (\<lambda>r. r \<notin> set old) (sd_results s)\<rparr>))"

definition old_keys :: "instant \<Rightarrow> dispatch_key set \<Rightarrow> int \<Rightarrow> nat \<Rightarrow> sched_db \<Rightarrow> dispatch_key list" where
  "old_keys now locked ttl_days n s =
     take n (sort_key dk_created_at
       (rows_where (\<lambda>k. dk_created_at k < now - days ttl_days \<and> k \<notin> locked \<and>
           \<not> exists_where (\<lambda>l. lease_of_key l k \<and> lease_open l) (sd_leases s))
         (sd_keys s)))"

definition delete_old_keys :: "instant \<Rightarrow> dispatch_key set \<Rightarrow> int \<Rightarrow> nat \<Rightarrow> sched_db \<Rightarrow> nat \<times> sched_db" where
  "delete_old_keys now locked ttl_days n s =
    (let old = old_keys now locked ttl_days n s in (length old, delete_keys (\<lambda>k. k \<in> set old) s))"

partial_function (option) delete_ttl_rows :: "(nat \<Rightarrow> 's \<Rightarrow> nat \<times> 's) \<Rightarrow> nat \<Rightarrow> nat \<Rightarrow> nat \<Rightarrow> 's \<Rightarrow> (nat \<times> 's) option" where
  "delete_ttl_rows batch n k deleted_so_far s =
    (case batch k s of (deleted, s') \<Rightarrow>
       if deleted < n then Some (deleted_so_far + deleted, s')
       else delete_ttl_rows batch n (Suc k) (deleted_so_far + deleted) s')"

text \<open>The part of \<^verbatim>\<open>retention_sweep_once\<close> that deletes run results and dispatch keys.\<close>

definition retention_sweep_runs ::
  "(nat \<Rightarrow> instant) \<Rightarrow> (nat \<Rightarrow> run_result set) \<Rightarrow> (nat \<Rightarrow> instant) \<Rightarrow> (nat \<Rightarrow> dispatch_key set) \<Rightarrow> int \<Rightarrow> nat \<Rightarrow> sched_db \<Rightarrow>
   ((nat \<times> nat) \<times> sched_db) option" where
  "retention_sweep_runs clock1 locked1 clock2 locked2 ttl_days batch_size s =
    (if ttl_days \<le> 0 then Some ((0, 0), s)
     else case delete_ttl_rows (\<lambda>k. delete_old_results (clock1 k) (locked1 k) ttl_days batch_size) batch_size 0 0 s of
            None \<Rightarrow> None
          | Some (results, s1) \<Rightarrow>
              map_option (\<lambda>(keys, s2). ((results, keys), s2))
                (delete_ttl_rows (\<lambda>k. delete_old_keys (clock2 k) (locked2 k) ttl_days batch_size) batch_size 0 0 s1))"

section \<open>Well-formed tables\<close>

definition runs_ok :: "scheduled_run list \<Rightarrow> bool" where
  "runs_ok rs \<longleftrightarrow> distinct (map sr_id rs) \<and> distinct (map the (filter (\<lambda>t. t \<noteq> None) (map sr_trigger_token rs))) \<and>
     (\<forall>r \<in> set rs. run_checks r \<and> run_range r \<and> (\<forall>i \<in> set_option (sr_next_trigger_id r). i \<in> sr_id ` set rs))"

definition results_ok :: "ident set \<Rightarrow> run_result list \<Rightarrow> bool" where
  "results_ok ids rs \<longleftrightarrow> distinct (map rr_id rs) \<and> distinct (map (\<lambda>r. (rr_schedule_id r, rr_run_id r)) rs) \<and>
     (\<forall>r \<in> set rs. rr_schedule_id r \<in> ids \<and> bigint (rr_cost_usdc r))"

definition keys_ok :: "ident set \<Rightarrow> dispatch_key list \<Rightarrow> bool" where
  "keys_ok ids ks \<longleftrightarrow> distinct (map (\<lambda>k. (dk_schedule_id k, dk_idempotency_key k)) ks) \<and>
     distinct (map (\<lambda>k. (dk_chain_id k, dk_hop_index k)) ks) \<and>
     (\<forall>k \<in> set ks. dk_schedule_id k \<in> ids \<and> 0 \<le> dk_hop_index k \<and> (dk_hop_index k = 0 \<longrightarrow> dk_chain_id k = dk_run_id k))"

definition leases_ok :: "dispatch_key list \<Rightarrow> dispatch_lease list \<Rightarrow> bool" where
  "leases_ok ks ls \<longleftrightarrow> distinct (map dl_run_id ls) \<and>
     (\<forall>l \<in> set ls. (\<exists>k \<in> set ks. lease_of_key l k \<and> dk_run_id k = dl_run_id l) \<and>
        (lease_open l \<longleftrightarrow> dl_finished_at l = None) \<and> length (dl_last_error l) \<le> 1024)"

definition settlements :: "ident \<Rightarrow> trigger_event list \<Rightarrow> nat" where
  "settlements i es = length (filter (\<lambda>e. te_event_type e = RunSettled \<and> te_run_id e = i) es)"

definition audit_ok :: "dispatch_lease list \<Rightarrow> trigger_event list \<Rightarrow> bool" where
  "audit_ok ls es \<longleftrightarrow> distinct (map te_id es) \<and> (\<forall>e \<in> set es. 0 \<le> te_cost_usdc e \<and> bigint (te_cost_usdc e)) \<and>
     (\<forall>i. settlements i es \<le> 1) \<and> (\<forall>l \<in> set ls. settlements (dl_run_id l) es = (if lease_open l then 0 else 1))"

definition broadcasts_ok :: "x_broadcast list \<Rightarrow> bool" where
  "broadcasts_ok xs \<longleftrightarrow> distinct (map xb_run_id xs)"

definition run_ids :: "sched_db \<Rightarrow> ident set" where
  "run_ids s = sr_id ` set (sd_runs s)"

definition sched_ok :: "sched_db \<Rightarrow> bool" where
  "sched_ok s \<longleftrightarrow> runs_ok (sd_runs s) \<and> results_ok (run_ids s) (sd_results s) \<and> keys_ok (run_ids s) (sd_keys s) \<and>
     leases_ok (sd_keys s) (sd_leases s) \<and> audit_ok (sd_leases s) (sd_events s) \<and> broadcasts_ok (sd_broadcasts s)"

lemmas tables_ok_defs = runs_ok_def results_ok_def keys_ok_def leases_ok_def audit_ok_def broadcasts_ok_def

lemma settlements_append [simp]: "settlements i (xs @ ys) = settlements i xs + settlements i ys"
  by (simp add: settlements_def)

lemma settlements_single [simp]: "settlements i [e] = (if te_event_type e = RunSettled \<and> te_run_id e = i then 1 else 0)"
  by (simp add: settlements_def)

lemma results_ok_mono: "results_ok A rs \<Longrightarrow> A \<subseteq> B \<Longrightarrow> results_ok B rs"
  by (auto simp: results_ok_def)

lemma keys_ok_mono: "keys_ok A ks \<Longrightarrow> A \<subseteq> B \<Longrightarrow> keys_ok B ks"
  by (auto simp: keys_ok_def)

lemma leases_ok_mono: "leases_ok ks ls \<Longrightarrow> set ks \<subseteq> set ks' \<Longrightarrow> leases_ok ks' ls"
  unfolding leases_ok_def by (meson subset_iff)

text \<open>What every operation keeps of an earlier state: the audit only grows and a closed lease is final.\<close>

definition sched_evolves :: "sched_db \<Rightarrow> sched_db \<Rightarrow> bool" where
  "sched_evolves s s' \<longleftrightarrow> (\<exists>es. sd_events s' = sd_events s @ es) \<and>
     (\<forall>l \<in> set (sd_leases s). \<not> lease_open l \<longrightarrow> l \<in> set (sd_leases s') \<or> dl_run_id l \<notin> dl_run_id ` set (sd_leases s'))"

lemma sched_evolves_same: "sd_events s' = sd_events s \<Longrightarrow> sd_leases s' = sd_leases s \<Longrightarrow> sched_evolves s s'"
  by (simp add: sched_evolves_def)

lemma sched_evolves_update:
  assumes "sd_leases s' = update_where p f (sd_leases s)" "\<And>l. l \<in> set (sd_leases s) \<Longrightarrow> p l \<Longrightarrow> lease_open l"
    "sd_events s' = sd_events s @ es"
  shows "sched_evolves s s'"
  unfolding sched_evolves_def using assms by (auto simp: set_update_where image_iff)

lemma sched_evolves_filter:
  assumes "sd_leases s' = rows_where p (sd_leases s)" "sd_events s' = sd_events s" "distinct (map dl_run_id (sd_leases s))"
  shows "sched_evolves s s'"
  unfolding sched_evolves_def using assms distinct_key_eq [OF assms(3)] by auto

subsection \<open>Inserts\<close>

lemma insert_run_ok:
  assumes "insert_run r s = Inr s'" "sched_ok s"
  shows "sched_ok s'"
proof -
  have s': "s' = s\<lparr>sd_runs := sd_runs s @ [r]\<rparr>" and new: "sr_id r \<notin> sr_id ` set (sd_runs s)" "run_range r" "run_checks r"
    "sr_trigger_token r \<noteq> None \<Longrightarrow> sr_trigger_token r \<notin> sr_trigger_token ` set (sd_runs s)"
    "\<forall>i \<in> set_option (sr_next_trigger_id r). i \<in> sr_id ` set (r # sd_runs s)"
    using assms(1) by (auto simp: insert_run_def split: if_splits)
  have ok: "runs_ok (sd_runs s)" using assms(2) by (simp add: sched_ok_def)
  have token: "distinct (map the (filter (\<lambda>t. t \<noteq> None) (map sr_trigger_token (sd_runs s @ [r]))))"
  proof (cases "sr_trigger_token r")
    case (Some y)
    then have "\<And>x. x \<in> set (sd_runs s) \<Longrightarrow> sr_trigger_token x \<noteq> Some y" using new(4) by (metis image_eqI option.distinct(1))
    with Some ok show ?thesis by (auto simp: runs_ok_def)
  qed (use ok in \<open>simp add: runs_ok_def\<close>)
  have "runs_ok (sd_runs s @ [r])"
    using ok new token by (auto simp: runs_ok_def)
  moreover have "run_ids s \<subseteq> run_ids s'" using s' by (auto simp: run_ids_def)
  ultimately show ?thesis
    using assms(2) s' by (auto simp: sched_ok_def intro: results_ok_mono keys_ok_mono)
qed

lemma insert_result_ok:
  assumes "insert_result r s = Inr s'" "sched_ok s"
  shows "sched_ok s'"
proof -
  have s': "s' = s\<lparr>sd_results := sd_results s @ [r]\<rparr>" and new: "bigint (rr_cost_usdc r)" "rr_schedule_id r \<in> run_ids s"
    "rr_id r \<notin> rr_id ` set (sd_results s)" "(rr_schedule_id r, rr_run_id r) \<notin> (\<lambda>r. (rr_schedule_id r, rr_run_id r)) ` set (sd_results s)"
    using assms(1) by (auto simp: insert_result_def run_ids_def image_iff split: if_splits) metis
  then have "results_ok (run_ids s) (sd_results s @ [r])" using assms(2) by (auto simp: sched_ok_def results_ok_def)
  with assms(2) s' show ?thesis by (simp add: sched_ok_def run_ids_def)
qed

lemma insert_event_row_cases:
  assumes "insert_event_row e s = Inr s'"
  obtains "s' = s\<lparr>sd_events := sd_events s @ [e]\<rparr>" "0 \<le> te_cost_usdc e" "bigint (te_cost_usdc e)" "te_id e \<notin> te_id ` set (sd_events s)"
proof -
  have "te_id e \<notin> te_id ` set (sd_events s)" using assms by (auto simp: insert_event_row_def image_iff split: if_splits)
  with assms that show thesis by (simp add: insert_event_row_def split: if_splits)
qed

lemma insert_event_row_ok:
  assumes "insert_event_row e s = Inr s'" "sched_ok s" "te_event_type e \<noteq> RunSettled"
  shows "sched_ok s'"
  using assms(1) by (cases rule: insert_event_row_cases) (use assms(2,3) in \<open>simp add: sched_ok_def audit_ok_def run_ids_def\<close>)

subsection \<open>Updates\<close>

lemma update_run_cases:
  assumes "update_run i p f s = Inr (x, s')"
  obtains (none) "x = None" "s' = s"
    | (some) r where "x = Some (f r)" "r \<in> set (sd_runs s)" "sr_id r = i" "p r" "run_range (f r)" "run_checks (f r)"
        "\<forall>j \<in> set_option (sr_next_trigger_id (f r)). j \<in> run_ids s"
        "s' = s\<lparr>sd_runs := update_where (\<lambda>x. sr_id x = i \<and> p x) f (sd_runs s)\<rparr>"
proof (cases "find (\<lambda>r. sr_id r = i \<and> p r) (sd_runs s)")
  case None
  with assms none show thesis by (simp add: update_run_def)
next
  case (Some r)
  then have r: "r \<in> set (sd_runs s)" "sr_id r = i" "p r" using find_SomeD by fastforce+
  have "run_range (f r) \<and> run_checks (f r) \<and> (sr_next_trigger_id (f r) \<noteq> None \<longrightarrow> sr_next_trigger_id (f r) \<in> Some ` sr_id ` set (sd_runs s)) \<and>
      x = Some (f r) \<and> s' = s\<lparr>sd_runs := update_where (\<lambda>x. sr_id x = i \<and> p x) f (sd_runs s)\<rparr>"
    using assms Some by (auto simp: update_run_def split: if_splits)
  with r show thesis by (intro some [of r]) (auto simp: run_ids_def)
qed

lemma update_run_ok:
  assumes "update_run i p f s = Inr (x, s')" "sched_ok s"
    and f: "\<And>r. sr_id (f r) = sr_id r" "\<And>r. sr_trigger_token (f r) = sr_trigger_token r"
  shows "sched_ok s'"
  using assms(1)
proof (cases rule: update_run_cases)
  case (some r)
  let ?u = "update_where (\<lambda>x. sr_id x = i \<and> p x) f (sd_runs s)"
  have ids: "map sr_id ?u = map sr_id (sd_runs s)" "map sr_trigger_token ?u = map sr_trigger_token (sd_runs s)"
    using f by (auto intro!: map_update_where)
  have d: "distinct (map sr_id (sd_runs s))" using assms(2) by (simp add: sched_ok_def runs_ok_def)
  have img: "sr_id ` set ?u = run_ids s" using ids(1) by (metis image_set run_ids_def)
  have "run_checks x \<and> run_range x \<and> (\<forall>j \<in> set_option (sr_next_trigger_id x). j \<in> run_ids s)" if "x \<in> set ?u" for x
    using that
  proof (cases rule: in_update_whereE)
    case (hit r0)
    with some d have "r0 = r" by (metis distinct_key_eq)
    with some hit show ?thesis by simp
  next
    case miss
    then show ?thesis using assms(2) by (auto simp: sched_ok_def runs_ok_def run_ids_def)
  qed
  then have "runs_ok ?u" using assms(2) unfolding sched_ok_def runs_ok_def ids img by blast
  moreover have "run_ids s' = run_ids s" using some(8) img by (simp add: run_ids_def)
  ultimately show ?thesis using assms(2) some(8) by (simp add: sched_ok_def)
qed (use assms(2) in simp)

lemma apply_update_keeps [simp]: "sr_id (apply_update now u r) = sr_id r" "sr_trigger_token (apply_update now u r) = sr_trigger_token r"
  by (auto simp: apply_update_def set_if_def split: option.splits)

lemma touch_runs_ok:
  assumes "sched_ok s"
    and f: "\<And>r. sr_id (f r) = sr_id r" "\<And>r. sr_trigger_token (f r) = sr_trigger_token r" "\<And>r. sr_next_trigger_id (f r) = sr_next_trigger_id r"
      "\<And>r. run_checks (f r) = run_checks r" "\<And>r. run_range (f r) = run_range r"
  shows "sched_ok (s\<lparr>sd_runs := update_where p f (sd_runs s)\<rparr>)"
proof -
  let ?u = "update_where p f (sd_runs s)"
  have ids: "map sr_id ?u = map sr_id (sd_runs s)" "map sr_trigger_token ?u = map sr_trigger_token (sd_runs s)"
    using f by (auto intro!: map_update_where)
  have img: "sr_id ` set ?u = run_ids s" using ids(1) by (metis image_set run_ids_def)
  have "run_checks x \<and> run_range x \<and> (\<forall>j \<in> set_option (sr_next_trigger_id x). j \<in> run_ids s)" if "x \<in> set ?u" for x
    using that by (cases rule: in_update_whereE) (use assms f in \<open>auto simp: sched_ok_def runs_ok_def run_ids_def\<close>)
  then have "runs_ok ?u" using assms(1) unfolding sched_ok_def runs_ok_def ids img by blast
  with assms(1) img show ?thesis by (simp add: sched_ok_def run_ids_def)
qed

subsection \<open>Leases\<close>

definition same_lease :: "dispatch_lease \<Rightarrow> dispatch_lease \<Rightarrow> bool" where
  "same_lease l l' \<longleftrightarrow> dl_run_id l' = dl_run_id l \<and> dl_schedule_id l' = dl_schedule_id l \<and> dl_org_id l' = dl_org_id l \<and>
     dl_idempotency_key l' = dl_idempotency_key l \<and> dl_owner_id l' = dl_owner_id l"

lemma same_lease_key: "same_lease l l' \<Longrightarrow> lease_of_key l' k = lease_of_key l k"
  by (simp add: same_lease_def lease_of_key_def)

lemma close_lease_simps [simp]:
  "same_lease l (close_lease now st e l)" "\<not> lease_open (close_lease now st e l)" "dl_run_id (close_lease now st e l) = dl_run_id l"
  "dl_finished_at (close_lease now st e l) = Some now" "length e \<le> 1024 \<Longrightarrow> length (dl_last_error (close_lease now st e l)) \<le> 1024"
  by (auto simp: close_lease_def same_lease_def lease_open_def)

lemma lease_run_ids: "(\<And>l. l \<in> set ls \<Longrightarrow> p l \<Longrightarrow> same_lease l (f l)) \<Longrightarrow> map dl_run_id (update_where p f ls) = map dl_run_id ls"
  by (auto intro!: map_update_where simp: same_lease_def)

lemma update_leases_leases_ok:
  assumes ok: "leases_ok ks ls" and f: "\<And>l. l \<in> set ls \<Longrightarrow> p l \<Longrightarrow> same_lease l (f l)"
    and g: "\<And>l. l \<in> set ls \<Longrightarrow> p l \<Longrightarrow> (lease_open (f l) \<longleftrightarrow> dl_finished_at (f l) = None) \<and> length (dl_last_error (f l)) \<le> 1024"
  shows "leases_ok ks (update_where p f ls)"
proof -
  have "(\<exists>k \<in> set ks. lease_of_key x k \<and> dk_run_id k = dl_run_id x) \<and> (lease_open x \<longleftrightarrow> dl_finished_at x = None) \<and>
      length (dl_last_error x) \<le> 1024" if "x \<in> set (update_where p f ls)" for x
    using that
  proof (cases rule: in_update_whereE)
    case (hit l)
    then obtain k where k: "k \<in> set ks" "lease_of_key l k" "dk_run_id k = dl_run_id l" using ok by (auto simp: leases_ok_def)
    have same: "same_lease l x" using hit f [of l] by simp
    from k(2) have "lease_of_key x k" by (simp add: same_lease_key [OF same])
    moreover have "dk_run_id k = dl_run_id x" using k(3) same by (simp add: same_lease_def)
    moreover have "(lease_open x \<longleftrightarrow> dl_finished_at x = None) \<and> length (dl_last_error x) \<le> 1024" using g [of l] hit by simp
    ultimately show ?thesis using k(1) by blast
  qed (use ok in \<open>auto simp: leases_ok_def\<close>)
  with ok show ?thesis by (simp add: leases_ok_def lease_run_ids [OF f])
qed

lemma prolong_ok:
  assumes ok: "sched_ok s" and f: "\<And>l. p l \<Longrightarrow> same_lease l (f l) \<and> lease_open l \<and> lease_open (f l) \<and>
    dl_finished_at (f l) = dl_finished_at l \<and> dl_last_error (f l) = dl_last_error l"
  shows "sched_ok (snd (update_leases p f s))"
proof -
  have "leases_ok (sd_keys s) (update_where p f (sd_leases s))"
    using ok f by (intro update_leases_leases_ok) (auto simp: sched_ok_def leases_ok_def)
  moreover have "audit_ok (update_where p f (sd_leases s)) (sd_events s)"
  proof -
    have "settlements (dl_run_id x) (sd_events s) = (if lease_open x then 0 else 1)" if "x \<in> set (update_where p f (sd_leases s))" for x
      using that
    proof (cases rule: in_update_whereE)
      case (hit l)
      then have "settlements (dl_run_id l) (sd_events s) = 0" using ok f [of l] by (auto simp: sched_ok_def audit_ok_def)
      with hit f [of l] show ?thesis by (simp add: same_lease_def)
    qed (use ok in \<open>simp add: sched_ok_def audit_ok_def\<close>)
    with ok show ?thesis by (simp add: sched_ok_def audit_ok_def)
  qed
  ultimately show ?thesis using ok by (simp add: sched_ok_def update_leases_def run_ids_def)
qed

lemma settle_ok:
  assumes ok: "sched_ok s" and p: "\<And>l. l \<in> set (sd_leases s) \<Longrightarrow> p l \<Longrightarrow> dl_run_id l = i"
    and l: "l \<in> set (sd_leases s)" "p l" "lease_open l" and err: "length error \<le> 1024"
    and ins: "insert_event_row e (snd (update_leases p (close_lease now st error) s)) = Inr s'"
    and e: "te_event_type e = RunSettled" "te_run_id e = i"
  shows "sched_ok s'"
proof -
  let ?ls = "update_where p (close_lease now st error) (sd_leases s)"
  have li: "dl_run_id l = i" using p l by blast
  then have zero: "settlements i (sd_events s) = 0" using ok l by (auto simp: sched_ok_def audit_ok_def)
  have d: "distinct (map dl_run_id (sd_leases s))" using ok by (simp add: sched_ok_def leases_ok_def)
  have leases: "leases_ok (sd_keys s) ?ls"
    using ok err by (intro update_leases_leases_ok) (simp_all add: sched_ok_def)
  have count: "settlements (dl_run_id x) (sd_events s @ [e]) = (if lease_open x then 0 else 1)" if "x \<in> set ?ls" for x
    using that
  proof (cases rule: in_update_whereE)
    case (hit l0)
    with p [of l0] zero e show ?thesis by simp
  next
    case miss
    then have "dl_run_id x \<noteq> i" using distinct_key_eq [OF d, of x l] l li by metis
    with miss e ok show ?thesis by (auto simp: sched_ok_def audit_ok_def)
  qed
  show ?thesis using ins
  proof (cases rule: insert_event_row_cases)
    case 1
    have "audit_ok ?ls (sd_events s @ [e])"
      unfolding audit_ok_def using ok 1 count e zero by (auto simp: sched_ok_def audit_ok_def update_leases_def)
    with ok leases 1 show ?thesis by (simp add: sched_ok_def update_leases_def run_ids_def)
  qed
qed

definition run_unused :: "ident \<Rightarrow> sched_db \<Rightarrow> bool" where
  "run_unused i s \<longleftrightarrow> i \<notin> te_run_id ` set (sd_events s)"

lemma run_unused_settlements: "run_unused i s \<Longrightarrow> settlements i (sd_events s) = 0"
  by (auto simp: run_unused_def settlements_def filter_empty_conv)

text \<open>The state after an accepted reservation.\<close>

definition reserved_key :: "instant \<Rightarrow> reservation \<Rightarrow> dispatch_key" where
  "reserved_key now rv = \<lparr>dk_schedule_id = rv_schedule_id rv, dk_idempotency_key = rv_idempotency_key rv,
     dk_run_id = rv_run_id rv, dk_chain_id = rv_chain_id rv, dk_hop_index = rv_hop_index rv, dk_created_at = now\<rparr>"

definition reserved_lease :: "instant \<Rightarrow> reservation \<Rightarrow> dispatch_lease" where
  "reserved_lease now rv = \<lparr>dl_run_id = rv_run_id rv, dl_schedule_id = rv_schedule_id rv, dl_org_id = rv_org_id rv,
     dl_idempotency_key = rv_idempotency_key rv, dl_owner_id = rv_owner_id rv, dl_status = LeaseReserved,
     dl_lease_expires_at = now + seconds (rv_lease_seconds rv), dl_started_at = None, dl_finished_at = None, dl_last_error = []\<rparr>"

definition accepted_event :: "instant \<Rightarrow> ident \<Rightarrow> reservation \<Rightarrow> trigger_event" where
  "accepted_event now eid rv = \<lparr>te_id = eid, te_schedule_id = rv_schedule_id rv, te_org_id = rv_org_id rv,
     te_run_id = rv_run_id rv, te_event_type = DispatchAccepted, te_status = None, te_cost_usdc = 0, te_error = [], te_created_at = now\<rparr>"

lemma reserve_cases:
  assumes "reserve_event_dispatch_lease now eid rv s = Inr ((run, outcome), s')"
  obtains (duplicate) k where "outcome = LeaseDuplicate" "s' = s" "k \<in> set (sd_keys s)" "run = dk_run_id k"
        "dk_schedule_id k = rv_schedule_id rv" "dk_idempotency_key k = rv_idempotency_key rv"
    | (saturated) "outcome = LeaseSaturated" "s' = s" "run = rv_run_id rv"
    | (accepted) s1 s2 where "outcome = LeaseAccepted" "run = rv_run_id rv"
        "existing_dispatch (rv_schedule_id rv) (rv_idempotency_key rv) s = None"
        "int (length (active_leases now s)) < rv_global_limit rv" "int (length (active_org_leases now (rv_org_id rv) s)) < rv_org_limit rv"
        "insert_key (reserved_key now rv) s = Inr s1" "insert_lease (reserved_lease now rv) s1 = Inr s2"
        "insert_event_row (accepted_event now eid rv) s2 = Inr s'"
proof (cases "existing_dispatch (rv_schedule_id rv) (rv_idempotency_key rv) s")
  case None
  consider "outcome = LeaseSaturated" "s' = s" "run = rv_run_id rv" | "outcome = LeaseAccepted" "run = rv_run_id rv"
      "int (length (active_leases now s)) < rv_global_limit rv" "int (length (active_org_leases now (rv_org_id rv) s)) < rv_org_limit rv"
      "bindE (insert_key (reserved_key now rv) s) (\<lambda>s1. bindE (insert_lease (reserved_lease now rv) s1) (\<lambda>s2.
         insert_event_row (accepted_event now eid rv) s2)) = Inr s'"
    using assms None unfolding reserve_event_dispatch_lease_def reserved_key_def [symmetric] reserved_lease_def [symmetric]
      accepted_event_def [symmetric] by (fastforce simp: bindE_eq_Inr_iff split: if_splits)
  then show thesis
  proof cases
    case 1
    then show thesis by (rule saturated)
  next
    case 2
    then show thesis using None accepted by (auto simp: bindE_eq_Inr_iff)
  qed
next
  case (Some k)
  then have "k \<in> set (sd_keys s)" "dk_schedule_id k = rv_schedule_id rv" "dk_idempotency_key k = rv_idempotency_key rv"
    unfolding existing_dispatch_def using find_SomeD by fastforce+
  with Some assms duplicate show thesis by (auto simp: reserve_event_dispatch_lease_def)
qed

lemma reserve_accepted_state:
  assumes "insert_key (reserved_key now rv) s = Inr s1" "insert_lease (reserved_lease now rv) s1 = Inr s2"
    "insert_event_row (accepted_event now eid rv) s2 = Inr s'"
  shows "s' = s\<lparr>sd_keys := sd_keys s @ [reserved_key now rv], sd_leases := sd_leases s @ [reserved_lease now rv],
    sd_events := sd_events s @ [accepted_event now eid rv]\<rparr>"
  using assms by (auto simp: insert_key_def insert_lease_def insert_event_row_def split: if_splits)

lemma reserve_ok:
  assumes run: "reserve_event_dispatch_lease now eid rv s = Inr (x, s')" and ok: "sched_ok s" and fresh: "run_unused (rv_run_id rv) s"
  shows "sched_ok s'"
proof -
  obtain r outcome where "x = (r, outcome)" by fastforce
  with run have "reserve_event_dispatch_lease now eid rv s = Inr ((r, outcome), s')" by simp
  then show ?thesis
  proof (cases rule: reserve_cases)
    case (accepted s1 s2)
    note s' = reserve_accepted_state [OF accepted(6-8)]
    let ?k = "reserved_key now rv" and ?l = "reserved_lease now rv" and ?e = "accepted_event now eid rv"
    have key: "0 \<le> dk_hop_index ?k" "dk_hop_index ?k = 0 \<longrightarrow> dk_chain_id ?k = dk_run_id ?k" "dk_schedule_id ?k \<in> run_ids s"
      "(dk_schedule_id ?k, dk_idempotency_key ?k) \<notin> (\<lambda>k. (dk_schedule_id k, dk_idempotency_key k)) ` set (sd_keys s)"
      "(dk_chain_id ?k, dk_hop_index ?k) \<notin> (\<lambda>k. (dk_chain_id k, dk_hop_index k)) ` set (sd_keys s)" and s1: "sd_leases s1 = sd_leases s"
      using accepted(6) by (auto simp: insert_key_def run_ids_def image_iff split: if_splits) metis+
    have lease: "dl_run_id ?l \<notin> dl_run_id ` set (sd_leases s)" and ev: "te_id ?e \<notin> te_id ` set (sd_events s)"
      using accepted(6-8) s1 by (auto simp: insert_key_def insert_lease_def insert_event_row_def image_iff split: if_splits)
    have "keys_ok (run_ids s) (sd_keys s @ [?k])" using ok key by (auto simp: sched_ok_def keys_ok_def)
    moreover have "leases_ok (sd_keys s @ [?k]) (sd_leases s @ [?l])"
    proof -
      have "leases_ok (sd_keys s @ [?k]) (sd_leases s)" using ok by (auto simp: sched_ok_def intro: leases_ok_mono)
      moreover have "lease_of_key ?l ?k" "dk_run_id ?k = dl_run_id ?l" "lease_open ?l" "dl_finished_at ?l = None" "dl_last_error ?l = []"
        by (simp_all add: lease_of_key_def reserved_key_def reserved_lease_def lease_open_def)
      ultimately show ?thesis using lease by (auto simp: leases_ok_def)
    qed
    moreover have "audit_ok (sd_leases s @ [?l]) (sd_events s @ [?e])"
    proof -
      have "settlements (dl_run_id ?l) (sd_events s) = 0" "lease_open ?l"
        using run_unused_settlements [OF fresh] by (simp_all add: reserved_lease_def lease_open_def)
      moreover have "te_event_type ?e \<noteq> RunSettled" "te_cost_usdc ?e = 0" by (simp_all add: accepted_event_def)
      ultimately show ?thesis using ok ev by (auto simp: sched_ok_def audit_ok_def bigint_def)
    qed
    ultimately show ?thesis using ok s' by (simp add: sched_ok_def run_ids_def)
  qed (use ok in simp_all)
qed

lemma get_result_Some:
  assumes "get_scheduled_run_result i org run_id s = Some r"
  shows "r \<in> set (sd_results s) \<and> rr_schedule_id r = i \<and> rr_org_id r = org \<and> rr_run_id r = run_id"
proof -
  let ?xs = "rev (sort_key (\<lambda>r. (rr_created_at r, rr_id r))
    (rows_where (\<lambda>r. rr_schedule_id r = i \<and> rr_org_id r = org \<and> rr_run_id r = run_id) (sd_results s)))"
  have "\<exists>ys. ?xs = r # ys" using assms unfolding get_scheduled_run_result_def by (cases ?xs) simp_all
  then have "r \<in> set ?xs" by (metis list.set_intros(1))
  then show ?thesis by simp
qed

lemma ensure_result_cases:
  assumes "ensure_result now result_id i org run_id limit error s = Inr (r, s')"
  obtains (found) "s' = s" "r \<in> set (sd_results s)" "rr_schedule_id r = i" "rr_run_id r = run_id"
    | (created) s1 x where "insert_result r s = Inr s1" "update_run i (\<lambda>_. True) (count_failure now limit) s1 = Inr (x, s')"
        "r = failed_result now result_id i org run_id error" "\<forall>r \<in> set (sd_results s). rr_schedule_id r = i \<longrightarrow> rr_run_id r \<noteq> run_id"
proof (cases "get_scheduled_run_result i org run_id s")
  case None
  with assms have "\<not> exists_where (\<lambda>r. rr_schedule_id r = i \<and> rr_run_id r = run_id) (sd_results s)"
    and "\<exists>s1 x. insert_result r s = Inr s1 \<and> update_run i (\<lambda>_. True) (count_failure now limit) s1 = Inr (x, s') \<and>
      r = failed_result now result_id i org run_id error"
    by (auto simp: ensure_result_def bindE_eq_Inr_iff split: if_splits)
  then show thesis using created by auto
next
  case (Some r')
  with assms get_result_Some [OF Some] found show thesis by (auto simp: ensure_result_def)
qed

lemma count_failure_keeps [simp]: "sr_id (count_failure now limit r) = sr_id r" "sr_trigger_token (count_failure now limit r) = sr_trigger_token r"
  by (simp_all add: count_failure_def)

lemma update_run_frame:
  assumes "update_run i p f s = Inr (x, s')"
  shows "sd_keys s' = sd_keys s" "sd_leases s' = sd_leases s" "sd_events s' = sd_events s" "sd_results s' = sd_results s"
    "sd_broadcasts s' = sd_broadcasts s"
  using assms by (cases rule: update_run_cases; simp)+

lemma insert_result_frame:
  assumes "insert_result r s = Inr s'"
  shows "sd_keys s' = sd_keys s" "sd_leases s' = sd_leases s" "sd_events s' = sd_events s" "sd_runs s' = sd_runs s"
    "sd_broadcasts s' = sd_broadcasts s" "sd_results s' = sd_results s @ [r]"
  using assms by (auto simp: insert_result_def split: if_splits)

lemma ensure_result_frame:
  assumes "ensure_result now result_id i org run_id limit error s = Inr (r, s')"
  shows "sd_keys s' = sd_keys s" "sd_leases s' = sd_leases s" "sd_events s' = sd_events s" "sd_broadcasts s' = sd_broadcasts s"
    "r \<in> set (sd_results s')" "set (sd_results s) \<subseteq> set (sd_results s')" "rr_schedule_id r = i" "rr_run_id r = run_id"
  using assms
  by (cases rule: ensure_result_cases; auto simp: update_run_frame insert_result_frame failed_result_def)+

lemma ensure_result_ok:
  assumes "ensure_result now result_id i org run_id limit error s = Inr (r, s')" "sched_ok s"
  shows "sched_ok s'"
  using assms(1)
proof (cases rule: ensure_result_cases)
  case (created s1 x)
  with assms(2) show ?thesis by (metis update_run_ok insert_result_ok count_failure_keeps)
qed (use assms(2) in simp)

lemma finish_cases:
  assumes "finish_event_dispatch_lease now eid i org run_id owner result s = Inr (fin, s')"
  obtains (lost) "\<not> fin" "s' = s"
    | (closed) l where "fin" "l \<in> set (sd_leases s)" "dl_run_id l = run_id" "dl_owner_id l = owner" "lease_open l"
        "insert_event_row (settled_event now eid i org run_id result (if rr_status result = RunCompleted then [] else event_run_failed))
           (snd (update_leases (\<lambda>l. dl_run_id l = run_id \<and> dl_owner_id l = owner \<and> lease_open l)
             (close_lease now (rr_status result) event_run_failed) s)) = Inr s'"
proof (cases "\<exists>l \<in> set (sd_leases s). dl_run_id l = run_id \<and> dl_owner_id l = owner \<and> lease_open l")
  case True
  then obtain l where l: "l \<in> set (sd_leases s)" "dl_run_id l = run_id" "dl_owner_id l = owner" "lease_open l" by blast
  with assms True show thesis
    by (intro closed [of l]) (auto simp: finish_event_dispatch_lease_def update_leases_def bindE_eq_Inr_iff)
next
  case False
  with assms show thesis by (intro lost) (auto simp: finish_event_dispatch_lease_def update_leases_def bindE_eq_Inr_iff)
qed

lemma fail_cases:
  assumes "fail_event_dispatch now result_id eid i org run_id owner limit error s = Inr (x, s')"
  obtains (none) "x = None" "s' = s"
    | (settled) l stored s1 where "x = Some stored" "l \<in> set (sd_leases s)" "dl_run_id l = run_id" "dl_owner_id l = owner" "lease_open l"
        "ensure_result now result_id i org run_id limit (take 1024 error) s = Inr (stored, s1)"
        "insert_event_row (settled_event now eid i org run_id stored (take 1024 error))
           (snd (update_leases (\<lambda>l. dl_run_id l = run_id \<and> dl_owner_id l = owner) (close_lease now (rr_status stored) (take 1024 error)) s1)) = Inr s'"
proof (cases "\<exists>l. find (\<lambda>l. dl_run_id l = run_id \<and> dl_owner_id l = owner) (sd_leases s) = Some l \<and> lease_open l")
  case True
  then obtain l where l: "find (\<lambda>l. dl_run_id l = run_id \<and> dl_owner_id l = owner) (sd_leases s) = Some l" "lease_open l" by blast
  then have "l \<in> set (sd_leases s)" "dl_run_id l = run_id" "dl_owner_id l = owner" using find_SomeD by fastforce+
  with l assms show thesis
    by (auto simp: fail_event_dispatch_def bindE_eq_Inr_iff intro: settled)
next
  case False
  with assms show thesis by (intro none) (auto simp: fail_event_dispatch_def split: option.splits)
qed

lemma settle_evolves:
  assumes "insert_event_row e (snd (update_leases p f s)) = Inr s'" "\<And>l. l \<in> set (sd_leases s) \<Longrightarrow> p l \<Longrightarrow> lease_open l"
    "sd_leases s = sd_leases s0" "sd_events s = sd_events s0"
  shows "sched_evolves s0 s'"
  using assms(1) by (cases rule: insert_event_row_cases)
    (rule sched_evolves_update [where p = p and f = f and es = "[e]"], use assms in \<open>simp_all add: update_leases_def\<close>)

lemma only_lease:
  assumes "sched_ok s" "l \<in> set (sd_leases s)" "lease_open l" "l' \<in> set (sd_leases s)" "dl_run_id l' = dl_run_id l"
  shows "lease_open l'"
  using assms distinct_key_eq [of dl_run_id "sd_leases s" l' l] by (simp add: sched_ok_def leases_ok_def)

lemma finish_keeps:
  assumes "finish_event_dispatch_lease now eid i org run_id owner result s = Inr (d, s')" "sched_ok s"
  shows "sched_ok s' \<and> sched_evolves s s' \<and> sd_keys s' = sd_keys s"
  using assms(1)
proof (cases rule: finish_cases)
  case (closed l)
  have "sched_ok s'"
    by (rule settle_ok [OF assms(2) _ closed(2) _ closed(5) _ closed(6)]) (use closed in \<open>simp_all add: event_run_failed_def settled_event_def\<close>)
  moreover have "sched_evolves s s'" by (rule settle_evolves [OF closed(6)]) simp_all
  moreover have "sd_keys s' = sd_keys s" using closed(6) by (cases rule: insert_event_row_cases) (simp add: update_leases_def)
  ultimately show ?thesis by blast
qed (use assms(2) in \<open>simp add: sched_evolves_same\<close>)

lemma settle_stored_keeps:
  assumes ok: "sched_ok s" and ens: "ensure_result now result_id i org run_id limit error s = Inr (stored, s1)"
    and l: "l \<in> set (sd_leases s)" "p l" "lease_open l" "dl_run_id l = run_id" and p: "\<And>l. p l \<Longrightarrow> dl_run_id l = run_id"
    and err: "length error \<le> 1024" and e: "te_event_type e = RunSettled" "te_run_id e = run_id"
    and ins: "insert_event_row e (snd (update_leases p (close_lease now (rr_status stored) error) s1)) = Inr s'"
  shows "sched_ok s' \<and> sched_evolves s s' \<and> sd_keys s' = sd_keys s \<and> stored \<in> set (sd_results s')"
proof -
  note frame = ensure_result_frame [OF ens]
  have ok1: "sched_ok s1" by (rule ensure_result_ok [OF ens ok])
  have "sched_ok s'"
    by (rule settle_ok [OF ok1 _ _ _ l(3) err ins e]) (use l p frame in simp_all)
  moreover have "sched_evolves s s'"
    by (rule settle_evolves [OF ins]) (use only_lease [OF ok1, of l] l p frame in \<open>simp_all\<close>)
  moreover have "sd_keys s' = sd_keys s" "stored \<in> set (sd_results s')"
    using ins frame by (cases rule: insert_event_row_cases; simp add: update_leases_def)+
  ultimately show ?thesis by blast
qed

lemma fail_keeps:
  assumes "fail_event_dispatch now result_id eid i org run_id owner limit error s = Inr (x, s')" "sched_ok s"
  shows "sched_ok s' \<and> sched_evolves s s' \<and> sd_keys s' = sd_keys s"
  using assms(1)
proof (cases rule: fail_cases)
  case (settled l stored s1)
  show ?thesis
    using settle_stored_keeps [OF assms(2) settled(6,2) _ settled(5,3) _ _ _ _ settled(7)] settled by (simp add: settled_event_def)
qed (use assms(2) in \<open>simp add: sched_evolves_same\<close>)

lemma sched_evolves_trans:
  assumes "sched_evolves s s'" "sched_evolves s' s''" "sd_keys s'' = sd_keys s'" "dl_run_id ` set (sd_leases s'') = dl_run_id ` set (sd_leases s')"
  shows "sched_evolves s s''"
  using assms unfolding sched_evolves_def by (metis append.assoc)

lemma recover_lease_cases:
  assumes "recover_lease now result_id eid limit lease s = Inr s'"
  obtains stored s1 where
    "ensure_result now result_id (dl_schedule_id lease) (dl_org_id lease) (dl_run_id lease) limit recovery_error s = Inr (stored, s1)"
    "insert_event_row (settled_event now eid (dl_schedule_id lease) (dl_org_id lease) (dl_run_id lease) stored
         (if rr_status stored = RunCompleted then [] else recovery_error))
       (snd (update_leases (\<lambda>l. dl_run_id l = dl_run_id lease) (close_lease now (rr_status stored) recovery_error) s1)) = Inr s'"
  using assms by (auto simp: recover_lease_def bindE_eq_Inr_iff)

lemma recover_lease_leases:
  assumes "recover_lease now result_id eid limit lease s = Inr s'"
  obtains stored where "sd_leases s' = update_where (\<lambda>l. dl_run_id l = dl_run_id lease) (close_lease now (rr_status stored) recovery_error) (sd_leases s)"
    "stored \<in> set (sd_results s')" "rr_schedule_id stored = dl_schedule_id lease" "rr_run_id stored = dl_run_id lease"
    "set (sd_results s) \<subseteq> set (sd_results s')"
  using assms
proof (cases rule: recover_lease_cases)
  case (1 stored s1)
  note frame = ensure_result_frame [OF 1(1)]
  from 1(2) show thesis
    by (cases rule: insert_event_row_cases) (use frame in \<open>auto intro!: that [of stored] simp: update_leases_def\<close>)
qed

lemma recover_lease_keeps:
  assumes "recover_lease now result_id eid limit lease s = Inr s'" "sched_ok s" "lease \<in> set (sd_leases s)" "lease_open lease"
  shows "sched_ok s' \<and> sched_evolves s s' \<and> sd_keys s' = sd_keys s"
  using assms(1)
proof (cases rule: recover_lease_cases)
  case (1 stored s1)
  show ?thesis
    using settle_stored_keeps [OF assms(2) 1(1) assms(3) _ assms(4) _ _ _ _ _ 1(2)] by (simp add: settled_event_def recovery_error_def)
qed

text \<open>A recovery pass closes exactly the leases it took, and each of them has a result.\<close>

definition recovered :: "dispatch_lease list \<Rightarrow> sched_db \<Rightarrow> sched_db \<Rightarrow> bool" where
  "recovered ls s s' \<longleftrightarrow> sched_ok s' \<and> sched_evolves s s' \<and> sd_keys s' = sd_keys s \<and>
     map dl_run_id (sd_leases s') = map dl_run_id (sd_leases s) \<and> set (sd_results s) \<subseteq> set (sd_results s') \<and>
     (\<forall>l \<in> set (sd_leases s). dl_run_id l \<notin> dl_run_id ` set ls \<longrightarrow> l \<in> set (sd_leases s')) \<and>
     (\<forall>l \<in> set (sd_leases s'). dl_run_id l \<in> dl_run_id ` set ls \<longrightarrow> \<not> lease_open l) \<and>
     (\<forall>l \<in> set ls. \<exists>r \<in> set (sd_results s'). rr_schedule_id r = dl_schedule_id l \<and> rr_run_id r = dl_run_id l)"

lemma recover_lease_recovered:
  assumes "recover_lease now result_id eid limit l s = Inr s'" "sched_ok s" "l \<in> set (sd_leases s)" "lease_open l"
  shows "recovered [l] s s'"
proof -
  obtain stored where up: "sd_leases s' = update_where (\<lambda>x. dl_run_id x = dl_run_id l) (close_lease now (rr_status stored) recovery_error) (sd_leases s)"
    and res: "stored \<in> set (sd_results s')" "rr_schedule_id stored = dl_schedule_id l" "rr_run_id stored = dl_run_id l"
      "set (sd_results s) \<subseteq> set (sd_results s')" by (rule recover_lease_leases [OF assms(1)])
  have "map dl_run_id (sd_leases s') = map dl_run_id (sd_leases s)" unfolding up by (rule lease_run_ids) simp
  moreover have "\<forall>x \<in> set (sd_leases s'). dl_run_id x = dl_run_id l \<longrightarrow> \<not> lease_open x"
    "\<forall>x \<in> set (sd_leases s). dl_run_id x \<noteq> dl_run_id l \<longrightarrow> x \<in> set (sd_leases s')" by (force simp: up set_update_where)+
  ultimately show ?thesis using recover_lease_keeps [OF assms] res by (auto simp: recovered_def)
qed

lemma recovered_append:
  assumes "recovered xs s s1" "recovered ys s1 s'" "set xs \<subseteq> set (sd_leases s)" "dl_run_id ` set xs \<inter> dl_run_id ` set ys = {}"
  shows "recovered (xs @ ys) s s'"
proof -
  have img: "dl_run_id ` set (sd_leases s') = dl_run_id ` set (sd_leases s1)" using assms(2) unfolding recovered_def by (metis image_set)
  have closed: "\<not> lease_open x" if x: "x \<in> set (sd_leases s')" "dl_run_id x \<in> dl_run_id ` set xs" for x
  proof -
    obtain y where y: "y \<in> set (sd_leases s1)" "dl_run_id y = dl_run_id x" using x(1) img by (metis imageE imageI)
    then have "\<not> lease_open y" using assms(1) x(2) unfolding recovered_def by metis
    moreover have "dl_run_id y \<notin> dl_run_id ` set ys" using assms(4) x(2) y(2) by auto
    then have "y \<in> set (sd_leases s')" using assms(2) y(1) unfolding recovered_def by blast
    moreover have "distinct (map dl_run_id (sd_leases s'))" using assms(2) unfolding recovered_def sched_ok_def leases_ok_def by blast
    ultimately show ?thesis using x(1) y(2) distinct_key_eq by metis
  qed
  have "sched_evolves s s'" using sched_evolves_trans [of s s1 s'] assms(1,2) img by (simp add: recovered_def)
  moreover have "\<exists>r \<in> set (sd_results s'). rr_schedule_id r = dl_schedule_id l \<and> rr_run_id r = dl_run_id l" if "l \<in> set (xs @ ys)" for l
  proof -
    have xs: "\<forall>l \<in> set xs. \<exists>r \<in> set (sd_results s1). rr_schedule_id r = dl_schedule_id l \<and> rr_run_id r = dl_run_id l"
      and ys: "\<forall>l \<in> set ys. \<exists>r \<in> set (sd_results s'). rr_schedule_id r = dl_schedule_id l \<and> rr_run_id r = dl_run_id l"
      and sub: "set (sd_results s1) \<subseteq> set (sd_results s')" using assms(1,2) unfolding recovered_def by blast+
    from that consider "l \<in> set xs" | "l \<in> set ys" by auto
    then show ?thesis by cases (use xs ys sub in blast)+
  qed
  moreover have "x \<in> set (sd_leases s')" if "x \<in> set (sd_leases s)" "dl_run_id x \<notin> dl_run_id ` set (xs @ ys)" for x
    using that assms(1,2) unfolding recovered_def set_append image_Un by blast
  moreover have "\<not> lease_open x" if "x \<in> set (sd_leases s')" "dl_run_id x \<in> dl_run_id ` set (xs @ ys)" for x
    using that assms(2) closed [of x] unfolding recovered_def set_append image_Un by blast
  ultimately show ?thesis using assms(1,2) unfolding recovered_def by (metis subset_trans)
qed

lemma recover_leases_recovered:
  assumes "recover_leases now rid eid limit k ls s = Inr (n, s')" "sched_ok s" "set ls \<subseteq> set (sd_leases s)"
    "distinct (map dl_run_id ls)" "\<forall>l \<in> set ls. lease_open l"
  shows "recovered ls s s' \<and> n = k + length ls"
  using assms
proof (induction ls arbitrary: k s)
  case Nil
  then show ?case by (simp add: recovered_def sched_evolves_same)
next
  case (Cons l ls)
  obtain s1 where s1: "recover_lease now (rid k) (eid k) limit l s = Inr s1" "recover_leases now rid eid limit (Suc k) ls s1 = Inr (n, s')"
    using Cons.prems(1) by (auto simp: bindE_eq_Inr_iff)
  have one: "recovered [l] s s1" using recover_lease_recovered [OF s1(1)] Cons.prems by simp
  have "x \<in> set (sd_leases s1)" if "x \<in> set ls" for x
  proof -
    have "dl_run_id x \<notin> dl_run_id ` set [l]" "x \<in> set (sd_leases s)" using that Cons.prems(3,4) by (auto dest: sym)
    with one show ?thesis unfolding recovered_def by blast
  qed
  then have sub: "set ls \<subseteq> set (sd_leases s1)" by blast
  have "sched_ok s1" using one unfolding recovered_def by blast
  with Cons.IH [OF s1(2) _ sub] Cons.prems have "recovered ls s1 s' \<and> n = Suc k + length ls" by simp
  moreover have "set [l] \<subseteq> set (sd_leases s)" "dl_run_id ` set [l] \<inter> dl_run_id ` set ls = {}" using Cons.prems(3,4) by auto
  ultimately have "recovered ([l] @ ls) s s'" "n = Suc k + length ls" using recovered_append [OF one] by blast+
  then show ?case by simp
qed

subsection \<open>Deletions, claims and publication slots\<close>

lemma distinct_map_rows_where: "distinct (map f rows) \<Longrightarrow> distinct (map f (rows_where p rows))"
  by (simp add: rows_where_def distinct_map_filter)

lemma delete_keys_parts:
  assumes "keys_ok ids (sd_keys s)" "leases_ok (sd_keys s) (sd_leases s)" "audit_ok (sd_leases s) es"
    and ids: "\<And>k. k \<in> set (sd_keys s) \<Longrightarrow> \<not> p k \<Longrightarrow> dk_schedule_id k \<in> ids'"
  shows "keys_ok ids' (sd_keys (delete_keys p s))" "leases_ok (sd_keys (delete_keys p s)) (sd_leases (delete_keys p s))"
    "audit_ok (sd_leases (delete_keys p s)) es"
proof -
  show "keys_ok ids' (sd_keys (delete_keys p s))"
    using assms(1) ids by (auto simp: keys_ok_def delete_keys_def distinct_map_rows_where)
  have "\<exists>k \<in> set (sd_keys (delete_keys p s)). lease_of_key l k \<and> dk_run_id k = dl_run_id l" if "l \<in> set (sd_leases (delete_keys p s))" for l
  proof -
    have l: "l \<in> set (sd_leases s)" "\<And>k. k \<in> set (sd_keys s) \<Longrightarrow> p k \<Longrightarrow> \<not> lease_of_key l k" using that by (auto simp: delete_keys_def)
    then obtain k where "k \<in> set (sd_keys s)" "lease_of_key l k" "dk_run_id k = dl_run_id l" using assms(2) by (auto simp: leases_ok_def)
    with l(2) show ?thesis by (auto simp: delete_keys_def)
  qed
  then show "leases_ok (sd_keys (delete_keys p s)) (sd_leases (delete_keys p s))"
    using assms(2) by (simp add: leases_ok_def) (simp add: delete_keys_def distinct_map_rows_where)
  show "audit_ok (sd_leases (delete_keys p s)) es" using assms(3) by (simp add: audit_ok_def delete_keys_def)
qed

lemma delete_keys_frame [simp]: "sd_runs (delete_keys p s) = sd_runs s" "sd_results (delete_keys p s) = sd_results s"
  "sd_events (delete_keys p s) = sd_events s" "sd_broadcasts (delete_keys p s) = sd_broadcasts s" "run_ids (delete_keys p s) = run_ids s"
  by (simp_all add: delete_keys_def run_ids_def)

lemma delete_keys_keeps: "sched_ok s \<Longrightarrow> sched_ok (delete_keys p s) \<and> sched_evolves s (delete_keys p s)"
proof
  assume ok: "sched_ok s"
  have "dk_schedule_id k \<in> run_ids s" if "k \<in> set (sd_keys s)" for k using ok that by (simp add: sched_ok_def keys_ok_def)
  then show "sched_ok (delete_keys p s)" using ok delete_keys_parts [of "run_ids s" s "sd_events s" p "run_ids s"] by (simp add: sched_ok_def)
  show "sched_evolves s (delete_keys p s)"
    by (rule sched_evolves_filter [where p = "\<lambda>l. \<not> exists_where (\<lambda>k. p k \<and> lease_of_key l k) (sd_keys s)"])
      (use ok in \<open>simp_all add: delete_keys_def sched_ok_def leases_ok_def\<close>)
qed

lemma delete_run_ids:
  "sr_id ` set (update_where (\<lambda>r. sr_next_trigger_id r = Some i) (\<lambda>r. r\<lparr>sr_next_trigger_id := None\<rparr>) (rows_where (\<lambda>r. sr_id r \<noteq> i) rs)) =
   sr_id ` set rs - {i}" (is "sr_id ` set (update_where ?p ?f ?rs) = _")
proof -
  have "map sr_id (update_where ?p ?f ?rs) = map sr_id ?rs" by (rule map_update_where) simp
  then have "sr_id ` set (update_where ?p ?f ?rs) = sr_id ` set ?rs" by (metis image_set)
  also have "\<dots> = sr_id ` set rs - {i}" by auto
  finally show ?thesis .
qed

lemma delete_run_runs_ok:
  assumes "runs_ok rs"
  shows "runs_ok (update_where (\<lambda>r. sr_next_trigger_id r = Some i) (\<lambda>r. r\<lparr>sr_next_trigger_id := None\<rparr>) (rows_where (\<lambda>r. sr_id r \<noteq> i) rs))"
    (is "runs_ok (update_where ?p ?f ?rs)")
proof -
  have ids: "map sr_id (update_where ?p ?f ?rs) = map sr_id ?rs" "map sr_trigger_token (update_where ?p ?f ?rs) = map sr_trigger_token ?rs"
    by (auto intro!: map_update_where)
  note img = delete_run_ids [of i rs]
  have "run_checks x \<and> run_range x \<and> (\<forall>j \<in> set_option (sr_next_trigger_id x). j \<in> sr_id ` set rs - {i})" if "x \<in> set (update_where ?p ?f ?rs)" for x
    using that by (cases rule: in_update_whereE) (use assms in \<open>auto simp: runs_ok_def run_checks_def run_range_def\<close>)
  moreover have "distinct (map the (filter (\<lambda>t. t \<noteq> None) (map sr_trigger_token ?rs)))"
  proof -
    let ?t = "filter (\<lambda>r. sr_trigger_token r \<noteq> None) rs"
    have "distinct (map (\<lambda>r. the (sr_trigger_token r)) ?t)" using assms by (simp add: runs_ok_def filter_map comp_def)
    then have "distinct (map (\<lambda>r. the (sr_trigger_token r)) (filter (\<lambda>r. sr_id r \<noteq> i) ?t))" by (rule distinct_map_filter)
    then show ?thesis by (simp add: rows_where_def filter_map comp_def conj_commute)
  qed
  ultimately show ?thesis using assms unfolding runs_ok_def ids img by (auto simp: distinct_map_rows_where)
qed

lemma delete_scheduled_run_keeps:
  assumes "sched_ok s"
  shows "sched_ok (snd (delete_scheduled_run i org s)) \<and> sched_evolves s (snd (delete_scheduled_run i org s))"
proof (cases "exists_where (\<lambda>r. sr_id r = i \<and> sr_org_id r = org) (sd_runs s)")
  case True
  define s' where "s' = snd (delete_scheduled_run i org s)"
  let ?d = "delete_keys (\<lambda>k. dk_schedule_id k = i) s"
  have s': "s' = ?d\<lparr>sd_runs := update_where (\<lambda>r. sr_next_trigger_id r = Some i) (\<lambda>r. r\<lparr>sr_next_trigger_id := None\<rparr>)
      (rows_where (\<lambda>r. sr_id r \<noteq> i) (sd_runs s)), sd_results := rows_where (\<lambda>r. rr_schedule_id r \<noteq> i) (sd_results s)\<rparr>"
    using True by (simp add: s'_def delete_scheduled_run_def)
  have ids: "run_ids s' = run_ids s - {i}" by (simp add: s' run_ids_def delete_run_ids)
  have "keys_ok (run_ids s') (sd_keys ?d)" "leases_ok (sd_keys ?d) (sd_leases ?d)" "audit_ok (sd_leases ?d) (sd_events s)"
  proof -
    have parts: "keys_ok (run_ids s) (sd_keys s)" "leases_ok (sd_keys s) (sd_leases s)" "audit_ok (sd_leases s) (sd_events s)"
      using assms by (simp_all add: sched_ok_def)
    have "dk_schedule_id k \<in> run_ids s'" if "k \<in> set (sd_keys s)" "\<not> dk_schedule_id k = i" for k
      unfolding ids using that parts(1) by (simp add: keys_ok_def)
    from delete_keys_parts [OF parts, of "\<lambda>k. dk_schedule_id k = i"] this show "keys_ok (run_ids s') (sd_keys ?d)" "leases_ok (sd_keys ?d) (sd_leases ?d)"
      "audit_ok (sd_leases ?d) (sd_events s)" by blast+
  qed
  moreover have "results_ok (run_ids s') (sd_results s')"
    unfolding ids using assms by (auto simp: s' sched_ok_def results_ok_def distinct_map_rows_where)
  moreover have "runs_ok (sd_runs s')" using assms delete_run_runs_ok by (simp add: s' sched_ok_def)
  ultimately have "sched_ok s'" using assms by (simp add: sched_ok_def s')
  moreover have "sched_evolves s s'"
    by (rule sched_evolves_filter [where p = "\<lambda>l. \<not> exists_where (\<lambda>k. dk_schedule_id k = i \<and> lease_of_key l k) (sd_keys s)"])
      (use assms in \<open>simp_all add: s' delete_keys_def sched_ok_def leases_ok_def\<close>)
  ultimately show ?thesis by (simp add: s'_def)
qed (use assms in \<open>simp add: delete_scheduled_run_def sched_evolves_same\<close>)

lemma claim_due_keeps:
  assumes "sched_ok s"
  shows "sched_ok (snd (claim_due_schedules now locked n s))"
  unfolding claim_due_schedules_def Let_def snd_conv
  by (rule touch_runs_ok [OF assms]) (simp_all add: advance_def run_checks_def run_range_def)

lemma delete_old_results_keeps: "sched_ok s \<Longrightarrow> sched_ok (snd (delete_old_results now locked ttl n s))"
  by (auto simp: delete_old_results_def Let_def sched_ok_def results_ok_def run_ids_def distinct_map_rows_where)

lemma reserve_x_broadcast_keeps: "sched_ok s \<Longrightarrow> sched_ok (snd (reserve_x_broadcast now run_id i org s))"
  by (auto simp: reserve_x_broadcast_def sched_ok_def broadcasts_ok_def run_ids_def)

lemma record_tweet_keeps: "sched_ok s \<Longrightarrow> sched_ok (record_x_broadcast_tweet run_id tweet s)"
  by (simp add: record_x_broadcast_tweet_def sched_ok_def broadcasts_ok_def run_ids_def map_update_where)

section \<open>The contract of the operations\<close>

locale schedule_operation =
  fixes step :: "sched_db \<Rightarrow> sched_db \<Rightarrow> bool"
  assumes keeps: "step s s' \<Longrightarrow> sched_ok s \<Longrightarrow> sched_ok s'"
    and evolves: "step s s' \<Longrightarrow> sched_ok s \<Longrightarrow> sched_evolves s s'"
begin

lemma steps_keep: "step\<^sup>*\<^sup>* s s' \<Longrightarrow> sched_ok s \<Longrightarrow> sched_ok s'"
  by (induction rule: rtranclp_induct) (auto intro: keeps)

lemma steps_audit_grows: "step\<^sup>*\<^sup>* s s' \<Longrightarrow> sched_ok s \<Longrightarrow> \<exists>es. sd_events s' = sd_events s @ es"
proof (induction rule: rtranclp_induct)
  case (step t u)
  then have "sched_ok t" by (auto intro: steps_keep)
  with step evolves have "\<exists>es. sd_events u = sd_events t @ es" by (auto simp: sched_evolves_def)
  with step show ?case by auto
qed simp

lemma closed_lease_final:
  assumes "step s s'" "sched_ok s" "l \<in> set (sd_leases s)" "\<not> lease_open l" "l' \<in> set (sd_leases s')" "dl_run_id l' = dl_run_id l"
  shows "l' = l"
proof -
  have "l \<in> set (sd_leases s')" using evolves [OF assms(1,2)] assms(3-6) unfolding sched_evolves_def by (metis imageI)
  moreover have "distinct (map dl_run_id (sd_leases s'))" using keeps [OF assms(1,2)] by (simp add: sched_ok_def leases_ok_def)
  ultimately show ?thesis using assms(5,6) distinct_key_eq by metis
qed

lemma steps_settled_once: "step\<^sup>*\<^sup>* s s' \<Longrightarrow> sched_ok s \<Longrightarrow> settlements i (sd_events s') \<le> 1"
  using steps_keep [of s s'] by (simp add: sched_ok_def audit_ok_def)

end

text \<open>Operations that delete nothing keep every dispatch key.\<close>

locale dispatch_operation = schedule_operation +
  assumes keys: "step s s' \<Longrightarrow> sched_ok s \<Longrightarrow> set (sd_keys s) \<subseteq> set (sd_keys s')"
begin

lemma steps_keys: "step\<^sup>*\<^sup>* s s' \<Longrightarrow> sched_ok s \<Longrightarrow> set (sd_keys s) \<subseteq> set (sd_keys s')"
proof (induction rule: rtranclp_induct)
  case (step t u)
  then have "sched_ok t" by (auto intro: steps_keep)
  with step keys show ?case by blast
qed simp

end

definition kept :: "sched_db \<Rightarrow> sched_db \<Rightarrow> bool" where
  "kept s s' \<longleftrightarrow> sched_ok s' \<and> sched_evolves s s' \<and> set (sd_keys s) \<subseteq> set (sd_keys s')"

lemma kept_refl: "sched_ok s \<Longrightarrow> kept s s"
  by (simp add: kept_def sched_evolves_same)

lemma kept_frame:
  "sched_ok s' \<Longrightarrow> sd_events s' = sd_events s \<Longrightarrow> sd_leases s' = sd_leases s \<Longrightarrow> sd_keys s' = sd_keys s \<Longrightarrow> kept s s'"
  by (simp add: kept_def sched_evolves_same)

lemma update_run_kept:
  assumes "update_run i p f s = Inr (x, s')" "sched_ok s" "\<And>r. sr_id (f r) = sr_id r" "\<And>r. sr_trigger_token (f r) = sr_trigger_token r"
  shows "kept s s'"
  using update_run_ok [OF assms] update_run_frame [OF assms(1)] by (simp add: kept_frame)

lemma insert_run_kept: "insert_run r s = Inr s' \<Longrightarrow> sched_ok s \<Longrightarrow> kept s s'"
  using insert_run_ok [of r s s'] by (auto intro!: kept_frame simp: insert_run_def split: if_splits)

lemma record_event_kept:
  "sched_ok s \<Longrightarrow> event_type \<noteq> RunSettled \<Longrightarrow> kept s (record_event_trigger_event now eid i org event_type run_id status cost error s)"
proof -
  assume ok: "sched_ok s" and ty: "event_type \<noteq> RunSettled"
  let ?e = "\<lparr>te_id = eid, te_schedule_id = i, te_org_id = org, te_run_id = run_id, te_event_type = event_type,
    te_status = status, te_cost_usdc = max 0 cost, te_error = take 1024 error, te_created_at = now\<rparr>"
  show ?thesis
  proof (cases "insert_event_row ?e s")
    case (Inr s')
    have "sched_ok s'" by (rule insert_event_row_ok [OF Inr ok]) (simp add: ty)
    moreover have "sd_leases s' = sd_leases s" "sd_keys s' = sd_keys s" "sd_events s' = sd_events s @ [?e]"
      using Inr by (cases rule: insert_event_row_cases; simp)+
    ultimately show ?thesis using Inr by (simp add: kept_def sched_evolves_def record_event_trigger_event_def)
  qed (use ok in \<open>simp add: record_event_trigger_event_def kept_refl\<close>)
qed

lemma prolong_kept:
  assumes "sched_ok s" "\<And>l. p l \<Longrightarrow> same_lease l (f l) \<and> lease_open l \<and> lease_open (f l) \<and>
    dl_finished_at (f l) = dl_finished_at l \<and> dl_last_error (f l) = dl_last_error l"
  shows "kept s (snd (update_leases p f s))"
proof -
  have "sched_evolves s (snd (update_leases p f s))"
    by (rule sched_evolves_update [where p = p and f = f and es = "[]"]) (use assms in \<open>simp_all add: update_leases_def\<close>)
  with prolong_ok [OF assms] show ?thesis by (simp add: kept_def) (simp add: update_leases_def)
qed

lemma start_kept: "sched_ok s \<Longrightarrow> kept s (snd (start_event_dispatch_lease now run_id owner n s))"
  unfolding start_event_dispatch_lease_def by (rule prolong_kept) (auto simp: same_lease_def lease_open_def)

lemma renew_kept: "sched_ok s \<Longrightarrow> kept s (snd (renew_event_dispatch_lease now run_id owner n s))"
  unfolding renew_event_dispatch_lease_def by (rule prolong_kept) (auto simp: same_lease_def lease_open_def)

lemma reserve_kept:
  assumes "reserve_event_dispatch_lease now eid rv s = Inr (x, s')" "run_unused (rv_run_id rv) s" "sched_ok s"
  shows "kept s s'"
proof -
  obtain r outcome where x: "x = (r, outcome)" by fastforce
  have "sched_evolves s s' \<and> set (sd_keys s) \<subseteq> set (sd_keys s')"
    using assms(1) [unfolded x]
  proof (cases rule: reserve_cases)
    case (accepted s1 s2)
    note s' = reserve_accepted_state [OF accepted(6-8)]
    have "sched_evolves s s'" unfolding s' sched_evolves_def by simp
    then show ?thesis by (auto simp: s')
  qed (simp_all add: sched_evolves_same)
  with reserve_ok [OF assms(1,3,2)] show ?thesis by (simp add: kept_def)
qed

lemma recover_kept:
  assumes "recover_expired_event_dispatches now locked rid eid n limit s = Inr (m, s')" "sched_ok s"
  shows "recovered (expired_leases now locked n s) s s'" "m = length (expired_leases now locked n s)" "kept s s'"
proof -
  let ?k = "\<lambda>l. (dl_lease_expires_at l, dl_run_id l)"
  let ?rows = "rows_where (\<lambda>l. lease_open l \<and> dl_lease_expires_at l \<le> now \<and> dl_run_id l \<notin> locked) (sd_leases s)"
  have sub: "set (expired_leases now locked n s) \<subseteq> set ?rows"
    unfolding expired_leases_def by (rule subset_trans [OF set_take_subset]) simp
  have "distinct (map dl_run_id (sd_leases s))" using assms(2) by (simp add: sched_ok_def leases_ok_def)
  then have "distinct (map dl_run_id ?rows)" by (rule distinct_map_rows_where)
  then have "distinct (map dl_run_id (sort_key ?k ?rows))" by (simp add: distinct_map)
  then have d: "distinct (map dl_run_id (expired_leases now locked n s))"
    unfolding expired_leases_def take_map [symmetric] by (rule distinct_take)
  have "\<forall>l \<in> set (expired_leases now locked n s). lease_open l" "set (expired_leases now locked n s) \<subseteq> set (sd_leases s)"
    using sub by auto
  with recover_leases_recovered [OF assms(1) [unfolded recover_expired_event_dispatches_def] assms(2) _ d]
  have "recovered (expired_leases now locked n s) s s' \<and> m = length (expired_leases now locked n s)" by simp
  then show "recovered (expired_leases now locked n s) s s'" "m = length (expired_leases now locked n s)" "kept s s'"
    by (simp_all add: kept_def recovered_def)
qed

lemma claim_due_kept: "sched_ok s \<Longrightarrow> kept s (snd (claim_due_schedules now locked n s))"
  by (rule kept_frame [OF claim_due_keeps]) (simp_all add: claim_due_schedules_def Let_def)

section \<open>Histories\<close>

text \<open>
  The services and workers interleaved. A reservation uses a fresh UUID as its run identifier; the audit
  helper is never called with the type of a settlement.
\<close>

inductive sched_op :: "sched_db \<Rightarrow> sched_db \<Rightarrow> bool" where
  create: "create_scheduled_run now run_id org user name prompt interval url fmt first s = Inr (r, s') \<Longrightarrow> sched_op s s'"
| create_trigger: "create_event_trigger now run_id org user name prompt url token secret fmt nxt s = Inr (r, s') \<Longrightarrow> sched_op s s'"
| update: "update_scheduled_run now i org u s = Inr (x, s') \<Longrightarrow> sched_op s s'"
| queue: "queue_scheduled_run_now now i org s = Inr (x, s') \<Longrightarrow> sched_op s s'"
| requeue: "requeue_scheduled_run_after_capacity now i s = Inr (y, s') \<Longrightarrow> sched_op s s'"
| rotate: "rotate_event_trigger_secret now i org h s = Inr (b, s') \<Longrightarrow> sched_op s s'"
| result: "record_scheduled_run_result now rid i org run_id status outp cost error s = Inr (rr, s') \<Longrightarrow> sched_op s s'"
| skipped: "mark_scheduled_run_skipped now i s = Inr (y, s') \<Longrightarrow> sched_op s s'"
| succeeded: "mark_scheduled_run_succeeded now i s = Inr (y, s') \<Longrightarrow> sched_op s s'"
| failed: "mark_scheduled_run_failed now i limit s = Inr (x, s') \<Longrightarrow> sched_op s s'"
| claim: "sched_op s (snd (claim_due_schedules now locked n s))"
| reserve: "run_unused (rv_run_id rv) s \<Longrightarrow> reserve_event_dispatch_lease now eid rv s = Inr (o', s') \<Longrightarrow> sched_op s s'"
| start: "sched_op s (snd (start_event_dispatch_lease now run_id owner lease s))"
| renew: "sched_op s (snd (renew_event_dispatch_lease now run_id owner lease s))"
| finish: "finish_event_dispatch_lease now eid i org run_id owner rr s = Inr (b, s') \<Longrightarrow> sched_op s s'"
| fail: "fail_event_dispatch now rid eid i org run_id owner limit error s = Inr (z, s') \<Longrightarrow> sched_op s s'"
| recover: "recover_expired_event_dispatches now locked rids eids n limit s = Inr (m, s') \<Longrightarrow> sched_op s s'"
| audit: "event_type \<noteq> RunSettled \<Longrightarrow> sched_op s (record_event_trigger_event now eid i org event_type run_id status cost error s)"
| reserve_x: "sched_op s (snd (reserve_x_broadcast now run_id i org s))"
| tweet: "sched_op s (record_x_broadcast_tweet run_id tweet s)"

inductive sched_step :: "sched_db \<Rightarrow> sched_db \<Rightarrow> bool" where
  op: "sched_op s s' \<Longrightarrow> sched_step s s'"
| delete: "sched_step s (snd (delete_scheduled_run i org s))"
| retain_results: "sched_step s (snd (delete_old_results now locked ttl n s))"
| retain_keys: "sched_step s (snd (delete_old_keys now locked ttl n s))"

lemma sched_op_kept: "sched_op s s' \<Longrightarrow> sched_ok s \<Longrightarrow> kept s s'"
proof (induction rule: sched_op.induct)
  case (update now i org u s x s')
  then show ?case by (auto simp: update_scheduled_run_def kept_refl split: if_splits intro: update_run_kept)
next
  case (result now rid i org run_id status outp cost error s rr s')
  then obtain r where r: "insert_result r s = Inr s'" by (auto simp: record_scheduled_run_result_def Let_def bindE_eq_Inr_iff)
  show ?case by (rule kept_frame [OF insert_result_ok [OF r result(2)]]) (simp_all add: insert_result_frame [OF r])
next
  case (reserve_x s now run_id i org)
  then show ?case by (intro kept_frame reserve_x_broadcast_keeps) (simp_all add: reserve_x_broadcast_def)
next
  case (tweet s run_id tweet)
  then show ?case by (intro kept_frame record_tweet_keeps) (simp_all add: record_x_broadcast_tweet_def)
next
  case (finish now eid i org run_id owner rr s b s')
  with finish_keeps [OF finish(1)] show ?case by (simp add: kept_def)
next
  case (fail now rid eid i org run_id owner limit error s z s')
  with fail_keeps [OF fail(1)] show ?case by (simp add: kept_def)
qed (auto simp: create_scheduled_run_def create_event_trigger_def queue_scheduled_run_now_def
    requeue_scheduled_run_after_capacity_def rotate_event_trigger_secret_def mark_scheduled_run_skipped_def
    mark_scheduled_run_succeeded_def mark_scheduled_run_failed_def Let_def bindE_eq_Inr_iff
    intro: insert_run_kept update_run_kept claim_due_kept reserve_kept start_kept renew_kept recover_kept record_event_kept)

interpretation work: dispatch_operation sched_op
  using sched_op_kept by unfold_locales (simp_all add: kept_def)

interpretation table: schedule_operation sched_step
proof
  fix s s' :: sched_db
  assume step: "sched_step s s'" and ok: "sched_ok s"
  then have "sched_ok s' \<and> sched_evolves s s'"
  proof (induction rule: sched_step.induct)
    case (op s s')
    then show ?case using sched_op_kept by (simp add: kept_def)
  next
    case (retain_results s now locked ttl n)
    then show ?case using delete_old_results_keeps by (simp add: sched_evolves_same delete_old_results_def Let_def)
  next
    case (retain_keys s now locked ttl n)
    then show ?case by (simp add: delete_old_keys_def Let_def delete_keys_keeps)
  qed (rule delete_scheduled_run_keeps)
  then show "sched_ok s'" "sched_evolves s s'" by blast+
qed

text \<open>The steps that leave one dispatch key alone: its trigger stays and it is not old enough for the retention.\<close>

inductive key_step :: "dispatch_key \<Rightarrow> sched_db \<Rightarrow> sched_db \<Rightarrow> bool" for k where
  op: "sched_op s s' \<Longrightarrow> key_step k s s'"
| delete: "i \<noteq> dk_schedule_id k \<Longrightarrow> key_step k s (snd (delete_scheduled_run i org s))"
| retain_results: "key_step k s (snd (delete_old_results now locked ttl n s))"
| retain_keys: "now \<le> dk_created_at k + days ttl \<Longrightarrow> key_step k s (snd (delete_old_keys now locked ttl n s))"

lemma key_step_table: "key_step k s s' \<Longrightarrow> sched_step s s'"
  by (induction rule: key_step.induct) (auto intro: sched_step.intros)

lemma old_keys_old: "k \<in> set (old_keys now locked ttl n s) \<Longrightarrow> dk_created_at k < now - days ttl"
  unfolding old_keys_def by (auto dest: in_set_takeD)

lemma key_step_keeps: "key_step k s s' \<Longrightarrow> sched_ok s \<Longrightarrow> k \<in> set (sd_keys s) \<Longrightarrow> k \<in> set (sd_keys s')"
proof (induction rule: key_step.induct)
  case (op s s')
  then show ?case using work.keys by blast
next
  case (retain_keys now ttl s locked n)
  then show ?case using old_keys_old [of k now locked ttl n s] by (auto simp: delete_old_keys_def delete_keys_def Let_def)
qed (auto simp: delete_scheduled_run_def delete_old_results_def delete_keys_def Let_def)

lemma key_steps_keep:
  "(key_step k)\<^sup>*\<^sup>* s s' \<Longrightarrow> sched_ok s \<Longrightarrow> k \<in> set (sd_keys s) \<Longrightarrow> sched_ok s' \<and> k \<in> set (sd_keys s')"
  by (induction rule: rtranclp_induct) (auto intro: key_step_keeps table.keeps [OF key_step_table])

lemma existing_dispatch_unique:
  assumes "sched_ok s" "k \<in> set (sd_keys s)"
  shows "existing_dispatch (dk_schedule_id k) (dk_idempotency_key k) s = Some k"
proof -
  have "distinct (map (\<lambda>k. (dk_schedule_id k, dk_idempotency_key k)) (sd_keys s))" using assms by (simp add: sched_ok_def keys_ok_def)
  from find_key [OF this assms(2)] show ?thesis by (simp add: existing_dispatch_def)
qed

section \<open>Recovery always commits\<close>

text \<open>
  What a recovery pass over \<open>m\<close> leases needs: fresh identifiers, failure counters with room, and results of a
  run that belong to the organisation of its lease.
\<close>

definition recoverable :: "(nat \<Rightarrow> ident) \<Rightarrow> (nat \<Rightarrow> ident) \<Rightarrow> nat \<Rightarrow> nat \<Rightarrow> sched_db \<Rightarrow> bool" where
  "recoverable rid eid k m s \<longleftrightarrow> inj rid \<and> inj eid \<and> (\<forall>j \<ge> k. rid j \<notin> rr_id ` set (sd_results s) \<and> eid j \<notin> te_id ` set (sd_events s)) \<and>
     (\<forall>r \<in> set (sd_runs s). sr_consecutive_failures r + int m < 2 ^ 31) \<and>
     (\<forall>l \<in> set (sd_leases s). \<forall>r \<in> set (sd_results s). rr_schedule_id r = dl_schedule_id l \<and> rr_run_id r = dl_run_id l \<longrightarrow> rr_org_id r = dl_org_id l)"

lemma recoverable_less: "m' \<le> m \<Longrightarrow> recoverable rid eid k m s \<Longrightarrow> recoverable rid eid k m' s"
proof -
  assume le: "m' \<le> m" and rec: "recoverable rid eid k m s"
  have "sr_consecutive_failures r + int m' < 2 ^ 31" if "r \<in> set (sd_runs s)" for r
  proof -
    have "sr_consecutive_failures r + int m < 2 ^ 31" using rec that unfolding recoverable_def by blast
    with le show ?thesis by linarith
  qed
  with rec show "recoverable rid eid k m' s" unfolding recoverable_def by blast
qed

lemma get_result_None:
  "get_scheduled_run_result i org run_id s = None \<Longrightarrow> r \<in> set (sd_results s) \<Longrightarrow> rr_schedule_id r = i \<Longrightarrow> rr_org_id r = org \<Longrightarrow> rr_run_id r \<noteq> run_id"
proof
  assume none: "get_scheduled_run_result i org run_id s = None" and r: "r \<in> set (sd_results s)" "rr_schedule_id r = i" "rr_org_id r = org" "rr_run_id r = run_id"
  let ?xs = "rev (sort_key (\<lambda>r. (rr_created_at r, rr_id r))
    (rows_where (\<lambda>r. rr_schedule_id r = i \<and> rr_org_id r = org \<and> rr_run_id r = run_id) (sd_results s)))"
  from none have "?xs = []" unfolding get_scheduled_run_result_def by (cases ?xs) simp_all
  then have "set ?xs = {}" by simp
  with r show False by simp
qed

lemma count_failure_commits:
  assumes "sched_ok s" "r \<in> set (sd_runs s)" "sr_id r = i" "sr_consecutive_failures r + 1 < 2 ^ 31"
  shows "update_run i (\<lambda>_. True) (count_failure now limit) s =
    Inr (Some (count_failure now limit r), s\<lparr>sd_runs := update_where (\<lambda>x. sr_id x = i) (count_failure now limit) (sd_runs s)\<rparr>)"
proof -
  have ok: "run_checks r" "run_range r" "\<forall>j \<in> set_option (sr_next_trigger_id r). j \<in> sr_id ` set (sd_runs s)" and d: "distinct (map sr_id (sd_runs s))"
    using assms(1,2) by (auto simp: sched_ok_def runs_ok_def)
  have "find (\<lambda>x. sr_id x = i) (sd_runs s) = Some r" using find_key [OF d assms(2)] assms(3) by simp
  moreover have "run_checks (count_failure now limit r)" "run_range (count_failure now limit r)"
    using ok assms(4) by (simp_all add: run_checks_def run_range_def count_failure_def int4_def)
  moreover have "sr_next_trigger_id (count_failure now limit r) = None \<or> sr_next_trigger_id (count_failure now limit r) \<in> Some ` sr_id ` set (sd_runs s)"
    using ok(3) by (cases "sr_next_trigger_id r") (auto simp: count_failure_def)
  ultimately show ?thesis by (auto simp: update_run_def)
qed

lemma ensure_result_commits:
  assumes ok: "sched_ok s" and l: "l \<in> set (sd_leases s)" and rec: "recoverable rid eid k (Suc m) s"
  obtains r s1 where "ensure_result now (rid k) (dl_schedule_id l) (dl_org_id l) (dl_run_id l) limit error s = Inr (r, s1)"
    "bigint (max 0 (rr_cost_usdc r))" "\<forall>x \<in> set (sd_runs s1). sr_consecutive_failures x + int m < 2 ^ 31"
    "\<forall>x \<in> set (sd_results s1). x \<in> set (sd_results s) \<or> x = failed_result now (rid k) (dl_schedule_id l) (dl_org_id l) (dl_run_id l) error"
proof (cases "get_scheduled_run_result (dl_schedule_id l) (dl_org_id l) (dl_run_id l) s")
  case (Some r)
  with get_result_Some [OF Some] ok have "bigint (max 0 (rr_cost_usdc r))" by (auto simp: sched_ok_def results_ok_def bigint_def max_def)
  moreover have "\<forall>x \<in> set (sd_runs s). sr_consecutive_failures x + int m < 2 ^ 31" using rec by (auto simp: recoverable_def)
  ultimately show thesis using Some by (intro that [of r s]) (simp_all add: ensure_result_def)
next
  case None
  let ?f = "failed_result now (rid k) (dl_schedule_id l) (dl_org_id l) (dl_run_id l) error"
  obtain key where key: "key \<in> set (sd_keys s)" "dl_schedule_id l = dk_schedule_id key"
    using ok l by (auto simp: sched_ok_def leases_ok_def lease_of_key_def)
  then obtain x where x: "x \<in> set (sd_runs s)" "sr_id x = dl_schedule_id l" using ok by (auto simp: sched_ok_def keys_ok_def run_ids_def)
  have no: "\<not> exists_where (\<lambda>r. rr_schedule_id r = dl_schedule_id l \<and> rr_run_id r = dl_run_id l) (sd_results s)"
  proof -
    have "\<forall>r \<in> set (sd_results s). rr_schedule_id r = dl_schedule_id l \<and> rr_run_id r = dl_run_id l \<longrightarrow> rr_org_id r = dl_org_id l"
      using rec l unfolding recoverable_def by blast
    then show ?thesis using get_result_None [OF None] unfolding exists_where_iff by blast
  qed
  have room: "\<forall>x \<in> set (sd_runs s). sr_consecutive_failures x + int (Suc m) < 2 ^ 31" and fresh: "rid k \<notin> rr_id ` set (sd_results s)"
    using rec by (auto simp: recoverable_def)
  have ins: "insert_result ?f s = Inr (s\<lparr>sd_results := sd_results s @ [?f]\<rparr>)"
  proof -
    have "\<forall>r \<in> set (sd_results s). rr_id r \<noteq> rid k" using fresh by (metis imageI)
    with no x show ?thesis by (auto simp: insert_result_def failed_result_def bigint_def)
  qed
  let ?s1 = "s\<lparr>sd_results := sd_results s @ [?f]\<rparr>"
  let ?s2 = "?s1\<lparr>sd_runs := update_where (\<lambda>x. sr_id x = dl_schedule_id l) (count_failure now limit) (sd_runs s)\<rparr>"
  have "update_run (dl_schedule_id l) (\<lambda>_. True) (count_failure now limit) ?s1 = Inr (Some (count_failure now limit x), ?s2)"
    using count_failure_commits [OF insert_result_ok [OF ins ok], of x "dl_schedule_id l"] x room by auto
  with ins no None have "ensure_result now (rid k) (dl_schedule_id l) (dl_org_id l) (dl_run_id l) limit error s = Inr (?f, ?s2)"
    by (simp add: ensure_result_def)
  moreover have "\<forall>x \<in> set (sd_runs ?s2). sr_consecutive_failures x + int m < 2 ^ 31"
    using room by (auto simp: set_update_where count_failure_def)
  ultimately show thesis by (intro that) (auto simp: failed_result_def bigint_def)
qed

lemma closed_same_lease:
  assumes "x \<in> set (update_where p (close_lease now st error) ls)"
  shows "\<exists>y \<in> set ls. same_lease y x"
  using assms
proof (cases rule: in_update_whereE)
  case (hit y)
  then show ?thesis using close_lease_simps(1) by blast
next
  case miss
  moreover have "same_lease x x" by (simp add: same_lease_def)
  ultimately show ?thesis by blast
qed

lemma recover_lease_commits:
  assumes ok: "sched_ok s" and l: "l \<in> set (sd_leases s)" and rec: "recoverable rid eid k (Suc m) s"
  obtains s' where "recover_lease now (rid k) (eid k) limit l s = Inr s'" "recoverable rid eid (Suc k) m s'"
proof -
  obtain r s1 where r: "ensure_result now (rid k) (dl_schedule_id l) (dl_org_id l) (dl_run_id l) limit recovery_error s = Inr (r, s1)"
    "bigint (max 0 (rr_cost_usdc r))" "\<forall>x \<in> set (sd_runs s1). sr_consecutive_failures x + int m < 2 ^ 31"
    "\<forall>x \<in> set (sd_results s1). x \<in> set (sd_results s) \<or> x = failed_result now (rid k) (dl_schedule_id l) (dl_org_id l) (dl_run_id l) recovery_error"
    by (rule ensure_result_commits [OF assms])
  note frame = ensure_result_frame [OF r(1)]
  let ?e = "settled_event now (eid k) (dl_schedule_id l) (dl_org_id l) (dl_run_id l) r (if rr_status r = RunCompleted then [] else recovery_error)"
  let ?u = "snd (update_leases (\<lambda>x. dl_run_id x = dl_run_id l) (close_lease now (rr_status r) recovery_error) s1)"
  have "\<forall>e \<in> set (sd_events s). te_id e \<noteq> eid k" using rec unfolding recoverable_def by (metis imageI order_refl)
  then have ins: "insert_event_row ?e ?u = Inr (?u\<lparr>sd_events := sd_events s @ [?e]\<rparr>)"
    using r(2) frame by (force simp: insert_event_row_def update_leases_def settled_event_def)
  have same: "\<exists>y \<in> set (sd_leases s). same_lease y x" if "x \<in> set (sd_leases ?u)" for x
    using that frame(2) closed_same_lease [of x] by (simp add: update_leases_def)
  have org: "rr_org_id y = dl_org_id x" if xy: "x \<in> set (sd_leases ?u)" "y \<in> set (sd_results s1)" "rr_schedule_id y = dl_schedule_id x" "rr_run_id y = dl_run_id x" for x y
  proof -
    obtain z where z: "z \<in> set (sd_leases s)" "same_lease z x" using same [OF xy(1)] by blast
    show ?thesis
    proof (cases "y \<in> set (sd_results s)")
      case False
      then have "dl_run_id z = dl_run_id l" using r(4) xy z by (auto simp: failed_result_def same_lease_def)
      then have "z = l" using ok l z distinct_key_eq [of dl_run_id "sd_leases s" z l] by (simp add: sched_ok_def leases_ok_def)
      then show ?thesis using r(4) xy False z by (auto simp: failed_result_def same_lease_def)
    qed (use rec xy z in \<open>auto simp: recoverable_def same_lease_def\<close>)
  qed
  have "rid j \<notin> rr_id ` set (sd_results s1) \<and> eid j \<notin> te_id ` set (sd_events s @ [?e])" if j: "Suc k \<le> j" for j
  proof -
    have "rid k \<noteq> rid j" "eid k \<noteq> eid j" "rid j \<notin> rr_id ` set (sd_results s)" "eid j \<notin> te_id ` set (sd_events s)"
      using rec j by (auto simp: recoverable_def dest: injD)
    with r(4) show ?thesis by (auto simp: failed_result_def settled_event_def)
  qed
  then have "recoverable rid eid (Suc k) m (?u\<lparr>sd_events := sd_events s @ [?e]\<rparr>)"
    using rec r(3) org unfolding recoverable_def by (simp add: update_leases_def)
  with ins r(1) that show thesis by (simp add: recover_lease_def)
qed

lemma recover_leases_commits:
  assumes "sched_ok s" "set ls \<subseteq> set (sd_leases s)" "distinct (map dl_run_id ls)" "\<forall>l \<in> set ls. lease_open l"
    "recoverable rid eid k (length ls) s"
  shows "\<exists>n s'. recover_leases now rid eid limit k ls s = Inr (n, s')"
  using assms
proof (induction ls arbitrary: k s)
  case (Cons l ls)
  obtain s1 where s1: "recover_lease now (rid k) (eid k) limit l s = Inr s1" "recoverable rid eid (Suc k) (length ls) s1"
    using recover_lease_commits [of s l rid eid k "length ls"] Cons.prems by auto
  have one: "recovered [l] s s1" using recover_lease_recovered [OF s1(1)] Cons.prems by simp
  have "x \<in> set (sd_leases s1)" if "x \<in> set ls" for x
  proof -
    have "dl_run_id x \<notin> dl_run_id ` set [l]" "x \<in> set (sd_leases s)" using that Cons.prems(2,3) by (auto dest: sym)
    with one show ?thesis unfolding recovered_def by blast
  qed
  moreover have "sched_ok s1" using one unfolding recovered_def by blast
  ultimately show ?case using Cons.IH [of s1 "Suc k"] Cons.prems s1 by auto
qed simp

section \<open>The retention sweep ends\<close>

lemma delete_ttl_rows_ends:
  assumes n: "0 < n" and start: "P s"
    and step: "\<And>k s. P s \<Longrightarrow> P (snd (batch k s)) \<and> weight (snd (batch k s)) + fst (batch k s) \<le> (weight s :: nat)"
    and last: "\<And>k s. P s \<Longrightarrow> fst (batch k s) < n \<Longrightarrow> Q (snd (batch k s))"
  shows "\<exists>m s'. delete_ttl_rows batch n k acc s = Some (m, s') \<and> P s' \<and> Q s'"
  using start
proof (induction "weight s" arbitrary: s k acc rule: less_induct)
  case less
  obtain d t where b: "batch k s = (d, t)" by fastforce
  with step [OF less.prems, of k] have t: "P t" "weight t + d \<le> weight s" by simp_all
  show ?case
  proof (cases "d < n")
    case True
    then show ?thesis using b t(1) last [OF less.prems, of k] by (simp add: delete_ttl_rows.simps [of batch n k])
  next
    case False
    then have "weight t < weight s" using t(2) n by simp
    moreover have "delete_ttl_rows batch n k acc s = delete_ttl_rows batch n (Suc k) (acc + d) t"
      by (subst delete_ttl_rows.simps) (use False b in simp)
    ultimately show ?thesis using less.hyps [OF _ t(1), of "Suc k" "acc + d"] by simp
  qed
qed

lemma length_rows_without:
  assumes "distinct rows" "distinct xs" "set xs \<subseteq> set rows"
  shows "length (rows_where (\<lambda>r. r \<notin> set xs) rows) + length xs = length rows"
proof -
  have "length (rows_where (\<lambda>r. r \<in> set xs) rows) = length xs" using assms by (rule length_rows_where_set)
  then show ?thesis using sum_length_filter_compl [of "\<lambda>r. r \<in> set xs" rows] by (simp add: rows_where_def)
qed

lemma set_sort_take: "length (take n (sort_key f xs)) < n \<Longrightarrow> set (take n (sort_key f xs)) = set xs"
  by simp

lemma distinct_sort_take: "distinct xs \<Longrightarrow> distinct (take n (sort_key f xs))"
  by simp

lemma results_batch:
  assumes "sched_ok s"
  shows "length (sd_results (snd (delete_old_results now locked ttl n s))) + fst (delete_old_results now locked ttl n s) = length (sd_results s)"
    "fst (delete_old_results now locked ttl n s) < n \<Longrightarrow>
       \<forall>r \<in> set (sd_results (snd (delete_old_results now locked ttl n s))). now - days ttl \<le> rr_created_at r \<or> r \<in> locked"
    "r \<in> set (sd_results s) \<Longrightarrow> now - days ttl \<le> rr_created_at r \<Longrightarrow> r \<in> set (sd_results (snd (delete_old_results now locked ttl n s)))"
proof -
  let ?c = "rows_where (\<lambda>r. rr_created_at r < now - days ttl \<and> r \<notin> locked) (sd_results s)"
  have d: "distinct (sd_results s)" using assms by (auto simp: sched_ok_def results_ok_def distinct_map)
  then have "distinct (old_results now locked ttl n s)" unfolding old_results_def by (intro distinct_sort_take) (simp add: rows_where_def)
  moreover have sub: "set (old_results now locked ttl n s) \<subseteq> set ?c" unfolding old_results_def by (auto dest: in_set_takeD)
  then have "set (old_results now locked ttl n s) \<subseteq> set (sd_results s)" by auto
  ultimately show "length (sd_results (snd (delete_old_results now locked ttl n s))) + fst (delete_old_results now locked ttl n s) = length (sd_results s)"
    using length_rows_without [OF d] by (simp add: delete_old_results_def Let_def)
  show "r \<in> set (sd_results (snd (delete_old_results now locked ttl n s)))"
    if "r \<in> set (sd_results s)" "now - days ttl \<le> rr_created_at r"
    using that sub by (auto simp: delete_old_results_def Let_def)
  assume "fst (delete_old_results now locked ttl n s) < n"
  then have all: "set (old_results now locked ttl n s) = set ?c"
    unfolding delete_old_results_def Let_def fst_conv old_results_def by (rule set_sort_take)
  show "\<forall>r \<in> set (sd_results (snd (delete_old_results now locked ttl n s))). now - days ttl \<le> rr_created_at r \<or> r \<in> locked"
  proof
    fix r assume "r \<in> set (sd_results (snd (delete_old_results now locked ttl n s)))"
    then have "r \<in> set (sd_results s)" "r \<notin> set (old_results now locked ttl n s)" by (simp_all add: delete_old_results_def Let_def)
    then show "now - days ttl \<le> rr_created_at r \<or> r \<in> locked" unfolding all by auto
  qed
qed

definition key_current :: "instant \<Rightarrow> sched_db \<Rightarrow> dispatch_key \<Rightarrow> bool" where
  "key_current t s k \<longleftrightarrow> t \<le> dk_created_at k \<or> (\<exists>l \<in> set (sd_leases s). lease_of_key l k \<and> lease_open l)"

lemma delete_old_keys_leases:
  assumes "distinct (map (\<lambda>k. (dk_schedule_id k, dk_idempotency_key k)) (sd_keys s))"
    and "k \<in> set (sd_keys (snd (delete_old_keys now locked ttl n s)))" "l \<in> set (sd_leases s)" "lease_of_key l k"
  shows "l \<in> set (sd_leases (snd (delete_old_keys now locked ttl n s)))"
proof -
  have k: "k \<in> set (sd_keys s)" "k \<notin> set (old_keys now locked ttl n s)" using assms(2) by (auto simp: delete_old_keys_def delete_keys_def Let_def)
  have "\<not> lease_of_key l k'" if "k' \<in> set (old_keys now locked ttl n s)" for k'
  proof
    assume "lease_of_key l k'"
    with assms(4) have same: "(dk_schedule_id k, dk_idempotency_key k) = (dk_schedule_id k', dk_idempotency_key k')"
      by (simp add: lease_of_key_def)
    have "k' \<in> set (sd_keys s)" using that unfolding old_keys_def by (auto dest: in_set_takeD)
    from distinct_key_eq [OF assms(1) k(1) this] same have "k = k'" by simp
    with k(2) that show False by simp
  qed
  with assms(3) show ?thesis by (auto simp: delete_old_keys_def delete_keys_def Let_def)
qed

lemma keys_batch:
  assumes "sched_ok s"
  shows "length (sd_keys (snd (delete_old_keys now locked ttl n s))) + fst (delete_old_keys now locked ttl n s) = length (sd_keys s)"
    "fst (delete_old_keys now locked ttl n s) < n \<Longrightarrow> \<forall>k \<in> set (sd_keys (snd (delete_old_keys now locked ttl n s))).
       key_current (now - days ttl) (snd (delete_old_keys now locked ttl n s)) k \<or> k \<in> locked"
    "k \<in> set (sd_keys s) \<Longrightarrow> key_current (now - days ttl) s k \<Longrightarrow>
       k \<in> set (sd_keys (snd (delete_old_keys now locked ttl n s))) \<and> (key_current t s k \<longrightarrow> key_current t (snd (delete_old_keys now locked ttl n s)) k)"
proof -
  let ?c = "rows_where (\<lambda>k. dk_created_at k < now - days ttl \<and> k \<notin> locked \<and>
    \<not> exists_where (\<lambda>l. lease_of_key l k \<and> lease_open l) (sd_leases s)) (sd_keys s)"
  let ?s' = "snd (delete_old_keys now locked ttl n s)"
  have uk: "distinct (map (\<lambda>k. (dk_schedule_id k, dk_idempotency_key k)) (sd_keys s))" using assms by (simp add: sched_ok_def keys_ok_def)
  then have d: "distinct (sd_keys s)" by (simp add: distinct_map)
  then have "distinct (old_keys now locked ttl n s)" unfolding old_keys_def by (intro distinct_sort_take) (simp add: rows_where_def)
  moreover have sub: "set (old_keys now locked ttl n s) \<subseteq> set ?c" unfolding old_keys_def by (auto dest: in_set_takeD)
  then have "set (old_keys now locked ttl n s) \<subseteq> set (sd_keys s)" by auto
  ultimately show "length (sd_keys ?s') + fst (delete_old_keys now locked ttl n s) = length (sd_keys s)"
    using length_rows_without [OF d] by (simp add: delete_old_keys_def delete_keys_def Let_def)
  have stay: "key_current t ?s' k" if "k \<in> set (sd_keys ?s')" "key_current t s k" for k t
    using that delete_old_keys_leases [OF uk that(1)] by (auto simp: key_current_def)
  show "k \<in> set (sd_keys ?s') \<and> (key_current t s k \<longrightarrow> key_current t ?s' k)" if "k \<in> set (sd_keys s)" "key_current (now - days ttl) s k"
  proof -
    have "k \<in> set (sd_keys ?s')"
      using that sub by (auto simp: key_current_def delete_old_keys_def delete_keys_def Let_def exists_where_def list_ex_iff)
    with stay show ?thesis by blast
  qed
  assume "fst (delete_old_keys now locked ttl n s) < n"
  then have all: "set (old_keys now locked ttl n s) = set ?c"
    unfolding delete_old_keys_def Let_def fst_conv old_keys_def by (rule set_sort_take)
  show "\<forall>k \<in> set (sd_keys ?s'). key_current (now - days ttl) ?s' k \<or> k \<in> locked"
  proof
    fix k assume k: "k \<in> set (sd_keys ?s')"
    then have "k \<in> set (sd_keys s)" "k \<notin> set (old_keys now locked ttl n s)" by (simp_all add: delete_old_keys_def delete_keys_def Let_def)
    then have "key_current (now - days ttl) s k \<or> k \<in> locked" unfolding all by (auto simp: key_current_def)
    with stay [OF k] show "key_current (now - days ttl) ?s' k \<or> k \<in> locked" by blast
  qed
qed

lemma key_current_mono: "key_current t s k \<Longrightarrow> t' \<le> t \<Longrightarrow> key_current t' s k"
  by (auto simp: key_current_def)

lemma delete_old_keys_results [simp]: "sd_results (snd (delete_old_keys now locked ttl n s)) = sd_results s"
  by (simp add: delete_old_keys_def delete_keys_def Let_def)

lemma delete_results_end:
  assumes "sched_ok s" "0 < n" "mono clock"
  shows "\<exists>m s'. delete_ttl_rows (\<lambda>k. delete_old_results (clock k) (locked k) ttl n) n 0 0 s = Some (m, s') \<and>
    (sched_ok s' \<and> sd_keys s' = sd_keys s \<and> sd_leases s' = sd_leases s \<and>
     (\<forall>r \<in> set (sd_results s). (\<forall>k. clock k - days ttl \<le> rr_created_at r) \<longrightarrow> r \<in> set (sd_results s'))) \<and>
    (\<forall>r \<in> set (sd_results s'). clock 0 - days ttl \<le> rr_created_at r \<or> (\<exists>k. r \<in> locked k))"
proof (rule delete_ttl_rows_ends [where weight = "\<lambda>s. length (sd_results s)"])
  fix k :: nat and t :: sched_db
  let ?t = "snd (delete_old_results (clock k) (locked k) ttl n t)"
  assume P: "sched_ok t \<and> sd_keys t = sd_keys s \<and> sd_leases t = sd_leases s \<and>
     (\<forall>r \<in> set (sd_results s). (\<forall>k. clock k - days ttl \<le> rr_created_at r) \<longrightarrow> r \<in> set (sd_results t))"
  then have ok: "sched_ok t" by blast
  have "sd_keys ?t = sd_keys t" "sd_leases ?t = sd_leases t" by (simp_all add: delete_old_results_def Let_def)
  with P show "(sched_ok ?t \<and> sd_keys ?t = sd_keys s \<and> sd_leases ?t = sd_leases s \<and>
     (\<forall>r \<in> set (sd_results s). (\<forall>k. clock k - days ttl \<le> rr_created_at r) \<longrightarrow> r \<in> set (sd_results ?t))) \<and>
      length (sd_results ?t) + fst (delete_old_results (clock k) (locked k) ttl n t) \<le> length (sd_results t)"
    using delete_old_results_keeps [OF ok] results_batch(1) [OF ok] results_batch(3) [OF ok] by simp
  assume "fst (delete_old_results (clock k) (locked k) ttl n t) < n"
  from results_batch(2) [OF ok this] monoD [OF assms(3), of 0 k]
  show "\<forall>r \<in> set (sd_results ?t). clock 0 - days ttl \<le> rr_created_at r \<or> (\<exists>k. r \<in> locked k)" by force
qed (use assms in simp_all)

lemma delete_keys_end:
  assumes "sched_ok s" "0 < n" "mono clock"
  shows "\<exists>m s'. delete_ttl_rows (\<lambda>k. delete_old_keys (clock k) (locked k) ttl n) n 0 0 s = Some (m, s') \<and>
    (sched_ok s' \<and> sd_results s' = sd_results s \<and>
     (\<forall>key \<in> set (sd_keys s). (\<forall>k. key_current (clock k - days ttl) s key) \<longrightarrow>
        key \<in> set (sd_keys s') \<and> (\<forall>k. key_current (clock k - days ttl) s' key))) \<and>
    (\<forall>key \<in> set (sd_keys s'). key_current (clock 0 - days ttl) s' key \<or> (\<exists>k. key \<in> locked k))"
proof (rule delete_ttl_rows_ends [where weight = "\<lambda>s. length (sd_keys s)"])
  fix k :: nat and t :: sched_db
  let ?t = "snd (delete_old_keys (clock k) (locked k) ttl n t)"
  assume P: "sched_ok t \<and> sd_results t = sd_results s \<and>
     (\<forall>key \<in> set (sd_keys s). (\<forall>k. key_current (clock k - days ttl) s key) \<longrightarrow>
        key \<in> set (sd_keys t) \<and> (\<forall>k. key_current (clock k - days ttl) t key))"
  then have ok: "sched_ok t" by blast
  moreover have "sched_ok ?t" using ok by (simp add: delete_keys_keeps delete_old_keys_def Let_def)
  moreover have "key \<in> set (sd_keys ?t) \<and> (\<forall>k. key_current (clock k - days ttl) ?t key)"
    if "key \<in> set (sd_keys t)" "\<forall>k. key_current (clock k - days ttl) t key" for key
    using keys_batch(3) [OF ok that(1)] that(2) by blast
  ultimately show "(sched_ok ?t \<and> sd_results ?t = sd_results s \<and>
     (\<forall>key \<in> set (sd_keys s). (\<forall>k. key_current (clock k - days ttl) s key) \<longrightarrow>
        key \<in> set (sd_keys ?t) \<and> (\<forall>k. key_current (clock k - days ttl) ?t key))) \<and>
      length (sd_keys ?t) + fst (delete_old_keys (clock k) (locked k) ttl n t) \<le> length (sd_keys t)"
    using P keys_batch(1) [OF ok] by simp
  assume "fst (delete_old_keys (clock k) (locked k) ttl n t) < n"
  from keys_batch(2) [OF ok this] monoD [OF assms(3), of 0 k]
  show "\<forall>key \<in> set (sd_keys ?t). key_current (clock 0 - days ttl) ?t key \<or> (\<exists>k. key \<in> locked k)"
    using key_current_mono by force
qed (use assms in simp_all)

section \<open>Properties\<close>

definition empty_sched :: sched_db where
  "empty_sched = \<lparr>sd_runs = [], sd_results = [], sd_keys = [], sd_leases = [], sd_events = [], sd_broadcasts = []\<rparr>"

lemma empty_sched_ok: "sched_ok empty_sched"
  by (simp add: empty_sched_def sched_ok_def tables_ok_defs settlements_def)

text \<open>
  C29. The scheduling tables are well formed in every reachable state: keys are unique, every row satisfies the
  checks of its table and refers to rows that exist, every lease belongs to the dispatch key of its run, a
  lease is closed exactly when it has a finish time, and the audit has one settlement for each closed lease
  and none for an open one.
\<close>

theorem schedule_tables_wellformed:
  assumes "sched_step\<^sup>*\<^sup>* empty_sched s"
  shows "runs_ok (sd_runs s) \<and> results_ok (run_ids s) (sd_results s) \<and> keys_ok (run_ids s) (sd_keys s) \<and>
    leases_ok (sd_keys s) (sd_leases s) \<and> audit_ok (sd_leases s) (sd_events s) \<and> broadcasts_ok (sd_broadcasts s)"
  using table.steps_keep [OF assms empty_sched_ok] by (simp add: sched_ok_def)

text \<open>
  C19. A dispatch runs once. After a reservation was accepted for an idempotency key of a trigger, and whatever
  the services and workers do, short of deleting the trigger and of a retention sweep past the key's time to
  live, every further reservation with that key is answered with the first run and changes nothing.
\<close>

theorem dispatch_runs_once:
  assumes ok: "sched_ok s" and first: "reserve_event_dispatch_lease now eid rv s = Inr ((run, LeaseAccepted), s1)"
    and fresh: "run_unused (rv_run_id rv) s" and between: "(key_step (reserved_key now rv))\<^sup>*\<^sup>* s1 s2"
    and same: "rv_schedule_id rv' = rv_schedule_id rv" "rv_idempotency_key rv' = rv_idempotency_key rv"
  shows "reserve_event_dispatch_lease now' eid' rv' s2 = Inr ((run, LeaseDuplicate), s2)"
proof -
  from first have "run = rv_run_id rv \<and> reserved_key now rv \<in> set (sd_keys s1)"
  proof (cases rule: reserve_cases)
    case (accepted t1 t2)
    then show ?thesis by (simp add: reserve_accepted_state [OF accepted(6-8)])
  qed simp_all
  moreover have "sched_ok s1" by (rule reserve_ok [OF first ok fresh])
  ultimately have "sched_ok s2" "reserved_key now rv \<in> set (sd_keys s2)" "run = dk_run_id (reserved_key now rv)"
    using key_steps_keep [OF between] by (simp_all add: reserved_key_def)
  with existing_dispatch_unique [of s2 "reserved_key now rv"] same show ?thesis
    by (simp add: reserve_event_dispatch_lease_def reserved_key_def)
qed

text \<open>
  C20. A run is settled once and for all. Along every history no run gets a second settlement in the audit,
  and once the lease of a run is closed no lease of that run is ever open again, so recovery and a slow
  worker cannot both finish it.
\<close>

theorem event_run_settled_once:
  assumes "sched_ok s" "sched_step\<^sup>*\<^sup>* s s'"
  shows "settlements i (sd_events s') \<le> 1 \<and>
    (\<forall>l \<in> set (sd_leases s). \<forall>l' \<in> set (sd_leases s'). \<not> lease_open l \<and> dl_run_id l' = dl_run_id l \<longrightarrow> \<not> lease_open l')"
proof (intro conjI ballI impI notI)
  show "settlements i (sd_events s') \<le> 1" by (rule table.steps_settled_once [OF assms(2,1)])
  fix l l' assume l: "l \<in> set (sd_leases s)" "l' \<in> set (sd_leases s')" "\<not> lease_open l \<and> dl_run_id l' = dl_run_id l" "lease_open l'"
  have "settlements (dl_run_id l) (sd_events s) = 1" using assms(1) l by (simp add: sched_ok_def audit_ok_def)
  moreover obtain es where "sd_events s' = sd_events s @ es" using table.steps_audit_grows [OF assms(2,1)] by blast
  moreover have "settlements (dl_run_id l') (sd_events s') = 0"
    using table.steps_keep [OF assms(2,1)] l(2,4) unfolding sched_ok_def audit_ok_def by simp
  ultimately show False using l(3) by simp
qed

text \<open>
  Concurrency is capped. When a reservation is accepted, the leases that are active at that moment, the
  new one included, are within the global limit, and those of the organisation within its limit.
\<close>

theorem dispatch_concurrency_capped:
  assumes "reserve_event_dispatch_lease now eid rv s = Inr ((run, LeaseAccepted), s')"
  shows "int (length (active_leases now s')) \<le> rv_global_limit rv \<and>
    int (length (active_org_leases now (rv_org_id rv) s')) \<le> rv_org_limit rv"
  using assms
proof (cases rule: reserve_cases)
  case (accepted s1 s2)
  then show ?thesis
    by (simp add: reserve_accepted_state [OF accepted(6-8)] active_leases_def active_org_leases_def rows_where_def)
qed simp_all

text \<open>
  The cap can be exceeded later: renewing a lease looks at its status and owner only, so a lease that has
  expired, and whose slot has been given away, becomes active again.
\<close>

lemma renewal_revives_expired:
  assumes "l \<in> set (sd_leases s)" "dl_status l = LeaseRunning" "dl_lease_expires_at l \<le> now" "0 < n"
  shows "\<not> lease_active now l \<and> fst (renew_event_dispatch_lease now (dl_run_id l) (dl_owner_id l) n s) \<and>
    (\<exists>l' \<in> set (sd_leases (snd (renew_event_dispatch_lease now (dl_run_id l) (dl_owner_id l) n s))). dl_run_id l' = dl_run_id l \<and> lease_active now l')"
proof -
  let ?l = "l\<lparr>dl_lease_expires_at := now + seconds n\<rparr>"
  have "?l \<in> set (sd_leases (snd (renew_event_dispatch_lease now (dl_run_id l) (dl_owner_id l) n s)))"
    using assms(1,2) by (force simp: renew_event_dispatch_lease_def update_leases_def set_update_where)
  moreover have "lease_active now ?l" using assms(2,4) by (simp add: lease_active_def lease_open_def)
  moreover have "\<not> lease_active now l" "fst (renew_event_dispatch_lease now (dl_run_id l) (dl_owner_id l) n s)"
    using assms by (auto simp: lease_active_def renew_event_dispatch_lease_def update_leases_def)
  ultimately show ?thesis by (metis dispatch_lease.select_convs(1) dispatch_lease.surjective dispatch_lease.update_convs(7))
qed

text \<open>
  C30. Recovery leaves no abandoned run behind. Given fresh identifiers, failure counters with room and results
  that belong to the organisation of their run, a pass always commits; when it may take all expired leases,
  none that was not locked is open afterwards, and each has a result that callers can poll.
\<close>

theorem recovery_settles_expired:
  assumes "sched_ok s" "recoverable rid eid 0 n s"
    and "length (rows_where (\<lambda>l. lease_open l \<and> dl_lease_expires_at l \<le> now \<and> dl_run_id l \<notin> locked) (sd_leases s)) \<le> n"
  shows "\<exists>m s'. recover_expired_event_dispatches now locked rid eid n limit s = Inr (m, s') \<and>
    (\<forall>l \<in> set (sd_leases s). lease_open l \<and> dl_lease_expires_at l \<le> now \<and> dl_run_id l \<notin> locked \<longrightarrow>
       (\<forall>l' \<in> set (sd_leases s'). dl_run_id l' = dl_run_id l \<longrightarrow> \<not> lease_open l') \<and>
       (\<exists>r \<in> set (sd_results s'). rr_schedule_id r = dl_schedule_id l \<and> rr_run_id r = dl_run_id l))"
proof -
  let ?rows = "rows_where (\<lambda>l. lease_open l \<and> dl_lease_expires_at l \<le> now \<and> dl_run_id l \<notin> locked) (sd_leases s)"
  let ?ls = "expired_leases now locked n s"
  have ls: "?ls = sort_key (\<lambda>l. (dl_lease_expires_at l, dl_run_id l)) ?rows" using assms(3) by (simp add: expired_leases_def)
  then have set: "set ?ls = set ?rows" by simp
  then have sub: "set ?ls \<subseteq> set (sd_leases s)" and op: "\<forall>l \<in> set ?ls. lease_open l" by simp_all
  have "distinct (map dl_run_id (sd_leases s))" using assms(1) by (simp add: sched_ok_def leases_ok_def)
  then have "distinct (map dl_run_id ?rows)" by (rule distinct_map_rows_where)
  then have d: "distinct (map dl_run_id ?ls)" unfolding ls by (simp add: distinct_map)
  have "length ?ls \<le> n" by (simp add: expired_leases_def)
  then have "recoverable rid eid 0 (length ?ls) s" using assms(2) by (rule recoverable_less)
  then obtain m s' where run: "recover_expired_event_dispatches now locked rid eid n limit s = Inr (m, s')"
    using recover_leases_commits [OF assms(1) sub d op] unfolding recover_expired_event_dispatches_def by blast
  from recover_kept(1) [OF run assms(1)] have rec: "\<forall>l \<in> set (sd_leases s'). dl_run_id l \<in> dl_run_id ` set ?ls \<longrightarrow> \<not> lease_open l"
    "\<forall>l \<in> set ?ls. \<exists>r \<in> set (sd_results s'). rr_schedule_id r = dl_schedule_id l \<and> rr_run_id r = dl_run_id l"
    unfolding recovered_def by blast+
  have "(\<forall>l' \<in> set (sd_leases s'). dl_run_id l' = dl_run_id l \<longrightarrow> \<not> lease_open l') \<and>
      (\<exists>r \<in> set (sd_results s'). rr_schedule_id r = dl_schedule_id l \<and> rr_run_id r = dl_run_id l)" if "l \<in> set ?ls" for l
    using that rec by (metis imageI)
  then show ?thesis unfolding set using run by (intro exI [of _ m] exI [of _ s']) simp
qed

text \<open>
  A schedule is claimed once per interval. A claim takes at most its limit of due schedules; a schedule
  that was claimed is not claimed again before its interval has passed.
\<close>

theorem schedule_claimed_once:
  assumes ok: "sched_ok s" and first: "claim_due_schedules now1 locked1 n1 s = (xs, s1)" and second: "claim_due_schedules now2 locked2 n2 s1 = (ys, s2)"
  shows "length xs \<le> n1 \<and> (\<forall>x \<in> set xs. \<forall>y \<in> set ys. sr_id y = sr_id x \<longrightarrow>
    (\<exists>i \<in> set_option (sr_interval_seconds x). now1 + seconds i \<le> now2))"
proof (intro conjI ballI impI)
  let ?due = "due_schedules now1 locked1 n1 s"
  have d: "distinct (map sr_id (sd_runs s))" using ok by (simp add: sched_ok_def runs_ok_def)
  have sub: "set ?due \<subseteq> set (sd_runs s)" unfolding due_schedules_def by (auto dest: in_set_takeD)
  have "length xs = length (rows_where (\<lambda>r. sr_id r \<in> sr_id ` set ?due) (sd_runs s))"
    using first by (auto simp: claim_due_schedules_def Let_def)
  also have "\<dots> = length (rows_where (\<lambda>r. r \<in> set ?due) (sd_runs s))"
    using distinct_key_eq [OF d] sub by (intro arg_cong [where f = length] rows_where_cong) blast
  also have "\<dots> = length ?due"
    using d sub by (intro length_rows_where_set) (auto simp: distinct_map due_schedules_def rows_where_def)
  finally show "length xs \<le> n1" by (simp add: due_schedules_def)
  fix x y assume x: "x \<in> set xs" and y: "y \<in> set ys" and id: "sr_id y = sr_id x"
  have "x \<in> set (sd_runs s1)" using first x by (auto simp: claim_due_schedules_def Let_def set_update_where)
  moreover obtain y0 where y0: "y0 \<in> set (sd_runs s1)" "sr_id y0 = sr_id y" "schedule_due now2 y0"
    using second y by (auto simp: claim_due_schedules_def due_schedules_def advance_def Let_def dest!: in_set_takeD)
  moreover have "distinct (map sr_id (sd_runs s1))"
    using claim_due_keeps [OF ok, of now1 locked1 n1] first by (simp add: sched_ok_def runs_ok_def)
  ultimately have "x = y0" using id by (metis distinct_key_eq)
  moreover have "sr_next_run_at x = map_option (\<lambda>n. now1 + seconds n) (sr_interval_seconds x)"
    using first x by (auto simp: claim_due_schedules_def Let_def advance_def)
  ultimately show "\<exists>i \<in> set_option (sr_interval_seconds x). now1 + seconds i \<le> now2"
    using y0(3) by (cases "sr_interval_seconds x") (auto simp: schedule_due_def)
qed

text \<open>
  C31. The retention sweep ends and does exactly its work: with a positive batch size it returns and keeps the
  tables well formed. Every run result left is within its time to live, or was locked by another transaction
  during a batch (those are skipped and left to the next pass), and no result that stays within its time to
  live is deleted. Likewise every dispatch key left is recent, belongs to an open lease, or was locked during
  a batch, and no key that is recent or belongs to an open lease is deleted.
\<close>

theorem retention_sweep_ends:
  assumes "sched_ok s" "0 < batch_size" "0 < ttl_days" "mono clock1" "mono clock2"
  shows "\<exists>m s'. retention_sweep_runs clock1 locked1 clock2 locked2 ttl_days batch_size s = Some (m, s') \<and> sched_ok s' \<and>
    (\<forall>r \<in> set (sd_results s'). clock1 0 - days ttl_days \<le> rr_created_at r \<or> (\<exists>k. r \<in> locked1 k)) \<and>
    (\<forall>r \<in> set (sd_results s). (\<forall>k. clock1 k - days ttl_days \<le> rr_created_at r) \<longrightarrow> r \<in> set (sd_results s')) \<and>
    (\<forall>key \<in> set (sd_keys s'). key_current (clock2 0 - days ttl_days) s' key \<or> (\<exists>k. key \<in> locked2 k)) \<and>
    (\<forall>key \<in> set (sd_keys s). (\<forall>k. key_current (clock2 k - days ttl_days) s key) \<longrightarrow> key \<in> set (sd_keys s'))"
proof -
  obtain m1 s1 where 1: "delete_ttl_rows (\<lambda>k. delete_old_results (clock1 k) (locked1 k) ttl_days batch_size) batch_size 0 0 s = Some (m1, s1)"
    "sched_ok s1" "sd_keys s1 = sd_keys s" "sd_leases s1 = sd_leases s"
    "\<forall>r \<in> set (sd_results s). (\<forall>k. clock1 k - days ttl_days \<le> rr_created_at r) \<longrightarrow> r \<in> set (sd_results s1)"
    "\<forall>r \<in> set (sd_results s1). clock1 0 - days ttl_days \<le> rr_created_at r \<or> (\<exists>k. r \<in> locked1 k)"
    using delete_results_end [OF assms(1,2,4), of locked1 ttl_days] by blast
  obtain m2 s2 where 2: "delete_ttl_rows (\<lambda>k. delete_old_keys (clock2 k) (locked2 k) ttl_days batch_size) batch_size 0 0 s1 = Some (m2, s2)"
    "sched_ok s2" "sd_results s2 = sd_results s1"
    "\<forall>key \<in> set (sd_keys s1). (\<forall>k. key_current (clock2 k - days ttl_days) s1 key) \<longrightarrow> key \<in> set (sd_keys s2)"
    "\<forall>key \<in> set (sd_keys s2). key_current (clock2 0 - days ttl_days) s2 key \<or> (\<exists>k. key \<in> locked2 k)"
    using delete_keys_end [OF 1(2) assms(2,5), of locked2 ttl_days] by blast
  have "retention_sweep_runs clock1 locked1 clock2 locked2 ttl_days batch_size s = Some ((m1, m2), s2)"
    using 1(1) 2(1) assms(3) by (simp add: retention_sweep_runs_def)
  moreover have "key_current c s1 key = key_current c s key" for c key using 1(4) by (simp add: key_current_def)
  ultimately show ?thesis using 1(3,5,6) 2(2-5) by (intro exI [of _ "(m1, m2)"] exI [of _ s2]) simp
qed

section \<open>Witnesses\<close>

text \<open>A trigger, a run reserved for it, and an interval schedule.\<close>

definition demo_run :: scheduled_run where
  "demo_run = \<lparr>sr_id = ''t'', sr_org_id = ''o'', sr_user_id = ''u'', sr_name = ''n'', sr_prompt = ''p'', sr_schedule_kind = EventKind,
     sr_interval_seconds = None, sr_cron_expr = None, sr_enabled = True, sr_callback_url = None, sr_callback_format = CallbackJson,
     sr_trigger_token = Some ''k'', sr_secret_hash = Some ''h'', sr_next_trigger_id = None, sr_next_run_at = None,
     sr_last_run_at = None, sr_consecutive_failures = 0, sr_created_at = 0, sr_updated_at = 0\<rparr>"

definition demo_sched :: sched_db where
  "demo_sched = empty_sched\<lparr>sd_runs := [demo_run]\<rparr>"

definition demo_rv :: "ident \<Rightarrow> reservation" where
  "demo_rv run = \<lparr>rv_schedule_id = ''t'', rv_org_id = ''o'', rv_idempotency_key = ''key'', rv_run_id = run, rv_owner_id = ''w'',
     rv_lease_seconds = 60, rv_global_limit = 2, rv_org_limit = 1, rv_chain_id = run, rv_hop_index = 0\<rparr>"

definition demo_reserved :: sched_db where
  "demo_reserved = demo_sched\<lparr>sd_keys := [reserved_key (seconds 1) (demo_rv ''r'')], sd_leases := [reserved_lease (seconds 1) (demo_rv ''r'')],
     sd_events := [accepted_event (seconds 1) ''e'' (demo_rv ''r'')]\<rparr>"

lemma demo_created: "create_event_trigger 0 ''t'' ''o'' ''u'' ''n'' ''p'' None ''k'' ''h'' CallbackJson None empty_sched = Inr (demo_run, demo_sched)"
  by (simp add: create_event_trigger_def Let_def insert_run_def run_range_def run_checks_def int4_def empty_sched_def demo_sched_def demo_run_def)

lemma demo_accepted: "reserve_event_dispatch_lease (seconds 1) ''e'' (demo_rv ''r'') demo_sched = Inr ((''r'', LeaseAccepted), demo_reserved)"
  by (simp add: reserve_event_dispatch_lease_def existing_dispatch_def active_leases_def active_org_leases_def insert_key_def
      insert_lease_def insert_event_row_def demo_sched_def empty_sched_def demo_run_def demo_rv_def int2_def bigint_def
      demo_reserved_def reserved_key_def reserved_lease_def accepted_event_def)

lemma demo_fresh: "run_unused ''r'' demo_sched"
  by (simp add: run_unused_def demo_sched_def empty_sched_def)

lemma demo_steps: "sched_step empty_sched demo_sched" "sched_step demo_sched demo_reserved"
  using sched_step.op [OF sched_op.create_trigger [OF demo_created]] sched_step.op [OF sched_op.reserve [OF _ demo_accepted]] demo_fresh
  by (simp_all add: demo_rv_def)

lemma demo_sched_ok: "sched_ok demo_sched" "sched_ok demo_reserved"
  using table.keeps [OF demo_steps(1) empty_sched_ok] table.keeps [OF demo_steps(2)] by blast+

theorem schedule_tables_wellformed_witness:
  "runs_ok (sd_runs demo_reserved) \<and> results_ok (run_ids demo_reserved) (sd_results demo_reserved) \<and>
   keys_ok (run_ids demo_reserved) (sd_keys demo_reserved) \<and> leases_ok (sd_keys demo_reserved) (sd_leases demo_reserved) \<and>
   audit_ok (sd_leases demo_reserved) (sd_events demo_reserved) \<and> broadcasts_ok (sd_broadcasts demo_reserved)"
  by (rule schedule_tables_wellformed) (meson demo_steps rtranclp.simps)

theorem dispatch_runs_once_witness:
  "let s2 = snd (start_event_dispatch_lease (seconds 2) ''r'' ''w'' 60 demo_reserved)
   in reserve_event_dispatch_lease (seconds 3) ''f'' (demo_rv ''q'') s2 = Inr ((''r'', LeaseDuplicate), s2)"
  unfolding Let_def
  by (rule dispatch_runs_once [OF demo_sched_ok(1) demo_accepted])
    (use demo_fresh in \<open>auto simp: demo_rv_def intro!: r_into_rtranclp key_step.op sched_op.start\<close>)

definition demo_closed :: sched_db where
  "demo_closed = demo_reserved\<lparr>sd_leases := [close_lease (seconds 5) RunFailed event_run_failed (reserved_lease (seconds 1) (demo_rv ''r''))],
     sd_events := sd_events demo_reserved @ [settled_event (seconds 5) ''g'' ''t'' ''o'' ''r'' (failed_result 0 ''x'' ''t'' ''o'' ''r'' []) event_run_failed]\<rparr>"

lemma demo_finished:
  "finish_event_dispatch_lease (seconds 5) ''g'' ''t'' ''o'' ''r'' ''w'' (failed_result 0 ''x'' ''t'' ''o'' ''r'' []) demo_reserved = Inr (True, demo_closed)"
  by (simp add: finish_event_dispatch_lease_def update_leases_def insert_event_row_def demo_closed_def demo_reserved_def reserved_lease_def
      settled_event_def failed_result_def lease_open_def demo_rv_def accepted_event_def bigint_def)

theorem event_run_settled_once_witness:
  "let s' = snd (start_event_dispatch_lease (seconds 6) ''r'' ''w'' 60 demo_closed)
   in settlements ''r'' (sd_events s') \<le> 1 \<and> map lease_open (sd_leases s') = [False]"
proof -
  let ?s' = "snd (start_event_dispatch_lease (seconds 6) ''r'' ''w'' 60 demo_closed)" and ?l = "hd (sd_leases demo_closed)"
  have ok: "sched_ok demo_closed" by (rule table.keeps [OF sched_step.op [OF sched_op.finish [OF demo_finished]] demo_sched_ok(2)])
  have l: "?l \<in> set (sd_leases demo_closed)" "\<not> lease_open ?l" by (simp_all add: demo_closed_def)
  obtain l' where l': "sd_leases ?s' = [l']" "dl_run_id l' = dl_run_id ?l"
    by (simp add: start_event_dispatch_lease_def update_leases_def demo_closed_def update_where_def)
  from event_run_settled_once [OF ok r_into_rtranclp [of sched_step, OF sched_step.op [OF sched_op.start [of demo_closed "seconds 6" "''r''" "''w''" 60]]], of "''r''"] l l'
  show ?thesis by auto
qed

theorem dispatch_concurrency_capped_witness:
  "int (length (active_leases (seconds 1) demo_reserved)) \<le> 2 \<and> int (length (active_org_leases (seconds 1) ''o'' demo_reserved)) \<le> 1"
  using dispatch_concurrency_capped [OF demo_accepted] by (simp add: demo_rv_def)

definition demo_ids :: "nat \<Rightarrow> ident" where
  "demo_ids k = replicate (k + 2) CHR ''a''"

theorem recovery_settles_expired_witness:
  "\<exists>m s'. recover_expired_event_dispatches (seconds 100) {} demo_ids demo_ids 10 5 demo_reserved = Inr (m, s') \<and>
    (\<exists>r \<in> set (sd_results s'). rr_schedule_id r = ''t'' \<and> rr_run_id r = ''r'')"
proof -
  have "inj demo_ids" by (rule injI) (metis demo_ids_def length_replicate add_right_cancel)
  moreover have "demo_ids j \<noteq> ''e''" for j by (simp add: demo_ids_def)
  ultimately have fresh: "recoverable demo_ids demo_ids 0 10 demo_reserved"
    by (auto simp: recoverable_def demo_reserved_def demo_sched_def empty_sched_def demo_run_def accepted_event_def)
  let ?l = "reserved_lease (seconds 1) (demo_rv ''r'')"
  have l: "?l \<in> set (sd_leases demo_reserved)" "lease_open ?l" "dl_lease_expires_at ?l \<le> seconds 100" "dl_schedule_id ?l = ''t''" "dl_run_id ?l = ''r''"
    by (simp_all add: demo_reserved_def reserved_lease_def lease_open_def demo_rv_def seconds_def)
  have "\<exists>m s'. recover_expired_event_dispatches (seconds 100) {} demo_ids demo_ids 10 5 demo_reserved = Inr (m, s') \<and>
    (\<forall>l \<in> set (sd_leases demo_reserved). lease_open l \<and> dl_lease_expires_at l \<le> seconds 100 \<and> dl_run_id l \<notin> {} \<longrightarrow>
       (\<forall>l' \<in> set (sd_leases s'). dl_run_id l' = dl_run_id l \<longrightarrow> \<not> lease_open l') \<and>
       (\<exists>r \<in> set (sd_results s'). rr_schedule_id r = dl_schedule_id l \<and> rr_run_id r = dl_run_id l))"
    by (rule recovery_settles_expired [OF demo_sched_ok(2) fresh]) (simp add: demo_reserved_def rows_where_def)
  with l show ?thesis by (metis empty_iff)
qed

lemma demo_interval:
  obtains r s where "create_scheduled_run 0 ''i'' ''o'' ''u'' ''n'' ''p'' 60 None CallbackJson None empty_sched = Inr (r, s)" "sched_ok s"
proof -
  have "\<exists>r s. create_scheduled_run 0 ''i'' ''o'' ''u'' ''n'' ''p'' 60 None CallbackJson None empty_sched = Inr (r, s)"
    by (simp add: create_scheduled_run_def Let_def insert_run_def run_range_def run_checks_def int4_def empty_sched_def)
  then show thesis using that table.keeps [OF sched_step.op [OF sched_op.create] empty_sched_ok] by blast
qed

theorem schedule_claimed_once_witness:
  "\<exists>r s. create_scheduled_run 0 ''i'' ''o'' ''u'' ''n'' ''p'' 60 None CallbackJson None empty_sched = Inr (r, s) \<and>
     (let (xs, s1) = claim_due_schedules (seconds 60) {} 5 s; (ys, s2) = claim_due_schedules (seconds 130) {} 5 s1 in
      length xs \<le> 5 \<and> (\<forall>x \<in> set xs. \<forall>y \<in> set ys. sr_id y = sr_id x \<longrightarrow>
        (\<exists>i \<in> set_option (sr_interval_seconds x). seconds 60 + seconds i \<le> seconds 130)))"
proof -
  obtain r s where s: "create_scheduled_run 0 ''i'' ''o'' ''u'' ''n'' ''p'' 60 None CallbackJson None empty_sched = Inr (r, s)" "sched_ok s"
    by (rule demo_interval)
  obtain xs s1 where 1: "claim_due_schedules (seconds 60) {} 5 s = (xs, s1)" by fastforce
  obtain ys s2 where 2: "claim_due_schedules (seconds 130) {} 5 s1 = (ys, s2)" by fastforce
  from schedule_claimed_once [OF s(2) 1 2] s(1) 1 2 show ?thesis by auto
qed

definition aged_result :: "ident \<Rightarrow> instant \<Rightarrow> run_result" where
  "aged_result i t = \<lparr>rr_id = i, rr_schedule_id = ''t'', rr_org_id = ''o'', rr_run_id = i, rr_status = RunCompleted, rr_output_text = ''done'',
     rr_cost_usdc = 5, rr_error = [], rr_created_at = t\<rparr>"

definition aged_results :: sched_db where
  "aged_results = demo_reserved\<lparr>sd_results := [aged_result ''a'' 0, aged_result ''b'' (days 39), aged_result ''c'' 1]\<rparr>"

lemma aged_results_ok: "sched_ok aged_results"
proof -
  have "''t'' \<in> run_ids demo_reserved" by (simp add: demo_reserved_def demo_sched_def demo_run_def run_ids_def)
  then show ?thesis
    using demo_sched_ok(2) by (simp add: sched_ok_def aged_results_def results_ok_def aged_result_def run_ids_def bigint_def)
qed

theorem retention_sweep_ends_witness:
  "\<exists>m s'. retention_sweep_runs (\<lambda>_. days 40) (\<lambda>_. {aged_result ''c'' 1}) (\<lambda>_. days 40) (\<lambda>_. {}) 30 10 aged_results = Some (m, s') \<and>
     aged_result ''a'' 0 \<notin> set (sd_results s') \<and> aged_result ''b'' (days 39) \<in> set (sd_results s') \<and>
     reserved_key (seconds 1) (demo_rv ''r'') \<in> set (sd_keys s')"
proof -
  have demo: "set (sd_results aged_results) = {aged_result ''a'' 0, aged_result ''b'' (days 39), aged_result ''c'' 1}"
    "sd_keys aged_results = [reserved_key (seconds 1) (demo_rv ''r'')]" by (simp_all add: aged_results_def demo_reserved_def)
  have recent: "days 40 - days 30 \<le> rr_created_at (aged_result ''b'' (days 39))"
    "\<not> days 40 - days 30 \<le> rr_created_at (aged_result ''a'' 0)" "aged_result ''a'' 0 \<noteq> aged_result ''c'' 1"
    by (simp_all add: aged_result_def days_def hours_def seconds_def)
  have current: "key_current (days 40 - days 30) aged_results (reserved_key (seconds 1) (demo_rv ''r''))"
    by (simp add: key_current_def aged_results_def demo_reserved_def lease_of_key_def lease_open_def reserved_key_def reserved_lease_def)
  obtain m s' where run: "retention_sweep_runs (\<lambda>_. days 40) (\<lambda>_. {aged_result ''c'' 1}) (\<lambda>_. days 40) (\<lambda>_. {}) 30 10 aged_results = Some (m, s')"
    and left: "\<forall>r \<in> set (sd_results s'). days 40 - days 30 \<le> rr_created_at r \<or> (\<exists>k :: nat. r \<in> {aged_result ''c'' 1})"
    and kept: "\<forall>r \<in> set (sd_results aged_results). (\<forall>k :: nat. days 40 - days 30 \<le> rr_created_at r) \<longrightarrow> r \<in> set (sd_results s')"
    and keys: "\<forall>key \<in> set (sd_keys aged_results). (\<forall>k :: nat. key_current (days 40 - days 30) aged_results key) \<longrightarrow> key \<in> set (sd_keys s')"
    using retention_sweep_ends [OF aged_results_ok, of 10 30 "\<lambda>_. days 40" "\<lambda>_. days 40" "\<lambda>_. {aged_result ''c'' 1}" "\<lambda>_. {}"]
    by (auto simp: mono_def)
  from left have "aged_result ''a'' 0 \<notin> set (sd_results s')" using recent(2,3) by blast
  moreover have "aged_result ''b'' (days 39) \<in> set (sd_results s')" using kept recent(1) unfolding demo(1) by blast
  moreover have "reserved_key (seconds 1) (demo_rv ''r'') \<in> set (sd_keys s')" using keys current unfolding demo(2) by simp
  ultimately show ?thesis using run by blast
qed

end
