(* ===== verification/Commitments.thy ===== *)
theory Commitments
  imports Database "HOL-Library.Char_ord" "HOL-Library.List_Lexorder"
begin

text \<open>
  Tamper-evident commitments (\<^verbatim>\<open>labeling/commitments.py\<close>): RFC 6962 Merkle trees over hex-encoded
  leaves, inclusion proofs and their verification. Bytes are numbers below 256; the digest
  \<^verbatim>\<open>hashlib.sha256(..).digest()\<close> is an argument of the definitions, and what the theorems rely on is the
  hypothesis \<open>sha256_digest\<close>: a digest is 32 bytes.

  The lemmas show that the verifier's loop over the bits of the index walks exactly the path the
  recursive tree has, so that every audit path verifies, and that a proof accepted for another leaf
  yields two different preimages with the same digest among those the verifier and the tree hash.
\<close>

section \<open>Bytes and hex strings\<close>

type_synonym bytes = "nat list"

definition hex_value :: "char \<Rightarrow> nat option" where
  "hex_value c =
    (let n = of_char c :: nat in
     if 48 \<le> n \<and> n \<le> 57 then Some (n - 48)
     else if 97 \<le> n \<and> n \<le> 102 then Some (n - 87)
     else if 65 \<le> n \<and> n \<le> 70 then Some (n - 55)
     else None)"

definition ascii_space :: "char \<Rightarrow> bool" where
  "ascii_space c = (let n = of_char c :: nat in n = 32 \<or> (9 \<le> n \<and> n \<le> 13))"

text \<open>\<^verbatim>\<open>bytes.fromhex\<close>: pairs of hex digits in either case, ASCII whitespace allowed between bytes.\<close>

fun fromhex :: "string \<Rightarrow> bytes option" where
  "fromhex [] = Some []"
| "fromhex [c] = (if ascii_space c then Some [] else None)"
| "fromhex (c # c' # s) =
    (if ascii_space c then fromhex (c' # s)
     else case (hex_value c, hex_value c', fromhex s) of
       (Some a, Some b, Some bs) \<Rightarrow> Some ((16 * a + b) # bs)
     | _ \<Rightarrow> None)"

definition hex_digit :: "nat \<Rightarrow> char" where
  "hex_digit n = char_of (if n < 10 then 48 + n else 87 + n)"

definition hexlify :: "bytes \<Rightarrow> string" where
  "hexlify bs = concat (map (\<lambda>b. [hex_digit (b div 16), hex_digit (b mod 16)]) bs)"

definition is_byte_list :: "bytes \<Rightarrow> bool" where
  "is_byte_list bs \<longleftrightarrow> (\<forall>b \<in> set bs. b < 256)"

lemma hex_value_digit: "n < 16 \<Longrightarrow> hex_value (hex_digit n) = Some n" "n < 16 \<Longrightarrow> \<not> ascii_space (hex_digit n)"
  by (auto simp: hex_value_def hex_digit_def ascii_space_def Let_def)

lemma fromhex_hexlify: "is_byte_list bs \<Longrightarrow> fromhex (hexlify bs) = Some bs"
proof (induction bs)
  case (Cons b bs)
  then have "b div 16 < 16" "b mod 16 < 16" "16 * (b div 16) + b mod 16 = b" by (auto simp: is_byte_list_def)
  with Cons show ?case by (simp add: hexlify_def hex_value_digit is_byte_list_def)
qed (simp add: hexlify_def)

definition sha256_digest :: "(bytes \<Rightarrow> bytes) \<Rightarrow> bool" where
  "sha256_digest sha \<longleftrightarrow> (\<forall>x. length (sha x) = 32 \<and> is_byte_list (sha x))"

definition hash_hex :: "string \<Rightarrow> bool" where
  "hash_hex s \<longleftrightarrow> (\<exists>bs. fromhex s = Some bs \<and> length bs = 32)"

definition is_hex64 :: "string \<Rightarrow> bool" where
  "is_hex64 s \<longleftrightarrow> length s = 64 \<and> (\<forall>c \<in> set s. c \<in> set ''0123456789abcdef'')"

section \<open>Leaves\<close>

text \<open>
  \<^verbatim>\<open>canonical_json\<close> on the flat objects that leaves are made of: \<^verbatim>\<open>json.dumps\<close> with sorted keys, no
  spaces and every character outside the printable ASCII range escaped.
\<close>

datatype json_value = JStr string | JInt int

definition max_prediction_bytes :: nat where
  "max_prediction_bytes = 64 * 1024"

definition max_json_container_items :: nat where
  "max_json_container_items = 10000"

definition json_escape :: "char \<Rightarrow> string" where
  "json_escape c =
    (let n = of_char c :: nat in
     if n = 34 then [CHR 0x5C, CHR 0x22]
     else if n = 92 then [CHR 0x5C, CHR 0x5C]
     else if 32 \<le> n \<and> n \<le> 126 then [c]
     else if n = 8 then [CHR 0x5C, CHR ''b'']
     else if n = 9 then [CHR 0x5C, CHR ''t'']
     else if n = 10 then [CHR 0x5C, CHR ''n'']
     else if n = 12 then [CHR 0x5C, CHR ''f'']
     else if n = 13 then [CHR 0x5C, CHR ''r'']
     else [CHR 0x5C, CHR ''u'', CHR ''0'', CHR ''0'', hex_digit (n div 16), hex_digit (n mod 16)])"

definition json_string :: "string \<Rightarrow> string" where
  "json_string s = CHR 0x22 # concat (map json_escape s) @ [CHR 0x22]"

fun json_scalar :: "json_value \<Rightarrow> string" where
  "json_scalar (JStr s) = json_string s"
| "json_scalar (JInt n) = py_str_int n"

fun json_members :: "(string \<times> json_value) list \<Rightarrow> string" where
  "json_members [] = ''}''"
| "json_members ((k, v) # kvs) =
    json_string k @ '':'' @ json_scalar v @ (if kvs = [] then ''}'' else CHR '','' # json_members kvs)"

definition canonical_json :: "(string \<times> json_value) list \<Rightarrow> py_error + string" where
  "canonical_json kvs =
    (if max_json_container_items < length kvs
     then Inl (ValueError ''Prediction payload contains too many object fields'')
     else
       (let encoded = CHR ''{'' # json_members (sort_key fst kvs)
        in if max_prediction_bytes < length encoded
           then Inl (ValueError ''Prediction payload exceeds the allowed size'') else Inr encoded))"

definition leaf_hash :: "(bytes \<Rightarrow> bytes) \<Rightarrow> int \<Rightarrow> (string \<times> json_value) list \<Rightarrow> string \<Rightarrow> py_error + string" where
  "leaf_hash sha version flds salt =
    (if version \<notin> {1, 2} then Inl (ValueError ''Unsupported commitment leaf version'')
     else if \<not> is_hex64 salt then Inl (ValueError ''Commitment salt must be 64 lowercase hex characters'')
     else if \<exists>k \<in> set (map fst flds). k = ''v'' \<or> k = ''salt''
     then Inl (ValueError ''Commitment fields cannot override reserved keys'')
     else bindE (canonical_json (flds @ [(''v'', JInt version), (''salt'', JStr salt)]))
       (\<lambda>preimage. Inr (hexlify (sha (0 # map of_char preimage)))))"

definition prediction_signing_message :: "string \<Rightarrow> string \<Rightarrow> int \<Rightarrow> string \<Rightarrow> string \<Rightarrow> string" where
  "prediction_signing_message org_id definition_key definition_version idempotency_key payload_sha256 =
    ''Teardrop VOR prediction v1'' @ [CHR 0x0A] @
    ''org:'' @ org_id @ [CHR 0x0A] @
    ''definition:'' @ definition_key @ ''@'' @ py_str_int definition_version @ [CHR 0x0A] @
    ''idempotency_key:'' @ idempotency_key @ [CHR 0x0A] @
    ''payload_sha256:'' @ payload_sha256"

text \<open>The encoding can be read back, so different objects have different encodings.\<close>

lemma hex_digit_inj: "m < 16 \<Longrightarrow> n < 16 \<Longrightarrow> hex_digit m = hex_digit n \<longleftrightarrow> m = n"
  using hex_value_digit(1) by (metis option.inject)

lemma json_escape_cases:
  obtains (plain) "json_escape c = [c]" "c \<noteq> CHR 0x5C" "c \<noteq> CHR 0x22"
    | (short) x where "json_escape c = [CHR 0x5C, x]" "x \<noteq> CHR ''u''"
    | (long) "json_escape c = [CHR 0x5C, CHR ''u'', CHR ''0'', CHR ''0'', hex_digit (of_char c div 16), hex_digit (of_char c mod 16)]"
proof -
  let ?n = "of_char c :: nat"
  have not: "c \<noteq> CHR 0x5C" "c \<noteq> CHR 0x22" if "?n \<noteq> 34" "?n \<noteq> 92" using that by auto
  consider "?n = 34" | "?n = 92" | "?n \<noteq> 34" "?n \<noteq> 92" "32 \<le> ?n \<and> ?n \<le> 126" | "?n = 8" | "?n = 9" | "?n = 10" | "?n = 12" | "?n = 13"
    | "\<not> (32 \<le> ?n \<and> ?n \<le> 126)" "?n \<notin> {8, 9, 10, 12, 13}" by auto
  then show thesis
    by cases (use plain not short long in \<open>auto simp: json_escape_def Let_def\<close>)
qed

lemma json_escape_short_inj:
  "json_escape c = [CHR 0x5C, x] \<Longrightarrow> json_escape d = [CHR 0x5C, x] \<Longrightarrow> c = d"
proof -
  have code: "\<exists>n::nat. (n, x) \<in> set [(34, CHR 0x22), (92, CHR 0x5C), (8, CHR ''b''), (9, CHR ''t''), (10, CHR ''n''),
      (12, CHR ''f''), (13, CHR ''r'')] \<and> of_char c = n" if "json_escape c = [CHR 0x5C, x]" for c
    using that unfolding json_escape_def Let_def by (auto split: if_splits)
  assume "json_escape c = [CHR 0x5C, x]" "json_escape d = [CHR 0x5C, x]"
  from code [OF this(1)] code [OF this(2)] have "(of_char c :: nat) = of_char d"
    by (auto simp del: of_char_eq_iff)
  then show "c = d" by simp
qed

lemma json_escape_prefix:
  assumes "json_escape c @ u = json_escape d @ v"
  shows "c = d \<and> u = v"
proof -
  have n: "(of_char x :: nat) div 16 < 16" for x
  proof -
    have "(of_char x :: nat) < 256" by (metis mod_less_divisor of_char_mod_256 zero_less_numeral)
    moreover have "n < 256 \<Longrightarrow> n div 16 < 16" for n :: nat by simp
    ultimately show ?thesis by blast
  qed
  have long: "c = d" if "hex_digit (of_char c div 16) = hex_digit (of_char d div 16)"
    "hex_digit (of_char c mod 16) = hex_digit (of_char d mod 16)"
  proof -
    have "(of_char c :: nat) div 16 = of_char d div 16" "(of_char c :: nat) mod 16 = of_char d mod 16"
      using that n by (simp_all add: hex_digit_inj)
    then have "(of_char c :: nat) = of_char d" by (metis div_mult_mod_eq)
    then show ?thesis by simp
  qed
  show ?thesis
    by (rule json_escape_cases [of c]; rule json_escape_cases [of d])
      (use assms long json_escape_short_inj in auto)
qed

text \<open>
  An escape code: no character's code is a prefix of another's and none starts with a quote. A quoted string
  in such a code can be read off the front of a text.
\<close>

locale escape_code =
  fixes esc :: "char \<Rightarrow> string"
  assumes esc_prefix: "esc c @ u = esc d @ v \<Longrightarrow> c = d \<and> u = v"
    and esc_not_quote: "\<exists>x y. esc c = x # y \<and> x \<noteq> CHR 0x22"
begin

lemma body_prefix:
  "concat (map esc s) @ CHR 0x22 # u = concat (map esc t) @ CHR 0x22 # v \<Longrightarrow> s = t \<and> u = v"
proof (induction s arbitrary: t)
  case Nil
  then show ?case using esc_not_quote by (cases t) (auto, metis append_Cons list.inject)
next
  case (Cons c s)
  show ?case
  proof (cases t)
    case Nil
    with Cons.prems show ?thesis using esc_not_quote [of c] by auto
  next
    case t: (Cons d t')
    with Cons.prems esc_prefix [of c _ d] have "c = d"
      "concat (map esc s) @ CHR 0x22 # u = concat (map esc t') @ CHR 0x22 # v" by auto
    with Cons.IH t show ?thesis by auto
  qed
qed

lemma quoted_prefix:
  "(CHR 0x22 # concat (map esc s) @ [CHR 0x22]) @ u = (CHR 0x22 # concat (map esc t) @ [CHR 0x22]) @ v \<Longrightarrow> s = t \<and> u = v"
  by (rule body_prefix) simp

end

interpretation ascii_escape: escape_code json_escape
proof
  show "json_escape c @ u = json_escape d @ v \<Longrightarrow> c = d \<and> u = v" for c d u v by (rule json_escape_prefix)
  show "\<exists>x y. json_escape c = x # y \<and> x \<noteq> CHR 0x22" for c by (rule json_escape_cases [of c]) auto
qed

lemma json_string_prefix: "json_string s @ u = json_string t @ v \<Longrightarrow> s = t \<and> u = v"
  unfolding json_string_def by (rule ascii_escape.quoted_prefix)

lemma str_int_codes: "c \<in> set (py_str_int n) \<Longrightarrow> (of_char c :: nat) = 45 \<or> (48 \<le> (of_char c :: nat) \<and> (of_char c :: nat) \<le> 57)"
proof -
  have dig: "48 \<le> (of_char c :: nat) \<and> (of_char c :: nat) \<le> 57" if "c \<in> set (py_str_nat m)" for m
  proof -
    from that py_str_nat_digits [of m] obtain k where "k < 10" "c = digit_char k" by (auto simp: is_digits_def)
    with of_char_digit_char [of k] show ?thesis by simp
  qed
  assume "c \<in> set (py_str_int n)"
  then show ?thesis using dig by (auto simp: py_str_int_def split: if_splits)
qed

lemma str_int_chars: "c \<in> set (py_str_int n) \<Longrightarrow> c \<noteq> CHR '','' \<and> c \<noteq> CHR ''}'' \<and> c \<noteq> CHR 0x22"
  using str_int_codes [of c n] by auto

lemma str_int_nonempty: "py_str_int n \<noteq> []"
  using py_str_nat_digits by (auto simp: py_str_int_def)

lemma delimited_prefix:
  assumes "\<And>c. c \<in> set xs \<Longrightarrow> \<not> p c" "\<And>c. c \<in> set ys \<Longrightarrow> \<not> p c" "p a" "p b" "xs @ a # u = ys @ b # v"
  shows "xs = ys \<and> a # u = b # v"
proof -
  have "takeWhile (\<lambda>c. \<not> p c) (xs @ a # u) = xs" "takeWhile (\<lambda>c. \<not> p c) (ys @ b # v) = ys"
    using assms(1-4) by (simp_all add: takeWhile_append2)
  with assms(5) have "xs = ys" by metis
  with assms(5) show ?thesis by simp
qed

lemma json_scalar_prefix:
  assumes "a \<in> {CHR '','', CHR ''}''}" "b \<in> {CHR '','', CHR ''}''}" "json_scalar x @ a # u = json_scalar y @ b # v"
  shows "x = y \<and> a # u = b # v"
proof -
  have int: "\<exists>c s. py_str_int n = c # s \<and> c \<noteq> CHR 0x22" for n
    using str_int_nonempty [of n] str_int_chars [of _ n] by (cases "py_str_int n") auto
  show ?thesis
  proof (cases x)
    case x: (JStr s)
    show ?thesis
    proof (cases y)
      case (JStr t)
      with x assms(3) have "json_string s @ a # u = json_string t @ b # v" by simp
      from json_string_prefix [OF this] x JStr show ?thesis by simp
    next
      case (JInt m)
      with x assms(3) int [of m] show ?thesis by (auto simp: json_string_def)
    qed
  next
    case x: (JInt n)
    show ?thesis
    proof (cases y)
      case (JStr s)
      with x assms(3) int [of n] show ?thesis by (auto simp: json_string_def)
    next
      case (JInt m)
      have "py_str_int n = py_str_int m \<and> a # u = b # v"
        by (rule delimited_prefix [where p = "\<lambda>c. c = CHR '','' \<or> c = CHR ''}''"])
          (use assms x JInt str_int_chars in auto)
      then show ?thesis using x JInt py_int_str_int by (metis option.inject)
    qed
  qed
qed

lemma json_members_inj: "json_members xs = json_members ys \<Longrightarrow> xs = ys"
proof (induction xs arbitrary: ys rule: json_members.induct)
  case 1
  then show ?case by (cases ys) (auto simp: json_string_def)
next
  case (2 k v kvs)
  then obtain k' v' kvs' where ys: "ys = (k', v') # kvs'" by (cases ys) (auto simp: json_string_def)
  let ?rest = "\<lambda>kvs. if kvs = [] then ''}'' else CHR '','' # json_members kvs"
  from 2(2) ys have "json_string k @ CHR '':'' # json_scalar v @ ?rest kvs = json_string k' @ CHR '':'' # json_scalar v' @ ?rest kvs'"
    by simp
  from json_string_prefix [OF this] have k: "k = k'" and r: "json_scalar v @ ?rest kvs = json_scalar v' @ ?rest kvs'" by auto
  obtain a u b w where ab: "?rest kvs = a # u" "?rest kvs' = b # w" "a \<in> {CHR '','', CHR ''}''}" "b \<in> {CHR '','', CHR ''}''}"
    by (cases "kvs = []"; cases "kvs' = []") auto
  have "json_scalar v @ a # u = json_scalar v' @ b # w" using r unfolding ab(1,2) .
  from json_scalar_prefix [OF ab(3,4) this] have v: "v = v'" "?rest kvs = ?rest kvs'" using ab(1,2) by simp_all
  have "kvs = kvs'"
  proof (cases "kvs = []")
    case True
    with v(2) show ?thesis by (cases "kvs' = []") auto
  next
    case False
    with v(2) have "kvs' \<noteq> []" "json_members kvs = json_members kvs'" by (auto split: if_splits)
    with 2(1) False show ?thesis by blast
  qed
  with k v ys show ?case by simp
qed

section \<open>Trees\<close>

fun bit_length :: "nat \<Rightarrow> nat" where
  "bit_length n = (if n = 0 then 0 else Suc (bit_length (n div 2)))"

declare bit_length.simps [simp del]

definition split_point :: "nat \<Rightarrow> nat" where
  "split_point n = 2 ^ (bit_length (n - 1) - 1)"

definition node_preimage :: "bytes \<Rightarrow> bytes \<Rightarrow> bytes" where
  "node_preimage l r = 1 # l @ r"

definition node :: "(bytes \<Rightarrow> bytes) \<Rightarrow> string \<Rightarrow> string \<Rightarrow> py_error + string" where
  "node sha left right =
    (case (fromhex left, fromhex right) of
       (Some l, Some r) \<Rightarrow> Inr (hexlify (sha (node_preimage l r)))
     | _ \<Rightarrow> Inl (ValueError ''non-hexadecimal number found in fromhex() arg''))"

lemma bit_length_bounds: "0 < n \<Longrightarrow> 2 ^ (bit_length n - 1) \<le> n \<and> n < 2 ^ bit_length n \<and> 0 < bit_length n"
proof (induction n rule: bit_length.induct)
  case (1 n)
  show ?case
  proof (cases "n div 2 = 0")
    case True
    with 1 have "n = 1" by simp
    then show ?thesis by (simp add: bit_length.simps)
  next
    case False
    with 1 have IH: "2 ^ (bit_length (n div 2) - 1) \<le> n div 2" "n div 2 < 2 ^ bit_length (n div 2)" "0 < bit_length (n div 2)"
      by auto
    then obtain m where m: "bit_length (n div 2) = Suc m" by (cases "bit_length (n div 2)") auto
    then have "bit_length n = Suc (Suc m)" using 1 by (simp add: bit_length.simps [of n])
    with IH m show ?thesis by auto
  qed
qed

lemma split_point_bounds:
  assumes "2 \<le> n"
  obtains m where "split_point n = 2 ^ m" "2 ^ m \<le> n - 1" "n - 1 < 2 ^ Suc m"
proof -
  have "0 < n - 1" using assms by simp
  from bit_length_bounds [OF this] that [of "bit_length (n - 1) - 1"] show ?thesis by (simp add: split_point_def)
qed

lemma split_point_less: "2 \<le> n \<Longrightarrow> 0 < split_point n \<and> split_point n < n"
proof -
  assume "2 \<le> n"
  then obtain m where "split_point n = 2 ^ m" "2 ^ m \<le> n - 1" by (rule split_point_bounds)
  with \<open>2 \<le> n\<close> show ?thesis by simp
qed

function merkle_root :: "(bytes \<Rightarrow> bytes) \<Rightarrow> string list \<Rightarrow> py_error + string" where
  "merkle_root sha leaves =
    (if leaves = [] then Inl (ValueError ''A Merkle tree requires at least one leaf'')
     else if length leaves = 1 then Inr (hd leaves)
     else
       (let k = split_point (length leaves) in
        bindE (merkle_root sha (take k leaves)) (\<lambda>l.
        bindE (merkle_root sha (drop k leaves)) (\<lambda>r. node sha l r))))"
  by pat_completeness auto

lemma halves_shorter:
  "xs \<noteq> [] \<Longrightarrow> length xs \<noteq> 1 \<Longrightarrow> length (take (split_point (length xs)) xs) < length xs"
  "xs \<noteq> [] \<Longrightarrow> length xs \<noteq> 1 \<Longrightarrow> length (drop (split_point (length xs)) xs) < length xs"
proof -
  assume "xs \<noteq> []" "length xs \<noteq> 1"
  then have "2 \<le> length xs" by (cases xs) (auto simp: Suc_le_eq)
  from split_point_less [OF this]
  show "length (take (split_point (length xs)) xs) < length xs" "length (drop (split_point (length xs)) xs) < length xs"
    by auto
qed

termination merkle_root
  by (relation "measure (length \<circ> snd)") (simp_all add: halves_shorter del: length_take length_drop)

declare merkle_root.simps [simp del]

function audit_path_nat :: "(bytes \<Rightarrow> bytes) \<Rightarrow> string list \<Rightarrow> nat \<Rightarrow> py_error + string list" where
  "audit_path_nat sha leaves i =
    (if \<not> i < length leaves then Inl IndexError
     else if length leaves = 1 then Inr []
     else
       (let k = split_point (length leaves) in
        if i < k
        then bindE (audit_path_nat sha (take k leaves) i) (\<lambda>p.
             bindE (merkle_root sha (drop k leaves)) (\<lambda>r. Inr (p @ [r])))
        else bindE (audit_path_nat sha (drop k leaves) (i - k)) (\<lambda>p.
             bindE (merkle_root sha (take k leaves)) (\<lambda>r. Inr (p @ [r])))))"
  by pat_completeness auto

termination audit_path_nat
proof (relation "measure (length \<circ> fst \<circ> snd)")
  fix sha :: "bytes \<Rightarrow> bytes" and leaves :: "string list" and i k :: nat
  assume "\<not> \<not> i < length leaves" "length leaves \<noteq> 1" "k = split_point (length leaves)"
  moreover then have "leaves \<noteq> []" by auto
  ultimately show "((sha, take k leaves, i), sha, leaves, i) \<in> measure (length \<circ> fst \<circ> snd)"
    "((sha, drop k leaves, i - k), sha, leaves, i) \<in> measure (length \<circ> fst \<circ> snd)"
    using halves_shorter [of leaves] by simp_all
qed simp_all

declare audit_path_nat.simps [simp del]

definition audit_path :: "(bytes \<Rightarrow> bytes) \<Rightarrow> string list \<Rightarrow> int \<Rightarrow> py_error + string list" where
  "audit_path sha leaves index = (if index < 0 then Inl IndexError else audit_path_nat sha leaves (nat index))"

section \<open>Verification\<close>

text \<open>The inner loop \<^verbatim>\<open>while not fn & 1 and fn != 0\<close>.\<close>

fun strip_even :: "nat \<Rightarrow> nat \<Rightarrow> nat \<times> nat" where
  "strip_even fn sn = (if even fn \<and> fn \<noteq> 0 then strip_even (fn div 2) (sn div 2) else (fn, sn))"

declare strip_even.simps [simp del]

text \<open>The loop over the siblings; \<open>None\<close> is an early \<^verbatim>\<open>return False\<close> (also from the \<^verbatim>\<open>except\<close>).\<close>

fun verify_loop :: "(bytes \<Rightarrow> bytes) \<Rightarrow> nat \<Rightarrow> nat \<Rightarrow> string \<Rightarrow> string list \<Rightarrow> (nat \<times> string) option" where
  "verify_loop sha fn sn result [] = Some (sn, result)"
| "verify_loop sha fn sn result (sibling # path) =
    (if sn = 0 then None
     else if odd fn \<or> fn = sn then
       (case node sha sibling result of
          Inl _ \<Rightarrow> None
        | Inr result' \<Rightarrow>
            (case strip_even fn sn of (fn', sn') \<Rightarrow> verify_loop sha (fn' div 2) (sn' div 2) result' path))
     else
       (case node sha result sibling of
          Inl _ \<Rightarrow> None
        | Inr result' \<Rightarrow> verify_loop sha (fn div 2) (sn div 2) result' path))"

definition verify_path :: "(bytes \<Rightarrow> bytes) \<Rightarrow> string \<Rightarrow> int \<Rightarrow> int \<Rightarrow> string list \<Rightarrow> string \<Rightarrow> bool" where
  "verify_path sha leaf index tree_size path root =
    (if \<not> (0 \<le> index \<and> index < tree_size) then False
     else case verify_loop sha (nat index) (nat (tree_size - 1)) leaf path of
       None \<Rightarrow> False
     | Some (sn, result) \<Rightarrow> sn = 0 \<and> result = root)"

section \<open>The loop walks the tree\<close>

text \<open>
  \<open>loop_sides\<close> lists, from the leaf up, on which side the loop takes the sibling (\<open>True\<close>: left);
  \<open>tree_sides\<close> lists where the recursive tree has it.
\<close>

lemma strip_even_le: "strip_even fn sn = (fn', sn') \<Longrightarrow> sn' \<le> sn"
proof (induction fn sn arbitrary: fn' sn' rule: strip_even.induct)
  case (1 fn sn)
  show ?case
  proof (cases "even fn \<and> fn \<noteq> 0")
    case True
    with 1 have "sn' \<le> sn div 2" by (simp add: strip_even.simps [of fn])
    then show ?thesis by simp
  next
    case False
    with 1 show ?thesis by (auto simp: strip_even.simps [of fn])
  qed
qed

lemma strip_even_half: "strip_even fn sn = (fn', sn') \<Longrightarrow> 0 < sn \<Longrightarrow> sn' div 2 < sn"
  using strip_even_le [of fn sn fn' sn'] by simp

lemma half_arith:
  "0 < (p::nat) \<Longrightarrow> (2 * p - 1) div 2 = p - 1" "(n - 2 * p) div 2 = n div 2 - p" "0 < p \<Longrightarrow> odd (2 * p - 1)"
  by presburger+

function loop_sides :: "nat \<Rightarrow> nat \<Rightarrow> bool list" where
  "loop_sides fn sn =
    (if sn = 0 then []
     else if odd fn \<or> fn = sn then
       (case strip_even fn sn of (fn', sn') \<Rightarrow> True # loop_sides (fn' div 2) (sn' div 2))
     else False # loop_sides (fn div 2) (sn div 2))"
  by pat_completeness auto
termination
  by (relation "measure snd") (auto dest: strip_even_half [OF sym])

declare loop_sides.simps [simp del]

lemma loop_sides_0 [simp]: "loop_sides fn 0 = []"
  by (simp add: loop_sides.simps)

lemma strip_odd [simp]: "odd fn \<Longrightarrow> strip_even fn sn = (fn, sn)"
  by (simp add: strip_even.simps)

lemma loop_sides_odd: "odd fn \<Longrightarrow> sn \<noteq> 0 \<Longrightarrow> loop_sides fn sn = True # loop_sides (fn div 2) (sn div 2)"
  by (simp add: loop_sides.simps [of fn])

lemma loop_sides_even: "even fn \<Longrightarrow> fn \<noteq> sn \<Longrightarrow> sn \<noteq> 0 \<Longrightarrow> loop_sides fn sn = False # loop_sides (fn div 2) (sn div 2)"
  by (simp add: loop_sides.simps [of fn])

lemma loop_sides_last:
  assumes "even fn" "fn \<noteq> 0"
  shows "loop_sides fn fn = loop_sides (fn div 2) (fn div 2)"
proof -
  have "strip_even fn fn = strip_even (fn div 2) (fn div 2)" using assms by (subst strip_even.simps) simp
  moreover have "fn div 2 \<noteq> 0" using assms by (auto elim: evenE)
  ultimately show ?thesis
    using assms by (simp add: loop_sides.simps [of fn] loop_sides.simps [of "fn div 2"])
qed

lemma loop_sides_left:
  "2 ^ m \<le> sn \<Longrightarrow> sn < 2 ^ Suc m \<Longrightarrow> fn < 2 ^ m \<Longrightarrow> loop_sides fn sn = loop_sides fn (2 ^ m - 1) @ [False]"
proof (induction m arbitrary: fn sn)
  case 0
  then have "fn = 0" "sn = 1" by auto
  then show ?case by (simp add: loop_sides_even)
next
  case (Suc m)
  let ?k = "2 ^ Suc m - 1 :: nat"
  have k: "?k div 2 = 2 ^ m - 1" "?k \<noteq> 0" "odd ?k"
  proof -
    have p: "0 < (2 ^ m :: nat)" by simp
    show "?k div 2 = 2 ^ m - 1" "odd ?k" using half_arith(1,3) [OF p] by simp_all
    then show "?k \<noteq> 0" by (metis even_zero)
  qed
  have half: "2 ^ m \<le> sn div 2" "sn div 2 < 2 ^ Suc m" "fn div 2 < 2 ^ m" using Suc.prems by auto
  note IH = Suc.IH [OF half]
  have sn: "sn \<noteq> 0" using Suc.prems(1) by (metis le_zero_eq power_not_zero zero_neq_numeral)
  show ?case
  proof (cases "odd fn")
    case True
    from True sn have "loop_sides fn sn = True # loop_sides (fn div 2) (sn div 2)" by (rule loop_sides_odd)
    moreover from True k(2) have "loop_sides fn ?k = True # loop_sides (fn div 2) (?k div 2)" by (rule loop_sides_odd)
    ultimately show ?thesis using IH by (simp only: k(1) append_Cons)
  next
    case False
    then have "fn \<noteq> ?k" using k(3) by metis
    with False k(2) have "loop_sides fn ?k = False # loop_sides (fn div 2) (?k div 2)" by (simp add: loop_sides_even)
    moreover have "loop_sides fn sn = False # loop_sides (fn div 2) (sn div 2)"
      by (rule loop_sides_even) (use False Suc.prems sn in auto)
    ultimately show ?thesis using IH by (simp only: k(1) append_Cons)
  qed
qed

lemma loop_sides_right:
  "2 ^ m \<le> fn \<Longrightarrow> fn \<le> sn \<Longrightarrow> sn < 2 ^ Suc m \<Longrightarrow> loop_sides fn sn = loop_sides (fn - 2 ^ m) (sn - 2 ^ m) @ [True]"
proof (induction m arbitrary: fn sn)
  case 0
  then have "fn = 1" "sn = 1" by auto
  then show ?case by (simp add: loop_sides_odd)
next
  case (Suc m)
  let ?k = "2 ^ Suc m :: nat"
  have half: "2 ^ m \<le> fn div 2" "fn div 2 \<le> sn div 2" "sn div 2 < 2 ^ Suc m" using Suc.prems by auto
  note IH = Suc.IH [OF half]
  have diff: "(fn - ?k) div 2 = fn div 2 - 2 ^ m" "(sn - ?k) div 2 = sn div 2 - 2 ^ m" by (simp_all add: half_arith(2))
  have par: "even (fn - ?k) = even fn" using Suc.prems(1) by simp
  show ?case
  proof (cases "odd fn")
    case True
    then have "fn \<noteq> ?k" by auto
    then have "sn - ?k \<noteq> 0" "sn \<noteq> 0" using Suc.prems by simp_all
    with True IH diff par show ?thesis by (simp add: loop_sides_odd)
  next
    case ev: False
    show ?thesis
    proof (cases "fn = sn")
      case False
      then have "fn - ?k \<noteq> sn - ?k" "sn - ?k \<noteq> 0" "sn \<noteq> 0" using Suc.prems by auto
      with ev False IH diff par show ?thesis by (simp add: loop_sides_even)
    next
      case True
      have "fn \<noteq> 0" using Suc.prems(1) by (metis le_zero_eq power_not_zero zero_neq_numeral)
      with ev have l: "loop_sides fn fn = loop_sides (fn div 2) (fn div 2)" by (simp add: loop_sides_last)
      have r: "loop_sides (fn - ?k) (fn - ?k) = loop_sides ((fn - ?k) div 2) ((fn - ?k) div 2)"
        by (cases "fn - ?k = 0") (use ev par loop_sides_last [of "fn - ?k"] in auto)
      from IH l r diff True show ?thesis by simp
    qed
  qed
qed

function tree_sides :: "nat \<Rightarrow> nat \<Rightarrow> bool list" where
  "tree_sides i n =
    (if n \<le> 1 then []
     else if i < split_point n then tree_sides i (split_point n) @ [False]
     else tree_sides (i - split_point n) (n - split_point n) @ [True])"
  by pat_completeness auto
termination
  by (relation "measure snd") (use split_point_less in \<open>auto simp: not_le Suc_le_eq numeral_2_eq_2\<close>)

declare tree_sides.simps [simp del]

lemma loop_sides_tree: "i < n \<Longrightarrow> loop_sides i (n - 1) = tree_sides i n"
proof (induction i n rule: tree_sides.induct)
  case (1 i n)
  show ?case
  proof (cases "n \<le> 1")
    case True
    with 1 show ?thesis by (simp add: tree_sides.simps)
  next
    case False
    then have n: "2 \<le> n" by simp
    then obtain m where m: "split_point n = 2 ^ m" "2 ^ m \<le> n - 1" "n - 1 < 2 ^ Suc m" by (rule split_point_bounds)
    show ?thesis
    proof (cases "i < split_point n")
      case True
      with False 1 m loop_sides_left [OF m(2,3), of i] show ?thesis by (simp add: tree_sides.simps [of i n])
    next
      case ge: False
      then have "loop_sides i (n - 1) = loop_sides (i - 2 ^ m) (n - 1 - 2 ^ m) @ [True]"
        using 1 m by (intro loop_sides_right) auto
      moreover have "loop_sides (i - split_point n) (n - split_point n - 1) = tree_sides (i - split_point n) (n - split_point n)"
        using 1 False ge by auto
      moreover have "n - split_point n - 1 = n - 1 - 2 ^ m" using m(1) by simp
      ultimately show ?thesis using False ge m(1) by (simp add: tree_sides.simps [of i n])
    qed
  qed
qed

section \<open>Climbing a path\<close>

definition join :: "(bytes \<Rightarrow> bytes) \<Rightarrow> bool \<Rightarrow> string \<Rightarrow> string \<Rightarrow> py_error + string" where
  "join sha side sibling result = (if side then node sha sibling result else node sha result sibling)"

fun climb :: "(bytes \<Rightarrow> bytes) \<Rightarrow> bool list \<Rightarrow> string list \<Rightarrow> string \<Rightarrow> string option" where
  "climb sha [] [] r = Some r"
| "climb sha (s # ss) (x # xs) r = (case join sha s x r of Inl _ \<Rightarrow> None | Inr r' \<Rightarrow> climb sha ss xs r')"
| "climb sha _ _ r = None"

lemma climb_snoc:
  "climb sha (ss @ [s]) (xs @ [x]) r =
    (case climb sha ss xs r of None \<Rightarrow> None
     | Some r' \<Rightarrow> (case join sha s x r' of Inl _ \<Rightarrow> None | Inr q \<Rightarrow> Some q))"
proof (induction ss arbitrary: xs r)
  case Nil
  show ?case
  proof (cases xs)
    case (Cons x' xs')
    then show ?thesis by (cases xs') (auto split: sum.split)
  qed (auto split: sum.split)
next
  case (Cons s' ss)
  show ?case
  proof (cases xs)
    case Nil
    then show ?thesis by (cases ss) (auto split: sum.split)
  qed (use Cons.IH in \<open>auto split: sum.split\<close>)
qed

lemma climb_length: "climb sha ss xs r = Some q \<Longrightarrow> length xs = length ss"
  by (induction sha ss xs r rule: climb.induct) (auto split: sum.splits)

lemma verify_loop_climb:
  "(case verify_loop sha fn sn r path of None \<Rightarrow> False | Some (sn', q') \<Rightarrow> sn' = 0 \<and> q' = q) \<longleftrightarrow>
   climb sha (loop_sides fn sn) path r = Some q"
proof (induction sha fn sn r path rule: verify_loop.induct)
  case (1 sha fn sn r)
  show ?case
  proof (cases "loop_sides fn sn")
    case Nil
    then have "sn = 0" by (auto simp: loop_sides.simps [of fn sn] split: if_splits prod.splits)
    then show ?thesis by simp
  next
    case (Cons s ss)
    then have "sn \<noteq> 0" by (metis loop_sides_0 list.distinct(1))
    with Cons show ?thesis by simp
  qed
next
  case (2 sha fn sn r x xs)
  show ?case
  proof (cases "sn = 0")
    case True
    then show ?thesis by simp
  next
    case False
    show ?thesis
    proof (cases "odd fn \<or> fn = sn")
      case True
      obtain fn' sn' where st: "strip_even fn sn = (fn', sn')" by fastforce
      from False True st have sides: "loop_sides fn sn = True # loop_sides (fn' div 2) (sn' div 2)"
        by (subst loop_sides.simps) auto
      with 2 False True st show ?thesis by (simp add: join_def split: sum.split)
    next
      case even: False
      with False have sides: "loop_sides fn sn = False # loop_sides (fn div 2) (sn div 2)"
        by (subst loop_sides.simps) auto
      with 2 False even show ?thesis by (simp add: join_def split: sum.split)
    qed
  qed
qed

lemma verify_path_climb:
  "verify_path sha leaf index n path root \<longleftrightarrow>
   0 \<le> index \<and> index < n \<and> climb sha (tree_sides (nat index) (nat n)) path leaf = Some root"
proof (cases "0 \<le> index \<and> index < n")
  case True
  then have "nat index < nat n" "nat (n - 1) = nat n - 1" by auto
  with True loop_sides_tree [of "nat index" "nat n"] verify_loop_climb [where sha = sha and fn = "nat index" and sn = "nat (n - 1)" and r = leaf and path = path and q = root]
  show ?thesis by (simp add: verify_path_def)
qed (auto simp: verify_path_def)

section \<open>Completeness\<close>

lemma node_hex:
  assumes "sha256_digest sha" "hash_hex l" "hash_hex r"
  obtains q where "node sha l r = Inr q" "hash_hex q"
proof -
  obtain a b where ab: "fromhex l = Some a" "fromhex r = Some b" using assms(2,3) by (auto simp: hash_hex_def)
  have "hash_hex (hexlify (sha (node_preimage a b)))"
    using assms(1) fromhex_hexlify by (auto simp: hash_hex_def sha256_digest_def)
  with ab that show thesis by (simp add: node_def)
qed

lemma merkle_root_hex:
  "sha256_digest sha \<Longrightarrow> leaves \<noteq> [] \<Longrightarrow> \<forall>l \<in> set leaves. hash_hex l \<Longrightarrow> \<exists>root. merkle_root sha leaves = Inr root \<and> hash_hex root"
proof (induction sha leaves rule: merkle_root.induct)
  case (1 sha leaves)
  show ?case
  proof (cases "length leaves = 1")
    case True
    with 1 show ?thesis by (cases leaves) (auto simp: merkle_root.simps)
  next
    case False
    let ?k = "split_point (length leaves)"
    have "2 \<le> length leaves" using False 1 by (cases leaves) (auto simp: Suc_le_eq)
    then have k: "0 < ?k" "?k < length leaves" using split_point_less by auto
    have "\<forall>l \<in> set (take ?k leaves). hash_hex l" "\<forall>l \<in> set (drop ?k leaves). hash_hex l"
      using 1 by (auto dest: in_set_takeD in_set_dropD)
    with 1 False k obtain l r where lr: "merkle_root sha (take ?k leaves) = Inr l" "merkle_root sha (drop ?k leaves) = Inr r"
      "hash_hex l" "hash_hex r" by force
    obtain q where "node sha l r = Inr q" "hash_hex q" by (rule node_hex [OF 1(3) lr(3,4)])
    with lr False 1 show ?thesis by (simp add: merkle_root.simps [of sha leaves] Let_def)
  qed
qed

lemma two_leaves: "i < length xs \<Longrightarrow> length xs \<noteq> 1 \<Longrightarrow> 2 \<le> length xs"
  by (cases xs) (auto simp: Suc_le_eq)

lemma merkle_root_split:
  assumes "2 \<le> length leaves"
  shows "merkle_root sha leaves =
    bindE (merkle_root sha (take (split_point (length leaves)) leaves)) (\<lambda>l.
    bindE (merkle_root sha (drop (split_point (length leaves)) leaves)) (\<lambda>r. node sha l r))"
  using assms by (subst merkle_root.simps) (auto simp: Let_def)

lemma audit_path_climbs:
  assumes "sha256_digest sha"
  shows "i < length leaves \<Longrightarrow> \<forall>l \<in> set leaves. hash_hex l \<Longrightarrow>
    \<exists>path root. audit_path_nat sha leaves i = Inr path \<and> merkle_root sha leaves = Inr root \<and>
      climb sha (tree_sides i (length leaves)) path (leaves ! i) = Some root"
proof (induction "length leaves" arbitrary: leaves i rule: less_induct)
  case less
  show ?case
  proof (cases "length leaves = 1")
    case True
    with less.prems show ?thesis
      by (cases leaves) (auto simp: audit_path_nat.simps merkle_root.simps tree_sides.simps)
  next
    case False
    let ?k = "split_point (length leaves)"
    have two: "2 \<le> length leaves" by (rule two_leaves [OF less.prems(1) False])
    then have k: "0 < ?k" "?k < length leaves" using split_point_less by auto
    have hex: "\<forall>l \<in> set (take ?k leaves). hash_hex l" "\<forall>l \<in> set (drop ?k leaves). hash_hex l"
      using less.prems(2) by (auto dest: in_set_takeD in_set_dropD)
    obtain l where l: "merkle_root sha (take ?k leaves) = Inr l" "hash_hex l"
      using merkle_root_hex [OF assms _ hex(1)] k by force
    obtain r where r: "merkle_root sha (drop ?k leaves) = Inr r" "hash_hex r"
      using merkle_root_hex [OF assms _ hex(2)] k by force
    obtain q where q: "node sha l r = Inr q" by (rule node_hex [OF assms l(2) r(2)])
    have root: "merkle_root sha leaves = Inr q" using merkle_root_split [OF two] l r q by simp
    show ?thesis
    proof (cases "i < ?k")
      case True
      then obtain p where p: "audit_path_nat sha (take ?k leaves) i = Inr p"
        "climb sha (tree_sides i ?k) p (leaves ! i) = Some l"
        using less.hyps [of "take ?k leaves" i] k hex(1) l(1) by (auto simp: min_def)
      then have "audit_path_nat sha leaves i = Inr (p @ [r])"
        using True False less.prems r(1) by (simp add: audit_path_nat.simps [of sha leaves i] Let_def)
      moreover have "tree_sides i (length leaves) = tree_sides i ?k @ [False]"
        using True two by (simp add: tree_sides.simps [of i "length leaves"])
      ultimately show ?thesis using p(2) q root by (simp add: climb_snoc join_def)
    next
      case ge: False
      have shorter: "length leaves - ?k < length leaves" "i - ?k < length leaves - ?k"
        using ge k less.prems(1) by simp_all
      with ge obtain p where p: "audit_path_nat sha (drop ?k leaves) (i - ?k) = Inr p"
        "climb sha (tree_sides (i - ?k) (length leaves - ?k)) p (leaves ! i) = Some r"
        using less.hyps [of "drop ?k leaves" "i - ?k"] k hex(2) r(1) less.prems(1) by auto
      then have "audit_path_nat sha leaves i = Inr (p @ [l])"
        using ge False less.prems l(1) by (simp add: audit_path_nat.simps [of sha leaves i] Let_def)
      moreover have "tree_sides i (length leaves) = tree_sides (i - ?k) (length leaves - ?k) @ [True]"
        using ge two by (simp add: tree_sides.simps [of i "length leaves"])
      ultimately show ?thesis using p(2) q root by (simp add: climb_snoc join_def)
    qed
  qed
qed

section \<open>Soundness\<close>

text \<open>The preimages hashed by the tree over \<open>leaves\<close>, and those hashed while climbing a path.\<close>

definition node_input :: "string \<Rightarrow> string \<Rightarrow> bytes option" where
  "node_input left right =
    (case (fromhex left, fromhex right) of (Some l, Some r) \<Rightarrow> Some (node_preimage l r) | _ \<Rightarrow> None)"

function tree_preimages :: "(bytes \<Rightarrow> bytes) \<Rightarrow> string list \<Rightarrow> bytes set" where
  "tree_preimages sha leaves =
    (if length leaves \<le> 1 then {}
     else
       (let k = split_point (length leaves) in
        tree_preimages sha (take k leaves) \<union> tree_preimages sha (drop k leaves) \<union>
        (case (merkle_root sha (take k leaves), merkle_root sha (drop k leaves)) of
           (Inr l, Inr r) \<Rightarrow> set_option (node_input l r)
         | _ \<Rightarrow> {})))"
  by pat_completeness auto
termination
proof (relation "measure (length \<circ> snd)")
  fix sha :: "bytes \<Rightarrow> bytes" and leaves :: "string list" and k :: nat
  assume "\<not> length leaves \<le> 1" "k = split_point (length leaves)"
  moreover then have "leaves \<noteq> []" by auto
  ultimately show "((sha, take k leaves), sha, leaves) \<in> measure (length \<circ> snd)"
    "((sha, drop k leaves), sha, leaves) \<in> measure (length \<circ> snd)"
    using halves_shorter [of leaves] by simp_all
qed simp

declare tree_preimages.simps [simp del]

fun path_preimages :: "(bytes \<Rightarrow> bytes) \<Rightarrow> bool list \<Rightarrow> string list \<Rightarrow> string \<Rightarrow> bytes set" where
  "path_preimages sha (s # ss) (x # xs) r =
    set_option (if s then node_input x r else node_input r x) \<union>
    (case join sha s x r of Inl _ \<Rightarrow> {} | Inr r' \<Rightarrow> path_preimages sha ss xs r')"
| "path_preimages sha _ _ r = {}"

lemma path_preimages_snoc:
  "climb sha ss xs r = Some r' \<Longrightarrow>
   path_preimages sha (ss @ [s]) (xs @ [x]) r =
     path_preimages sha ss xs r \<union> set_option (if s then node_input x r' else node_input r' x)"
  by (induction sha ss xs r rule: climb.induct) (auto split: sum.splits)

definition collision :: "(bytes \<Rightarrow> bytes) \<Rightarrow> bytes set \<Rightarrow> bytes set \<Rightarrow> bool" where
  "collision sha A B \<longleftrightarrow> (\<exists>x \<in> A. \<exists>y \<in> B. x \<noteq> y \<and> sha x = sha y)"

lemma collision_Un:
  "collision sha (A \<union> A') B \<longleftrightarrow> collision sha A B \<or> collision sha A' B"
  "collision sha A (B \<union> B') \<longleftrightarrow> collision sha A B \<or> collision sha A B'"
  unfolding collision_def by blast+

lemma node_InrD:
  assumes "node sha l r = Inr q"
  obtains a b where "fromhex l = Some a" "fromhex r = Some b" "node_input l r = Some (node_preimage a b)"
    "q = hexlify (sha (node_preimage a b))"
  using assms by (auto simp: node_def node_input_def split: option.splits)

lemma node_hash_hex:
  assumes "sha256_digest sha" "node sha l r = Inr q"
  shows "hash_hex q"
proof -
  from assms(2) obtain a b where "q = hexlify (sha (node_preimage a b))" by (rule node_InrD)
  with assms(1) show ?thesis using fromhex_hexlify by (auto simp: hash_hex_def sha256_digest_def)
qed

lemma climb_hash:
  "sha256_digest sha \<Longrightarrow> climb sha ss xs r = Some q \<Longrightarrow> hash_hex r \<Longrightarrow> hash_hex q"
proof (induction sha ss xs r rule: climb.induct)
  case (2 sha s ss x xs r)
  then obtain r' where r': "join sha s x r = Inr r'" "climb sha ss xs r' = Some q" by (auto split: sum.splits)
  have "hash_hex r'" using r'(1) node_hash_hex [OF 2(2)] by (auto simp: join_def split: if_splits)
  with 2 r' show ?case by simp
qed auto

text \<open>
  Two nodes with the same digest whose known halves are hashes have the same halves, or their
  preimages collide.
\<close>

lemma same_node:
  assumes "sha256_digest sha" "node sha l r = Inr q" "node sha l' r' = Inr q'" "fromhex q = fromhex q'"
    and "hash_hex l \<and> hash_hex l' \<or> hash_hex r \<and> hash_hex r'"
  shows "fromhex l = fromhex l' \<and> fromhex r = fromhex r' \<or>
    collision sha (set_option (node_input l r)) (set_option (node_input l' r'))"
proof -
  from assms(2) obtain a b where ab: "fromhex l = Some a" "fromhex r = Some b" "node_input l r = Some (node_preimage a b)"
    "q = hexlify (sha (node_preimage a b))" by (rule node_InrD)
  from assms(3) obtain a' b' where ab': "fromhex l' = Some a'" "fromhex r' = Some b'"
    "node_input l' r' = Some (node_preimage a' b')" "q' = hexlify (sha (node_preimage a' b'))" by (rule node_InrD)
  have eq: "sha (node_preimage a b) = sha (node_preimage a' b')"
    using assms(1,4) ab(4) ab'(4) fromhex_hexlify by (simp add: sha256_digest_def)
  show ?thesis
  proof (cases "node_preimage a b = node_preimage a' b'")
    case True
    then have "a @ b = a' @ b'" by (simp add: node_preimage_def)
    moreover have "length a = length a' \<or> length b = length b'"
      using assms(5) ab(1,2) ab'(1,2) by (auto simp: hash_hex_def)
    ultimately show ?thesis using ab(1,2) ab'(1,2) by auto
  next
    case False
    with eq ab(3) ab'(3) show ?thesis by (auto simp: collision_def)
  qed
qed

lemma tree_preimages_split:
  assumes "2 \<le> length leaves" "merkle_root sha (take (split_point (length leaves)) leaves) = Inr l"
    and "merkle_root sha (drop (split_point (length leaves)) leaves) = Inr r"
  shows "tree_preimages sha leaves = tree_preimages sha (take (split_point (length leaves)) leaves) \<union>
    tree_preimages sha (drop (split_point (length leaves)) leaves) \<union> set_option (node_input l r)"
  using assms by (simp add: tree_preimages.simps [of sha leaves] Let_def)

text \<open>The last step of a path: it yields one half of the root, or a collision.\<close>

lemma last_join_sound:
  assumes "sha256_digest sha" "join sha side x y = Inr q" "node sha l r = Inr root" "fromhex q = fromhex root"
    and "hash_hex y" "hash_hex l" "hash_hex r"
  shows "fromhex y = fromhex (if side then r else l) \<or>
    collision sha (set_option (if side then node_input x y else node_input y x)) (set_option (node_input l r))"
proof (cases side)
  case True
  with assms(2) have "node sha x y = Inr q" by (simp add: join_def)
  from same_node [OF assms(1) this assms(3,4)] assms(5-7) True show ?thesis by simp blast
next
  case False
  with assms(2) have "node sha y x = Inr q" by (simp add: join_def)
  from same_node [OF assms(1) this assms(3,4)] assms(5-7) False show ?thesis by simp blast
qed

lemma climb_sound:
  assumes sha: "sha256_digest sha"
  shows "i < length leaves \<Longrightarrow> \<forall>l \<in> set leaves. hash_hex l \<Longrightarrow> hash_hex leaf \<Longrightarrow> merkle_root sha leaves = Inr root \<Longrightarrow>
    climb sha (tree_sides i (length leaves)) path leaf = Some q \<Longrightarrow> fromhex q = fromhex root \<Longrightarrow>
    fromhex leaf = fromhex (leaves ! i) \<or>
    collision sha (path_preimages sha (tree_sides i (length leaves)) path leaf) (tree_preimages sha leaves)"
proof (induction "length leaves" arbitrary: leaves i path q root rule: less_induct)
  case less
  show ?case
  proof (cases "length leaves = 1")
    case True
    with less.prems(1) obtain l where "leaves = [l]" "i = 0" by (cases leaves) auto
    with less.prems show ?thesis by (cases path) (auto simp: tree_sides.simps merkle_root.simps)
  next
    case False
    let ?k = "split_point (length leaves)"
    have two: "2 \<le> length leaves" by (rule two_leaves [OF less.prems(1) False])
    then have k: "0 < ?k" "?k < length leaves" using split_point_less by auto
    define side where "side = (\<not> i < ?k)"
    define part where "part = (if side then drop ?k leaves else take ?k leaves)"
    define j where "j = (if side then i - ?k else i)"
    have part: "length part < length leaves" "j < length part" "part ! j = leaves ! i" "\<forall>l \<in> set part. hash_hex l"
      using k less.prems(1,2) by (auto simp: part_def j_def side_def dest: in_set_takeD in_set_dropD)
    have sides: "tree_sides i (length leaves) = tree_sides j (length part) @ [side]"
      using two k by (simp add: tree_sides.simps [of i "length leaves"] part_def j_def side_def)
    obtain l r where lr: "merkle_root sha (take ?k leaves) = Inr l" "merkle_root sha (drop ?k leaves) = Inr r"
      "node sha l r = Inr root"
      using less.prems(4) merkle_root_split [OF two, of sha] by (auto simp: bindE_eq_Inr_iff)
    have hex: "hash_hex l" "hash_hex r"
      using merkle_root_hex [OF sha, of "take ?k leaves"] merkle_root_hex [OF sha, of "drop ?k leaves"] k lr(1,2) less.prems(2)
      by (force dest: in_set_takeD in_set_dropD)+
    have root: "merkle_root sha part = Inr (if side then r else l)" using lr(1,2) by (simp add: part_def)
    have pre: "tree_preimages sha part \<subseteq> tree_preimages sha leaves" "set_option (node_input l r) \<subseteq> tree_preimages sha leaves"
      using tree_preimages_split [OF two lr(1,2)] by (auto simp: part_def)
    from sides obtain p x where path: "path = p @ [x]"
      using climb_length [OF less.prems(5)] by (cases path rule: rev_cases) auto
    from less.prems(5) obtain y where y: "climb sha (tree_sides j (length part)) p leaf = Some y" "join sha side x y = Inr q"
      unfolding sides path climb_snoc by (auto split: option.splits sum.splits)
    note ppre = path_preimages_snoc [OF y(1), of side x, folded sides path]
    from last_join_sound [OF sha y(2) lr(3) less.prems(6) climb_hash [OF sha y(1) less.prems(3)] hex]
    show ?thesis
    proof
      assume "fromhex y = fromhex (if side then r else l)"
      from less.hyps [OF part(1,2,4) less.prems(3) root y(1) this] part(3) pre(1) show ?thesis
        unfolding ppre collision_Un by (auto simp: collision_def)
    next
      assume "collision sha (set_option (if side then node_input x y else node_input y x)) (set_option (node_input l r))"
      with pre(2) show ?thesis unfolding ppre collision_Un by (auto simp: collision_def)
    qed
  qed
qed

section \<open>Properties\<close>

text \<open>
  C37. Every audit path verifies: for a tree over any positive number of leaves that are hex strings of
  32 bytes, the root and the path of every leaf are computed without an error and the verifier accepts
  the leaf at its index.
\<close>

theorem audit_path_verifies:
  assumes "sha256_digest sha" "\<forall>l \<in> set leaves. hash_hex l" "0 \<le> index" "index < int (length leaves)"
  shows "\<exists>path root. merkle_root sha leaves = Inr root \<and> audit_path sha leaves index = Inr path \<and>
    verify_path sha (leaves ! nat index) index (int (length leaves)) path root"
proof -
  have "nat index < length leaves" using assms(3,4) by linarith
  from audit_path_climbs [OF assms(1) this assms(2)] obtain path root where
    "audit_path_nat sha leaves (nat index) = Inr path" "merkle_root sha leaves = Inr root"
    "climb sha (tree_sides (nat index) (length leaves)) path (leaves ! nat index) = Some root" by blast
  with assms(3,4) show ?thesis by (auto simp: audit_path_def verify_path_climb)
qed

definition demo_sha :: "bytes \<Rightarrow> bytes" where
  "demo_sha x = replicate 31 0 @ [length x mod 256]"

definition demo_leaf :: "nat \<Rightarrow> string" where
  "demo_leaf n = hexlify (replicate 32 n)"

lemma demo_sha_digest: "sha256_digest demo_sha"
  by (auto simp: sha256_digest_def demo_sha_def is_byte_list_def)

lemma demo_leaf_hash: "n < 256 \<Longrightarrow> hash_hex (demo_leaf n)"
  by (auto simp: hash_hex_def demo_leaf_def fromhex_hexlify is_byte_list_def)

theorem audit_path_verifies_witness:
  "\<exists>path root. merkle_root demo_sha [demo_leaf 1, demo_leaf 2, demo_leaf 3] = Inr root \<and>
     verify_path demo_sha (demo_leaf 3) 2 3 path root"
  using audit_path_verifies [OF demo_sha_digest, of "[demo_leaf 1, demo_leaf 2, demo_leaf 3]" 2]
  by (auto simp: demo_leaf_hash)

text \<open>
  C38. An accepted proof is about the leaf the tree has: if the verifier accepts a 32-byte leaf at an
  index of a tree for that tree's root, the leaf is the one the tree has at that index, or one of the
  preimages hashed by the verifier and one hashed by the tree are a collision of the hash function.
\<close>

theorem verify_path_sound:
  assumes "sha256_digest sha" "\<forall>l \<in> set leaves. hash_hex l" "hash_hex leaf"
    and "merkle_root sha leaves = Inr root" "verify_path sha leaf index (int (length leaves)) path root"
  shows "fromhex leaf = fromhex (leaves ! nat index) \<or>
    collision sha (path_preimages sha (tree_sides (nat index) (length leaves)) path leaf) (tree_preimages sha leaves)"
proof -
  from assms(5) have "0 \<le> index" "index < int (length leaves)"
    and c: "climb sha (tree_sides (nat index) (length leaves)) path leaf = Some root"
    by (auto simp: verify_path_climb)
  then have "nat index < length leaves" by linarith
  from climb_sound [OF assms(1) this assms(2-4) c] show ?thesis by simp
qed

theorem verify_path_sound_witness:
  "\<exists>root path. verify_path demo_sha (demo_leaf 1) 0 2 path root \<and>
     (fromhex (demo_leaf 1) = fromhex ([demo_leaf 1, demo_leaf 2] ! nat 0) \<or>
      collision demo_sha (path_preimages demo_sha (tree_sides (nat 0) 2) path (demo_leaf 1))
        (tree_preimages demo_sha [demo_leaf 1, demo_leaf 2]))"
proof -
  let ?ls = "[demo_leaf 1, demo_leaf 2]"
  have hex: "\<forall>l \<in> set ?ls. hash_hex l" by (simp add: demo_leaf_hash)
  obtain path root where p: "merkle_root demo_sha ?ls = Inr root" "climb demo_sha (tree_sides 0 (length ?ls)) path (?ls ! 0) = Some root"
    using audit_path_climbs [OF demo_sha_digest, of 0 ?ls] hex by auto
  then have v: "verify_path demo_sha (demo_leaf 1) 0 (int (length ?ls)) path root"
    by (simp add: verify_path_climb numeral_2_eq_2)
  from verify_path_sound [OF demo_sha_digest hex _ p(1) v] v show ?thesis
    by (auto simp: demo_leaf_hash numeral_2_eq_2)
qed

text \<open>
  The verifier does not check the size of the leaf and the siblings. Without the hypothesis that the
  leaf has 32 bytes the proof binds only the concatenation: moving the first byte of the sibling to the
  end of the leaf gives another pair that verifies for the same root.
\<close>

lemma verify_path_unsized_leaf:
  assumes "is_byte_list (l @ b # r)" "merkle_root sha [hexlify l, hexlify (b # r)] = Inr root"
  shows "verify_path sha (hexlify (l @ [b])) 0 2 [hexlify r] root \<and> hexlify (l @ [b]) \<noteq> hexlify l"
proof -
  have bytes: "is_byte_list l" "is_byte_list (b # r)" "is_byte_list (l @ [b])" "is_byte_list r"
    using assms(1) by (auto simp: is_byte_list_def)
  have two: "split_point 2 = 1" by (simp add: split_point_def bit_length.simps)
  have "node sha (hexlify l) (hexlify (b # r)) = Inr root"
    using assms(2) merkle_root_split [of "[hexlify l, hexlify (b # r)]" sha] two
    by (simp add: merkle_root.simps [of sha "[x]" for x] numeral_2_eq_2)
  then have "root = hexlify (sha (node_preimage l (b # r)))"
    using fromhex_hexlify [OF bytes(1)] fromhex_hexlify [OF bytes(2)] by (simp add: node_def)
  moreover have "node sha (hexlify (l @ [b])) (hexlify r) = Inr (hexlify (sha (node_preimage l (b # r))))"
    using fromhex_hexlify [OF bytes(3)] fromhex_hexlify [OF bytes(4)] by (simp add: node_def node_preimage_def)
  moreover have "tree_sides 0 2 = [False]" by (simp add: tree_sides.simps two)
  ultimately have "verify_path sha (hexlify (l @ [b])) 0 2 [hexlify r] root" by (simp add: verify_path_climb join_def)
  moreover have "hexlify (l @ [b]) \<noteq> hexlify l" by (simp add: hexlify_def)
  ultimately show ?thesis by simp
qed

definition leaf_preimage :: "int \<Rightarrow> (string \<times> json_value) list \<Rightarrow> string \<Rightarrow> bytes" where
  "leaf_preimage version flds salt =
    0 # map of_char (CHR ''{'' # json_members (sort_key fst (flds @ [(''v'', JInt version), (''salt'', JStr salt)])))"

lemma leaf_hash_InrD:
  assumes "leaf_hash sha version flds salt = Inr h"
  shows "h = hexlify (sha (leaf_preimage version flds salt))" "filter (\<lambda>kv. fst kv \<notin> {''v'', ''salt''}) flds = flds"
proof -
  show "h = hexlify (sha (leaf_preimage version flds salt))"
    using assms by (auto simp: leaf_hash_def canonical_json_def leaf_preimage_def Let_def split: if_splits)
  from assms have "\<not> (\<exists>k \<in> set (map fst flds). k = ''v'' \<or> k = ''salt'')"
    by (auto simp: leaf_hash_def split: if_splits)
  then show "filter (\<lambda>kv. fst kv \<notin> {''v'', ''salt''}) flds = flds" by (auto intro!: filter_True)
qed

lemma leaf_preimage_inj:
  assumes "leaf_preimage v f s = leaf_preimage v' f' s'"
    and "filter (\<lambda>kv. fst kv \<notin> {''v'', ''salt''}) f = f" "filter (\<lambda>kv. fst kv \<notin> {''v'', ''salt''}) f' = f'"
  shows "v = v' \<and> s = s' \<and> sort_key fst f = sort_key fst f'"
proof -
  let ?p = "\<lambda>kv :: string \<times> json_value. fst kv \<notin> {''v'', ''salt''}"
  let ?o = "f @ [(''v'', JInt v), (''salt'', JStr s)]" and ?o' = "f' @ [(''v'', JInt v'), (''salt'', JStr s')]"
  have "map of_char (json_members (sort_key fst ?o)) = (map of_char (json_members (sort_key fst ?o')) :: nat list)"
    using assms(1) by (simp add: leaf_preimage_def)
  then have "json_members (sort_key fst ?o) = json_members (sort_key fst ?o')"
    by (rule map_injective) (simp add: inj_def)
  then have eq: "sort_key fst ?o = sort_key fst ?o'" by (rule json_members_inj)
  then have "filter ?p (sort_key fst ?o) = filter ?p (sort_key fst ?o')" by simp
  then have "sort_key fst f = sort_key fst f'" using assms(2,3) by (simp add: filter_sort)
  moreover have p: "?p kv" if "kv \<in> set f'" for kv
  proof -
    from that have "kv \<in> set (filter ?p f')" by (simp only: assms(3))
    then show ?thesis by simp
  qed
  have sets: "set ?o = set ?o'" using eq by (metis set_sort)
  have "(''v'', JInt v) \<in> set ?o" "(''salt'', JStr s) \<in> set ?o" by simp_all
  then have mem: "(''v'', JInt v) \<in> set ?o'" "(''salt'', JStr s) \<in> set ?o'" by (simp_all only: sets)
  have "v = v'" using mem(1) p [of "(''v'', JInt v)"] by auto
  moreover have "s = s'" using mem(2) p [of "(''salt'', JStr s)"] by auto
  ultimately show ?thesis by simp
qed

text \<open>
  A leaf commits to its content: two leaves with the same hash have the same version, the same salt
  and the same fields (as the sorted object that is encoded), or their two preimages are a collision of
  the hash function.
\<close>

theorem leaf_hash_binding:
  assumes "sha256_digest sha" "leaf_hash sha v f s = Inr h" "leaf_hash sha v' f' s' = Inr h"
  shows "v = v' \<and> s = s' \<and> sort_key fst f = sort_key fst f' \<or>
    collision sha {leaf_preimage v f s} {leaf_preimage v' f' s'}"
proof -
  have "fromhex h = Some (sha (leaf_preimage v f s))" "fromhex h = Some (sha (leaf_preimage v' f' s'))"
    unfolding leaf_hash_InrD(1) [OF assms(2)]
    using leaf_hash_InrD(1) [OF assms(2)] leaf_hash_InrD(1) [OF assms(3)] assms(1) fromhex_hexlify
    unfolding sha256_digest_def by metis+
  then have "sha (leaf_preimage v f s) = sha (leaf_preimage v' f' s')" by simp
  then show ?thesis
    using leaf_preimage_inj [OF _ leaf_hash_InrD(2) [OF assms(2)] leaf_hash_InrD(2) [OF assms(3)]]
    by (auto simp: collision_def)
qed

lemma demo_leaf_hash_returns:
  "isl (leaf_hash demo_sha 1 [(''org_id'', JStr ''acme'')] (replicate 64 CHR ''0'')) = False"
proof -
  have "sort_key fst [(''org_id'', a), (''v'', b), (''salt'', c)] = [(''org_id'', a), (''salt'', c), (''v'', b)]"
    for a b c :: json_value by simp
  moreover have "is_hex64 (replicate 64 CHR ''0'')" by (simp add: is_hex64_def)
  ultimately show ?thesis
    by (simp add: leaf_hash_def canonical_json_def max_json_container_items_def max_prediction_bytes_def Let_def
        json_string_def json_escape_def length_concat py_str_int_def py_str_nat.simps)
qed

theorem leaf_hash_binding_witness:
  "\<exists>h. leaf_hash demo_sha 1 [(''org_id'', JStr ''acme'')] (replicate 64 CHR ''0'') = Inr h \<and>
     (sort_key fst [(''org_id'', JStr ''acme'')] = sort_key fst [(''org_id'', JStr ''acme'')] \<or>
      collision demo_sha {leaf_preimage 1 [(''org_id'', JStr ''acme'')] (replicate 64 CHR ''0'')}
        {leaf_preimage 1 [(''org_id'', JStr ''acme'')] (replicate 64 CHR ''0'')})"
proof -
  obtain h where h: "leaf_hash demo_sha 1 [(''org_id'', JStr ''acme'')] (replicate 64 CHR ''0'') = Inr h"
    using demo_leaf_hash_returns by (cases "leaf_hash demo_sha 1 [(''org_id'', JStr ''acme'')] (replicate 64 CHR ''0'')") auto
  from leaf_hash_binding [OF demo_sha_digest h h] h show ?thesis by blast
qed

end
