(* ===== verification/Payments.thy ===== *)
theory Payments
  imports Commitments
begin

text \<open>
  On-chain payments by anonymous callers (\<^verbatim>\<open>billing/x402.py\<close>): the replay claim of a signed payment, the
  payer's rolling spend reservation, verification through several facilitators with a cooldown for those
  that fail, and settlement. The parser of the payment header, the facilitators' answers and the digest are
  arguments: the first two are the x402 SDK's.

  The lemmas show that a payment authorization is admitted at most once while its claim is kept, however the
  header is repackaged, that reservations stay within the payer's cap, and that verification is refused for
  want of a facilitator only when every facilitator that was asked failed.
\<close>

section \<open>The replay key\<close>

text \<open>UTF-8 of the code points below 256.\<close>

definition utf8_char :: "char \<Rightarrow> bytes" where
  "utf8_char c = (let n = of_char c :: nat in if n < 128 then [n] else [192 + n div 64, 128 + n mod 64])"

definition utf8 :: "string \<Rightarrow> bytes" where
  "utf8 s = concat (map utf8_char s)"

text \<open>
  \<^verbatim>\<open>int(s, 16)\<close> of a string that starts with \<^verbatim>\<open>0x\<close>: one underscore may follow the prefix and separate
  digits.
\<close>

fun hex_digits :: "int \<Rightarrow> string \<Rightarrow> int option" where
  "hex_digits acc [] = Some acc"
| "hex_digits acc (c # s) =
    (case hex_value c of
       Some v \<Rightarrow> hex_digits (16 * acc + int v) s
     | None \<Rightarrow>
         (case s of
            c' # s' \<Rightarrow>
              (if c = CHR ''_'' then
                 (case hex_value c' of Some v \<Rightarrow> hex_digits (16 * acc + int v) s' | None \<Rightarrow> None)
               else None)
          | [] \<Rightarrow> None))"

definition int_base16 :: "string \<Rightarrow> int option" where
  "int_base16 s = (let ds = drop 2 s in if ds = [] then None else hex_digits 0 ds)"

text \<open>A scalar of the decoded payload, with Python's truth value and \<^verbatim>\<open>str\<close>.\<close>

datatype py_scalar = PyStr string | PyInt int

fun scalar_truthy :: "py_scalar option \<Rightarrow> bool" where
  "scalar_truthy None = False"
| "scalar_truthy (Some (PyStr s)) = (s \<noteq> [])"
| "scalar_truthy (Some (PyInt n)) = (n \<noteq> 0)"

fun scalar_str :: "py_scalar \<Rightarrow> string" where
  "scalar_str (PyStr s) = s"
| "scalar_str (PyInt n) = py_str_int n"

record authorization =
  au_from :: "py_scalar option"
  au_nonce :: "py_scalar option"

text \<open>An entry of the payload: absent or falsy, an object, or some other truthy value.\<close>

datatype auth_entry = AuthFalsy | AuthOther | AuthDict authorization

record payment_payload =
  pp_authorization :: auth_entry
  pp_permit2 :: auth_entry
  pp_dump :: string

type_synonym header_parser = "string \<Rightarrow> payment_payload option"

definition nonce_value :: "py_scalar \<Rightarrow> int option" where
  "nonce_value v =
    (let nonce = py_strip (scalar_str v)
     in if take 2 (py_lower nonce) = ''0x'' then int_base16 nonce else py_int nonce)"

definition payment_key :: "payment_payload \<Rightarrow> string option" where
  "payment_key p =
    (let auth = (if pp_authorization p = AuthFalsy then pp_permit2 p else pp_authorization p)
     in case auth of
          AuthDict a \<Rightarrow>
            if scalar_truthy (au_from a) \<and> scalar_truthy (au_nonce a)
            then map_option (\<lambda>n. ''evm:'' @ py_lower (py_strip (scalar_str (the (au_from a)))) @ '':'' @ py_str_int n)
              (nonce_value (the (au_nonce a)))
            else Some (pp_dump p)
        | _ \<Rightarrow> Some (pp_dump p))"

definition payment_nonce_hash :: "(bytes \<Rightarrow> bytes) \<Rightarrow> header_parser \<Rightarrow> string \<Rightarrow> string" where
  "payment_nonce_hash sha parse header =
    (case Option.bind (parse header) payment_key of
       None \<Rightarrow> hexlify (sha (utf8 header))
     | Some key \<Rightarrow> hexlify (sha (utf8 key)))"

section \<open>Replay claims and reservations\<close>

record nonce_row =
  nn_nonce_hash :: string
  nn_claimed_at :: instant
  nn_payer_address :: string
  nn_reserved_cost_usdc :: usdc

text \<open>The store: whether a pool is bound, and the rows of \<^verbatim>\<open>x402_payment_nonces\<close>.\<close>

record nonce_store =
  ns_bound :: bool
  ns_rows :: "nonce_row list"

text \<open>\<open>up\<close> tells whether the query reaches the database; if not, it raises.\<close>

definition claim_nonce :: "bool \<Rightarrow> instant \<Rightarrow> bool \<Rightarrow> string \<Rightarrow> nonce_store \<Rightarrow> (py_error + bool) \<times> nonce_store" where
  "claim_nonce up now fail_closed h s =
    (if \<not> ns_bound s
     then ((if fail_closed then Inl (RuntimeError ''payment nonce store unavailable'') else Inr True), s)
     else if \<not> up then (Inl (DbError ConnectionLost), s)
     else if exists_where (\<lambda>r. nn_nonce_hash r = h) (ns_rows s) then (Inr False, s)
     else (Inr True, s\<lparr>ns_rows := ns_rows s @
       [\<lparr>nn_nonce_hash = h, nn_claimed_at = now, nn_payer_address = [], nn_reserved_cost_usdc = 0\<rparr>]\<rparr>))"

definition release_nonce :: "bool \<Rightarrow> string \<Rightarrow> nonce_store \<Rightarrow> (py_error + unit) \<times> nonce_store" where
  "release_nonce up h s =
    (if \<not> ns_bound s then (Inr (), s)
     else if \<not> up then (Inl (DbError ConnectionLost), s)
     else (Inr (), s\<lparr>ns_rows := rows_where (\<lambda>r. nn_nonce_hash r \<noteq> h) (ns_rows s)\<rparr>))"

definition payer_rolling_spend :: "instant \<Rightarrow> string \<Rightarrow> nonce_store \<Rightarrow> usdc" where
  "payer_rolling_spend now payer s =
     sum_where (\<lambda>r. py_lower (nn_payer_address r) = payer \<and> now - hours 24 \<le> nn_claimed_at r) nn_reserved_cost_usdc (ns_rows s)"

definition reserve_payer_spend ::
  "bool \<Rightarrow> instant \<Rightarrow> string \<Rightarrow> string \<Rightarrow> usdc \<Rightarrow> usdc \<Rightarrow> nonce_store \<Rightarrow> bool \<times> nonce_store" where
  "reserve_payer_spend up now h payer_address amount limit s =
    (let payer = py_lower (py_strip payer_address) in
     if payer = [] \<or> amount < 0 \<or> limit \<le> 0 \<or> \<not> ns_bound s then (False, s)
     else if amount = 0 then (True, s)
     else if \<not> up then (False, s)
     else case find (\<lambda>r. nn_nonce_hash r = h) (ns_rows s) of
       None \<Rightarrow> (False, s)
     | Some r \<Rightarrow>
         if 0 < nn_reserved_cost_usdc r
         then (py_lower (nn_payer_address r) = payer \<and> nn_reserved_cost_usdc r = amount, s)
         else if payer_rolling_spend now payer s + amount > limit then (False, s)
         else if \<not> bigint amount then (False, s)
         else (True, s\<lparr>ns_rows := update_where (\<lambda>x. nn_nonce_hash x = h \<and> nn_reserved_cost_usdc x = 0)
                 (\<lambda>x. x\<lparr>nn_payer_address := payer, nn_reserved_cost_usdc := amount\<rparr>) (ns_rows s)\<rparr>))"

definition cleanup_expired_payment_nonces :: "bool \<Rightarrow> instant \<Rightarrow> int \<Rightarrow> nonce_store \<Rightarrow> (py_error + nat) \<times> nonce_store" where
  "cleanup_expired_payment_nonces up now retention_hours s =
    (if \<not> ns_bound s then (Inr 0, s)
     else if \<not> up then (Inl (DbError ConnectionLost), s)
     else
       (let expired = (\<lambda>r. nn_claimed_at r < now - hours retention_hours)
        in (Inr (length (rows_where expired (ns_rows s))),
            s\<lparr>ns_rows := rows_where (\<lambda>r. \<not> expired r) (ns_rows s)\<rparr>)))"

section \<open>Facilitators\<close>

record verify_response =
  vr_is_valid :: bool
  vr_payer :: "string option"
  vr_invalid_reason :: string
  vr_invalid_message :: string

text \<open>What a call of the SDK's \<^verbatim>\<open>verify_payment\<close> does: it answers, raises a \<^verbatim>\<open>ValueError\<close>, or raises otherwise.\<close>

datatype verify_call = Answered verify_response | RaisedValueError string | RaisedOther

definition is_ascii_digit :: "char \<Rightarrow> bool" where
  "is_ascii_digit c \<longleftrightarrow> digit_value c \<noteq> None"

definition verify_rejection :: "(string \<Rightarrow> verify_response option) \<Rightarrow> string \<Rightarrow> verify_response option" where
  "verify_rejection validate msg =
    (let pre = ''Facilitator verify failed (4''; n = length pre; rest = drop n msg in
     if take n msg = pre \<and> 2 \<le> length rest \<and> is_ascii_digit (rest ! 0) \<and> is_ascii_digit (rest ! 1)
       \<and> take 3 (drop 2 rest) = ''): '' \<and> drop 5 rest \<noteq> []
     then (case validate (drop 5 rest) of
             None \<Rightarrow> None
           | Some r \<Rightarrow> if vr_is_valid r then None else Some r)
     else None)"

definition verify_with_facilitator ::
  "(string \<Rightarrow> verify_response option) \<Rightarrow> verify_call \<Rightarrow> verify_response option" where
  "verify_with_facilitator validate call =
    (case call of
       Answered r \<Rightarrow> Some r
     | RaisedValueError msg \<Rightarrow> verify_rejection validate msg
     | RaisedOther \<Rightarrow> None)"

record facilitator_health =
  fh_failures :: "nat list"
  fh_unhealthy_until :: "instant list"

definition ensure_facilitator_health_state :: "nat \<Rightarrow> facilitator_health \<Rightarrow> facilitator_health" where
  "ensure_facilitator_health_state n h =
    \<lparr>fh_failures = (if length (fh_failures h) \<noteq> n then replicate n 0 else fh_failures h),
     fh_unhealthy_until = (if length (fh_unhealthy_until h) \<noteq> n then replicate n 0 else fh_unhealthy_until h)\<rparr>"

text \<open>There is always at least one facilitator: without a list the code falls back to its single server.\<close>

definition available_facilitators :: "nat \<Rightarrow> instant \<Rightarrow> facilitator_health \<Rightarrow> nat list" where
  "available_facilitators n now h =
    (let available = filter (\<lambda>i. fh_unhealthy_until h ! i \<le> now) [0..<n]
     in if available = [] then take 1 (sort_key (\<lambda>i. fh_unhealthy_until h ! i) [0..<n]) else available)"

definition cooldown_seconds :: "nat \<Rightarrow> int" where
  "cooldown_seconds failures = min (2 ^ (failures - 1) * 5) 300"

definition note_facilitator_failure :: "instant \<Rightarrow> nat \<Rightarrow> facilitator_health \<Rightarrow> facilitator_health" where
  "note_facilitator_failure now i h =
    (let f = fh_failures h ! i + 1
     in \<lparr>fh_failures = (fh_failures h)[i := f],
         fh_unhealthy_until = (fh_unhealthy_until h)[i := now + seconds (cooldown_seconds f)]\<rparr>)"

definition note_facilitator_success :: "nat \<Rightarrow> facilitator_health \<Rightarrow> facilitator_health" where
  "note_facilitator_success i h =
    \<lparr>fh_failures = (fh_failures h)[i := 0], fh_unhealthy_until = (fh_unhealthy_until h)[i := 0]\<rparr>"

fun try_facilitators ::
  "(nat \<Rightarrow> verify_response option) \<Rightarrow> (nat \<Rightarrow> instant) \<Rightarrow> nat list \<Rightarrow> facilitator_health \<Rightarrow>
   (nat \<times> verify_response) option \<times> facilitator_health" where
  "try_facilitators ask clock [] h = (None, h)"
| "try_facilitators ask clock (i # is) h =
    (case ask i of
       None \<Rightarrow> try_facilitators ask clock is (note_facilitator_failure (clock i) i h)
     | Some r \<Rightarrow> (Some (i, r), note_facilitator_success i h))"

section \<open>Verification and settlement\<close>

record payment_requirement =
  rq_scheme :: string
  rq_amount :: string

record billing_result =
  br_verified :: bool
  br_payload :: "payment_payload option"
  br_requirement :: "payment_requirement option"
  br_settled :: bool
  br_tx_hash :: string
  br_amount_usdc :: usdc
  br_error :: string
  br_scheme :: string
  br_payer :: string
  br_facilitator_index :: nat

definition billing_error :: "string \<Rightarrow> billing_result" where
  "billing_error msg =
    \<lparr>br_verified = False, br_payload = None, br_requirement = None, br_settled = False, br_tx_hash = [],
     br_amount_usdc = 0, br_error = msg, br_scheme = ''exact'', br_payer = [], br_facilitator_index = 0\<rparr>"

definition py_or :: "string \<Rightarrow> string \<Rightarrow> string" where
  "py_or a b = (if a = [] then b else a)"

text \<open>
  The world during one verification: the number of facilitators, their answers per requirement, the
  monotonic clock per requirement and after each failure, and the database for the claim.
\<close>

record verify_env =
  ve_servers :: nat
  ve_ask :: "nat \<Rightarrow> nat \<Rightarrow> verify_call"
  ve_validate :: "string \<Rightarrow> verify_response option"
  ve_clock :: "nat \<Rightarrow> instant"
  ve_failure_clock :: "nat \<Rightarrow> nat \<Rightarrow> instant"
  ve_up :: bool
  ve_now :: instant

fun verify_requirements ::
  "verify_env \<Rightarrow> string \<Rightarrow> payment_payload \<Rightarrow> nat \<Rightarrow> string \<Rightarrow> payment_requirement list \<Rightarrow>
   facilitator_health \<times> nonce_store \<Rightarrow> billing_result \<times> facilitator_health \<times> nonce_store" where
  "verify_requirements env nonce payload k last_error [] (h, s) = (billing_error last_error, h, s)"
| "verify_requirements env nonce payload k last_error (rq # rqs) (h, s) =
    (case try_facilitators (\<lambda>i. verify_with_facilitator (ve_validate env) (ve_ask env k i)) (ve_failure_clock env k)
        (available_facilitators (ve_servers env) (ve_clock env k) h) h of
       (None, h') \<Rightarrow> verify_requirements env nonce payload (Suc k) ''Payment verification service unavailable'' rqs (h', s)
     | (Some (i, r), h') \<Rightarrow>
         if vr_is_valid r
         then (case claim_nonce (ve_up env) (ve_now env) False nonce s of
                 (Inl _, s') \<Rightarrow> (billing_error ''Payment verification temporarily unavailable. Retry shortly.'', h', s')
               | (Inr False, s') \<Rightarrow> (billing_error ''Payment already used. Sign a new payment authorization.'', h', s')
               | (Inr True, s') \<Rightarrow>
                   ((billing_error [])\<lparr>br_verified := True, br_payload := Some payload, br_requirement := Some rq,
                      br_scheme := py_or (rq_scheme rq) ''exact'', br_payer := (case vr_payer r of None \<Rightarrow> [] | Some p \<Rightarrow> p),
                      br_facilitator_index := i\<rparr>, h', s'))
         else verify_requirements env nonce payload (Suc k)
           (''Payment verification failed: '' @
             py_or (vr_invalid_reason r) (py_or (vr_invalid_message r) ''invalid signature or amount'')) rqs (h', s))"

definition verify_payment ::
  "(bytes \<Rightarrow> bytes) \<Rightarrow> header_parser \<Rightarrow> verify_env \<Rightarrow> payment_requirement list \<Rightarrow> string \<Rightarrow>
   facilitator_health \<times> nonce_store \<Rightarrow> billing_result \<times> facilitator_health \<times> nonce_store" where
  "verify_payment sha parse env reqs header hs =
    (let h = ensure_facilitator_health_state (ve_servers env) (fst hs); s = snd hs in
     if reqs = [] then (billing_error ''No payment requirements configured'', h, s)
     else case parse header of
       None \<Rightarrow> (billing_error ''Malformed payment header'', h, s)
     | Some payload \<Rightarrow>
         verify_requirements env (payment_nonce_hash sha parse header) payload 0 ''No payment requirements matched'' reqs (h, s))"

record settle_response =
  sr_success :: bool
  sr_transaction :: string

text \<open>
  \<^verbatim>\<open>settle_payment\<close>: \<open>settle\<close> is the SDK's call for a facilitator, a payload and a requirement (\<open>None\<close>: it
  raised). The result reports the metered amount for the \<^verbatim>\<open>upto\<close> scheme and the signed amount otherwise.
\<close>

definition settle_payment ::
  "nat \<Rightarrow> (nat \<Rightarrow> payment_payload option \<Rightarrow> payment_requirement option \<Rightarrow> settle_response option) \<Rightarrow>
   billing_result \<Rightarrow> usdc option \<Rightarrow> py_error + billing_result" where
  "settle_payment servers settle b actual =
    (if \<not> br_verified b then Inr (b\<lparr>br_error := ''Cannot settle unverified payment''\<rparr>)
     else if servers \<le> br_facilitator_index b then Inr (b\<lparr>br_error := ''Payment settlement route is unavailable''\<rparr>)
     else
       (let metered = (br_scheme b = ''upto'' \<and> actual \<noteq> None);
            cost = max 0 (the actual);
            req = (if metered then map_option (\<lambda>r. r\<lparr>rq_amount := py_str_int cost\<rparr>) (br_requirement b) else br_requirement b)
        in case (if metered \<and> br_requirement b = None then None else settle (br_facilitator_index b) (br_payload b) req) of
             None \<Rightarrow> Inr (b\<lparr>br_error := ''Payment settlement service unavailable''\<rparr>)
           | Some r \<Rightarrow>
               if \<not> sr_success r then Inr (b\<lparr>br_error := ''Settlement rejected by facilitator''\<rparr>)
               else
                 (let b' = b\<lparr>br_settled := True, br_tx_hash := sr_transaction r\<rparr> in
                  if metered then Inr (b'\<lparr>br_amount_usdc := cost\<rparr>)
                  else case py_int (py_or (case br_requirement b of None \<Rightarrow> ''0'' | Some q \<Rightarrow> rq_amount q) ''0'') of
                         None \<Rightarrow> Inl (ValueError ''invalid literal for int()'')
                       | Some n \<Rightarrow> Inr (b'\<lparr>br_amount_usdc := n\<rparr>))))"

definition verify_and_settle_usdc_topup ::
  "header_parser \<Rightarrow> (string \<Rightarrow> verify_response option) \<Rightarrow> payment_requirement list \<Rightarrow>
   (payment_payload \<Rightarrow> payment_requirement \<Rightarrow> verify_call) \<Rightarrow>
   (payment_payload \<Rightarrow> payment_requirement \<Rightarrow> settle_response option) \<Rightarrow> string \<Rightarrow> usdc \<Rightarrow> billing_result" where
  "verify_and_settle_usdc_topup parse validate requirements verify settle header amount =
    (case requirements of
       [] \<Rightarrow> billing_error ''No payment requirements could be built''
     | rq # _ \<Rightarrow>
         (case parse header of
            None \<Rightarrow> billing_error ''Malformed payment header''
          | Some payload \<Rightarrow>
              (case verify_with_facilitator validate (verify payload rq) of
                 None \<Rightarrow> billing_error ''Payment verification service unavailable''
               | Some r \<Rightarrow>
                   if \<not> vr_is_valid r
                   then billing_error (''Payment verification failed: '' @
                     py_or (vr_invalid_reason r) (py_or (vr_invalid_message r) ''invalid signature or amount''))
                   else case settle payload rq of
                     None \<Rightarrow> billing_error ''Payment settlement service unavailable''
                   | Some q \<Rightarrow>
                       if \<not> sr_success q then billing_error ''Settlement rejected by facilitator''
                       else (billing_error [])\<lparr>br_verified := True, br_settled := True,
                              br_tx_hash := sr_transaction q, br_amount_usdc := amount\<rparr>)))"

section \<open>The identity of a signed payment\<close>

definition signed_identity :: "payment_payload \<Rightarrow> (string \<times> int) option" where
  "signed_identity p =
    (case (if pp_authorization p = AuthFalsy then pp_permit2 p else pp_authorization p) of
       AuthDict a \<Rightarrow>
         if scalar_truthy (au_from a) \<and> scalar_truthy (au_nonce a)
         then map_option (Pair (py_lower (py_strip (scalar_str (the (au_from a)))))) (nonce_value (the (au_nonce a)))
         else None
     | _ \<Rightarrow> None)"

lemma payment_key_identity:
  "signed_identity p = Some (payer, n) \<Longrightarrow> payment_key p = Some (''evm:'' @ payer @ '':'' @ py_str_int n)"
  by (auto simp: signed_identity_def payment_key_def Let_def split: auth_entry.splits if_splits)

lemma utf8_char_prefix: "utf8_char c @ u = utf8_char c' @ v \<Longrightarrow> c = c' \<and> u = v"
proof -
  assume eq: "utf8_char c @ u = utf8_char c' @ v"
  have lt: "(of_char c :: nat) < 256" "(of_char c' :: nat) < 256" by simp_all
  then have "(of_char c :: nat) div 64 < 4" "(of_char c' :: nat) div 64 < 4"
    by (simp_all add: less_mult_imp_div_less)
  with eq have "(of_char c :: nat) = of_char c' \<and> u = v"
    by (auto simp: utf8_char_def Let_def split: if_splits) (metis div_mult_mod_eq of_char_eq_iff)
  then show ?thesis by simp
qed

lemma utf8_inj: "utf8 s = utf8 t \<Longrightarrow> s = t"
proof (induction s arbitrary: t)
  case Nil
  then show ?case by (cases t) (auto simp: utf8_def utf8_char_def Let_def split: if_splits)
next
  case (Cons c s)
  then obtain c' t' where t: "t = c' # t'" by (cases t) (auto simp: utf8_def utf8_char_def Let_def split: if_splits)
  with Cons.prems have "utf8_char c @ utf8 s = utf8_char c' @ utf8 t'" by (simp add: utf8_def)
  with utf8_char_prefix Cons.IH t show ?case by blast
qed

lemma str_int_no_colon: "CHR '':'' \<notin> set (py_str_int n)"
proof -
  have "CHR '':'' \<noteq> digit_char k" if "k < 10" for k
  proof
    assume "CHR '':'' = digit_char k"
    then have "(of_char (CHR '':'') :: nat) = 48 + k" using of_char_digit_char [OF that] by simp
    with that show False by simp
  qed
  then have "CHR '':'' \<notin> set (py_str_nat m)" for m using py_str_nat_digits [of m] unfolding is_digits_def by blast
  then show ?thesis by (simp add: py_str_int_def)
qed

lemma first_delimiter: "xs @ d # u = ys @ d # v \<Longrightarrow> d \<notin> set xs \<Longrightarrow> d \<notin> set ys \<Longrightarrow> xs = ys \<and> u = v"
proof (induction xs arbitrary: ys)
  case Nil
  then show ?case by (cases ys) auto
next
  case (Cons x xs)
  then show ?case by (cases ys) auto
qed

lemma last_delimiter:
  assumes "a @ d # x = b @ d # y" "d \<notin> set x" "d \<notin> set y"
  shows "a = b \<and> x = y"
proof -
  have "rev x @ d # rev a = rev y @ d # rev b" using arg_cong [OF assms(1), of rev] by simp
  then have "rev x = rev y \<and> rev a = rev b" by (rule first_delimiter) (simp_all add: assms)
  then show ?thesis by simp
qed

lemma nonce_hash_identity:
  assumes "parse header = Some p" "signed_identity p = Some (payer, n)"
  shows "payment_nonce_hash sha parse header = hexlify (sha (utf8 (''evm:'' @ payer @ '':'' @ py_str_int n)))"
  using assms payment_key_identity by (simp add: payment_nonce_hash_def)

lemma hexlify_sha_inj:
  assumes "sha256_digest sha" "hexlify (sha x) = hexlify (sha y)"
  shows "sha x = sha y"
  using assms fromhex_hexlify unfolding sha256_digest_def by (metis option.inject)

section \<open>Claims are kept\<close>

definition claimed :: "string \<Rightarrow> instant \<Rightarrow> nonce_store \<Rightarrow> bool" where
  "claimed h t s \<longleftrightarrow> ns_bound s \<and> (\<exists>r \<in> set (ns_rows s). nn_nonce_hash r = h \<and> nn_claimed_at r = t)"

text \<open>
  What happens to the store while the claim of \<open>h\<close> made at \<open>t\<close> stands: other claims, reservations,
  releases of other payments, and the cleanup with its retention of 24 hours as long as \<open>t\<close> is within it.
\<close>

inductive nonce_step :: "string \<Rightarrow> instant \<Rightarrow> nonce_store \<Rightarrow> nonce_store \<Rightarrow> bool" for h t where
  claim: "nonce_step h t s (snd (claim_nonce up now fail_closed h' s))"
| reserve: "nonce_step h t s (snd (reserve_payer_spend up now h' payer amount limit s))"
| release: "h' \<noteq> h \<Longrightarrow> nonce_step h t s (snd (release_nonce up h' s))"
| cleanup: "now \<le> t + hours 24 \<Longrightarrow> nonce_step h t s (snd (cleanup_expired_payment_nonces up now 24 s))"

inductive_cases nonce_stepE: "nonce_step h t s s'"

lemma nonce_step_claimed:
  assumes "nonce_step h t s s'" "claimed h t s"
  shows "claimed h t s'"
  using assms
proof (cases rule: nonce_step.cases)
  case (reserve up now h' payer amount limit)
  have "claimed h t (s\<lparr>ns_rows := update_where q (\<lambda>x. x\<lparr>nn_payer_address := a, nn_reserved_cost_usdc := b\<rparr>) (ns_rows s)\<rparr>)" for q a b
  proof -
    from assms(2) obtain r where r: "r \<in> set (ns_rows s)" "nn_nonce_hash r = h" "nn_claimed_at r = t" "ns_bound s"
      by (auto simp: claimed_def)
    then show ?thesis
      unfolding claimed_def
      by (intro conjI bexI [of _ "if q r then r\<lparr>nn_payer_address := a, nn_reserved_cost_usdc := b\<rparr> else r"])
        (auto simp: set_update_where)
  qed
  with reserve assms(2) show ?thesis by (auto simp: reserve_payer_spend_def Let_def split: option.split)
qed (auto simp: claimed_def claim_nonce_def release_nonce_def cleanup_expired_payment_nonces_def Let_def)

lemma nonce_steps_claimed: "(nonce_step h t)\<^sup>*\<^sup>* s s' \<Longrightarrow> claimed h t s \<Longrightarrow> claimed h t s'"
  by (induction rule: rtranclp_induct) (auto intro: nonce_step_claimed)

lemma claim_nonce_cases:
  assumes "claim_nonce up now fail_closed h s = (r, s')"
  obtains (fresh) "r = Inr True" "ns_bound s" "claimed h now s'" "\<not> exists_where (\<lambda>r. nn_nonce_hash r = h) (ns_rows s)"
    | (skipped) "r = Inr True" "\<not> ns_bound s" "s' = s"
    | (refused) "r \<noteq> Inr True" "s' = s"
  using assms by (auto simp: claim_nonce_def claimed_def split: if_splits)

lemma verify_requirements_cases:
  assumes "verify_requirements env nonce payload k e rqs (h, s) = (b, h', s')"
  shows "s' = s \<and> \<not> br_verified b \<or> claim_nonce (ve_up env) (ve_now env) False nonce s = (Inr True, s') \<and> br_verified b"
  using assms
proof (induction rqs arbitrary: k e h)
  case Nil
  then show ?case by (auto simp: billing_error_def)
next
  case (Cons rq rqs)
  have "s1 = s" if "claim_nonce (ve_up env) (ve_now env) False nonce s = (r, s1)" "r \<noteq> Inr True" for r s1
    using that by (cases rule: claim_nonce_cases) auto
  with Cons show ?case
    by (auto simp: billing_error_def split: prod.splits option.splits if_splits sum.splits bool.splits)
qed

lemma verify_payment_cases:
  assumes "verify_payment sha parse env reqs header (h, s) = (b, h', s')"
  shows "s' = s \<and> \<not> br_verified b \<or>
    claim_nonce (ve_up env) (ve_now env) False (payment_nonce_hash sha parse header) s = (Inr True, s') \<and> br_verified b"
  using assms verify_requirements_cases
  by (fastforce simp: verify_payment_def Let_def billing_error_def split: if_splits option.splits)

lemma claimed_not_verified:
  assumes "claimed (payment_nonce_hash sha parse header) t s" "verify_payment sha parse env reqs header (h, s) = (b, h', s')"
  shows "\<not> br_verified b \<and> s' = s"
proof -
  have "exists_where (\<lambda>r. nn_nonce_hash r = payment_nonce_hash sha parse header) (ns_rows s)" "ns_bound s"
    using assms(1) by (auto simp: claimed_def)
  then have "fst (claim_nonce (ve_up env) (ve_now env) False (payment_nonce_hash sha parse header) s) \<noteq> Inr True"
    by (simp add: claim_nonce_def)
  with verify_payment_cases [OF assms(2)] show ?thesis by auto
qed

section \<open>Reservations\<close>

lemma py_lower_idem: "py_lower (py_lower s) = py_lower s"
proof -
  have "py_lower_char (py_lower_char c) = py_lower_char c" for c
    by (auto simp: py_lower_char_def Let_def)
  then show ?thesis by (simp add: py_lower_def)
qed

lemma rolling_spend_reserved:
  assumes "distinct (map nn_nonce_hash (ns_rows s))" "r \<in> set (ns_rows s)" "nn_nonce_hash r = h" "nn_reserved_cost_usdc r = 0"
    and "0 < amount"
  shows "payer_rolling_spend now payer (s\<lparr>ns_rows := update_where (\<lambda>x. nn_nonce_hash x = h \<and> nn_reserved_cost_usdc x = 0)
      (\<lambda>x. x\<lparr>nn_payer_address := p, nn_reserved_cost_usdc := amount\<rparr>) (ns_rows s)\<rparr>) \<le> payer_rolling_spend now payer s + amount"
proof -
  have "x = r" if "x \<in> set (ns_rows s)" "nn_nonce_hash x = h" for x
    using distinct_key_eq [OF assms(1) that(1) assms(2)] that(2) assms(3) by simp
  then have "sum_where q nn_reserved_cost_usdc (update_where (\<lambda>x. nn_nonce_hash x = h \<and> nn_reserved_cost_usdc x = 0)
      (\<lambda>x. x\<lparr>nn_payer_address := p, nn_reserved_cost_usdc := amount\<rparr>) (ns_rows s)) \<le>
      sum_where q nn_reserved_cost_usdc (ns_rows s) + amount" for q
    using assms(3-5) by (subst sum_where_update_one [OF assms(1,2)]) auto
  then show ?thesis by (simp add: payer_rolling_spend_def)
qed

section \<open>Failover\<close>

lemma available_nonempty: "0 < n \<Longrightarrow> available_facilitators n now h \<noteq> []"
  by (auto simp: available_facilitators_def Let_def dest!: arg_cong [where f = length])

lemma try_facilitators_answer:
  assumes "\<exists>i \<in> set is. ask i \<noteq> None"
  shows "\<exists>i r h'. i \<in> set is \<and> ask i = Some r \<and> try_facilitators ask clock is h = (Some (i, r), h')"
  using assms
proof (induction "is" arbitrary: h)
  case (Cons i "is")
  then show ?case by (cases "ask i") fastforce+
qed simp

section \<open>Properties\<close>

text \<open>
  C17. A signed payment is admitted at most once while its claim stands. After a verification with a bound
  store succeeded, and whatever claims, reservations, releases of other payments and cleanups within the
  retention of 24 hours happen, a verification of any header that carries the same payer and the same nonce
  (however it is packaged, and in whatever notation the nonce is written) is refused and changes no claim.
\<close>

theorem payment_admitted_once:
  assumes first: "verify_payment sha parse env reqs header (h, s) = (b, h1, s1)" "br_verified b" "ns_bound s"
    and ident: "parse header = Some p" "signed_identity p = Some x" "parse header' = Some p'" "signed_identity p' = Some x"
    and between: "(nonce_step (payment_nonce_hash sha parse header) (ve_now env))\<^sup>*\<^sup>* s1 s2"
    and second: "verify_payment sha parse env' reqs' header' (h2, s2) = (b', h3, s3)"
  shows "\<not> br_verified b' \<and> s3 = s2"
proof -
  obtain payer n where x: "x = (payer, n)" by fastforce
  have same: "payment_nonce_hash sha parse header' = payment_nonce_hash sha parse header"
    using nonce_hash_identity [of parse header p payer n] nonce_hash_identity [of parse header' p' payer n] ident x by simp
  from verify_payment_cases [OF first(1)] first(2)
  have "claim_nonce (ve_up env) (ve_now env) False (payment_nonce_hash sha parse header) s = (Inr True, s1)" by blast
  then have "claimed (payment_nonce_hash sha parse header) (ve_now env) s1"
    by (cases rule: claim_nonce_cases) (use first(3) in auto)
  from nonce_steps_claimed [OF between this] show ?thesis
    using claimed_not_verified [OF _ second] same by metis
qed

text \<open>
  The claim key identifies the payment: two headers of signed payments share their claim exactly when
  they have the same payer (up to case) and the same nonce value, unless their two key strings are a
  collision of the hash function. So no payment blocks another one.
\<close>

theorem payment_claim_identity:
  assumes "sha256_digest sha" and "parse header = Some p" "signed_identity p = Some (payer, n)"
    and "parse header' = Some p'" "signed_identity p' = Some (payer', n')"
  shows "(payment_nonce_hash sha parse header = payment_nonce_hash sha parse header') = (payer = payer' \<and> n = n') \<or>
    collision sha {utf8 (''evm:'' @ payer @ '':'' @ py_str_int n)} {utf8 (''evm:'' @ payer' @ '':'' @ py_str_int n')}"
proof -
  let ?k = "''evm:'' @ payer @ '':'' @ py_str_int n" and ?k' = "''evm:'' @ payer' @ '':'' @ py_str_int n'"
  have hash: "payment_nonce_hash sha parse header = hexlify (sha (utf8 ?k))"
    "payment_nonce_hash sha parse header' = hexlify (sha (utf8 ?k'))"
    using nonce_hash_identity [where parse = parse and header = header, OF assms(2,3)]
      nonce_hash_identity [where parse = parse and header = header', OF assms(4,5)] by blast+
  have "payer = payer' \<and> n = n'" if "?k = ?k'"
  proof -
    have "payer @ CHR '':'' # py_str_int n = payer' @ CHR '':'' # py_str_int n'" using that by simp
    from last_delimiter [OF this str_int_no_colon str_int_no_colon] show ?thesis
      using py_int_str_int by (metis option.inject)
  qed
  moreover have "?k = ?k' \<or> collision sha {utf8 ?k} {utf8 ?k'}" if "hexlify (sha (utf8 ?k)) = hexlify (sha (utf8 ?k'))"
    using hexlify_sha_inj [OF assms(1) that] utf8_inj by (auto simp: collision_def)
  ultimately show ?thesis unfolding hash by blast
qed

text \<open>
  Reservations stay within the payer's cap. A reservation that is newly made leaves the payer's claims
  of the last 24 hours at no more than the limit and records payer and amount on the claim; repeating it
  changes nothing and is accepted only for the same payer and amount; a refused one changes nothing.
\<close>

theorem payer_spend_capped:
  assumes "distinct (map nn_nonce_hash (ns_rows s))" and "\<forall>r \<in> set (ns_rows s). 0 \<le> nn_reserved_cost_usdc r" and "0 < amount"
    and "reserve_payer_spend up now h payer amount limit s = (ok, s')"
  shows "if ok
    then (\<exists>r \<in> set (ns_rows s'). nn_nonce_hash r = h \<and> py_lower (nn_payer_address r) = py_lower (py_strip payer) \<and>
           nn_reserved_cost_usdc r = amount) \<and>
      (s' = s \<or> payer_rolling_spend now (py_lower (py_strip payer)) s' \<le> limit)
    else s' = s"
proof -
  let ?p = "py_lower (py_strip payer)"
  have idem: "py_lower ?p = ?p" by (rule py_lower_idem)
  consider (refused) "\<not> ok" "s' = s"
    | (again) r where "ok" "s' = s" "r \<in> set (ns_rows s)" "nn_nonce_hash r = h" "py_lower (nn_payer_address r) = ?p"
        "nn_reserved_cost_usdc r = amount"
    | (fresh) r where "ok" "r \<in> set (ns_rows s)" "nn_nonce_hash r = h" "nn_reserved_cost_usdc r = 0"
        "payer_rolling_spend now ?p s + amount \<le> limit"
        "s' = s\<lparr>ns_rows := update_where (\<lambda>x. nn_nonce_hash x = h \<and> nn_reserved_cost_usdc x = 0)
           (\<lambda>x. x\<lparr>nn_payer_address := ?p, nn_reserved_cost_usdc := amount\<rparr>) (ns_rows s)\<rparr>"
    using assms(2-4)
    by (fastforce simp: reserve_payer_spend_def Let_def not_less split: if_splits option.splits dest!: find_SomeD)
  then show ?thesis
  proof cases
    case fresh
    have "payer_rolling_spend now ?p s' \<le> limit"
      using rolling_spend_reserved [OF assms(1) fresh(2-4) assms(3), of now ?p ?p] fresh(5,6) by simp
    moreover have "\<exists>x \<in> set (ns_rows s'). nn_nonce_hash x = h \<and> py_lower (nn_payer_address x) = ?p \<and> nn_reserved_cost_usdc x = amount"
      using fresh(2-4,6) idem
      by (auto simp: set_update_where intro!: bexI [of _ "r\<lparr>nn_payer_address := ?p, nn_reserved_cost_usdc := amount\<rparr>"])
    ultimately show ?thesis using fresh(1) by simp
  qed auto
qed

text \<open>
  Verification fails over. When the header parses, the payment is unclaimed and the store answers, it is
  enough that one of the facilitators asked for the first requirement answers and that those that answer
  accept: the payment is admitted through one of them and claimed. If every facilitator is cooling down, one
  is asked all the same, and no cooldown is longer than five minutes.
\<close>

theorem payment_failover:
  assumes "parse header = Some p" "ns_bound s" "ve_up env" "0 < ve_servers env" "length (fh_failures h) = ve_servers env"
    and "length (fh_unhealthy_until h) = ve_servers env"
    and "\<not> exists_where (\<lambda>r. nn_nonce_hash r = payment_nonce_hash sha parse header) (ns_rows s)"
    and "\<exists>i \<in> set (available_facilitators (ve_servers env) (ve_clock env 0) h).
      verify_with_facilitator (ve_validate env) (ve_ask env 0 i) \<noteq> None"
    and "\<forall>i r. verify_with_facilitator (ve_validate env) (ve_ask env 0 i) = Some r \<longrightarrow> vr_is_valid r"
    and "verify_payment sha parse env (rq # rqs) header (h, s) = (b, h', s')"
  shows "br_verified b \<and> br_requirement b = Some rq \<and> claimed (payment_nonce_hash sha parse header) (ve_now env) s' \<and>
    available_facilitators (ve_servers env) (ve_clock env 0) h \<noteq> [] \<and>
    (\<forall>f > 0. 5 \<le> cooldown_seconds f \<and> cooldown_seconds f \<le> 300)"
proof -
  let ?ask = "\<lambda>i. verify_with_facilitator (ve_validate env) (ve_ask env 0 i)"
  let ?is = "available_facilitators (ve_servers env) (ve_clock env 0) h" and ?n = "payment_nonce_hash sha parse header"
  have h: "ensure_facilitator_health_state (ve_servers env) h = h" using assms(5,6) by (simp add: ensure_facilitator_health_state_def)
  obtain i r h1 where asked: "i \<in> set ?is" "?ask i = Some r" "try_facilitators ?ask (ve_failure_clock env 0) ?is h = (Some (i, r), h1)"
    using try_facilitators_answer [OF assms(8), of "ve_failure_clock env 0" h] by blast
  have "claim_nonce (ve_up env) (ve_now env) False ?n s = (Inr True, s')" "br_verified b" "br_requirement b = Some rq"
    using assms(1-3,7,10) asked assms(9) h
    by (auto simp: verify_payment_def Let_def claim_nonce_def billing_error_def)
  moreover have "claimed ?n (ve_now env) s'" using calculation(1) assms(2,7) by (auto elim!: claim_nonce_cases)
  moreover have "(5 :: int) \<le> 2 ^ (f - 1) * 5" for f :: nat
    using one_le_power [of "2 :: int" "f - 1"] by linarith
  ultimately show ?thesis using available_nonempty [OF assms(4)] by (simp add: cooldown_seconds_def)
qed

text \<open>Two packagings of one payment, and two facilitators of which the first is down.\<close>

definition demo_payload :: "auth_entry \<Rightarrow> auth_entry \<Rightarrow> payment_payload" where
  "demo_payload a b = \<lparr>pp_authorization = a, pp_permit2 = b, pp_dump = ''{}''\<rparr>"

definition demo_parse :: header_parser where
  "demo_parse header =
    (if header = ''A'' then Some (demo_payload (AuthDict \<lparr>au_from = Some (PyStr ''0xAB''), au_nonce = Some (PyStr ''0x0a'')\<rparr>) AuthFalsy)
     else if header = ''B'' then Some (demo_payload AuthFalsy (AuthDict \<lparr>au_from = Some (PyStr '' 0xab''), au_nonce = Some (PyStr ''10'')\<rparr>))
     else None)"

definition demo_env :: verify_env where
  "demo_env = \<lparr>ve_servers = 2,
     ve_ask = (\<lambda>k i. if i = 0 then RaisedOther
       else Answered \<lparr>vr_is_valid = True, vr_payer = Some ''0xab'', vr_invalid_reason = [], vr_invalid_message = []\<rparr>),
     ve_validate = (\<lambda>_. None), ve_clock = (\<lambda>_. 100), ve_failure_clock = (\<lambda>_ _. 101), ve_up = True, ve_now = 50\<rparr>"

definition demo_requirement :: payment_requirement where
  "demo_requirement = \<lparr>rq_scheme = ''exact'', rq_amount = ''10000''\<rparr>"

definition demo_health :: facilitator_health where
  "demo_health = \<lparr>fh_failures = [0, 0], fh_unhealthy_until = [0, 0]\<rparr>"

definition demo_store :: nonce_store where
  "demo_store = \<lparr>ns_bound = True, ns_rows = []\<rparr>"

lemma demo_chars [simp]: "char_of (97 :: nat) = CHR ''a''" "char_of (98 :: nat) = CHR ''b''"
  by code_simp+

lemma demo_identity:
  "\<exists>p. demo_parse ''A'' = Some p \<and> signed_identity p = Some (''0xab'', 10)"
  "\<exists>p. demo_parse ''B'' = Some p \<and> signed_identity p = Some (''0xab'', 10)"
  by (simp_all add: demo_parse_def demo_payload_def signed_identity_def nonce_value_def int_base16_def hex_value_def
      py_strip_def py_isspace_def py_lower_def py_lower_char_def  py_int_def py_unsigned_def digit_value_def Let_def)

theorem payment_failover_witness:
  "\<exists>b h' s'. verify_payment demo_sha demo_parse demo_env [demo_requirement] ''A'' (demo_health, demo_store) = (b, h', s') \<and>
     br_verified b \<and> claimed (payment_nonce_hash demo_sha demo_parse ''A'') 50 s'"
proof -
  obtain b h' s' where run: "verify_payment demo_sha demo_parse demo_env [demo_requirement] ''A'' (demo_health, demo_store) = (b, h', s')"
    by (metis prod_cases3)
  obtain p where p: "demo_parse ''A'' = Some p" using demo_identity(1) by blast
  have av: "available_facilitators 2 100 demo_health = [0, 1]"
    by (simp add: available_facilitators_def demo_health_def upt_conv_Cons Let_def)
  from payment_failover [OF p _ _ _ _ _ _ _ _ run] have "br_verified b \<and> claimed (payment_nonce_hash demo_sha demo_parse ''A'') 50 s'"
    by (simp add: demo_env_def demo_store_def demo_health_def verify_with_facilitator_def av [unfolded demo_health_def])
  with run show ?thesis by blast
qed

theorem payment_admitted_once_witness:
  "\<exists>b h1 s1. verify_payment demo_sha demo_parse demo_env [demo_requirement] ''A'' (demo_health, demo_store) = (b, h1, s1) \<and>
     br_verified b \<and> \<not> br_verified (fst (verify_payment demo_sha demo_parse demo_env [demo_requirement] ''B'' (h1, s1)))"
proof -
  obtain b h1 s1 where run: "verify_payment demo_sha demo_parse demo_env [demo_requirement] ''A'' (demo_health, demo_store) = (b, h1, s1)"
    by (metis prod_cases3)
  obtain b' h3 s3 where again: "verify_payment demo_sha demo_parse demo_env [demo_requirement] ''B'' (h1, s1) = (b', h3, s3)"
    by (metis prod_cases3)
  obtain p p' where id: "demo_parse ''A'' = Some p" "signed_identity p = Some (''0xab'', 10)"
    "demo_parse ''B'' = Some p'" "signed_identity p' = Some (''0xab'', 10)" using demo_identity by blast
  have "br_verified b"
    using run id(1) by (auto simp: verify_payment_def ensure_facilitator_health_state_def available_facilitators_def demo_env_def
        demo_health_def demo_store_def verify_with_facilitator_def claim_nonce_def billing_error_def upt_conv_Cons Let_def)
  moreover have "ns_bound demo_store" by (simp add: demo_store_def)
  ultimately have "\<not> br_verified b'"
    using payment_admitted_once [OF run _ _ id rtranclp.rtrancl_refl again] by blast
  with run again \<open>br_verified b\<close> show ?thesis by auto
qed

theorem payment_claim_identity_witness:
  "payment_nonce_hash demo_sha demo_parse ''A'' = payment_nonce_hash demo_sha demo_parse ''B'' \<or>
   collision demo_sha {utf8 (''evm:0xab:'' @ py_str_int 10)} {utf8 (''evm:0xab:'' @ py_str_int 10)}"
proof -
  obtain p p' where id: "demo_parse ''A'' = Some p" "signed_identity p = Some (''0xab'', 10)"
    "demo_parse ''B'' = Some p'" "signed_identity p' = Some (''0xab'', 10)" using demo_identity by blast
  from payment_claim_identity [where parse = demo_parse, OF demo_sha_digest id] show ?thesis by simp
qed

theorem payer_spend_capped_witness:
  "\<exists>s'. reserve_payer_spend True 60 ''h1'' ''0xAB'' 40 100
      (demo_store\<lparr>ns_rows := [\<lparr>nn_nonce_hash = ''h1'', nn_claimed_at = 50, nn_payer_address = [], nn_reserved_cost_usdc = 0\<rparr>]\<rparr>) = (True, s') \<and>
     payer_rolling_spend 60 ''0xab'' s' \<le> 100"
proof -
  let ?s = "demo_store\<lparr>ns_rows := [\<lparr>nn_nonce_hash = ''h1'', nn_claimed_at = 50, nn_payer_address = [], nn_reserved_cost_usdc = 0\<rparr>]\<rparr>"
  have low: "py_lower (py_strip ''0xAB'') = ''0xab''"
    by (simp add: py_lower_def py_lower_char_def py_strip_def py_isspace_def Let_def)
  let ?r = "reserve_payer_spend True 60 ''h1'' ''0xAB'' 40 100 ?s"
  have eval: "?r = (True, \<lparr>ns_bound = True, ns_rows = [\<lparr>nn_nonce_hash = ''h1'', nn_claimed_at = 50,
      nn_payer_address = ''0xab'', nn_reserved_cost_usdc = 40\<rparr>]\<rparr>)"
    unfolding reserve_payer_spend_def low Let_def
    by (simp add: demo_store_def payer_rolling_spend_def bigint_def update_where_def)
  from payer_spend_capped [OF _ _ _ eval] eval low show ?thesis by (auto simp: demo_store_def)
qed

end
