(* ===== verification/Mpp.thy ===== *)
theory Mpp
  imports Payments
begin

text \<open>
  Machine payments by transaction hash (\<^verbatim>\<open>billing/mpp.py\<close>): a server-minted challenge, the check of a
  credential against it, the match of the on-chain transfer, and the replay claim of the transaction hash.

  JSON values are a datatype without floats (none of the fields is one). The HMAC, the renderer and parser of
  ISO dates, the decoder of the HTTP form of a field and the RPC node are arguments.

  The lemmas show that the challenge id binds every field of the challenge (the encoding of the signed message
  is injective), and that a transfer pays for one call only, even after its replay claim has been cleaned up.
\<close>

section \<open>JSON and base64url\<close>

datatype json = MNull | MBool bool | MInt int | MStr string | MList "json list" | MObj "(string \<times> json) list"

definition jcs_escape :: "char \<Rightarrow> string" where
  "jcs_escape c =
    (let n = of_char c :: nat in
     if n = 34 then [CHR 0x5C, CHR 0x22]
     else if n = 92 then [CHR 0x5C, CHR 0x5C]
     else if 32 \<le> n then [c]
     else if n = 8 then [CHR 0x5C, CHR ''b'']
     else if n = 9 then [CHR 0x5C, CHR ''t'']
     else if n = 10 then [CHR 0x5C, CHR ''n'']
     else if n = 12 then [CHR 0x5C, CHR ''f'']
     else if n = 13 then [CHR 0x5C, CHR ''r'']
     else [CHR 0x5C, CHR ''u'', CHR ''0'', CHR ''0'', hex_digit (n div 16), hex_digit (n mod 16)])"

definition jcs_string :: "string \<Rightarrow> string" where
  "jcs_string s = CHR 0x22 # concat (map jcs_escape s) @ [CHR 0x22]"

text \<open>\<^verbatim>\<open>json.dumps\<close> with compact separators, of a value whose objects are already sorted.\<close>

fun dumps :: "json \<Rightarrow> string"
  and dumps_items :: "json list \<Rightarrow> string"
  and dumps_members :: "(string \<times> json) list \<Rightarrow> string" where
  "dumps MNull = ''null''"
| "dumps (MBool b) = (if b then ''true'' else ''false'')"
| "dumps (MInt n) = py_str_int n"
| "dumps (MStr s) = jcs_string s"
| "dumps (MList xs) = CHR ''['' # dumps_items xs"
| "dumps (MObj kvs) = CHR ''{'' # dumps_members kvs"
| "dumps_items [] = '']''"
| "dumps_items (x # xs) = dumps x @ (if xs = [] then '']'' else CHR '','' # dumps_items xs)"
| "dumps_members [] = ''}''"
| "dumps_members ((k, v) # kvs) =
    jcs_string k @ CHR '':'' # dumps v @ (if kvs = [] then ''}'' else CHR '','' # dumps_members kvs)"

text \<open>\<^verbatim>\<open>sort_keys\<close> sorts the objects at every level.\<close>

fun sort_keys :: "json \<Rightarrow> json" where
  "sort_keys (MList xs) = MList (map sort_keys xs)"
| "sort_keys (MObj kvs) = MObj (sort_key fst (map (\<lambda>(k, v). (k, sort_keys v)) kvs))"
| "sort_keys v = v"

definition jcs :: "json \<Rightarrow> string" where
  "jcs v = dumps (sort_keys v)"

definition b64_alphabet :: string where
  "b64_alphabet = ''ABCDEFGHIJKLMNOPQRSTUVWXYZabcdefghijklmnopqrstuvwxyz0123456789-_''"

text \<open>\<^verbatim>\<open>urlsafe_b64encode\<close> without its padding.\<close>

fun b64url :: "bytes \<Rightarrow> string" where
  "b64url [] = []"
| "b64url [a] = [b64_alphabet ! (a div 4), b64_alphabet ! (a mod 4 * 16)]"
| "b64url [a, b] = [b64_alphabet ! (a div 4), b64_alphabet ! (a mod 4 * 16 + b div 16), b64_alphabet ! (b mod 16 * 4)]"
| "b64url (a # b # c # r) =
    b64_alphabet ! (a div 4) # b64_alphabet ! (a mod 4 * 16 + b div 16) #
    b64_alphabet ! (b mod 16 * 4 + c div 64) # b64_alphabet ! (c mod 64) # b64url r"

definition encode_field :: "json \<Rightarrow> string" where
  "encode_field v = b64url (utf8 (jcs v))"

text \<open>\<open>unpack\<close> decodes the HTTP form, base64url of a JSON text; \<open>None\<close> if it raises.\<close>

definition decode_field :: "(string \<Rightarrow> json option) \<Rightarrow> json option \<Rightarrow> json option" where
  "decode_field unpack v =
    (case v of
       Some (MObj kvs) \<Rightarrow> Some (MObj kvs)
     | Some (MStr s) \<Rightarrow>
         if s = [] then None
         else (case unpack s of Some (MObj kvs) \<Rightarrow> Some (MObj kvs) | _ \<Rightarrow> None)
     | _ \<Rightarrow> None)"

fun json_get :: "json \<Rightarrow> string \<Rightarrow> json option" where
  "json_get (MObj kvs) k = map_of kvs k"
| "json_get _ k = None"

text \<open>
  \<^verbatim>\<open>str(d.get(k, ''))\<close>. The text of a list or an object starts with a bracket, which none of the compared
  values does; it is \<open>None\<close> here.
\<close>

fun json_text :: "json option \<Rightarrow> string option" where
  "json_text None = Some []"
| "json_text (Some MNull) = Some ''None''"
| "json_text (Some (MBool b)) = Some (if b then ''True'' else ''False'')"
| "json_text (Some (MInt n)) = Some (py_str_int n)"
| "json_text (Some (MStr s)) = Some s"
| "json_text (Some _) = None"

section \<open>Challenges\<close>

record mpp_settings =
  mpp_secret_key :: string
  mpp_app_host :: string
  mpp_currency :: string
  mpp_recipient :: string
  mpp_challenge_ttl_seconds :: int
  mpp_x402_network :: string
  mpp_enabled :: bool
  mpp_mcp_auth_enabled :: bool
  mpp_mcp_x402_enabled :: bool
  mpp_mcp_billing_enabled :: bool
  mpp_base_rpc_url :: string

fun py_split :: "char \<Rightarrow> string \<Rightarrow> string list" where
  "py_split d [] = [[]]"
| "py_split d (c # s) = (if c = d then [] # py_split d s else (case py_split d s of w # ws \<Rightarrow> (c # w) # ws | [] \<Rightarrow> [[c]]))"

definition mpp_chain_id :: "mpp_settings \<Rightarrow> int option" where
  "mpp_chain_id st =
    (let n = mpp_x402_network st; p = takeWhile (\<lambda>c. c \<noteq> CHR '':'') n; r = drop (length p + 1) n
     in if p = ''eip155'' \<and> r \<noteq> [] \<and> list_all is_ascii_digit r then py_int r else None)"

definition mpp_configured :: "mpp_settings \<Rightarrow> bool" where
  "mpp_configured st \<longleftrightarrow>
     mpp_enabled st \<and> mpp_mcp_auth_enabled st \<and> mpp_mcp_x402_enabled st \<and> mpp_mcp_billing_enabled st \<and>
     mpp_recipient st \<noteq> [] \<and> mpp_currency st \<noteq> [] \<and> mpp_base_rpc_url st \<noteq> [] \<and>
     32 \<le> length (mpp_secret_key st) \<and> mpp_chain_id st \<noteq> None"

definition challenge_message :: "string \<Rightarrow> string \<Rightarrow> string \<Rightarrow> json \<Rightarrow> string \<Rightarrow> json \<Rightarrow> string" where
  "challenge_message realm meth intent request expires opaque =
    realm @ ''|'' @ meth @ ''|'' @ intent @ ''|'' @ encode_field request @ ''|'' @ expires @ ''||'' @ encode_field opaque"

type_synonym mac = "bytes \<Rightarrow> bytes \<Rightarrow> bytes"

definition challenge_id ::
  "mac \<Rightarrow> string \<Rightarrow> string \<Rightarrow> string \<Rightarrow> string \<Rightarrow> json \<Rightarrow> string \<Rightarrow> json \<Rightarrow> string" where
  "challenge_id mac secret realm meth intent request expires opaque =
     b64url (mac (utf8 secret) (utf8 (challenge_message realm meth intent request expires opaque)))"

definition permit2_address :: string where
  "permit2_address = ''0x000000000022D473030F116dDEE9F6B43aC78BA3''"

definition challenge_request :: "mpp_settings \<Rightarrow> usdc \<Rightarrow> json" where
  "challenge_request st cost =
     MObj [(''amount'', MStr (py_str_int cost)), (''currency'', MStr (py_strip (mpp_currency st))),
       (''recipient'', MStr (py_strip (mpp_recipient st))),
       (''methodDetails'', MObj [(''chainId'', case mpp_chain_id st of None \<Rightarrow> MNull | Some n \<Rightarrow> MInt n),
         (''credentialTypes'', MList [MStr ''hash'']), (''decimals'', MInt 6), (''permit2Address'', MStr permit2_address)])]"

definition challenge_opaque :: "instant \<Rightarrow> string \<Rightarrow> json" where
  "challenge_opaque now nonce = MObj [(''iat'', MInt (now div 1000000)), (''nonce'', MStr nonce)]"

definition build_mpp_challenge :: "mac \<Rightarrow> (instant \<Rightarrow> string) \<Rightarrow> mpp_settings \<Rightarrow> instant \<Rightarrow> string \<Rightarrow> usdc \<Rightarrow> json" where
  "build_mpp_challenge mac render st now nonce cost =
    (let request = challenge_request st cost; opaque = challenge_opaque now nonce;
         expires = render (now + seconds (mpp_challenge_ttl_seconds st))
     in MObj [(''realm'', MStr (mpp_app_host st)), (''method'', MStr ''evm''), (''intent'', MStr ''charge''),
          (''request'', request), (''expires'', MStr expires), (''opaque'', opaque),
          (''id'', MStr (challenge_id mac (mpp_secret_key st) (mpp_app_host st) ''evm'' ''charge'' request expires opaque))])"

fun py_join :: "string \<Rightarrow> string list \<Rightarrow> string" where
  "py_join sep [] = []"
| "py_join sep [s] = s"
| "py_join sep (s # t # r) = s @ sep @ py_join sep (t # r)"

text \<open>
  The HTTP transport: the challenge as a \<^verbatim>\<open>WWW-Authenticate\<close> header, the credential of an
  \<^verbatim>\<open>Authorization\<close> header (\<open>None\<close> for another scheme, \<^verbatim>\<open>{}\<close> for a token that cannot be decoded) and the
  receipt header.
\<close>

definition mpp_www_authenticate :: "json \<Rightarrow> string option" where
  "mpp_www_authenticate challenge =
    (let text = (\<lambda>k. case json_get challenge k of Some (MStr s) \<Rightarrow> Some s | _ \<Rightarrow> None);
         field = (\<lambda>k. map_option encode_field (json_get challenge k));
         param = (\<lambda>k v. map_option (\<lambda>s. k @ ''='' @ [CHR 0x22] @ s @ [CHR 0x22]) v)
     in map_option (\<lambda>ps. ''Payment '' @ py_join '', '' ps)
          (those [param ''id'' (text ''id''), param ''realm'' (text ''realm''), param ''method'' (text ''method''),
             param ''intent'' (text ''intent''), param ''request'' (field ''request''),
             param ''expires'' (text ''expires''), param ''opaque'' (field ''opaque'')]))"

definition parse_payment_authorization :: "(string \<Rightarrow> json option) \<Rightarrow> string option \<Rightarrow> json option" where
  "parse_payment_authorization unpack header_value =
    (let v = py_strip (case header_value of None \<Rightarrow> [] | Some s \<Rightarrow> s);
         scheme = takeWhile (\<lambda>c. c \<noteq> CHR '' '') v; token = drop (length scheme + 1) v
     in if py_lower scheme \<noteq> ''payment'' then None
        else Some (case unpack (py_strip token) of Some w \<Rightarrow> w | None \<Rightarrow> MObj []))"

definition encode_receipt :: "json \<Rightarrow> string" where
  "encode_receipt receipt = encode_field receipt"

section \<open>Checking a credential\<close>

record mpp_credential =
  mc_tx_hash :: string
  mc_payer :: string
  mc_challenge_id :: string
  mc_issued_at :: int

definition mpp_malformed :: int where
  "mpp_malformed = -32602"

definition mpp_verify_failed :: int where
  "mpp_verify_failed = -32043"

definition is_0x_hex :: "nat \<Rightarrow> string \<Rightarrow> bool" where
  "is_0x_hex n s \<longleftrightarrow> take 2 s = ''0x'' \<and> length s = n + 2 \<and> list_all is_hex_char (drop 2 s)"

definition source_address :: "string \<Rightarrow> int option \<Rightarrow> string option" where
  "source_address source chain_id =
    (let value = py_strip source in
     if take 15 (py_lower value) = ''did:pkh:eip155:''
     then (let parts = py_split CHR '':'' value in
           if length parts \<noteq> 5 \<or> parts ! 3 \<noteq> (case chain_id of None \<Rightarrow> ''None'' | Some n \<Rightarrow> py_str_int n) then None
           else if is_0x_hex 40 (parts ! 4) then Some (py_lower (parts ! 4)) else None)
     else if is_0x_hex 40 value then Some (py_lower value) else None)"

text \<open>\<^verbatim>\<open>details.get("chainId") == chain_id\<close>; in Python \<^verbatim>\<open>True == 1\<close>.\<close>

fun json_is_int :: "json option \<Rightarrow> int option \<Rightarrow> bool" where
  "json_is_int (Some (MInt n)) (Some m) = (n = m)"
| "json_is_int (Some (MBool b)) (Some m) = (of_bool b = m)"
| "json_is_int None None = True"
| "json_is_int (Some MNull) None = True"
| "json_is_int _ _ = False"

fun is_dict :: "json option \<Rightarrow> bool" where
  "is_dict (Some (MObj _)) = True"
| "is_dict _ = False"

fun json_string_of :: "json option \<Rightarrow> string option" where
  "json_string_of (Some (MStr s)) = Some s"
| "json_string_of _ = None"

text \<open>The clock is the one the challenge was minted with; \<open>parse_iso\<close> reads an ISO date (\<open>None\<close>: not one).\<close>

text \<open>A refusal with its JSON-RPC code, or an exception that leaves the function.\<close>

datatype mpp_problem = MppProblem int string | MppRaise py_error

definition is_ascii :: "char \<Rightarrow> bool" where
  "is_ascii c \<longleftrightarrow> (of_char c :: nat) < 128"

text \<open>\<^verbatim>\<open>hmac.compare_digest\<close> raises on a string that is not ASCII; the expected identifier always is.\<close>

definition validate_mpp_credential ::
  "mac \<Rightarrow> (string \<Rightarrow> json option) \<Rightarrow> (string \<Rightarrow> instant option) \<Rightarrow> mpp_settings \<Rightarrow> instant \<Rightarrow> usdc \<Rightarrow> json \<Rightarrow>
   mpp_problem + mpp_credential" where
  "validate_mpp_credential mac unpack parse_iso st now cost credential =
    (if \<not> is_dict (Some credential) then Inl (MppProblem mpp_malformed ''Credential must be an object.'')
     else
       (let challenge = json_get credential ''challenge''; payload = json_get credential ''payload'';
            source = json_string_of (json_get credential ''source'') in
        if \<not> is_dict challenge \<or> \<not> is_dict payload \<or> source = None \<or> py_strip (the source) = []
        then Inl (MppProblem mpp_malformed ''Credential missing challenge, payload, or source.'')
        else
          (let tx_hash = json_string_of (json_get (the payload) ''hash'') in
           if json_get (the payload) ''type'' \<noteq> Some (MStr ''hash'') \<or> tx_hash = None \<or> \<not> is_0x_hex 64 (the tx_hash)
           then Inl (MppProblem mpp_malformed (''Only type='' @ [CHR 0x22] @ ''hash'' @ [CHR 0x22] @ '' credentials with a 0x transaction hash are accepted.''))
           else
             (let get = (\<lambda>k. json_string_of (json_get (the challenge) k));
                  request = decode_field unpack (json_get (the challenge) ''request'');
                  opaque = decode_field unpack (json_get (the challenge) ''opaque'') in
              case (request, opaque, get ''id'', get ''realm'', get ''method'', get ''intent'', get ''expires'') of
                (Some request, Some opaque, Some i, Some realm, Some meth, Some intent, Some expires_raw) \<Rightarrow>
                  if \<not> list_all is_ascii i then Inl (MppRaise (TypeError ''comparing strings with non-ASCII characters is not supported''))
                  else if i \<noteq> challenge_id mac (mpp_secret_key st) realm meth intent request expires_raw opaque
                  then Inl (MppProblem mpp_verify_failed ''Challenge was not issued by this server.'')
                  else if meth \<noteq> ''evm'' \<or> intent \<noteq> ''charge'' \<or> realm \<noteq> mpp_app_host st
                  then Inl (MppProblem mpp_verify_failed ''Unsupported challenge realm, method, or intent.'')
                  else
                    (let chain_id = mpp_chain_id st; details = json_get request ''methodDetails'' in
                     if json_text (json_get request ''amount'') \<noteq> Some (py_str_int cost)
                     then Inl (MppProblem mpp_verify_failed ''Challenge amount does not match the tool price.'')
                     else if map_option py_lower (json_text (json_get request ''currency'')) \<noteq> Some (py_lower (py_strip (mpp_currency st)))
                     then Inl (MppProblem mpp_verify_failed ''Challenge currency does not match.'')
                     else if map_option py_lower (json_text (json_get request ''recipient'')) \<noteq> Some (py_lower (py_strip (mpp_recipient st)))
                     then Inl (MppProblem mpp_verify_failed ''Challenge recipient does not match.'')
                     else if \<not> is_dict details \<or> \<not> json_is_int (json_get (the details) ''chainId'') chain_id
                     then Inl (MppProblem mpp_verify_failed ''Challenge chain does not match.'')
                     else case (if expires_raw = [] then None else parse_iso expires_raw, json_get opaque ''iat'') of
                       (Some expires, Some (MInt issued_at)) \<Rightarrow>
                         if expires \<le> now then Inl (MppProblem mpp_verify_failed ''Challenge expired.'')
                         else if now + seconds (mpp_challenge_ttl_seconds st + 60) < expires
                         then Inl (MppProblem mpp_verify_failed ''Challenge expiry is too far in the future.'')
                         else (case source_address (the source) chain_id of
                                 None \<Rightarrow> Inl (MppProblem mpp_malformed (''source must be a 0x address or did:pkh:eip155:'' @
                                   (case chain_id of None \<Rightarrow> ''None'' | Some n \<Rightarrow> py_str_int n) @ '':<address>.''))
                               | Some payer \<Rightarrow> Inr \<lparr>mc_tx_hash = py_lower (the tx_hash), mc_payer = payer,
                                   mc_challenge_id = i, mc_issued_at = issued_at\<rparr>)
                     | _ \<Rightarrow> Inl (MppProblem mpp_verify_failed ''Challenge expiry or issue time is invalid.''))
              | _ \<Rightarrow> Inl (MppProblem mpp_malformed ''Challenge is missing required fields.'')))))"

section \<open>The transfer\<close>

definition topic_address :: "string \<Rightarrow> string" where
  "topic_address address =
    (let a = py_lower address; b = (if take 2 a = ''0x'' then drop 2 a else a)
     in ''0x'' @ replicate (64 - length b) CHR ''0'' @ b)"

text \<open>\<^verbatim>\<open>int(s, 16)\<close>: whitespace, a sign and the prefix \<^verbatim>\<open>0x\<close> are optional.\<close>

definition hex_unsigned :: "string \<Rightarrow> int option" where
  "hex_unsigned s =
    (if take 2 (py_lower s) = ''0x'' then int_base16 s
     else case s of [] \<Rightarrow> None | c # s' \<Rightarrow> (case hex_value c of None \<Rightarrow> None | Some v \<Rightarrow> hex_digits (int v) s'))"

definition py_int16 :: "string \<Rightarrow> int option" where
  "py_int16 s =
    (case py_strip s of
       [] \<Rightarrow> None
     | c # s' \<Rightarrow>
         if c = CHR ''-'' then map_option uminus (hex_unsigned s')
         else if c = CHR ''+'' then hex_unsigned s'
         else hex_unsigned (c # s'))"

definition erc20_transfer_topic0 :: string where
  "erc20_transfer_topic0 = ''0xddf252ad1be2c89b69c2b068fc378daa952ba7f163c4a11628f55a4df523b3ef''"

definition lower_text :: "json option \<Rightarrow> string option" where
  "lower_text v = map_option py_lower (json_text v)"

definition log_matches :: "string \<Rightarrow> string \<Rightarrow> string \<Rightarrow> usdc \<Rightarrow> json \<Rightarrow> bool" where
  "log_matches currency recipient payer amount log =
    (is_dict (Some log) \<and>
     (case json_get log ''topics'' of
        Some (MList topics) \<Rightarrow>
          3 \<le> length topics \<and>
          lower_text (json_get log ''address'') = Some (py_lower currency) \<and>
          lower_text (Some (topics ! 0)) = Some erc20_transfer_topic0 \<and>
          lower_text (Some (topics ! 1)) = Some (topic_address payer) \<and>
          lower_text (Some (topics ! 2)) = Some (topic_address recipient) \<and>
          (case json_text (Some (case json_get log ''data'' of None \<Rightarrow> MStr ''0x0'' | Some v \<Rightarrow> v)) of
             None \<Rightarrow> False | Some s \<Rightarrow> py_int16 s = Some amount)
      | _ \<Rightarrow> False))"

definition receipt_matches :: "string \<Rightarrow> string \<Rightarrow> string \<Rightarrow> usdc \<Rightarrow> json \<Rightarrow> bool" where
  "receipt_matches currency recipient payer amount receipt =
    (is_dict (Some receipt) \<and> lower_text (json_get receipt ''status'') \<in> {Some ''0x1'', Some ''1''} \<and>
     (case json_get receipt ''logs'' of
        Some (MList logs) \<Rightarrow> list_ex (log_matches currency recipient payer amount) logs
      | _ \<Rightarrow> False))"

text \<open>The RPC node: the result of a call, \<open>None\<close> for a failure of transport or protocol.\<close>

record mpp_node =
  nd_receipt :: "string \<Rightarrow> json option"
  nd_block :: "string \<Rightarrow> json option"

definition eth_get_receipt :: "mpp_node \<Rightarrow> string \<Rightarrow> unit + json option" where
  "eth_get_receipt rpc tx =
    (case nd_receipt rpc tx of
       None \<Rightarrow> Inl ()
     | Some r \<Rightarrow> Inr (if is_dict (Some r) then Some r else None))"

definition eth_block_timestamp :: "mpp_node \<Rightarrow> json option \<Rightarrow> unit + int" where
  "eth_block_timestamp rpc block_number =
    (case json_string_of block_number of
       None \<Rightarrow> Inl ()
     | Some n \<Rightarrow>
         if take 2 n \<noteq> ''0x'' then Inl ()
         else (case nd_block rpc n of
                 None \<Rightarrow> Inl ()
               | Some b \<Rightarrow>
                   (case json_get b ''timestamp'' of
                      None \<Rightarrow> Inl ()
                    | Some v \<Rightarrow> (case Option.bind (json_text (Some v)) py_int16 of None \<Rightarrow> Inl () | Some t \<Rightarrow> Inr t))))"

section \<open>Verification\<close>

text \<open>\<open>MppRaised\<close> stands for an exception that leaves the coroutine.\<close>

datatype mpp_status = MppOk | MppMalformed | MppFailed | MppUnavailable | MppRaised py_error

record mpp_outcome =
  mo_status :: mpp_status
  mo_message :: string
  mo_tx_hash :: string
  mo_source :: string
  mo_challenge_id :: string

definition mpp_refusal :: "mpp_status \<Rightarrow> string \<Rightarrow> mpp_outcome" where
  "mpp_refusal status msg = \<lparr>mo_status = status, mo_message = msg, mo_tx_hash = [], mo_source = [], mo_challenge_id = []\<rparr>"

definition issue_skew_seconds :: int where
  "issue_skew_seconds = 60"

definition mpp_nonce_key :: "string \<Rightarrow> string" where
  "mpp_nonce_key tx = ''mpp:'' @ py_lower (py_strip tx)"

definition release_quietly :: "bool \<Rightarrow> string \<Rightarrow> nonce_store \<Rightarrow> nonce_store" where
  "release_quietly up h s = snd (release_nonce up h s)"

record mpp_env =
  me_sha :: "bytes \<Rightarrow> bytes"
  me_parse :: header_parser
  me_mac :: mac
  me_unpack :: "string \<Rightarrow> json option"
  me_parse_iso :: "string \<Rightarrow> instant option"
  me_settings :: mpp_settings

text \<open>\<open>ups\<close>: whether the claim and the release reach the database.\<close>

definition verify_mpp_payment ::
  "mpp_env \<Rightarrow> mpp_node \<Rightarrow> bool \<times> bool \<Rightarrow> instant \<Rightarrow> usdc \<Rightarrow> json \<Rightarrow> nonce_store \<Rightarrow> mpp_outcome \<times> nonce_store" where
  "verify_mpp_payment env rpc ups now cost credential s =
    (let st = me_settings env in
     case validate_mpp_credential (me_mac env) (me_unpack env) (me_parse_iso env) st now cost credential of
       Inl (MppRaise e) \<Rightarrow> (mpp_refusal (MppRaised e) [], s)
     | Inl (MppProblem code msg) \<Rightarrow> (mpp_refusal (if code = mpp_malformed then MppMalformed else MppFailed) msg, s)
     | Inr parsed \<Rightarrow>
         (let h = payment_nonce_hash (me_sha env) (me_parse env) (mpp_nonce_key (mc_tx_hash parsed)) in
          case claim_nonce (fst ups) now True h s of
            (Inl _, s1) \<Rightarrow> (mpp_refusal MppUnavailable ''Payment verification is temporarily unavailable.'', s1)
          | (Inr False, s1) \<Rightarrow> (mpp_refusal MppFailed ''Credential already used.'', s1)
          | (Inr True, s1) \<Rightarrow>
              (case eth_get_receipt rpc (mc_tx_hash parsed) of
                 Inl _ \<Rightarrow> (mpp_refusal MppUnavailable ''Payment verification is temporarily unavailable.'', release_quietly (snd ups) h s1)
               | Inr None \<Rightarrow> (mpp_refusal MppFailed ''Transaction not found or not yet confirmed; retry before the challenge expires.'', release_quietly (snd ups) h s1)
               | Inr (Some receipt) \<Rightarrow>
                   if \<not> receipt_matches (mpp_currency st) (mpp_recipient st) (mc_payer parsed) cost receipt
                   then (mpp_refusal MppFailed ''On-chain transfer does not match the challenge or source.'', release_quietly (snd ups) h s1)
                   else (case eth_block_timestamp rpc (json_get receipt ''blockNumber'') of
                           Inl _ \<Rightarrow> (mpp_refusal MppUnavailable ''Payment verification is temporarily unavailable.'',
                             release_quietly (snd ups) h s1)
                         | Inr mined_at \<Rightarrow>
                             if mined_at < mc_issued_at parsed - issue_skew_seconds
                             then (mpp_refusal MppFailed ''Transfer predates the challenge; pay after receiving a challenge.'', release_quietly (snd ups) h s1)
                             else (\<lparr>mo_status = MppOk, mo_message = [], mo_tx_hash = mc_tx_hash parsed,
                                     mo_source = mc_payer parsed, mo_challenge_id = mc_challenge_id parsed\<rparr>, s1)))))"

section \<open>The encoding is injective\<close>

lemma jcs_escape_json: "jcs_escape c = (if 126 < (of_char c :: nat) then [c] else json_escape c)"
  by (auto simp: jcs_escape_def json_escape_def Let_def)

interpretation jcs_code: escape_code jcs_escape
proof
  fix c d :: char and u v
  have first: "\<exists>x y. json_escape e = x # y \<and> (of_char x :: nat) \<le> 126" if "(of_char e :: nat) \<le> 126" for e
    by (rule json_escape_cases [of e]) (use that in auto)
  show "c = d \<and> u = v" if eq: "jcs_escape c @ u = jcs_escape d @ v"
    using eq first [of c] first [of d] json_escape_prefix [of c u d v] by (auto simp: jcs_escape_json split: if_splits)
  show "\<exists>x y. jcs_escape c = x # y \<and> x \<noteq> CHR 0x22"
    using ascii_escape.esc_not_quote [of c] by (auto simp: jcs_escape_json)
qed

lemma jcs_string_prefix: "jcs_string s @ u = jcs_string t @ v \<Longrightarrow> s = t \<and> u = v"
  unfolding jcs_string_def by (rule jcs_code.quoted_prefix)

text \<open>The first character of a text tells the constructor.\<close>

definition char_kind :: "char \<Rightarrow> nat" where
  "char_kind c =
    (let n = of_char c :: nat in
     if n = 110 then 0 else if n = 116 then 1 else if n = 102 then 2 else if n = 34 then 4
     else if n = 91 then 5 else if n = 123 then 6 else if n = 93 \<or> n = 125 \<or> n = 44 then 7 else 3)"

fun json_kind :: "json \<Rightarrow> nat" where
  "json_kind MNull = 0"
| "json_kind (MBool b) = (if b then 1 else 2)"
| "json_kind (MInt _) = 3"
| "json_kind (MStr _) = 4"
| "json_kind (MList _) = 5"
| "json_kind (MObj _) = 6"

lemma str_int_kind:
  assumes "c \<in> set (py_str_int n)"
  shows "char_kind c = 3"
  using str_int_codes [OF assms] unfolding char_kind_def Let_def by (elim disjE) simp_all

lemma dumps_head: "\<exists>c s. dumps v = c # s \<and> char_kind c = json_kind v"
proof (cases v)
  case (MInt n)
  then show ?thesis using str_int_nonempty [of n] str_int_kind [of _ n] by (cases "py_str_int n") auto
qed (simp_all add: char_kind_def jcs_string_def Let_def)

lemma dumps_kind: "dumps v @ u = dumps w @ x \<Longrightarrow> json_kind v = json_kind w"
  using dumps_head [of v] dumps_head [of w] by auto

lemma json_kind_less: "json_kind v < 7"
  by (cases v) auto

lemma dumps_not_close: "dumps v @ u \<noteq> CHR '']'' # x" "dumps v @ u \<noteq> CHR ''}'' # x"
  using dumps_head [of v] json_kind_less [of v] by (auto simp: char_kind_def)

lemma dumps_int_prefix:
  assumes "char_kind a = 7" "char_kind b = 7" "py_str_int n @ a # u = py_str_int m @ b # x"
  shows "n = m \<and> a # u = b # x"
proof -
  have "py_str_int n = py_str_int m \<and> a # u = b # x"
    by (rule delimited_prefix [where p = "\<lambda>c. char_kind c = 7"]) (use assms str_int_kind in fastforce)+
  then show ?thesis using py_int_str_int by (metis option.inject)
qed

lemma dumps_prefix:
  "dumps v @ a # u = dumps w @ b # x \<Longrightarrow> char_kind a = 7 \<Longrightarrow> char_kind b = 7 \<Longrightarrow> v = w \<and> a # u = b # x"
  "dumps_items xs @ u = dumps_items ys @ x \<Longrightarrow> xs = ys \<and> u = x"
  "dumps_members kvs @ u = dumps_members lvs @ x \<Longrightarrow> kvs = lvs \<and> u = x"
proof (induction v and xs and kvs arbitrary: a u w b x and u ys x and u lvs x
    rule: dumps_dumps_items_dumps_members.induct)
  case 1
  then show ?case using dumps_kind [OF 1(1)] by (cases w) (auto split: if_splits)
next
  case (2 c)
  then show ?case using dumps_kind [OF 2(1)] by (cases w) (auto split: if_splits)
next
  case (3 n)
  then obtain m where w: "w = MInt m" using dumps_kind [OF 3(1)] by (cases w) (auto split: if_splits)
  with 3 have "py_str_int n @ a # u = py_str_int m @ b # x" by simp
  from dumps_int_prefix [OF 3(2,3) this] w show ?case by simp
next
  case (4 s)
  then obtain r where w: "w = MStr r" using dumps_kind [OF 4(1)] by (cases w) (auto split: if_splits)
  with 4 have "jcs_string s @ a # u = jcs_string r @ b # x" by simp
  from jcs_string_prefix [OF this] w show ?case by simp
next
  case (5 xs)
  obtain ys where w: "w = MList ys" using dumps_kind [OF 5(2)] by (cases w) (auto split: if_splits)
  with 5(2) have "dumps_items xs @ a # u = dumps_items ys @ b # x" by simp
  from 5(1) [OF this] w show ?case by simp
next
  case (6 kvs)
  obtain lvs where w: "w = MObj lvs" using dumps_kind [OF 6(2)] by (cases w) (auto split: if_splits)
  with 6(2) have "dumps_members kvs @ a # u = dumps_members lvs @ b # x" by simp
  from 6(1) [OF this] w show ?case by simp
next
  case 7
  then show ?case using dumps_not_close(1) by (cases ys) (auto, metis)
next
  case (8 y xs)
  let ?rest = "\<lambda>xs. if xs = [] then '']'' else CHR '','' # dumps_items xs"
  obtain z zs where ys: "ys = z # zs" using 8(3) dumps_not_close(1) by (cases ys) auto
  obtain c r d q where ab: "?rest xs @ u = c # r" "?rest zs @ x = d # q" "char_kind c = 7" "char_kind d = 7"
    by (cases "xs = []"; cases "zs = []") (auto simp: char_kind_def)
  have "dumps y @ c # r = dumps z @ d # q" using 8(3) unfolding ys by (simp add: ab(1,2) [symmetric])
  from 8(1) [OF this ab(3,4)] have y: "y = z" "?rest xs @ u = ?rest zs @ x" using ab(1,2) by simp_all
  show ?case
  proof (cases "xs = []")
    case True
    with y ys show ?thesis by (cases "zs = []") auto
  next
    case False
    with y(2) have "zs \<noteq> []" "dumps_items xs @ u = dumps_items zs @ x" by (auto split: if_splits)
    from 8(2) [OF False this(2)] y(1) ys show ?thesis by simp
  qed
next
  case 9
  then show ?case by (cases lvs) (auto simp: jcs_string_def)
next
  case (10 k v kvs)
  let ?rest = "\<lambda>kvs. if kvs = [] then ''}'' else CHR '','' # dumps_members kvs"
  obtain k' v' lvs' where lvs: "lvs = (k', v') # lvs'" using 10(3) by (cases lvs) (auto simp: jcs_string_def)
  from 10(3) lvs have "jcs_string k @ CHR '':'' # dumps v @ ?rest kvs @ u = jcs_string k' @ CHR '':'' # dumps v' @ ?rest lvs' @ x"
    by simp
  from jcs_string_prefix [OF this] have k: "k = k'" and eq: "dumps v @ ?rest kvs @ u = dumps v' @ ?rest lvs' @ x" by auto
  obtain c r d q where ab: "?rest kvs @ u = c # r" "?rest lvs' @ x = d # q" "char_kind c = 7" "char_kind d = 7"
    by (cases "kvs = []"; cases "lvs' = []") (auto simp: char_kind_def)
  have "dumps v @ c # r = dumps v' @ d # q" using eq by (simp add: ab(1,2) [symmetric])
  from 10(1) [OF this ab(3,4)] have v: "v = v'" "?rest kvs @ u = ?rest lvs' @ x" using ab(1,2) by simp_all
  show ?case
  proof (cases "kvs = []")
    case True
    with k v lvs show ?thesis by (cases "lvs' = []") auto
  next
    case False
    with v(2) have "dumps_members kvs @ u = dumps_members lvs' @ x" by (auto split: if_splits)
    from 10(2) [OF False this] k v(1) lvs show ?thesis by simp
  qed
qed

lemma dumps_inj: "dumps v = dumps w \<Longrightarrow> v = w"
  using dumps_prefix(1) [of v "CHR '',''" "[]" w "CHR '',''" "[]"] by (simp add: char_kind_def)

lemma map_of_sort_key: "map_of (sort_key fst kvs) = map_of (kvs :: (string \<times> 'a) list)"
proof
  fix k :: string
  have first: "map_of l k = map_option snd (find (\<lambda>kv. fst kv = k) l)" for l :: "(string \<times> 'a) list"
    by (induction l) auto
  have find: "find p l = (case filter p l of [] \<Rightarrow> None | x # _ \<Rightarrow> Some x)" for p and l :: "(string \<times> 'a) list"
    by (induction l) auto
  have "filter (\<lambda>kv. fst kv = k) (sort_key fst kvs) = filter (\<lambda>kv. fst kv = k) kvs"
    using sort_key_stable [of fst k kvs] by simp
  then show "map_of (sort_key fst kvs) k = map_of kvs k" unfolding first find by simp
qed

lemma json_get_sort_keys: "json_get (sort_keys v) k = map_option sort_keys (json_get v k)"
  by (cases v) (simp_all add: map_of_sort_key map_of_map)

lemma b64_alphabet_inj: "i < 64 \<Longrightarrow> j < 64 \<Longrightarrow> b64_alphabet ! i = b64_alphabet ! j \<Longrightarrow> i = j"
proof -
  have "distinct b64_alphabet" "length b64_alphabet = 64" by (simp_all add: b64_alphabet_def)
  then show "i < 64 \<Longrightarrow> j < 64 \<Longrightarrow> b64_alphabet ! i = b64_alphabet ! j \<Longrightarrow> i = j"
    by (simp add: nth_eq_iff_index_eq)
qed

lemma b64_alphabet_mem: "i < 64 \<Longrightarrow> b64_alphabet ! i \<in> set b64_alphabet"
  by (rule nth_mem) (simp add: b64_alphabet_def)

lemma six_bits:
  fixes a b c :: nat
  assumes "a < 256" "b < 256" "c < 256"
  shows "a div 4 < 64" "a mod 4 * 16 < 64" "a mod 4 * 16 + b div 16 < 64" "b mod 16 * 4 < 64"
    "b mod 16 * 4 + c div 64 < 64" "c mod 64 < 64"
proof -
  have "a div 4 < 64" "b div 16 < 16" "c div 64 < 4" using assms by (simp_all add: less_mult_imp_div_less)
  moreover have "a mod 4 < 4" "b mod 16 < 16" "c mod 64 < 64" by simp_all
  ultimately show "a div 4 < 64" "a mod 4 * 16 < 64" "a mod 4 * 16 + b div 16 < 64" "b mod 16 * 4 < 64"
    "b mod 16 * 4 + c div 64 < 64" "c mod 64 < 64" by linarith+
qed

text \<open>A sum of a multiple and a smaller rest has one decomposition; three bytes are four groups of six bits.\<close>

lemma radix_eq:
  fixes q q' r r' k :: nat
  assumes "q * k + r = q' * k + r'" "r < k" "r' < k"
  shows "q = q' \<and> r = r'"
proof -
  have "(q * k + r) div k = q" "(q' * k + r') div k = q'" "(q * k + r) mod k = r" "(q' * k + r') mod k = r'"
    using assms(2,3) by simp_all
  with assms(1) show ?thesis by metis
qed

lemma div_mod_eqI: "x div k = y div k \<Longrightarrow> x mod k = y mod k \<Longrightarrow> x = (y :: nat)"
  by (metis div_mult_mod_eq)

lemma groups_eq:
  fixes a b c a' b' c' :: nat
  assumes "b < 256" "b' < 256"
  shows "a div 4 = a' div 4 \<Longrightarrow> a mod 4 * 16 + b div 16 = a' mod 4 * 16 + b' div 16 \<Longrightarrow> b mod 16 * 4 = b' mod 16 * 4 \<Longrightarrow>
      a = a' \<and> b = b'"
    and "c < 256 \<Longrightarrow> c' < 256 \<Longrightarrow> a div 4 = a' div 4 \<Longrightarrow> a mod 4 * 16 + b div 16 = a' mod 4 * 16 + b' div 16 \<Longrightarrow>
      b mod 16 * 4 + c div 64 = b' mod 16 * 4 + c' div 64 \<Longrightarrow> c mod 64 = c' mod 64 \<Longrightarrow> a = a' \<and> b = b' \<and> c = c'"
proof -
  have lt: "b div 16 < 16" "b' div 16 < 16" using assms by (simp_all add: less_mult_imp_div_less)
  show "a = a' \<and> b = b'" if "a div 4 = a' div 4" "a mod 4 * 16 + b div 16 = a' mod 4 * 16 + b' div 16" "b mod 16 * 4 = b' mod 16 * 4"
    using radix_eq [OF that(2) lt] that(1,3) div_mod_eqI [of a 4 a'] div_mod_eqI [of b 16 b'] by simp
  show "a = a' \<and> b = b' \<and> c = c'" if "c < 256" "c' < 256" "a div 4 = a' div 4" "a mod 4 * 16 + b div 16 = a' mod 4 * 16 + b' div 16"
    "b mod 16 * 4 + c div 64 = b' mod 16 * 4 + c' div 64" "c mod 64 = c' mod 64"
  proof -
    have "c div 64 < 4" "c' div 64 < 4" using that(1,2) by (simp_all add: less_mult_imp_div_less)
    from radix_eq [OF that(5) this] radix_eq [OF that(4) lt] show ?thesis
      using that(3,6) div_mod_eqI [of a 4 a'] div_mod_eqI [of b 16 b'] div_mod_eqI [of c 64 c'] by simp
  qed
qed

lemma b64url_inj:
  "b64url xs = b64url ys \<Longrightarrow> is_byte_list xs \<Longrightarrow> is_byte_list ys \<Longrightarrow> xs = ys"
proof (induction xs arbitrary: ys rule: b64url.induct)
  case 1
  then show ?case by (cases ys rule: b64url.cases) auto
next
  case (2 a)
  then obtain a' where ys: "ys = [a']" by (cases ys rule: b64url.cases) auto
  with 2 have lt: "a < 256" "a' < 256" by (simp_all add: is_byte_list_def)
  note s = six_bits [OF lt(1) lt(1) lt(1)] and s' = six_bits [OF lt(2) lt(2) lt(2)]
  from 2(1) ys have e: "b64_alphabet ! (a div 4) = b64_alphabet ! (a' div 4)"
    "b64_alphabet ! (a mod 4 * 16) = b64_alphabet ! (a' mod 4 * 16)" by simp_all
  from b64_alphabet_inj [OF s(1) s'(1) e(1)] b64_alphabet_inj [OF s(2) s'(2) e(2)] show ?case
    using ys div_mod_eqI [of a 4 a'] by simp
next
  case (3 a b)
  then obtain a' b' where ys: "ys = [a', b']" by (cases ys rule: b64url.cases) auto
  with 3 have lt: "a < 256" "b < 256" "a' < 256" "b' < 256" by (simp_all add: is_byte_list_def)
  note s = six_bits [OF lt(1,2,2)] and s' = six_bits [OF lt(3,4,4)]
  from 3(1) ys have e: "b64_alphabet ! (a div 4) = b64_alphabet ! (a' div 4)"
    "b64_alphabet ! (a mod 4 * 16 + b div 16) = b64_alphabet ! (a' mod 4 * 16 + b' div 16)"
    "b64_alphabet ! (b mod 16 * 4) = b64_alphabet ! (b' mod 16 * 4)" by simp_all
  from groups_eq(1) [OF lt(2,4) b64_alphabet_inj [OF s(1) s'(1) e(1)] b64_alphabet_inj [OF s(3) s'(3) e(2)]
      b64_alphabet_inj [OF s(4) s'(4) e(3)]] show ?case using ys by simp
next
  case (4 a b c r)
  then obtain a' b' c' r' where ys: "ys = a' # b' # c' # r'" by (cases ys rule: b64url.cases) auto
  with 4(3,4) have lt: "a < 256" "b < 256" "c < 256" "a' < 256" "b' < 256" "c' < 256" and r: "is_byte_list r" "is_byte_list r'"
    by (simp_all add: is_byte_list_def)
  note s = six_bits [OF lt(1-3)] and s' = six_bits [OF lt(4-6)]
  from 4(2) ys have e: "b64_alphabet ! (a div 4) = b64_alphabet ! (a' div 4)"
    "b64_alphabet ! (a mod 4 * 16 + b div 16) = b64_alphabet ! (a' mod 4 * 16 + b' div 16)"
    "b64_alphabet ! (b mod 16 * 4 + c div 64) = b64_alphabet ! (b' mod 16 * 4 + c' div 64)"
    "b64_alphabet ! (c mod 64) = b64_alphabet ! (c' mod 64)" "b64url r = b64url r'" by simp_all
  from groups_eq(2) [OF lt(2,5,3,6) b64_alphabet_inj [OF s(1) s'(1) e(1)] b64_alphabet_inj [OF s(3) s'(3) e(2)]
      b64_alphabet_inj [OF s(5) s'(5) e(3)] b64_alphabet_inj [OF s(6) s'(6) e(4)]] 4(1) [OF e(5) r] show ?case using ys by simp
qed

lemma b64url_alphabet: "is_byte_list xs \<Longrightarrow> set (b64url xs) \<subseteq> set b64_alphabet"
proof (induction xs rule: b64url.induct)
  case (2 a)
  then have "a < 256" by (simp add: is_byte_list_def)
  from six_bits [OF this this this, THEN b64_alphabet_mem] show ?case by simp
next
  case (3 a b)
  then have "a < 256" "b < 256" by (simp_all add: is_byte_list_def)
  from six_bits [OF this(1,2,2), THEN b64_alphabet_mem] show ?case by simp
next
  case (4 a b c r)
  then have lt: "a < 256" "b < 256" "c < 256" and r: "set (b64url r) \<subseteq> set b64_alphabet" by (simp_all add: is_byte_list_def)
  from six_bits [OF lt, THEN b64_alphabet_mem] r show ?case by simp
qed simp

lemma b64url_chars: "is_byte_list xs \<Longrightarrow> CHR ''|'' \<notin> set (b64url xs)"
  using b64url_alphabet [of xs] by (auto simp: b64_alphabet_def)

lemma b64url_ascii: "is_byte_list xs \<Longrightarrow> list_all is_ascii (b64url xs)"
proof -
  have "\<forall>c \<in> set b64_alphabet. is_ascii c" by (simp add: b64_alphabet_def is_ascii_def)
  then show "is_byte_list xs \<Longrightarrow> list_all is_ascii (b64url xs)" using b64url_alphabet [of xs] by (auto simp: list_all_iff)
qed

lemma utf8_bytes: "is_byte_list (utf8 s)"
proof -
  have "\<forall>b \<in> set (utf8_char c). b < 256" for c
  proof -
    have "(of_char c :: nat) < 256" by simp
    then have "(of_char c :: nat) div 64 < 4" by (simp add: less_mult_imp_div_less)
    moreover have "(of_char c :: nat) mod 64 < 128" using mod_less_divisor [of 64 "of_char c :: nat"] by linarith
    ultimately show ?thesis unfolding utf8_char_def Let_def by simp
  qed
  then show ?thesis by (auto simp: utf8_def is_byte_list_def)
qed

lemma encode_field_chars: "CHR ''|'' \<notin> set (encode_field v)"
  unfolding encode_field_def by (rule b64url_chars) (rule utf8_bytes)

lemma encode_field_inj: "encode_field v = encode_field w \<Longrightarrow> sort_keys v = sort_keys w"
  unfolding encode_field_def jcs_def by (rule dumps_inj, rule utf8_inj, rule b64url_inj) (simp_all add: utf8_bytes)

lemma challenge_message_inj:
  assumes "challenge_message realm meth intent request expires opaque = challenge_message realm meth intent request' expires' opaque'"
  shows "sort_keys request = sort_keys request' \<and> expires = expires' \<and> sort_keys opaque = sort_keys opaque'"
proof -
  have "encode_field request @ CHR ''|'' # expires @ ''||'' @ encode_field opaque =
      encode_field request' @ CHR ''|'' # expires' @ ''||'' @ encode_field opaque'"
    using assms by (simp add: challenge_message_def)
  from first_delimiter [OF this encode_field_chars encode_field_chars]
  have r: "encode_field request = encode_field request'"
    and e: "(expires @ ''|'') @ CHR ''|'' # encode_field opaque = (expires' @ ''|'') @ CHR ''|'' # encode_field opaque'" by simp_all
  from last_delimiter [OF e encode_field_chars encode_field_chars] have "expires = expires'" "encode_field opaque = encode_field opaque'"
    by simp_all
  then show ?thesis using encode_field_inj [OF r] encode_field_inj [of opaque opaque'] by blast
qed

section \<open>What an accepted credential says\<close>

text \<open>The documented behaviour of the ISO renderer and parser: a rendered instant is read back to the second.\<close>

definition iso_clock :: "(instant \<Rightarrow> string) \<Rightarrow> (string \<Rightarrow> instant option) \<Rightarrow> bool" where
  "iso_clock render parse_iso \<longleftrightarrow> (\<forall>t. render t \<noteq> [] \<and> parse_iso (render t) = Some (seconds (t div 1000000)))"

definition minted_message :: "(instant \<Rightarrow> string) \<Rightarrow> mpp_settings \<Rightarrow> instant \<times> string \<times> usdc \<Rightarrow> string" where
  "minted_message render st = (\<lambda>(now, nonce, cost).
     challenge_message (mpp_app_host st) ''evm'' ''charge'' (challenge_request st cost)
       (render (now + seconds (mpp_challenge_ttl_seconds st))) (challenge_opaque now nonce))"

text \<open>
  Unforgeability of the HMAC for one identifier: it authenticates only messages of challenges that this
  server minted.
\<close>

definition mac_unforged ::
  "mac \<Rightarrow> (instant \<Rightarrow> string) \<Rightarrow> mpp_settings \<Rightarrow> (instant \<times> string \<times> usdc) set \<Rightarrow> string \<Rightarrow> bool" where
  "mac_unforged mac render st minted i \<longleftrightarrow>
     (\<forall>m. i = b64url (mac (utf8 (mpp_secret_key st)) (utf8 m)) \<longrightarrow> m \<in> minted_message render st ` minted)"

text \<open>A digest is a list of bytes.\<close>

definition mac_bytes :: "mac \<Rightarrow> bool" where
  "mac_bytes mac \<longleftrightarrow> (\<forall>k m. is_byte_list k \<longrightarrow> is_byte_list m \<longrightarrow> is_byte_list (mac k m))"

lemma challenge_id_ascii: "mac_bytes mac \<Longrightarrow> list_all is_ascii (challenge_id mac secret realm meth intent request expires opaque)"
  unfolding challenge_id_def mac_bytes_def by (simp add: b64url_ascii utf8_bytes)

lemma validate_InrD:
  assumes "validate_mpp_credential mac unpack parse_iso st now cost credential = Inr parsed"
  obtains request opaque expires_raw expires where
    "mc_challenge_id parsed = challenge_id mac (mpp_secret_key st) (mpp_app_host st) ''evm'' ''charge'' request expires_raw opaque"
    "json_text (json_get request ''amount'') = Some (py_str_int cost)"
    "map_option py_lower (json_text (json_get request ''recipient'')) = Some (py_lower (py_strip (mpp_recipient st)))"
    "parse_iso expires_raw = Some expires" "json_get opaque ''iat'' = Some (MInt (mc_issued_at parsed))" "now < expires"
proof -
  let ?ch = "the (json_get credential ''challenge'')"
  let ?get = "\<lambda>k. json_string_of (json_get ?ch k)"
  let ?rq = "decode_field unpack (json_get ?ch ''request'')" and ?op = "decode_field unpack (json_get ?ch ''opaque'')"
  have some: "\<exists>request opaque i realm meth intent e. ?rq = Some request \<and> ?op = Some opaque \<and> ?get ''id'' = Some i \<and>
      ?get ''realm'' = Some realm \<and> ?get ''method'' = Some meth \<and> ?get ''intent'' = Some intent \<and> ?get ''expires'' = Some e"
    using assms unfolding validate_mpp_credential_def Let_def by (simp split: if_splits option.splits)
  then obtain request opaque i realm meth intent e where f: "?rq = Some request" "?op = Some opaque" "?get ''id'' = Some i"
      "?get ''realm'' = Some realm" "?get ''method'' = Some meth" "?get ''intent'' = Some intent" "?get ''expires'' = Some e" by blast
  have "i = challenge_id mac (mpp_secret_key st) realm meth intent request e opaque" "meth = ''evm''" "intent = ''charge''"
    "realm = mpp_app_host st" "json_text (json_get request ''amount'') = Some (py_str_int cost)"
    "map_option py_lower (json_text (json_get request ''recipient'')) = Some (py_lower (py_strip (mpp_recipient st)))"
    using assms f unfolding validate_mpp_credential_def Let_def by (simp_all split: if_splits)
  moreover have "\<exists>x. parse_iso e = Some x \<and> now < x \<and> json_get opaque ''iat'' = Some (MInt (mc_issued_at parsed)) \<and> mc_challenge_id parsed = i"
    using assms f calculation unfolding validate_mpp_credential_def Let_def
    by (simp split: if_splits option.splits json.splits) auto
  ultimately show thesis using that by blast
qed

lemma accepted_minted:
  assumes acc: "validate_mpp_credential mac unpack parse_iso st now cost credential = Inr parsed"
    and unforged: "mac_unforged mac render st minted (mc_challenge_id parsed)" and clock: "iso_clock render parse_iso"
  obtains now0 nonce where "(now0, nonce, cost) \<in> minted" "mc_issued_at parsed = now0 div 1000000"
    "now < seconds (now0 div 1000000 + mpp_challenge_ttl_seconds st)"
proof -
  obtain request opaque e x where v: "mc_challenge_id parsed =
      challenge_id mac (mpp_secret_key st) (mpp_app_host st) ''evm'' ''charge'' request e opaque"
    "json_text (json_get request ''amount'') = Some (py_str_int cost)" "parse_iso e = Some x"
    "json_get opaque ''iat'' = Some (MInt (mc_issued_at parsed))" "now < x"
    using validate_InrD [OF acc] by metis
  from unforged v(1) have "challenge_message (mpp_app_host st) ''evm'' ''charge'' request e opaque \<in> minted_message render st ` minted"
    unfolding mac_unforged_def challenge_id_def by blast
  then obtain now0 nonce cost0 where m: "(now0, nonce, cost0) \<in> minted"
      "challenge_message (mpp_app_host st) ''evm'' ''charge'' request e opaque = minted_message render st (now0, nonce, cost0)"
    by (elim imageE) (metis prod_cases3)
  from challenge_message_inj [OF m(2) [unfolded minted_message_def prod.case]]
  have eq: "sort_keys request = sort_keys (challenge_request st cost0)" "e = render (now0 + seconds (mpp_challenge_ttl_seconds st))"
    "sort_keys opaque = sort_keys (challenge_opaque now0 nonce)" by blast+
  have get: "map_option sort_keys (json_get v k) = map_option sort_keys (json_get w k)" if "sort_keys v = sort_keys w" for v w k
    using json_get_sort_keys [of v k] json_get_sort_keys [of w k] that by simp
  have iat: "mc_issued_at parsed = now0 div 1000000"
    using get [OF eq(3), of "''iat''"] v(4) by (simp add: challenge_opaque_def)
  have "map_option sort_keys (json_get request ''amount'') = Some (MStr (py_str_int cost0))"
    using get [OF eq(1), of "''amount''"] by (simp add: challenge_request_def)
  then have "json_get request ''amount'' = Some (MStr (py_str_int cost0))"
    by (cases "json_get request ''amount''") (auto elim: sort_keys.elims)
  with v(2) have "py_str_int cost0 = py_str_int cost" by simp
  then have cost: "cost0 = cost" using py_int_str_int by (metis option.inject)
  have "x = seconds ((now0 + seconds (mpp_challenge_ttl_seconds st)) div 1000000)"
    using clock eq(2) v(3) by (simp add: iso_clock_def)
  then have "x = seconds (now0 div 1000000 + mpp_challenge_ttl_seconds st)" by (simp add: seconds_def)
  with v(5) m(1) iat cost that show thesis by simp
qed

lemma minted_challenge_header: "mpp_www_authenticate (build_mpp_challenge mac render st now nonce cost) \<noteq> None"
  by (simp add: mpp_www_authenticate_def build_mpp_challenge_def Let_def)

lemma configured_chain_id:
  assumes "mpp_configured st"
  obtains n where "mpp_chain_id st = Some n"
    "json_get (challenge_request st cost) ''methodDetails'' = Some (MObj [(''chainId'', MInt n), (''credentialTypes'', MList [MStr ''hash'']),
       (''decimals'', MInt 6), (''permit2Address'', MStr permit2_address)])"
  using assms by (auto simp: mpp_configured_def challenge_request_def)

lemma authorization_decoded:
  assumes "unpack (py_strip token) = Some v" "py_strip (''Payment '' @ token) = ''Payment '' @ token"
  shows "parse_payment_authorization unpack (Some (''Payment '' @ token)) = Some v"
proof -
  have "char_of (112 :: nat) = CHR ''p''" by (simp add: char_of_eq_iff)
  with assms show ?thesis by (simp add: parse_payment_authorization_def py_lower_def py_lower_char_def Let_def)
qed

section \<open>What an accepted payment leaves behind\<close>

definition mined_at :: "mpp_node \<Rightarrow> string \<Rightarrow> int option" where
  "mined_at rpc tx =
    (case eth_get_receipt rpc tx of
       Inr (Some receipt) \<Rightarrow> (case eth_block_timestamp rpc (json_get receipt ''blockNumber'') of Inr t \<Rightarrow> Some t | Inl _ \<Rightarrow> None)
     | _ \<Rightarrow> None)"

definition mpp_claim :: "mpp_env \<Rightarrow> string \<Rightarrow> string" where
  "mpp_claim env tx = payment_nonce_hash (me_sha env) (me_parse env) (mpp_nonce_key tx)"

lemma verify_mpp_claimed:
  assumes "validate_mpp_credential (me_mac env) (me_unpack env) (me_parse_iso env) (me_settings env) now cost credential = Inr parsed"
    and "claim_nonce (fst ups) now True (mpp_claim env (mc_tx_hash parsed)) s = (Inr True, s1)"
  shows "verify_mpp_payment env rpc ups now cost credential s =
    (case eth_get_receipt rpc (mc_tx_hash parsed) of
       Inl _ \<Rightarrow> (mpp_refusal MppUnavailable ''Payment verification is temporarily unavailable.'', release_quietly (snd ups) (mpp_claim env (mc_tx_hash parsed)) s1)
     | Inr None \<Rightarrow> (mpp_refusal MppFailed ''Transaction not found or not yet confirmed; retry before the challenge expires.'', release_quietly (snd ups) (mpp_claim env (mc_tx_hash parsed)) s1)
     | Inr (Some receipt) \<Rightarrow>
         if \<not> receipt_matches (mpp_currency (me_settings env)) (mpp_recipient (me_settings env)) (mc_payer parsed) cost receipt
         then (mpp_refusal MppFailed ''On-chain transfer does not match the challenge or source.'', release_quietly (snd ups) (mpp_claim env (mc_tx_hash parsed)) s1)
         else (case eth_block_timestamp rpc (json_get receipt ''blockNumber'') of
                 Inl _ \<Rightarrow> (mpp_refusal MppUnavailable ''Payment verification is temporarily unavailable.'',
                   release_quietly (snd ups) (mpp_claim env (mc_tx_hash parsed)) s1)
               | Inr mined \<Rightarrow>
                   if mined < mc_issued_at parsed - issue_skew_seconds
                   then (mpp_refusal MppFailed ''Transfer predates the challenge; pay after receiving a challenge.'', release_quietly (snd ups) (mpp_claim env (mc_tx_hash parsed)) s1)
                   else (\<lparr>mo_status = MppOk, mo_message = [], mo_tx_hash = mc_tx_hash parsed,
                           mo_source = mc_payer parsed, mo_challenge_id = mc_challenge_id parsed\<rparr>, s1)))"
  unfolding verify_mpp_payment_def Let_def assms(1) mpp_claim_def [symmetric] by (simp add: assms(2) [unfolded mpp_claim_def] mpp_claim_def)

lemma verify_mpp_cases:
  assumes "verify_mpp_payment env rpc ups now cost credential s = (out, s')"
  obtains (untouched) "mo_status out \<noteq> MppOk" "s' = s"
    | (released) tx s1 where "mo_status out \<noteq> MppOk" "claim_nonce (fst ups) now True (mpp_claim env tx) s = (Inr True, s1)"
        "s' = snd (release_nonce (snd ups) (mpp_claim env tx) s1)"
    | (accepted) parsed mined where "mo_status out = MppOk"
        "validate_mpp_credential (me_mac env) (me_unpack env) (me_parse_iso env) (me_settings env) now cost credential = Inr parsed"
        "mo_tx_hash out = mc_tx_hash parsed" "mo_challenge_id out = mc_challenge_id parsed"
        "claim_nonce (fst ups) now True (mpp_claim env (mo_tx_hash out)) s = (Inr True, s')"
        "mined_at rpc (mo_tx_hash out) = Some mined" "mc_issued_at parsed - issue_skew_seconds \<le> mined"
proof (cases "validate_mpp_credential (me_mac env) (me_unpack env) (me_parse_iso env) (me_settings env) now cost credential")
  case (Inl e)
  with assms show thesis by (intro untouched) (auto simp: verify_mpp_payment_def mpp_refusal_def split: mpp_problem.splits if_splits)
next
  case (Inr parsed)
  let ?tx = "mc_tx_hash parsed"
  obtain r s1 where claim: "claim_nonce (fst ups) now True (mpp_claim env ?tx) s = (r, s1)" by fastforce
  show thesis
  proof (cases "r = Inr True")
    case False
    have "s1 = s" using claim by (cases rule: claim_nonce_cases) (use False in auto)
    with assms Inr claim False show thesis
      by (intro untouched) (auto simp: verify_mpp_payment_def mpp_refusal_def mpp_claim_def Let_def split: sum.splits bool.splits)
  next
    case True
    note eq = verify_mpp_claimed [OF Inr claim [unfolded True], of rpc]
    show thesis
    proof (cases "mo_status out = MppOk")
      case False
      then have "s' = release_quietly (snd ups) (mpp_claim env ?tx) s1"
        using assms unfolding eq by (auto split: sum.splits option.splits if_splits)
      with False claim True show thesis by (intro released [of ?tx s1]) (auto simp: release_quietly_def)
    next
      case ok: True
      have "\<exists>m. mined_at rpc ?tx = Some m \<and> mc_issued_at parsed - issue_skew_seconds \<le> m" "mo_tx_hash out = ?tx"
        "mo_challenge_id out = mc_challenge_id parsed" "s' = s1"
        using assms ok unfolding eq by (auto simp: mpp_refusal_def mined_at_def split: sum.splits option.splits if_splits)
      with ok Inr claim True show thesis by (metis accepted)
    qed
  qed
qed

text \<open>
  What happens between two payments, with the clock: time passes, x402 payments are claimed, reserved and
  released (never the claim \<open>h\<close> of an accepted transfer), expired claims are cleaned up, and other
  credentials are verified.
\<close>

inductive mpp_step :: "mpp_env \<Rightarrow> string \<Rightarrow> instant \<times> nonce_store \<Rightarrow> instant \<times> nonce_store \<Rightarrow> bool" for env h where
  tick: "now \<le> now' \<Longrightarrow> mpp_step env h (now, s) (now', s)"
| claim: "mpp_step env h (now, s) (now, snd (claim_nonce up now fail_closed h' s))"
| reserve: "mpp_step env h (now, s) (now, snd (reserve_payer_spend up now h' payer amount limit s))"
| release: "h' \<noteq> h \<Longrightarrow> mpp_step env h (now, s) (now, snd (release_nonce up h' s))"
| cleanup: "mpp_step env h (now, s) (now, snd (cleanup_expired_payment_nonces up now 24 s))"
| verify: "mpp_step env h (now, s) (now, snd (verify_mpp_payment env rpc ups now cost credential s))"

inductive_cases mpp_stepE: "mpp_step env h x y"

definition claim_or_late :: "string \<Rightarrow> instant \<Rightarrow> instant \<times> nonce_store \<Rightarrow> bool" where
  "claim_or_late h t = (\<lambda>(now, s). claimed h t s \<or> t + hours 24 < now)"

lemma claimed_claim_refused: "claimed h t s \<Longrightarrow> claim_nonce up now fail_closed h s \<noteq> (Inr True, s')"
  by (auto simp: claimed_def claim_nonce_def)

lemma verify_mpp_keeps_claim:
  assumes "claimed h t s"
  shows "claimed h t (snd (verify_mpp_payment env rpc ups now cost credential s))"
proof -
  obtain out s' where run: "verify_mpp_payment env rpc ups now cost credential s = (out, s')" by fastforce
  have keep: "claimed h t s1 \<and> h' \<noteq> h" if "claim_nonce up now True h' s = (Inr True, s1)" for up h' s1
    using nonce_step_claimed [OF nonce_step.claim assms, of up now True h'] claimed_claim_refused [OF assms] that by fastforce
  from run have "claimed h t s'"
  proof (cases rule: verify_mpp_cases)
    case (released tx s1)
    from keep [OF released(2)] have c: "claimed h t s1" "mpp_claim env tx \<noteq> h" by blast+
    show ?thesis unfolding released(3) by (rule nonce_step_claimed [OF nonce_step.release c(1)]) (rule c(2))
  qed (use assms keep in auto)
  then show ?thesis by (simp add: run)
qed

lemma mpp_step_claim_or_late:
  assumes "mpp_step env h x y" "claim_or_late h t x"
  shows "claim_or_late h t y"
  using assms
proof (cases rule: mpp_step.cases)
  case (cleanup now s up)
  with assms(2) show ?thesis
    using nonce_step_claimed [OF nonce_step.cleanup, of now t h s up] by (auto simp: claim_or_late_def)
next
  case (claim now s up fail_closed h')
  with assms(2) show ?thesis using nonce_step_claimed [OF nonce_step.claim] by (auto simp: claim_or_late_def)
next
  case (reserve now s up h' payer amount limit)
  with assms(2) show ?thesis using nonce_step_claimed [OF nonce_step.reserve] by (auto simp: claim_or_late_def)
next
  case (release h' now s up)
  with assms(2) show ?thesis using nonce_step_claimed [OF nonce_step.release] by (auto simp: claim_or_late_def)
qed (auto simp: claim_or_late_def verify_mpp_keeps_claim)

lemma mpp_steps_claim_or_late:
  "(mpp_step env h)\<^sup>*\<^sup>* x y \<Longrightarrow> claim_or_late h t x \<Longrightarrow> claim_or_late h t y"
  by (induction rule: rtranclp_induct) (auto intro: mpp_step_claim_or_late)

lemma validate_minted:
  assumes clock: "iso_clock render parse_iso" and mac: "mac_bytes mac" and source: "source_address source (mpp_chain_id st) = Some payer" "py_strip source \<noteq> []"
    and tx: "is_0x_hex 64 tx" and time: "now0 \<le> now" "now < seconds (now0 div 1000000 + mpp_challenge_ttl_seconds st)"
  shows "validate_mpp_credential mac unpack parse_iso st now cost
      (MObj [(''challenge'', build_mpp_challenge mac render st now0 nonce cost),
         (''payload'', MObj [(''type'', MStr ''hash''), (''hash'', MStr tx)]), (''source'', MStr source)]) =
    Inr \<lparr>mc_tx_hash = py_lower tx, mc_payer = payer,
      mc_challenge_id = challenge_id mac (mpp_secret_key st) (mpp_app_host st) ''evm'' ''charge'' (challenge_request st cost)
        (render (now0 + seconds (mpp_challenge_ttl_seconds st))) (challenge_opaque now0 nonce),
      mc_issued_at = now0 div 1000000\<rparr>"
proof -
  let ?ttl = "mpp_challenge_ttl_seconds st"
  have iso: "render (now0 + seconds ?ttl) \<noteq> []"
    "parse_iso (render (now0 + seconds ?ttl)) = Some (seconds (now0 div 1000000 + ?ttl))"
    using clock by (simp_all add: iso_clock_def seconds_def)
  have "seconds (now0 div 1000000) \<le> now0"
    using div_mult_mod_eq [of now0 1000000] pos_mod_sign [of 1000000 now0] by (simp add: seconds_def)
  then have far: "\<not> now + seconds (?ttl + 60) < seconds (now0 div 1000000 + ?ttl)"
    using time(1) by (simp add: seconds_def algebra_simps)
  have request: "decode_field unpack (Some (challenge_request st cost)) = Some (challenge_request st cost)"
    "decode_field unpack (Some (challenge_opaque now0 nonce)) = Some (challenge_opaque now0 nonce)"
    by (simp_all add: decode_field_def challenge_request_def challenge_opaque_def)
  have fields: "json_get (challenge_request st cost) ''amount'' = Some (MStr (py_str_int cost))"
    "json_get (challenge_request st cost) ''currency'' = Some (MStr (py_strip (mpp_currency st)))"
    "json_get (challenge_request st cost) ''recipient'' = Some (MStr (py_strip (mpp_recipient st)))"
    "is_dict (json_get (challenge_request st cost) ''methodDetails'')"
    "json_is_int (json_get (the (json_get (challenge_request st cost) ''methodDetails'')) ''chainId'') (mpp_chain_id st)"
    "json_get (challenge_opaque now0 nonce) ''iat'' = Some (MInt (now0 div 1000000))"
    by (simp_all add: challenge_request_def challenge_opaque_def split: option.split)
  show ?thesis
    unfolding validate_mpp_credential_def build_mpp_challenge_def Let_def
    using iso far request fields source tx time(2) challenge_id_ascii [OF mac] by simp
qed

text \<open>
  An identifier that is not ASCII is not refused like any other forged one: the comparison raises and no handler
  catches it.
\<close>

lemma non_ascii_identifier_raises:
  assumes "is_0x_hex 64 tx" "py_strip source \<noteq> []" "\<not> list_all is_ascii i"
  shows "validate_mpp_credential mac unpack parse_iso st now cost
    (MObj [(''challenge'', MObj [(''id'', MStr i), (''realm'', MStr r), (''method'', MStr m), (''intent'', MStr n),
        (''expires'', MStr e), (''request'', MObj rq), (''opaque'', MObj oq)]),
      (''payload'', MObj [(''type'', MStr ''hash''), (''hash'', MStr tx)]), (''source'', MStr source)]) =
    Inl (MppRaise (TypeError ''comparing strings with non-ASCII characters is not supported''))"
  using assms by (simp add: validate_mpp_credential_def decode_field_def Let_def)

section \<open>Properties\<close>

text \<open>
  C18. A transfer pays once. After a payment by a transaction hash was accepted, and whatever time passes and
  whatever other payments, releases and cleanups happen, no credential whatsoever is accepted with the same
  transaction, not even after its replay claim has been deleted: a challenge that is still valid then was
  issued after the transfer was mined. The hypotheses are that challenge identifiers are not forged, that
  dates are read back, that the chain reports one block time for the transaction, at most a minute ahead of
  the server's clock, and the configured range of the challenge lifetime.
\<close>

theorem mpp_transfer_pays_once:
  assumes first: "verify_mpp_payment env rpc ups now1 cost1 cred1 s = (out1, s1)" "mo_status out1 = MppOk"
    and between: "(mpp_step env (mpp_claim env (mo_tx_hash out1)))\<^sup>*\<^sup>* (now1, s1) (now2, s2)"
    and second: "verify_mpp_payment env rpc' ups' now2 cost2 cred2 s2 = (out2, s3)" "mo_status out2 = MppOk"
    and unforged: "mac_unforged (me_mac env) render (me_settings env) minted (mo_challenge_id out2)"
    and clock: "iso_clock render (me_parse_iso env)"
    and chain: "\<forall>m. mined_at rpc (mo_tx_hash out1) = Some m \<longrightarrow> seconds m \<le> now1 + seconds 60"
      "mined_at rpc' (mo_tx_hash out1) = mined_at rpc (mo_tx_hash out1)"
    and ttl: "mpp_challenge_ttl_seconds (me_settings env) \<le> 3600"
  shows "mo_tx_hash out2 \<noteq> mo_tx_hash out1"
proof
  assume same: "mo_tx_hash out2 = mo_tx_hash out1"
  let ?h = "mpp_claim env (mo_tx_hash out1)"
  from first(1) obtain m1 where c1: "claim_nonce (fst ups) now1 True ?h s = (Inr True, s1)" and m1: "mined_at rpc (mo_tx_hash out1) = Some m1"
    by (cases rule: verify_mpp_cases) (use first(2) in auto)
  have "ns_bound s" using c1 by (auto simp: claim_nonce_def split: if_splits)
  from c1 have "claimed ?h now1 s1" by (cases rule: claim_nonce_cases) (use \<open>ns_bound s\<close> in auto)
  then have "claim_or_late ?h now1 (now2, s2)"
    by (intro mpp_steps_claim_or_late [OF between]) (simp add: claim_or_late_def)
  moreover from second(1) obtain parsed m2 where v: "validate_mpp_credential (me_mac env) (me_unpack env) (me_parse_iso env)
      (me_settings env) now2 cost2 cred2 = Inr parsed" "mo_challenge_id out2 = mc_challenge_id parsed"
    and c2: "claim_nonce (fst ups') now2 True ?h s2 = (Inr True, s3)"
    and m2: "mined_at rpc' (mo_tx_hash out1) = Some m2" "mc_issued_at parsed - issue_skew_seconds \<le> m2"
    by (cases rule: verify_mpp_cases) (use second(2) same in auto)
  moreover have "\<not> claimed ?h now1 s2" using claimed_claim_refused c2 by blast
  ultimately have late: "now1 + hours 24 < now2" by (simp add: claim_or_late_def)
  obtain now0 where n0: "mc_issued_at parsed = now0 div 1000000"
    "now2 < seconds (now0 div 1000000 + mpp_challenge_ttl_seconds (me_settings env))"
    using accepted_minted [OF v(1) _ clock] unforged v(2) by metis
  have "m2 = m1" "seconds m1 \<le> now1 + seconds 60" using chain m1 m2(1) by simp_all
  with n0 m2(2) ttl late show False by (simp add: seconds_def hours_def issue_skew_seconds_def)
qed

text \<open>
  A challenge authenticates its terms. A credential that is accepted for a price presents a challenge
  that this server minted for exactly that price, less than the challenge lifetime ago.
\<close>

theorem mpp_challenge_authentic:
  assumes "validate_mpp_credential mac unpack parse_iso st now cost credential = Inr parsed"
    and "mac_unforged mac render st minted (mc_challenge_id parsed)" and "iso_clock render parse_iso"
  shows "\<exists>now0 nonce. (now0, nonce, cost) \<in> minted \<and> mc_issued_at parsed = now0 div 1000000 \<and>
    now < now0 + seconds (mpp_challenge_ttl_seconds st)"
proof -
  obtain now0 nonce where m: "(now0, nonce, cost) \<in> minted" "mc_issued_at parsed = now0 div 1000000"
    "now < seconds (now0 div 1000000 + mpp_challenge_ttl_seconds st)" by (rule accepted_minted [OF assms])
  moreover have "seconds (now0 div 1000000) \<le> now0" using div_mult_mod_eq [of now0 1000000] pos_mod_sign [of 1000000 now0]
    by (simp add: seconds_def)
  ultimately have "now < now0 + seconds (mpp_challenge_ttl_seconds st)" by (simp add: seconds_def algebra_simps)
  with m show ?thesis by blast
qed

text \<open>
  A minted challenge is accepted. A credential that presents an unmodified challenge before it expires,
  for the price it was minted for, with a well-formed transaction hash and a payer on the right chain, passes
  validation, and the parsed credential carries the hash, the payer, the identifier and the issue time.
\<close>

theorem mpp_challenge_roundtrip:
  assumes clock: "iso_clock render parse_iso" and mac: "mac_bytes mac" and source: "source_address source (mpp_chain_id st) = Some payer" "py_strip source \<noteq> []"
    and tx: "is_0x_hex 64 tx" and time: "now0 \<le> now" "now < seconds (now0 div 1000000 + mpp_challenge_ttl_seconds st)"
  shows "validate_mpp_credential mac unpack parse_iso st now cost
      (MObj [(''challenge'', build_mpp_challenge mac render st now0 nonce cost),
         (''payload'', MObj [(''type'', MStr ''hash''), (''hash'', MStr tx)]), (''source'', MStr source)]) =
    Inr \<lparr>mc_tx_hash = py_lower tx, mc_payer = payer,
      mc_challenge_id = challenge_id mac (mpp_secret_key st) (mpp_app_host st) ''evm'' ''charge'' (challenge_request st cost)
        (render (now0 + seconds (mpp_challenge_ttl_seconds st))) (challenge_opaque now0 nonce),
      mc_issued_at = now0 div 1000000\<rparr>"
  by (rule validate_minted [OF assms])

text \<open>A server that authenticates with the message itself, a node that knows one transfer per hash, and two payments.\<close>

definition demo_mpp_settings :: mpp_settings where
  "demo_mpp_settings = \<lparr>mpp_secret_key = ''k'', mpp_app_host = ''h'', mpp_currency = ''0xc'', mpp_recipient = ''0xd'',
     mpp_challenge_ttl_seconds = 300, mpp_x402_network = ''eip155:8453'', mpp_enabled = True, mpp_mcp_auth_enabled = True,
     mpp_mcp_x402_enabled = True, mpp_mcp_billing_enabled = True, mpp_base_rpc_url = ''u''\<rparr>"

definition demo_mpp_env :: mpp_env where
  "demo_mpp_env = \<lparr>me_sha = (\<lambda>x. x), me_parse = (\<lambda>_. None), me_mac = (\<lambda>_ m. m), me_unpack = (\<lambda>_. None),
     me_parse_iso = (\<lambda>s. map_option seconds (py_int s)), me_settings = demo_mpp_settings\<rparr>"

definition demo_render :: "instant \<Rightarrow> string" where
  "demo_render t = py_str_int (t div 1000000)"

definition demo_address :: string where
  "demo_address = ''0x'' @ replicate 40 CHR ''7''"

definition demo_tx :: "char \<Rightarrow> string" where
  "demo_tx c = ''0x'' @ replicate 64 c"

definition demo_node :: mpp_node where
  "demo_node = \<lparr>nd_receipt = (\<lambda>tx. Some (MObj [(''status'', MStr ''0x1''), (''blockNumber'', MStr ''0x1''),
       (''logs'', MList [MObj [(''address'', MStr ''0xc''), (''data'', MStr ''0x5''),
         (''topics'', MList [MStr erc20_transfer_topic0, MStr (topic_address demo_address), MStr (topic_address ''0xd'')])]])])),
     nd_block = (\<lambda>_. Some (MObj [(''timestamp'', MStr ''0x50'')]))\<rparr>"

definition demo_credential :: "char \<Rightarrow> json" where
  "demo_credential c = MObj [(''challenge'', build_mpp_challenge (\<lambda>_ m. m) demo_render demo_mpp_settings (seconds 60) ''n'' 5),
     (''payload'', MObj [(''type'', MStr ''hash''), (''hash'', MStr (demo_tx c))]), (''source'', MStr demo_address)]"

lemma demo_iso_clock: "iso_clock demo_render (me_parse_iso demo_mpp_env)"
  by (simp add: iso_clock_def demo_render_def demo_mpp_env_def py_int_str_int str_int_nonempty)

lemma demo_mac: "mac_bytes (\<lambda>_ m. m)"
  by (simp add: mac_bytes_def)

lemma digit_lower: "py_lower_char CHR ''7'' = CHR ''7''" "py_lower_char CHR ''1'' = CHR ''1''" "py_lower_char CHR ''2'' = CHR ''2''"
  "py_lower_char CHR ''0'' = CHR ''0''" "py_lower_char CHR ''x'' = CHR ''x''"
  by (simp_all add: py_lower_char_def Let_def)

lemma demo_address_lower: "py_lower demo_address = demo_address" "py_strip demo_address = demo_address"
  by (simp add: demo_address_def py_lower_def digit_lower) (rule py_strip_id, simp_all add: demo_address_def py_isspace_def)

lemma demo_address_nonempty: "py_strip demo_address \<noteq> []"
  unfolding demo_address_lower by (simp add: demo_address_def)

lemma demo_tx_hex: "c = CHR ''1'' \<or> c = CHR ''2'' \<Longrightarrow> is_0x_hex 64 (demo_tx c)"
  by (auto simp: is_0x_hex_def demo_tx_def is_hex_char_def list_all_iff)

lemma demo_tx_lower: "c = CHR ''1'' \<or> c = CHR ''2'' \<Longrightarrow> py_lower (demo_tx c) = demo_tx c"
  "c = CHR ''1'' \<or> c = CHR ''2'' \<Longrightarrow> py_strip (demo_tx c) = demo_tx c"
  by (auto simp: demo_tx_def py_lower_def digit_lower) (rule py_strip_id, simp_all add: py_isspace_def)+

lemma demo_source: "source_address demo_address (mpp_chain_id demo_mpp_settings) = Some demo_address"
proof -
  have "is_0x_hex 40 demo_address" by (simp add: is_0x_hex_def demo_address_def is_hex_char_def list_all_iff)
  moreover have "take 15 demo_address \<noteq> ''did:pkh:eip155:''" by (simp add: demo_address_def)
  ultimately show ?thesis by (simp add: source_address_def demo_address_lower Let_def)
qed

definition demo_parsed :: "char \<Rightarrow> mpp_credential" where
  "demo_parsed c = \<lparr>mc_tx_hash = demo_tx c, mc_payer = demo_address,
     mc_challenge_id = challenge_id (\<lambda>_ m. m) ''k'' ''h'' ''evm'' ''charge'' (challenge_request demo_mpp_settings 5)
       (demo_render (seconds 360)) (challenge_opaque (seconds 60) ''n''), mc_issued_at = 60\<rparr>"

theorem mpp_challenge_roundtrip_witness:
  "validate_mpp_credential (\<lambda>_ m. m) (\<lambda>_. None) (me_parse_iso demo_mpp_env) demo_mpp_settings (seconds 100) 5
     (demo_credential CHR ''1'') = Inr (demo_parsed CHR ''1'')"
proof -
  have "validate_mpp_credential (\<lambda>_ m. m) (\<lambda>_. None) (me_parse_iso demo_mpp_env) demo_mpp_settings (seconds 100) 5
     (MObj [(''challenge'', build_mpp_challenge (\<lambda>_ m. m) demo_render demo_mpp_settings (seconds 60) ''n'' 5),
         (''payload'', MObj [(''type'', MStr ''hash''), (''hash'', MStr (demo_tx CHR ''1''))]), (''source'', MStr demo_address)]) =
    Inr \<lparr>mc_tx_hash = py_lower (demo_tx CHR ''1''), mc_payer = demo_address,
      mc_challenge_id = challenge_id (\<lambda>_ m. m) (mpp_secret_key demo_mpp_settings) (mpp_app_host demo_mpp_settings) ''evm'' ''charge''
        (challenge_request demo_mpp_settings 5) (demo_render (seconds 60 + seconds (mpp_challenge_ttl_seconds demo_mpp_settings)))
        (challenge_opaque (seconds 60) ''n''), mc_issued_at = seconds 60 div 1000000\<rparr>"
    by (intro mpp_challenge_roundtrip [OF demo_iso_clock demo_mac demo_source]) (simp_all add: demo_tx_hex demo_address_nonempty seconds_def demo_mpp_settings_def)
  then show ?thesis
    by (simp add: demo_credential_def demo_parsed_def demo_tx_lower seconds_def demo_mpp_settings_def)
qed

lemma demo_validate:
  assumes c: "c = CHR ''1'' \<or> c = CHR ''2''" and now: "seconds 60 \<le> now" "now < seconds 360"
  shows "validate_mpp_credential (me_mac demo_mpp_env) (me_unpack demo_mpp_env) (me_parse_iso demo_mpp_env) (me_settings demo_mpp_env)
    now 5 (demo_credential c) = Inr (demo_parsed c)"
proof -
  have time: "now < seconds (seconds 60 div 1000000 + mpp_challenge_ttl_seconds demo_mpp_settings)"
    using now(2) by (simp add: seconds_def demo_mpp_settings_def)
  from validate_minted [OF demo_iso_clock demo_mac demo_source demo_address_nonempty demo_tx_hex [OF c] now(1) time] c
  show ?thesis
    by (simp add: demo_mpp_env_def demo_credential_def demo_parsed_def demo_tx_lower seconds_def demo_mpp_settings_def)
qed

lemma demo_node_mined: "mined_at demo_node tx = Some 80"
  by (simp add: mined_at_def eth_get_receipt_def eth_block_timestamp_def demo_node_def py_int16_def hex_unsigned_def int_base16_def
      hex_value_def py_strip_def py_isspace_def py_lower_def digit_lower Let_def)

lemma demo_receipt:
  "\<exists>r. eth_get_receipt demo_node tx = Inr (Some r) \<and> receipt_matches ''0xc'' ''0xd'' demo_address 5 r \<and>
     eth_block_timestamp demo_node (json_get r ''blockNumber'') = Inr 80"
proof -
  have app: "py_lower (u @ v) = py_lower u @ py_lower v" "py_lower (replicate n CHR ''0'') = replicate n CHR ''0''"
    "py_lower ''0x'' = ''0x''" for u v n by (simp_all add: py_lower_def digit_lower)
  have drop: "py_lower (drop n (py_lower a)) = drop n (py_lower a)" for n a
    using py_lower_idem [of a] by (metis drop_map py_lower_def)
  have low: "py_lower (topic_address a) = topic_address a" for a
    unfolding topic_address_def Let_def app using drop [of 2 a] py_lower_idem [of a] by simp
  have topic: "py_lower erc20_transfer_topic0 = erc20_transfer_topic0"
    by (simp add: erc20_transfer_topic0_def py_lower_def py_lower_char_def Let_def)
  have short: "py_lower ''0xc'' = ''0xc''" "py_lower ''0xd'' = ''0xd''" "py_lower ''0x1'' = ''0x1''" "py_lower ''0x5'' = ''0x5''"
    by (simp_all add: py_lower_def py_lower_char_def Let_def)
  have num: "py_int16 ''0x5'' = Some 5" "py_int16 ''0x1'' = Some 1"
    by (simp_all add: py_int16_def hex_unsigned_def int_base16_def hex_value_def py_strip_def py_isspace_def short Let_def)
  show ?thesis
    using demo_node_mined [of tx]
    by (simp add: mined_at_def eth_get_receipt_def demo_node_def receipt_matches_def log_matches_def lower_text_def low topic
        short num Let_def split: sum.splits)
qed

lemma demo_claim_distinct: "mpp_claim demo_mpp_env (demo_tx CHR ''1'') \<noteq> mpp_claim demo_mpp_env (demo_tx CHR ''2'')"
proof
  let ?k = "\<lambda>c. mpp_nonce_key (demo_tx c)"
  assume "mpp_claim demo_mpp_env (demo_tx CHR ''1'') = mpp_claim demo_mpp_env (demo_tx CHR ''2'')"
  then have "hexlify (utf8 (?k CHR ''1'')) = hexlify (utf8 (?k CHR ''2''))"
    by (simp add: mpp_claim_def payment_nonce_hash_def demo_mpp_env_def)
  then have "utf8 (?k CHR ''1'') = utf8 (?k CHR ''2'')" using fromhex_hexlify [OF utf8_bytes] by (metis option.inject)
  then have key: "?k CHR ''1'' = ?k CHR ''2''" by (rule utf8_inj)
  have "last (?k c) = c" if "c = CHR ''1'' \<or> c = CHR ''2''" for c
    using that by (auto simp: mpp_nonce_key_def demo_tx_def py_strip_def py_isspace_def py_lower_def digit_lower)
  from this [of "CHR ''1''"] this [of "CHR ''2''"] key show False by simp
qed

lemma demo_unforged: "mac_unforged (\<lambda>_ m. m) demo_render demo_mpp_settings {(seconds 60, ''n'', 5)} (mc_challenge_id (demo_parsed c))"
proof -
  let ?m = "minted_message demo_render demo_mpp_settings (seconds 60, ''n'', 5)"
  have inj: "b64url (utf8 m) = b64url (utf8 m') \<Longrightarrow> m = m'" for m m'
    by (rule utf8_inj) (rule b64url_inj [OF _ utf8_bytes utf8_bytes])
  have "mc_challenge_id (demo_parsed c) = b64url (utf8 ?m)"
    by (simp add: minted_message_def demo_parsed_def challenge_id_def demo_mpp_settings_def seconds_def)
  then show ?thesis unfolding mac_unforged_def using inj [of ?m] by (metis imageI insertI1)
qed

lemma demo_accepts:
  assumes c: "c = CHR ''1'' \<or> c = CHR ''2''" and now: "seconds 60 \<le> now" "now < seconds 360"
    and claim: "claim_nonce True now True (mpp_claim demo_mpp_env (demo_tx c)) s = (Inr True, s')"
  shows "verify_mpp_payment demo_mpp_env demo_node (True, True) now 5 (demo_credential c) s =
    (\<lparr>mo_status = MppOk, mo_message = [], mo_tx_hash = demo_tx c, mo_source = demo_address,
       mo_challenge_id = mc_challenge_id (demo_parsed c)\<rparr>, s')"
proof -
  have set: "mpp_currency (me_settings demo_mpp_env) = ''0xc''" "mpp_recipient (me_settings demo_mpp_env) = ''0xd''"
    by (simp_all add: demo_mpp_env_def demo_mpp_settings_def)
  have p: "mc_tx_hash (demo_parsed c) = demo_tx c" "mc_payer (demo_parsed c) = demo_address" "mc_issued_at (demo_parsed c) = 60"
    by (simp_all add: demo_parsed_def)
  obtain r where r: "eth_get_receipt demo_node (demo_tx c) = Inr (Some r)" "receipt_matches ''0xc'' ''0xd'' demo_address 5 r"
    "eth_block_timestamp demo_node (json_get r ''blockNumber'') = Inr 80" using demo_receipt by blast
  from verify_mpp_claimed [OF demo_validate [OF c now], of "(True, True)" s s' demo_node] claim
  show ?thesis by (simp add: p set r issue_skew_seconds_def)
qed

theorem mpp_challenge_authentic_witness:
  "\<exists>now0 nonce. (now0, nonce, 5) \<in> {(seconds 60, ''n'', 5 :: usdc)} \<and> mc_issued_at (demo_parsed CHR ''1'') = now0 div 1000000 \<and>
    seconds 100 < now0 + seconds (mpp_challenge_ttl_seconds demo_mpp_settings)"
  using mpp_challenge_authentic [of "\<lambda>_ m. m" "\<lambda>_. None" "me_parse_iso demo_mpp_env" demo_mpp_settings "seconds 100" 5
      "demo_credential CHR ''1''" "demo_parsed CHR ''1''" demo_render "{(seconds 60, ''n'', 5)}"]
    demo_validate [of "CHR ''1''" "seconds 100"] demo_unforged [of "CHR ''1''"] demo_iso_clock
  by (simp add: demo_mpp_env_def seconds_def)

theorem mpp_transfer_pays_once_witness:
  "\<exists>out1 s1 out2 s2. verify_mpp_payment demo_mpp_env demo_node (True, True) (seconds 100) 5 (demo_credential CHR ''1'') demo_store = (out1, s1) \<and>
     verify_mpp_payment demo_mpp_env demo_node (True, True) (seconds 120) 5 (demo_credential CHR ''2'') s1 = (out2, s2) \<and>
     mo_status out1 = MppOk \<and> mo_status out2 = MppOk \<and> mo_tx_hash out2 \<noteq> mo_tx_hash out1"
proof -
  let ?h = "\<lambda>c. mpp_claim demo_mpp_env (demo_tx c)"
  obtain s1 where c1: "claim_nonce True (seconds 100) True (?h CHR ''1'') demo_store = (Inr True, s1)"
    and s1: "s1 = demo_store\<lparr>ns_rows := [\<lparr>nn_nonce_hash = ?h CHR ''1'', nn_claimed_at = seconds 100, nn_payer_address = [], nn_reserved_cost_usdc = 0\<rparr>]\<rparr>"
    by (simp add: claim_nonce_def demo_store_def)
  obtain s2 where c2: "claim_nonce True (seconds 120) True (?h CHR ''2'') s1 = (Inr True, s2)"
    using demo_claim_distinct by (simp add: claim_nonce_def demo_store_def s1)
  let ?out = "\<lambda>c. \<lparr>mo_status = MppOk, mo_message = [], mo_tx_hash = demo_tx c, mo_source = demo_address,
       mo_challenge_id = mc_challenge_id (demo_parsed c)\<rparr>"
  have v1: "verify_mpp_payment demo_mpp_env demo_node (True, True) (seconds 100) 5 (demo_credential CHR ''1'') demo_store = (?out CHR ''1'', s1)"
    by (rule demo_accepts [OF _ _ _ c1]) (simp_all add: seconds_def)
  have v2: "verify_mpp_payment demo_mpp_env demo_node (True, True) (seconds 120) 5 (demo_credential CHR ''2'') s1 = (?out CHR ''2'', s2)"
    by (rule demo_accepts [OF _ _ _ c2]) (simp_all add: seconds_def)
  have wait: "(mpp_step demo_mpp_env (?h CHR ''1''))\<^sup>*\<^sup>* (seconds 100, s1) (seconds 120, s1)"
    by (intro r_into_rtranclp mpp_step.tick) (simp add: seconds_def)
  have "mo_tx_hash (?out CHR ''2'') \<noteq> mo_tx_hash (?out CHR ''1'')"
    by (rule mpp_transfer_pays_once [OF v1 _ _ v2 _ _ demo_iso_clock])
      (use wait demo_unforged [of "CHR ''2''"] in \<open>simp_all add: demo_node_mined demo_mpp_env_def demo_mpp_settings_def seconds_def\<close>)
  with v1 v2 show ?thesis by fastforce
qed

end
