(* ===== verification/Cache.thy ===== *)
theory Cache
  imports Database
begin

text \<open>
  \<^verbatim>\<open>TTLCache\<close> of \<^verbatim>\<open>teardrop/cache.py\<close>: one cached value with an in-process tier and an optional
  Redis tier shared between processes. The loader's outcome, the clock and the state of the Redis
  key are arguments. The lemmas show that a fresh value is served without reloading, that an expired
  or invalidated one is reloaded, that a failing loader serves the last value, and that processes
  sharing Redis agree, provided the codec reads back what it wrote.
\<close>

record 'a ttl_cache =
  tc_value :: "'a option"
  tc_expires :: instant

definition empty_cache :: "'a ttl_cache" where
  "empty_cache = \<lparr>tc_value = None, tc_expires = 0\<rparr>"

text \<open>Not connected; connected but failing; or connected, with the value stored under the key and its expiry.\<close>

datatype redis_tier = RedisOff | RedisDown | RedisUp "(string \<times> instant) option"

record 'a cache_config =
  cfg_ttl_seconds :: int
  cfg_serialize :: "'a \<Rightarrow> string"
  cfg_deserialize :: "string \<Rightarrow> py_error + 'a option"
  cfg_cache_when :: "'a option \<Rightarrow> bool"
  cfg_stale_default :: "'a option"

definition redis_get :: "instant \<Rightarrow> redis_tier \<Rightarrow> string option" where
  "redis_get now r =
    (case r of RedisUp (Some (raw, expires)) \<Rightarrow> if now < expires then Some raw else None | _ \<Rightarrow> None)"

text \<open>\<^verbatim>\<open>SETEX\<close> rejects a non-positive expiry, which the caller logs and ignores.\<close>

definition redis_setex :: "instant \<Rightarrow> int \<Rightarrow> string \<Rightarrow> redis_tier \<Rightarrow> redis_tier" where
  "redis_setex now ttl raw r =
    (case r of RedisUp x \<Rightarrow> if 0 < ttl then RedisUp (Some (raw, now + seconds ttl)) else RedisUp x | _ \<Rightarrow> r)"

definition redis_delete :: "redis_tier \<Rightarrow> redis_tier" where
  "redis_delete r = (case r of RedisUp _ \<Rightarrow> RedisUp None | _ \<Rightarrow> r)"

definition local_fresh :: "instant \<Rightarrow> 'a ttl_cache \<Rightarrow> bool" where
  "local_fresh now c \<longleftrightarrow> tc_value c \<noteq> None \<and> now < tc_expires c"

definition ttl_load ::
  "'a cache_config \<Rightarrow> instant \<Rightarrow> py_error + 'a option \<Rightarrow> redis_tier \<times> 'a ttl_cache \<Rightarrow>
   'a option \<times> redis_tier \<times> 'a ttl_cache" where
  "ttl_load cfg now loaded = (\<lambda>(r, c).
     if local_fresh now c then (tc_value c, r, c)
     else case loaded of
       Inl _ \<Rightarrow> ((if tc_value c \<noteq> None then tc_value c else cfg_stale_default cfg), r, c)
     | Inr v \<Rightarrow>
         if cfg_cache_when cfg v
         then (v, (case v of None \<Rightarrow> r | Some x \<Rightarrow> redis_setex now (cfg_ttl_seconds cfg) (cfg_serialize cfg x) r),
               \<lparr>tc_value = v, tc_expires = now + seconds (cfg_ttl_seconds cfg)\<rparr>)
         else (v, r, c))"

definition ttl_get ::
  "'a cache_config \<Rightarrow> instant \<Rightarrow> py_error + 'a option \<Rightarrow> redis_tier \<times> 'a ttl_cache \<Rightarrow>
   'a option \<times> redis_tier \<times> 'a ttl_cache" where
  "ttl_get cfg now loaded s =
    (case redis_get now (fst s) of
       Some raw \<Rightarrow>
         (case cfg_deserialize cfg raw of
            Inr v \<Rightarrow> (v, s)
          | Inl _ \<Rightarrow> ttl_load cfg now loaded s)
     | None \<Rightarrow> ttl_load cfg now loaded s)"

definition ttl_invalidate :: "redis_tier \<times> 'a ttl_cache \<Rightarrow> redis_tier \<times> 'a ttl_cache" where
  "ttl_invalidate = (\<lambda>(r, c). (redis_delete r, empty_cache))"

definition ttl_reset :: "'a ttl_cache \<Rightarrow> 'a ttl_cache" where
  "ttl_reset c = empty_cache"

section \<open>Lemmas\<close>

lemma local_fresh_empty [simp]: "\<not> local_fresh now empty_cache"
  by (simp add: local_fresh_def empty_cache_def)

lemma redis_get_delete [simp]: "redis_get now (redis_delete r) = None"
  by (simp add: redis_get_def redis_delete_def split: redis_tier.split)

lemma redis_get_off [simp]: "redis_get now RedisOff = None" "redis_setex now ttl raw RedisOff = RedisOff"
  "redis_delete RedisOff = RedisOff"
  by (simp_all add: redis_get_def redis_setex_def redis_delete_def)

lemma ttl_get_local:
  "redis_get now r = None \<Longrightarrow> local_fresh now c \<Longrightarrow> ttl_get cfg now loaded (r, c) = (tc_value c, r, c)"
  by (simp add: ttl_get_def ttl_load_def)

lemma ttl_get_reload:
  "redis_get now r = None \<Longrightarrow> \<not> local_fresh now c \<Longrightarrow>
   fst (ttl_get cfg now loaded (r, c)) = (case loaded of Inr v \<Rightarrow> v
     | Inl _ \<Rightarrow> if tc_value c \<noteq> None then tc_value c else cfg_stale_default cfg)"
  by (simp add: ttl_get_def ttl_load_def split: sum.split)

lemma ttl_get_invalidated:
  "fst (ttl_get cfg now (Inr v) (ttl_invalidate s)) = v"
  by (cases s) (simp add: ttl_invalidate_def ttl_get_reload)

text \<open>
  What the users of a shared cache rely on: the codec reads back what it wrote, and values are cached
  only when present.
\<close>

locale cache_codec =
  fixes cfg :: "'a cache_config"
  assumes codec: "cfg_deserialize cfg (cfg_serialize cfg x) = Inr (Some x)"
    and caches_present: "cfg_cache_when cfg v = (v \<noteq> None)"
    and ttl_positive: "0 < cfg_ttl_seconds cfg"
begin

lemma load_then_hit:
  assumes "redis_get t1 r = None" "\<not> local_fresh t1 c"
    and "ttl_get cfg t1 (Inr (Some x)) (r, c) = (v, r', c')"
    and "t1 \<le> t2" "t2 < t1 + seconds (cfg_ttl_seconds cfg)"
  shows "v = Some x" "fst (ttl_get cfg t2 loaded (r', c')) = Some x"
proof -
  have out: "v = Some x" "r' = redis_setex t1 (cfg_ttl_seconds cfg) (cfg_serialize cfg x) r"
    "c' = \<lparr>tc_value = Some x, tc_expires = t1 + seconds (cfg_ttl_seconds cfg)\<rparr>"
    using assms(1-3) by (auto simp: ttl_get_def ttl_load_def caches_present)
  then show "v = Some x" by simp
  have fresh: "local_fresh t2 c'" using out assms(5) by (simp add: local_fresh_def)
  show "fst (ttl_get cfg t2 loaded (r', c')) = Some x"
  proof (cases r)
    case (RedisUp y)
    then have "redis_get t2 r' = Some (cfg_serialize cfg x)"
      using out assms(5) ttl_positive by (simp add: redis_setex_def redis_get_def)
    then show ?thesis by (simp add: ttl_get_def codec)
  qed (use out fresh in \<open>simp_all add: ttl_get_def ttl_load_def redis_setex_def redis_get_def\<close>)
qed

text \<open>Another process, with any local tier, reads the shared value.\<close>

lemma shared_hit:
  assumes "redis_get t1 (RedisUp y) = None" "\<not> local_fresh t1 c"
    and "ttl_get cfg t1 (Inr (Some x)) (RedisUp y, c) = (v, r', c')"
    and "t2 < t1 + seconds (cfg_ttl_seconds cfg)"
  shows "fst (ttl_get cfg t2 loaded (r', other)) = Some x"
  using assms ttl_positive
  by (auto simp: ttl_get_def ttl_load_def caches_present redis_setex_def redis_get_def codec)

end

text \<open>The platform tool price cache (\<^verbatim>\<open>marketplace/_catalog_pricing.py\<close>) stores a price as \<^verbatim>\<open>str(v)\<close>.\<close>

definition platform_price_config :: "usdc cache_config" where
  "platform_price_config =
     \<lparr>cfg_ttl_seconds = 60, cfg_serialize = py_str_int,
      cfg_deserialize = (\<lambda>raw. case py_int raw of Some n \<Rightarrow> Inr (Some n) | None \<Rightarrow> Inl (ValueError ''invalid literal for int()'')),
      cfg_cache_when = (\<lambda>v. v \<noteq> None), cfg_stale_default = None\<rparr>"

interpretation platform_price: cache_codec platform_price_config
  by unfold_locales (simp_all add: platform_price_config_def py_int_str_int)

section \<open>Properties\<close>

text \<open>
  Invalidation takes effect at once: whatever the two tiers held, and whether Redis is absent,
  failing or connected, the read after an invalidation returns what the loader returns; and a value
  loaded for a platform tool is then served to every process until its minute is over. (A Redis that
  fails during the invalidation and recovers with the old key is outside this statement.)
\<close>

theorem cache_invalidate_then_load:
  assumes "t1 \<le> t2" and "t2 < t1 + seconds 60"
    and "ttl_get platform_price_config t1 (Inr (Some price)) (ttl_invalidate (r, c)) = (v, r', c')"
  shows "v = Some price \<and> fst (ttl_get platform_price_config t2 loaded (r', c')) = Some price \<and>
    (\<forall>y other. r = RedisUp y \<longrightarrow> fst (ttl_get platform_price_config t2 loaded (r', other)) = Some price)"
proof -
  have ttl: "cfg_ttl_seconds platform_price_config = 60" by (simp add: platform_price_config_def)
  have run: "ttl_get platform_price_config t1 (Inr (Some price)) (redis_delete r, empty_cache) = (v, r', c')"
    using assms(3) by (simp add: ttl_invalidate_def)
  have "fst (ttl_get platform_price_config t2 loaded (r', other)) = Some price" if "r = RedisUp y" for y other
    using platform_price.shared_hit [where y = None and c = empty_cache and x = price and ?t1.0 = t1 and ?t2.0 = t2]
      run that assms(2) ttl
    by (simp add: redis_delete_def redis_get_def)
  then show ?thesis
    using platform_price.load_then_hit(1) [OF _ _ run] platform_price.load_then_hit(2) [OF _ _ run, of t2 loaded]
      assms(1,2) ttl by simp
qed

theorem cache_invalidate_then_load_witness:
  "fst (ttl_get platform_price_config 7 (Inr None)
     (snd (ttl_get platform_price_config 5 (Inr (Some 1500))
       (ttl_invalidate (RedisUp (Some (''9'', 100)), \<lparr>tc_value = Some 9, tc_expires = 100\<rparr>))))) = Some 1500"
proof -
  obtain v r' c' where run: "ttl_get platform_price_config 5 (Inr (Some 1500))
      (ttl_invalidate (RedisUp (Some (''9'', 100)), \<lparr>tc_value = Some 9, tc_expires = 100\<rparr>)) = (v, r', c')"
    by (metis prod_cases3)
  from cache_invalidate_then_load [OF _ _ run, of 7 "Inr None"] run show ?thesis by (simp add: seconds_def)
qed

end
