(* ===== verification/Pricing.thy ===== *)
theory Pricing
  imports Cache "HOL-Library.AList" "HOL-Library.Char_ord" "HOL-Library.List_Lexorder" "HOL-Library.Product_Lexorder"
begin

text \<open>
  Prices: rule selection, per-tool overrides and the cost of a run (\<^verbatim>\<open>billing/pricing.py\<close>), the
  marketplace price lookups behind it (\<^verbatim>\<open>marketplace/_catalog_pricing.py\<close>), the fees of
  \<^verbatim>\<open>billing/delegation.py\<close> and the price string of \<^verbatim>\<open>billing/models.py\<close>.

  The state holds the four tables and the in-process caches in front of them; Redis is not
  connected here (the two-tier behaviour is in the cache theory). \<^verbatim>\<open>up\<close> tells whether the database
  answers, so that the fallback to stale values is part of the model. The OpenRouter actual-cost
  price of a turn, a \<^verbatim>\<open>Decimal\<close> product, is a parameter.
\<close>

section \<open>State\<close>

record pricing_rule =
  pr_id :: ident
  pr_name :: string
  pr_run_price_usdc :: usdc
  pr_tokens_in_cost_per_1k :: usdc
  pr_tokens_out_cost_per_1k :: usdc
  pr_tool_call_cost :: usdc
  pr_effective_from :: instant
  pr_provider :: string
  pr_model :: string
  pr_is_byok :: bool

record org_tool_row =
  ot_org_slug :: string
  ot_name :: string
  ot_base_price_usdc :: "usdc option"
  ot_publish_as_mcp :: bool
  ot_is_active :: bool

record pricing_state =
  pricing_rules :: "pricing_rule list"
  tool_pricing_overrides :: "string \<rightharpoonup> usdc"
  marketplace_platform_tools :: "string \<rightharpoonup> usdc \<times> bool"
  org_tools :: "org_tool_row list"
  live_pricing_cache :: "pricing_rule ttl_cache"
  tool_overrides_cache :: "(string \<rightharpoonup> usdc) ttl_cache"
  model_pricing_cache :: "string \<rightharpoonup> pricing_rule option \<times> instant"
  platform_tool_caches :: "string \<rightharpoonup> usdc ttl_cache"
  org_tool_price_caches :: "string \<rightharpoonup> usdc option ttl_cache"

record pricing_settings =
  pricing_cache_ttl_seconds :: int
  pricing_marketplace_enabled :: bool
  pricing_byok_platform_fee_usdc :: usdc
  pricing_delegation_platform_fee_bps :: int

section \<open>Rule selection\<close>

definition is_current :: "instant \<Rightarrow> pricing_rule \<Rightarrow> bool" where
  "is_current now r \<longleftrightarrow> pr_effective_from r \<le> now"

definition first_row :: "'r list \<Rightarrow> 'r option" where
  "first_row rows = (case rows of [] \<Rightarrow> None | r # _ \<Rightarrow> Some r)"

definition get_current_pricing :: "instant \<Rightarrow> pricing_state \<Rightarrow> pricing_rule option" where
  "get_current_pricing now s =
     first_row (sort_key (\<lambda>r. - pr_effective_from r)
       (rows_where (\<lambda>r. is_current now r \<and> pr_provider r = [] \<and> pr_model r = [] \<and> \<not> pr_is_byok r) (pricing_rules s)))"

definition rule_rank :: "string \<Rightarrow> string \<Rightarrow> pricing_rule \<Rightarrow> nat" where
  "rule_rank provider model r =
    (if pr_provider r = provider \<and> pr_model r = model then 0
     else if pr_provider r = provider \<and> pr_model r = [] then 1 else 2)"

definition rule_matches :: "instant \<Rightarrow> string \<Rightarrow> string \<Rightarrow> bool \<Rightarrow> bool \<Rightarrow> pricing_rule \<Rightarrow> bool" where
  "rule_matches now provider model byok exact_match r \<longleftrightarrow>
     is_current now r \<and> pr_is_byok r = byok \<and>
     (\<not> exact_match \<or> (pr_provider r = provider \<and> pr_model r = model)) \<and>
     ((pr_provider r = provider \<and> pr_model r = model) \<or>
      (pr_provider r = provider \<and> pr_model r = []) \<or>
      (pr_provider r = [] \<and> pr_model r = []))"

definition get_current_pricing_for_model ::
  "instant \<Rightarrow> string \<Rightarrow> string \<Rightarrow> bool \<Rightarrow> bool \<Rightarrow> pricing_state \<Rightarrow> pricing_rule option" where
  "get_current_pricing_for_model now provider model byok exact_match s =
     first_row (sort_key (\<lambda>r. (rule_rank provider model r, - pr_effective_from r))
       (rows_where (rule_matches now provider model byok exact_match) (pricing_rules s)))"

section \<open>Live lookups through the caches\<close>

text \<open>Without Redis the codec of a cache is never consulted; only its lifetime and its stale default matter.\<close>

definition in_process_config :: "int \<Rightarrow> 'a option \<Rightarrow> 'a cache_config" where
  "in_process_config ttl stale = \<lparr>cfg_ttl_seconds = ttl, cfg_serialize = (\<lambda>_. []),
     cfg_deserialize = (\<lambda>_. Inl (RuntimeError ''Redis is not connected'')), cfg_cache_when = (\<lambda>v. v \<noteq> None),
     cfg_stale_default = stale\<rparr>"

definition live_pricing_config :: "pricing_settings \<Rightarrow> pricing_rule cache_config" where
  "live_pricing_config st = in_process_config (pricing_cache_ttl_seconds st) None"

definition tool_overrides_config :: "pricing_settings \<Rightarrow> (string \<rightharpoonup> usdc) cache_config" where
  "tool_overrides_config st = in_process_config (pricing_cache_ttl_seconds st) (Some Map.empty)"

definition from_db :: "bool \<Rightarrow> 'a \<Rightarrow> py_error + 'a" where
  "from_db up v = (if up then Inr v else Inl (RuntimeError ''database unavailable''))"

definition get_live_pricing :: "pricing_settings \<Rightarrow> bool \<Rightarrow> instant \<Rightarrow> pricing_state \<Rightarrow> pricing_rule option \<times> pricing_state" where
  "get_live_pricing st up now s =
    (let (v, _, c) = ttl_get (live_pricing_config st) now (from_db up (get_current_pricing now s))
           (RedisOff, live_pricing_cache s)
     in (v, s\<lparr>live_pricing_cache := c\<rparr>))"

definition model_cache_key :: "string \<Rightarrow> string \<Rightarrow> bool \<Rightarrow> string" where
  "model_cache_key provider model byok =
     provider @ '':'' @ model @ '':'' @ (if byok then ''True'' else ''False'')"

definition get_live_pricing_for_model ::
  "pricing_settings \<Rightarrow> bool \<Rightarrow> instant \<Rightarrow> string \<Rightarrow> string \<Rightarrow> bool \<Rightarrow> pricing_state \<Rightarrow>
   pricing_rule option \<times> pricing_state" where
  "get_live_pricing_for_model st up now provider model byok s =
    (if provider = [] \<and> model = [] then get_live_pricing st up now s
     else
       (let key = model_cache_key provider model byok; entry = model_pricing_cache s key in
        case entry of
          Some (v, expires) \<Rightarrow>
            if now < expires then (v, s)
            else if \<not> up then (v, s)
            else (let rule = get_current_pricing_for_model now provider model byok False s
                  in (rule, s\<lparr>model_pricing_cache := (model_pricing_cache s)(key \<mapsto>
                       (rule, now + seconds (pricing_cache_ttl_seconds st)))\<rparr>))
        | None \<Rightarrow>
            if \<not> up then (None, s)
            else (let rule = get_current_pricing_for_model now provider model byok False s
                  in (rule, s\<lparr>model_pricing_cache := (model_pricing_cache s)(key \<mapsto>
                       (rule, now + seconds (pricing_cache_ttl_seconds st)))\<rparr>))))"

definition get_current_tool_overrides :: "pricing_state \<Rightarrow> (string \<rightharpoonup> usdc)" where
  "get_current_tool_overrides s = tool_pricing_overrides s"

definition get_tool_pricing_overrides ::
  "pricing_settings \<Rightarrow> bool \<Rightarrow> instant \<Rightarrow> pricing_state \<Rightarrow> (string \<rightharpoonup> usdc) \<times> pricing_state" where
  "get_tool_pricing_overrides st up now s =
    (let (v, _, c) = ttl_get (tool_overrides_config st) now (from_db up (Some (get_current_tool_overrides s)))
           (RedisOff, tool_overrides_cache s)
     in ((case v of Some m \<Rightarrow> m | None \<Rightarrow> Map.empty), s\<lparr>tool_overrides_cache := c\<rparr>))"

definition upsert_tool_pricing_override :: "string \<Rightarrow> usdc \<Rightarrow> pricing_state \<Rightarrow> (py_error + unit) \<times> pricing_state" where
  "upsert_tool_pricing_override tool cost s =
    (if \<not> bigint cost then (Inl (DbError DataError), s)
     else if cost < 0 then (Inl (DbError CheckViolation), s)
     else (Inr (), s\<lparr>tool_pricing_overrides := (tool_pricing_overrides s)(tool \<mapsto> cost),
                     tool_overrides_cache := snd (ttl_invalidate (RedisOff, tool_overrides_cache s))\<rparr>))"

definition delete_tool_pricing_override :: "string \<Rightarrow> pricing_state \<Rightarrow> bool \<times> pricing_state" where
  "delete_tool_pricing_override tool s =
    (tool_pricing_overrides s tool \<noteq> None,
     s\<lparr>tool_pricing_overrides := (tool_pricing_overrides s)(tool := None),
       tool_overrides_cache := snd (ttl_invalidate (RedisOff, tool_overrides_cache s))\<rparr>)"

section \<open>Marketplace prices\<close>

definition cache_at :: "(string \<rightharpoonup> 'a ttl_cache) \<Rightarrow> string \<Rightarrow> 'a ttl_cache" where
  "cache_at m k = (case m k of Some c \<Rightarrow> c | None \<Rightarrow> empty_cache)"

definition load_platform_tool_price :: "string \<Rightarrow> pricing_state \<Rightarrow> usdc option" where
  "load_platform_tool_price tool s =
    (case marketplace_platform_tools s tool of Some (price, active) \<Rightarrow> if active then Some price else None | None \<Rightarrow> None)"

definition get_platform_tool_price :: "bool \<Rightarrow> instant \<Rightarrow> string \<Rightarrow> pricing_state \<Rightarrow> usdc option \<times> pricing_state" where
  "get_platform_tool_price up now tool s =
    (let (v, _, c) = ttl_get platform_price_config now (from_db up (load_platform_tool_price tool s))
           (RedisOff, cache_at (platform_tool_caches s) tool)
     in (v, s\<lparr>platform_tool_caches := (platform_tool_caches s)(tool \<mapsto> c)\<rparr>))"

text \<open>\<^verbatim>\<open>name.split("/", 1)\<close> of a name that contains a slash.\<close>

fun split_slash :: "string \<Rightarrow> string \<times> string" where
  "split_slash [] = ([], [])"
| "split_slash (c # s) = (if c = CHR ''/'' then ([], s) else (let (a, b) = split_slash s in (c # a, b)))"

definition load_org_tool_price :: "string \<Rightarrow> pricing_state \<Rightarrow> usdc option option" where
  "load_org_tool_price qualified s =
    (let (slug, tool) = split_slash qualified in
     map_option ot_base_price_usdc
       (find (\<lambda>t. ot_name t = tool \<and> ot_org_slug t = slug \<and> ot_publish_as_mcp t \<and> ot_is_active t) (org_tools s)))"

definition org_price_config :: "usdc option cache_config" where
  "org_price_config = in_process_config 60 None"

definition get_org_tool_price_by_qualified_name ::
  "bool \<Rightarrow> instant \<Rightarrow> string \<Rightarrow> pricing_state \<Rightarrow> usdc option \<times> pricing_state" where
  "get_org_tool_price_by_qualified_name up now qualified s =
    (if CHR ''/'' \<notin> set qualified then (None, s)
     else
       (let (slug, tool) = split_slash qualified in
        if slug = [] \<or> tool = [] then (None, s)
        else if slug = ''platform'' then (None, s)
        else
          (let (v, _, c) = ttl_get org_price_config now (from_db up (load_org_tool_price qualified s))
                 (RedisOff, cache_at (org_tool_price_caches s) qualified)
           in ((case v of Some p \<Rightarrow> p | None \<Rightarrow> None),
               s\<lparr>org_tool_price_caches := (org_tool_price_caches s)(qualified \<mapsto> c)\<rparr>))))"

section \<open>Tool costs\<close>

fun has_dunder :: "string \<Rightarrow> bool" where
  "has_dunder (a # b # s) = ((a = CHR ''_'' \<and> b = CHR ''_'') \<or> has_dunder (b # s))"
| "has_dunder _ = False"

definition resolve_tool_cost ::
  "bool \<Rightarrow> instant \<Rightarrow> string \<Rightarrow> (string \<rightharpoonup> usdc) \<Rightarrow> usdc \<Rightarrow> bool \<Rightarrow> pricing_state \<Rightarrow> usdc \<times> pricing_state" where
  "resolve_tool_cost up now tool overrides default_cost marketplace s =
    (case overrides tool of
       Some c \<Rightarrow> (c, s)
     | None \<Rightarrow>
         if CHR ''/'' \<in> set tool
         then
           (case overrides (snd (split_slash tool)) of
              Some c \<Rightarrow> (c, s)
            | None \<Rightarrow>
                if marketplace
                then (let (p, s') = get_org_tool_price_by_qualified_name up now tool s
                      in (case p of Some c \<Rightarrow> c | None \<Rightarrow> default_cost, s'))
                else (default_cost, s))
         else if has_dunder tool then (0, s)
         else if marketplace
         then (let (p, s') = get_platform_tool_price up now tool s in (case p of Some c \<Rightarrow> c | None \<Rightarrow> 0, s'))
         else (default_cost, s))"

fun named_tools_cost ::
  "bool \<Rightarrow> instant \<Rightarrow> string list \<Rightarrow> (string \<rightharpoonup> usdc) \<Rightarrow> usdc \<Rightarrow> bool \<Rightarrow> pricing_state \<Rightarrow> usdc \<times> pricing_state" where
  "named_tools_cost up now [] overrides default_cost marketplace s = (0, s)"
| "named_tools_cost up now (t # ts) overrides default_cost marketplace s =
     (let (c, s1) = resolve_tool_cost up now t overrides default_cost marketplace s;
          (n, s2) = named_tools_cost up now ts overrides default_cost marketplace s1
      in (c + n, s2))"

definition calculate_tool_cost_usdc ::
  "pricing_settings \<Rightarrow> bool \<Rightarrow> instant \<Rightarrow> int \<Rightarrow> string list \<Rightarrow> pricing_state \<Rightarrow> usdc \<times> pricing_state" where
  "calculate_tool_cost_usdc st up now tool_calls tool_names s =
    (if tool_calls \<le> 0 \<and> tool_names = [] then (0, s)
     else
       (let (rule, s1) = get_live_pricing st up now s;
            default_cost = (case rule of Some r \<Rightarrow> pr_tool_call_cost r | None \<Rightarrow> 0)
        in if tool_names = [] then (tool_calls * default_cost, s1)
           else
             (let (overrides, s2) = get_tool_pricing_overrides st up now s1;
                  (named, s3) = named_tools_cost up now tool_names overrides default_cost (pricing_marketplace_enabled st) s2
              in (named + max 0 (tool_calls - int (length tool_names)) * default_cost, s3))))"

section \<open>Token costs\<close>

definition is_flat_rate :: "pricing_rule \<Rightarrow> bool" where
  "is_flat_rate r \<longleftrightarrow>
     pr_tokens_in_cost_per_1k r \<le> 0 \<and> pr_tokens_out_cost_per_1k r \<le> 0 \<and> pr_tool_call_cost r \<le> 0"

definition scaled_token_cost :: "pricing_rule \<Rightarrow> int \<Rightarrow> int \<Rightarrow> int \<Rightarrow> int" where
  "scaled_token_cost r tokens_in tokens_out cache_creation =
     4 * (tokens_in * pr_tokens_in_cost_per_1k r + tokens_out * pr_tokens_out_cost_per_1k r) +
     max 0 cache_creation * pr_tokens_in_cost_per_1k r"

definition per_unit_token_cost :: "pricing_rule \<Rightarrow> int \<Rightarrow> int \<Rightarrow> int \<Rightarrow> usdc" where
  "per_unit_token_cost r tokens_in tokens_out cache_creation =
     ceil_div (scaled_token_cost r tokens_in tokens_out cache_creation) 4000"

record turn =
  tn_provider :: string
  tn_model :: string
  tn_tokens_in :: int
  tn_tokens_out :: int
  tn_cache_creation_tokens :: int

text \<open>\<open>flat\<close> is the dict of flat-rate rules seen so far, as its list of keys and the price of each.\<close>

fun turns_token_cost ::
  "pricing_settings \<Rightarrow> (turn \<Rightarrow> usdc option) \<Rightarrow> bool \<Rightarrow> instant \<Rightarrow> turn list \<Rightarrow> usdc \<Rightarrow> (ident \<times> usdc) list \<Rightarrow>
   pricing_state \<Rightarrow> (usdc \<times> (ident \<times> usdc) list) \<times> pricing_state" where
  "turns_token_cost st upstream up now [] acc flat s = ((acc, flat), s)"
| "turns_token_cost st upstream up now (t # ts) acc flat s =
    (case upstream t of
       Some c \<Rightarrow> turns_token_cost st upstream up now ts (acc + c) flat s
     | None \<Rightarrow>
         (let (rule, s1) = get_live_pricing_for_model st up now (tn_provider t) (tn_model t) False s
          in case rule of
               None \<Rightarrow> turns_token_cost st upstream up now ts acc flat s1
             | Some r \<Rightarrow>
                 if is_flat_rate r
                 then turns_token_cost st upstream up now ts acc (AList.update (pr_id r) (pr_run_price_usdc r) flat) s1
                 else turns_token_cost st upstream up now ts
                   (acc + per_unit_token_cost r (tn_tokens_in t) (tn_tokens_out t) (tn_cache_creation_tokens t)) flat s1))"

definition calculate_turns_token_cost_usdc ::
  "pricing_settings \<Rightarrow> (turn \<Rightarrow> usdc option) \<Rightarrow> bool \<Rightarrow> instant \<Rightarrow> turn list \<Rightarrow> pricing_state \<Rightarrow> usdc \<times> pricing_state" where
  "calculate_turns_token_cost_usdc st upstream up now turns s =
    (let ((per_unit, flat), s') = turns_token_cost st upstream up now turns 0 [] s
     in (per_unit + sum_list (map snd flat), s'))"

record usage_data =
  us_tokens_in :: int
  us_tokens_out :: int
  us_billable_tool_calls :: int
  us_billable_tool_names :: "string list"
  us_cache_creation_tokens :: int

definition calculate_run_cost_usdc ::
  "pricing_settings \<Rightarrow> bool \<Rightarrow> instant \<Rightarrow> usage_data \<Rightarrow> string \<Rightarrow> string \<Rightarrow> pricing_state \<Rightarrow> usdc \<times> pricing_state" where
  "calculate_run_cost_usdc st up now u provider model s =
    (let (rule, s1) = (if provider \<noteq> [] \<and> model \<noteq> [] then get_live_pricing_for_model st up now provider model False s
                       else get_live_pricing st up now s);
         token_cost = (case rule of
             None \<Rightarrow> 0
           | Some r \<Rightarrow> if is_flat_rate r then pr_run_price_usdc r
               else per_unit_token_cost r (us_tokens_in u) (us_tokens_out u) (us_cache_creation_tokens u));
         (tools, s2) = calculate_tool_cost_usdc st up now (us_billable_tool_calls u) (us_billable_tool_names u) s1
     in (token_cost + tools, s2))"

section \<open>Fees\<close>

definition apply_platform_fee :: "pricing_settings \<Rightarrow> usdc \<Rightarrow> usdc" where
  "apply_platform_fee st cost = cost + cost * pricing_delegation_platform_fee_bps st div 10000"

definition get_byok_platform_fee :: "pricing_settings \<Rightarrow> bool \<Rightarrow> usdc" where
  "get_byok_platform_fee st byok = (if byok then pricing_byok_platform_fee_usdc st else 0)"

definition calculate_byok_orchestration_cost ::
  "pricing_settings \<Rightarrow> bool \<Rightarrow> instant \<Rightarrow> int \<Rightarrow> int \<Rightarrow> string \<Rightarrow> string \<Rightarrow> pricing_state \<Rightarrow> usdc \<times> pricing_state" where
  "calculate_byok_orchestration_cost st up now tokens_in tokens_out provider model s =
    (let floor = pricing_byok_platform_fee_usdc st;
         (rule, s') = get_live_pricing_for_model st up now provider model True s
     in case rule of
          None \<Rightarrow> (floor, s')
        | Some r \<Rightarrow>
            (max (ceil_div (tokens_in * pr_tokens_in_cost_per_1k r + tokens_out * pr_tokens_out_cost_per_1k r) 1000) floor, s'))"

section \<open>Price strings\<close>

definition pad_zeros :: "nat \<Rightarrow> string \<Rightarrow> string" where
  "pad_zeros w s = replicate (w - length s) CHR ''0'' @ s"

definition rstrip_zeros :: "string \<Rightarrow> string" where
  "rstrip_zeros s = rev (dropWhile (\<lambda>c. c = CHR ''0'') (rev s))"

definition ljust_zeros :: "nat \<Rightarrow> string \<Rightarrow> string" where
  "ljust_zeros w s = s @ replicate (w - length s) CHR ''0''"

definition atomic_usdc_to_price_str :: "usdc \<Rightarrow> py_error + string" where
  "atomic_usdc_to_price_str atomic =
    (if atomic < 0 then Inl (ValueError ''atomic USDC amount must not be negative'')
     else
       (let integer_part = atomic div 1000000; fractional = atomic mod 1000000;
            frac_part = pad_zeros 6 (py_str_int fractional);
            stripped = rstrip_zeros frac_part;
            shown = (if length stripped < 2 then ljust_zeros 2 stripped else stripped)
        in Inr (CHR ''$'' # py_str_int integer_part @ ''.'' @ shown)))"

section \<open>Lemmas\<close>

lemma first_row_sort:
  fixes k :: "'r \<Rightarrow> 'b :: linorder"
  assumes "first_row (sort_key k xs) = Some r"
  shows "r \<in> set xs \<and> (\<forall>x \<in> set xs. k r \<le> k x)"
proof -
  from assms obtain ys where ys: "sort_key k xs = r # ys" by (auto simp: first_row_def split: list.splits)
  have "sorted (map k (r # ys))" unfolding ys [symmetric] by simp
  moreover have "set xs = set (r # ys)" unfolding ys [symmetric] by simp
  ultimately show ?thesis by auto
qed

lemma first_row_sort_None: "first_row (sort_key k xs) = None \<longleftrightarrow> xs = []"
  by (auto simp: first_row_def split: list.splits) (metis set_empty set_sort)

lemma ttl_get_again:
  assumes "ttl_get cfg now loaded (RedisOff, c) = (v, r, c')"
  shows "r = RedisOff \<and> fst (ttl_get cfg now loaded (RedisOff, c')) = v"
  using assms by (auto simp: ttl_get_def ttl_load_def local_fresh_def split: if_splits sum.splits option.splits)

lemma get_live_pricing_again:
  assumes "get_live_pricing st up now s = (rule, s')"
  shows "fst (get_live_pricing st up now s') = rule \<and> pricing_rules s' = pricing_rules s"
  using assms ttl_get_again [of "live_pricing_config st" now "from_db up (get_current_pricing now s)" "live_pricing_cache s"]
  by (auto simp: get_live_pricing_def get_current_pricing_def split: prod.splits)

lemma get_live_pricing_for_model_again:
  assumes "get_live_pricing_for_model st up now provider model byok s = (rule, s')"
  shows "fst (get_live_pricing_for_model st up now provider model byok s') = rule"
proof (cases "provider = [] \<and> model = []")
  case True
  with assms get_live_pricing_again show ?thesis by (auto simp: get_live_pricing_for_model_def)
next
  case False
  have same: "get_current_pricing_for_model now p m b e (s\<lparr>model_pricing_cache := x\<rparr>) = get_current_pricing_for_model now p m b e s"
    for p m b e x by (simp add: get_current_pricing_for_model_def)
  from False assms show ?thesis
    by (auto simp: get_live_pricing_for_model_def Let_def same split: option.splits if_splits)
qed

lemma turns_flat_again:
  assumes "upstream t = None" "is_flat_rate r"
    and "fst (get_live_pricing_for_model st up now (tn_provider t) (tn_model t) False s) = Some r"
    and "flat = [] \<or> flat = [(pr_id r, pr_run_price_usdc r)]"
  shows "fst (turns_token_cost st upstream up now (replicate n t) acc flat s) =
    (acc, if n = 0 then flat else [(pr_id r, pr_run_price_usdc r)])"
  using assms(3,4)
proof (induction n arbitrary: s flat)
  case (Suc n)
  obtain s1 where s1: "get_live_pricing_for_model st up now (tn_provider t) (tn_model t) False s = (Some r, s1)"
    using Suc.prems(1) by (metis prod.collapse)
  note again = get_live_pricing_for_model_again [OF s1]
  have "AList.update (pr_id r) (pr_run_price_usdc r) flat = [(pr_id r, pr_run_price_usdc r)]"
    using Suc.prems(2) by auto
  with Suc.IH [OF again, of "[(pr_id r, pr_run_price_usdc r)]"] s1 assms(1,2) show ?case by simp
qed simp

lemma split_slash_qualified: "CHR ''/'' \<notin> set slug \<Longrightarrow> split_slash (slug @ ''/'' @ tool) = (slug, tool)"
  by (induction slug) auto

text \<open>Reading a price string back: what an x402 client does with it.\<close>

definition price_str_atomic :: "string \<Rightarrow> int option" where
  "price_str_atomic s =
    (case s of
       [] \<Rightarrow> None
     | c # rest \<Rightarrow>
         if c \<noteq> CHR ''$'' then None
         else
           (let i = takeWhile (\<lambda>c. c \<noteq> CHR ''.'') rest; f = tl (dropWhile (\<lambda>c. c \<noteq> CHR ''.'') rest)
            in case (py_unsigned i, py_unsigned (ljust_zeros 6 f)) of
                 (Some a, Some b) \<Rightarrow> Some (a * 1000000 + b)
               | _ \<Rightarrow> None))"

lemma py_str_nat_length: "n < 10 ^ Suc k \<Longrightarrow> length (py_str_nat n) \<le> Suc k"
proof (induction k arbitrary: n)
  case 0
  then show ?case by (simp add: py_str_nat.simps [of n])
next
  case (Suc k)
  then have "n div 10 < 10 ^ Suc k" by (simp add: less_mult_imp_div_less)
  with Suc.IH [of "n div 10"] show ?case by (simp add: py_str_nat.simps [of n])
qed

lemma zero_char: "CHR ''0'' = digit_char 0"
  using char_of_char [of "CHR ''0''", where 'a = nat] by (simp add: digit_char_def)

lemma py_digits_zeros: "py_digits 0 (replicate z CHR ''0'' @ s) = py_digits 0 s"
  by (induction z) (simp_all add: zero_char del: replicate_append_same)

lemma py_unsigned_padded: "py_unsigned (replicate z CHR ''0'' @ py_str_nat n) = Some (int n)"
proof (cases z)
  case 0
  then show ?thesis by (simp add: py_unsigned_str_nat)
next
  case (Suc z')
  then have "py_unsigned (replicate z CHR ''0'' @ py_str_nat n) = py_digits 0 (replicate z' CHR ''0'' @ py_str_nat n)"
    by (simp add: py_unsigned_def zero_char)
  then show ?thesis by (simp add: py_digits_zeros py_digits_str_nat)
qed

lemma rstrip_ljust:
  assumes "length s = 6"
  shows "ljust_zeros 6 (let t = rstrip_zeros s in if length t < 2 then ljust_zeros 2 t else t) = s"
proof -
  let ?t = "rstrip_zeros s"
  have split: "s = ?t @ replicate (length s - length ?t) CHR ''0''"
  proof -
    have "rev s = takeWhile (\<lambda>c. c = CHR ''0'') (rev s) @ dropWhile (\<lambda>c. c = CHR ''0'') (rev s)" by simp
    then have "s = ?t @ rev (takeWhile (\<lambda>c. c = CHR ''0'') (rev s))"
      unfolding rstrip_zeros_def by (metis rev_append rev_rev_ident)
    moreover have "takeWhile (\<lambda>c. c = CHR ''0'') (rev s) = replicate (length (takeWhile (\<lambda>c. c = CHR ''0'') (rev s))) CHR ''0''"
      by (rule replicate_length_same [symmetric]) (auto dest: set_takeWhileD)
    ultimately show ?thesis by (metis add_diff_cancel_left' length_append length_rev rev_replicate)
  qed
  then have len: "length ?t \<le> 6" using assms by (metis le_add1 length_append)
  have "ljust_zeros 6 (ljust_zeros 2 ?t) = ljust_zeros 6 ?t"
    using len by (auto simp: ljust_zeros_def replicate_add [symmetric])
  moreover have "ljust_zeros 6 ?t = s" using split assms by (simp add: ljust_zeros_def)
  ultimately show ?thesis by (simp add: Let_def)
qed

lemma takeWhile_digits:
  assumes "is_digits s"
  shows "takeWhile (\<lambda>c. c \<noteq> CHR ''.'') (s @ CHR ''.'' # t) = s" "dropWhile (\<lambda>c. c \<noteq> CHR ''.'') (s @ CHR ''.'' # t) = CHR ''.'' # t"
proof -
  have "\<forall>c \<in> set s. c \<noteq> CHR ''.''" using assms digit_char_not_sign(3) unfolding is_digits_def by metis
  then show "takeWhile (\<lambda>c. c \<noteq> CHR ''.'') (s @ CHR ''.'' # t) = s"
    "dropWhile (\<lambda>c. c \<noteq> CHR ''.'') (s @ CHR ''.'' # t) = CHR ''.'' # t"
    by (simp_all add: takeWhile_append2 dropWhile_append2)
qed

section \<open>Properties\<close>

text \<open>
  Token costs are rounded up once and by less than one atomic unit: the charge covers the exact
  pro-rata price (with the quarter premium on cache writes) and exceeds it by less than a unit, and
  billing the same tokens as two turns costs at least as much as billing them together and at most
  one unit more.
\<close>

theorem per_unit_token_cost_rounding:
  assumes "0 \<le> c1" "0 \<le> c2"
  shows "scaled_token_cost r i1 o1 c1 \<le> 4000 * per_unit_token_cost r i1 o1 c1 \<and>
    4000 * per_unit_token_cost r i1 o1 c1 < scaled_token_cost r i1 o1 c1 + 4000 \<and>
    per_unit_token_cost r (i1 + i2) (o1 + o2) (c1 + c2) \<le> per_unit_token_cost r i1 o1 c1 + per_unit_token_cost r i2 o2 c2 \<and>
    per_unit_token_cost r i1 o1 c1 + per_unit_token_cost r i2 o2 c2 \<le> per_unit_token_cost r (i1 + i2) (o1 + o2) (c1 + c2) + 1"
proof -
  let ?x = "scaled_token_cost r i1 o1 c1" and ?y = "scaled_token_cost r i2 o2 c2"
  have sum: "scaled_token_cost r (i1 + i2) (o1 + o2) (c1 + c2) = ?x + ?y"
    using assms by (simp add: scaled_token_cost_def algebra_simps)
  have "ceil_div ?x 4000 + ceil_div ?y 4000 \<le> ceil_div (?x + ?y) 4000 + 1"
    using ceil_div_less [of 4000 ?x] ceil_div_less [of 4000 ?y] ceil_div_ge [of 4000 "?x + ?y"] by simp
  then show ?thesis
    unfolding per_unit_token_cost_def sum
    using ceil_div_ge [of 4000 ?x] ceil_div_less [of 4000 ?x] ceil_div_subadditive [of 4000 ?x ?y] by simp
qed

definition demo_rule :: pricing_rule where
  "demo_rule = \<lparr>pr_id = ''p1'', pr_name = ''std'', pr_run_price_usdc = 10000, pr_tokens_in_cost_per_1k = 1500,
     pr_tokens_out_cost_per_1k = 7500, pr_tool_call_cost = 1000, pr_effective_from = 0, pr_provider = [],
     pr_model = [], pr_is_byok = False\<rparr>"

theorem per_unit_token_cost_rounding_witness:
  "per_unit_token_cost demo_rule 1 0 0 = 2 \<and> scaled_token_cost demo_rule 1 0 0 \<le> 4000 * per_unit_token_cost demo_rule 1 0 0"
  using per_unit_token_cost_rounding [of 0 0 demo_rule 1 0 0 0]
  by (simp add: per_unit_token_cost_def scaled_token_cost_def ceil_div_def demo_rule_def)

text \<open>The rules in force on a date for exactly this provider and model, and the most recent one of a list.\<close>

definition rules_for :: "instant \<Rightarrow> bool \<Rightarrow> string \<Rightarrow> string \<Rightarrow> pricing_state \<Rightarrow> pricing_rule list" where
  "rules_for now byok provider model s =
     [r \<leftarrow> pricing_rules s. pr_effective_from r \<le> now \<and> pr_is_byok r = byok \<and> pr_provider r = provider \<and> pr_model r = model]"

definition most_recent :: "pricing_rule list \<Rightarrow> pricing_rule \<Rightarrow> bool" where
  "most_recent rules r \<longleftrightarrow> r \<in> set rules \<and> (\<forall>x \<in> set rules. pr_effective_from x \<le> pr_effective_from r)"

lemma rules_for_stored: "x \<in> set (rules_for now byok p m s) \<Longrightarrow> x \<in> set (pricing_rules s)"
  by (simp add: rules_for_def)

lemma rules_for_exact:
  assumes "x \<in> set (rules_for now byok provider model s)"
  shows "rule_matches now provider model byok exact_match x" "rule_rank provider model x = 0"
  using assms by (auto simp: rules_for_def rule_matches_def is_current_def rule_rank_def)

lemma rules_for_fallback:
  shows "x \<in> set (rules_for now byok provider [] s) \<Longrightarrow> \<not> exact_match \<Longrightarrow> rule_matches now provider model byok exact_match x"
    and "x \<in> set (rules_for now byok provider [] s) \<Longrightarrow> \<not> exact_match \<Longrightarrow> rule_rank provider model x \<le> 1"
    and "x \<in> set (rules_for now byok [] [] s) \<Longrightarrow> \<not> exact_match \<Longrightarrow> rule_matches now provider model byok exact_match x"
    and "x \<in> set (rules_for now byok [] [] s) \<Longrightarrow> \<not> exact_match \<Longrightarrow> rule_rank provider model x \<le> 2"
  by (auto simp: rules_for_def rule_matches_def is_current_def rule_rank_def)

text \<open>
  C33. The most specific rule in force prices a model. If there are rules in force for the provider and the
  model, the most recent of them is selected; failing those, and unless an exact match is asked for, the
  most recent rule in force for the provider alone; failing those, the most recent global one. Standard
  and bring-your-own-key rules are never mixed, a rule not yet in force is never selected, and nothing is
  selected only when none of these rules exists.
\<close>

theorem model_rule_selection:
  "case get_current_pricing_for_model now provider model byok exact_match s of
     Some r \<Rightarrow>
       if rules_for now byok provider model s \<noteq> [] then most_recent (rules_for now byok provider model s) r
       else exact_match = False \<and>
         (if rules_for now byok provider [] s \<noteq> [] then most_recent (rules_for now byok provider [] s) r
          else most_recent (rules_for now byok [] [] s) r)
   | None \<Rightarrow> rules_for now byok provider model s = [] \<and>
       (exact_match \<or> rules_for now byok provider [] s = [] \<and> rules_for now byok [] [] s = [])"
proof (cases "get_current_pricing_for_model now provider model byok exact_match s")
  case None
  then have "rows_where (rule_matches now provider model byok exact_match) (pricing_rules s) = []"
    by (simp add: get_current_pricing_for_model_def first_row_sort_None)
  with None show ?thesis
    by (auto simp: rows_where_def filter_empty_conv rules_for_def rule_matches_def is_current_def)
next
  case (Some r)
  let ?m = "rule_matches now provider model byok exact_match"
  have r: "r \<in> set (pricing_rules s)" "?m r" and least: "\<And>x. x \<in> set (pricing_rules s) \<Longrightarrow> ?m x \<Longrightarrow>
      rule_rank provider model r < rule_rank provider model x \<or>
      rule_rank provider model r = rule_rank provider model x \<and> pr_effective_from x \<le> pr_effective_from r"
    using first_row_sort [OF Some [unfolded get_current_pricing_for_model_def]] by (auto simp: less_eq_prod_def)
  note exact = rules_for_exact [where provider = provider and model = model]
    and prov = rules_for_fallback(1) [where model = model] rules_for_fallback(2) [where model = model]
    and glob = rules_for_fallback(3) [where provider = provider and model = model]
      rules_for_fallback(4) [where provider = provider and model = model]
    and stored = rules_for_stored
  have none: "rules = []"
    if "\<And>x. x \<in> set rules \<Longrightarrow> x \<in> set (pricing_rules s) \<and> ?m x \<and> rule_rank provider model x < rule_rank provider model r" for rules
  proof (cases rules)
    case (Cons x xs)
    with that [of x] least [of x] show ?thesis by auto
  qed simp
  have "r \<in> set (rules_for now byok provider model s) \<or>
      \<not> exact_match \<and> rule_rank provider model r = 1 \<and> r \<in> set (rules_for now byok provider [] s) \<or>
      \<not> exact_match \<and> rule_rank provider model r = 2 \<and> r \<in> set (rules_for now byok [] [] s)"
    using r by (auto simp: rules_for_def rule_matches_def is_current_def rule_rank_def)
  then consider (e) "r \<in> set (rules_for now byok provider model s)"
    | (p) "\<not> exact_match" "rule_rank provider model r = 1" "r \<in> set (rules_for now byok provider [] s)"
    | (g) "\<not> exact_match" "rule_rank provider model r = 2" "r \<in> set (rules_for now byok [] [] s)"
    by blast
  then show ?thesis
  proof cases
    case e
    then show ?thesis
      using Some exact [of r] least [OF stored exact(1)] exact by (auto simp: most_recent_def)
  next
    case p
    have "rules_for now byok provider model s = []"
      using stored exact p(2) by (intro none) auto
    moreover have "pr_effective_from x \<le> pr_effective_from r" if "x \<in> set (rules_for now byok provider [] s)" for x
      using least [OF stored [OF that] prov(1) [OF that p(1)]] prov(2) [OF that p(1)] p(2) by auto
    ultimately show ?thesis using Some p by (auto simp: most_recent_def)
  next
    case g
    have "rules_for now byok provider model s = []"
      using stored exact g(2) by (intro none) auto
    moreover have "rules_for now byok provider [] s = []"
    proof (rule none)
      fix x
      assume "x \<in> set (rules_for now byok provider [] s)"
      from stored [OF this] prov [OF this g(1)] g(2)
      show "x \<in> set (pricing_rules s) \<and> ?m x \<and> rule_rank provider model x < rule_rank provider model r" by simp
    qed
    moreover have "pr_effective_from x \<le> pr_effective_from r" if "x \<in> set (rules_for now byok [] [] s)" for x
      using least [OF stored [OF that] glob(1) [OF that g(1)]] glob(2) [OF that g(1)] g(2) by auto
    ultimately show ?thesis using Some g by (auto simp: most_recent_def)
  qed
qed

definition demo_pricing :: pricing_state where
  "demo_pricing = \<lparr>pricing_rules = [demo_rule, demo_rule\<lparr>pr_id := ''p2'', pr_provider := ''acme''\<rparr>],
     tool_pricing_overrides = [''web_search'' \<mapsto> 15000], marketplace_platform_tools = Map.empty, org_tools = [],
     live_pricing_cache = empty_cache, tool_overrides_cache = empty_cache, model_pricing_cache = Map.empty,
     platform_tool_caches = Map.empty, org_tool_price_caches = Map.empty\<rparr>"

theorem model_rule_selection_witness:
  "get_current_pricing_for_model 9 ''acme'' ''m'' False False demo_pricing =
     Some (demo_rule\<lparr>pr_id := ''p2'', pr_provider := ''acme''\<rparr>) \<and>
   most_recent (rules_for 9 False ''acme'' [] demo_pricing) (demo_rule\<lparr>pr_id := ''p2'', pr_provider := ''acme''\<rparr>)"
proof -
  have rules: "rules_for 9 False ''acme'' ''m'' demo_pricing = []"
    "rules_for 9 False ''acme'' [] demo_pricing = [demo_rule\<lparr>pr_id := ''p2'', pr_provider := ''acme''\<rparr>]"
    by (simp_all add: rules_for_def demo_pricing_def demo_rule_def)
  with model_rule_selection [where now = 9 and provider = "''acme''" and model = "''m''" and byok = False
      and exact_match = False and s = demo_pricing] show ?thesis
    by (auto simp: most_recent_def split: option.splits)
qed

lemma overrides_reloaded:
  assumes "tool_overrides_cache s = empty_cache"
  shows "fst (get_tool_pricing_overrides st True now s) = tool_pricing_overrides s"
  using assms ttl_get_reload [of now RedisOff empty_cache "tool_overrides_config st" "Inr (Some (tool_pricing_overrides s))"]
  by (auto simp: get_tool_pricing_overrides_def get_current_tool_overrides_def from_db_def split: prod.splits)

text \<open>
  In a process without Redis, while the database answers, a price override takes effect at once: after an
  accepted override the very next pricing in that process of a call of that tool, under its bare name or
  qualified by any publisher without an override of its own, charges the new price. Other processes keep a
  value they cached until it expires, and with Redis a failed delete leaves the old value there until then.
\<close>

theorem override_effective_at_once:
  assumes "upsert_tool_pricing_override tool cost s = (Inr (), s1)"
    and "CHR ''/'' \<notin> set slug" and "tool_pricing_overrides s1 (slug @ ''/'' @ tool) = None"
  shows "fst (calculate_tool_cost_usdc st True now 1 [tool] s1) = cost \<and>
    fst (calculate_tool_cost_usdc st True now 1 [slug @ ''/'' @ tool] s1) = cost"
proof -
  from assms(1) have s1: "tool_pricing_overrides s1 tool = Some cost" "tool_overrides_cache s1 = empty_cache"
    by (auto simp: upsert_tool_pricing_override_def ttl_invalidate_def split: if_splits)
  obtain rule s2 where live: "get_live_pricing st True now s1 = (rule, s2)" by (metis prod.collapse)
  then have s2: "tool_pricing_overrides s2 = tool_pricing_overrides s1" "tool_overrides_cache s2 = empty_cache"
    using s1(2) by (auto simp: get_live_pricing_def split: prod.splits)
  then have "fst (get_tool_pricing_overrides st True now s2) = tool_pricing_overrides s1" using overrides_reloaded by metis
  then obtain s3 where ov: "get_tool_pricing_overrides st True now s2 = (tool_pricing_overrides s1, s3)"
    by (metis prod.collapse)
  show ?thesis
    using live ov s1(1) assms(3) split_slash_qualified [OF assms(2), of tool]
    by (simp add: calculate_tool_cost_usdc_def resolve_tool_cost_def)
qed

definition demo_pricing_settings :: pricing_settings where
  "demo_pricing_settings = \<lparr>pricing_cache_ttl_seconds = 60, pricing_marketplace_enabled = True,
     pricing_byok_platform_fee_usdc = 1000, pricing_delegation_platform_fee_bps = 500\<rparr>"

theorem override_effective_at_once_witness:
  "fst (calculate_tool_cost_usdc demo_pricing_settings True 9 1 [''acme/quote'']
     (snd (upsert_tool_pricing_override ''quote'' 777 demo_pricing))) = 777"
proof -
  have "upsert_tool_pricing_override ''quote'' 777 demo_pricing =
      (Inr (), snd (upsert_tool_pricing_override ''quote'' 777 demo_pricing))"
    by (simp add: upsert_tool_pricing_override_def bigint_def)
  from override_effective_at_once [OF this, of "''acme''" demo_pricing_settings 9] show ?thesis
    by (simp add: upsert_tool_pricing_override_def bigint_def demo_pricing_def)
qed

text \<open>
  A flat-rate rule is charged once per run: however many turns of a run use a model under a
  flat-rate rule, their token cost is that rule's run price.
\<close>

theorem flat_rate_once_per_run:
  assumes "0 < n" and "upstream t = None" and "is_flat_rate r"
    and "fst (get_live_pricing_for_model st up now (tn_provider t) (tn_model t) False s) = Some r"
  shows "fst (calculate_turns_token_cost_usdc st upstream up now (replicate n t) s) = pr_run_price_usdc r"
proof -
  have "fst (turns_token_cost st upstream up now (replicate n t) 0 [] s) = (0, [(pr_id r, pr_run_price_usdc r)])"
    using turns_flat_again [where upstream = upstream and t = t, OF assms(2-4), of "[]" n 0] assms(1) by simp
  then show ?thesis by (auto simp: calculate_turns_token_cost_usdc_def split: prod.splits)
qed

theorem flat_rate_once_per_run_witness:
  "fst (calculate_turns_token_cost_usdc demo_pricing_settings (\<lambda>_. None) True 9
     (replicate 3 \<lparr>tn_provider = ''acme'', tn_model = ''m'', tn_tokens_in = 5, tn_tokens_out = 5, tn_cache_creation_tokens = 0\<rparr>)
     (demo_pricing\<lparr>pricing_rules := [demo_rule\<lparr>pr_provider := ''acme'', pr_tokens_in_cost_per_1k := 0,
        pr_tokens_out_cost_per_1k := 0, pr_tool_call_cost := 0\<rparr>]\<rparr>)) = 10000"
  by (subst flat_rate_once_per_run [where r = "demo_rule\<lparr>pr_provider := ''acme'', pr_tokens_in_cost_per_1k := 0,
        pr_tokens_out_cost_per_1k := 0, pr_tool_call_cost := 0\<rparr>"])
    (simp_all add: is_flat_rate_def demo_rule_def demo_pricing_def get_live_pricing_for_model_def
      get_current_pricing_for_model_def rows_where_def rule_matches_def is_current_def first_row_def Let_def)

text \<open>
  Price strings are exact: every non-negative amount has one, with at least two and at most six
  decimals, and reading it back gives the same number of atomic units; negative amounts are refused.
\<close>

theorem price_str_roundtrip:
  "if 0 \<le> atomic
   then \<exists>i f. atomic_usdc_to_price_str atomic = Inr (CHR ''$'' # i @ ''.'' @ f) \<and> 2 \<le> length f \<and> length f \<le> 6 \<and>
     price_str_atomic (CHR ''$'' # i @ ''.'' @ f) = Some atomic
   else \<exists>e. atomic_usdc_to_price_str atomic = Inl e"
proof (cases "0 \<le> atomic")
  case False
  then show ?thesis by (simp add: atomic_usdc_to_price_str_def)
next
  case True
  let ?i = "py_str_nat (nat (atomic div 1000000))" and ?n = "nat (atomic mod 1000000)"
  let ?pad = "pad_zeros 6 (py_str_nat ?n)"
  let ?f = "let t = rstrip_zeros ?pad in if length t < 2 then ljust_zeros 2 t else t"
  have "length (py_str_nat ?n) \<le> 6" using py_str_nat_length [of ?n 5] by simp
  then have len: "length ?pad = 6" by (simp add: pad_zeros_def)
  have str: "atomic_usdc_to_price_str atomic = Inr (CHR ''$'' # ?i @ ''.'' @ ?f)"
  proof -
    have "py_str_int (atomic div 1000000) = ?i" "py_str_int (atomic mod 1000000) = py_str_nat ?n"
      using True by (simp_all add: py_str_int_def pos_imp_zdiv_neg_iff)
    with True show ?thesis by (simp add: atomic_usdc_to_price_str_def Let_def)
  qed
  have "length (rstrip_zeros ?pad) \<le> length ?pad"
    unfolding rstrip_zeros_def by (metis length_dropWhile_le length_rev)
  then have f: "2 \<le> length ?f" "length ?f \<le> 6" using len by (auto simp: ljust_zeros_def Let_def)
  have "price_str_atomic (CHR ''$'' # ?i @ ''.'' @ ?f) = Some (int (nat (atomic div 1000000)) * 1000000 + int ?n)"
    using takeWhile_digits [of ?i ?f] py_str_nat_digits [of "nat (atomic div 1000000)"] rstrip_ljust [OF len]
      py_unsigned_str_nat [of "nat (atomic div 1000000)"] py_unsigned_padded [of _ ?n]
    by (simp add: price_str_atomic_def pad_zeros_def)
  also have "\<dots> = Some atomic" using True by (simp add: pos_imp_zdiv_nonneg_iff div_mult_mod_eq)
  finally show ?thesis using True str f by auto
qed

text \<open>
  A bring-your-own-key run never costs less than the platform floor nor less than its per-token
  price: the orchestration fee is at least the floor, and under a rule it also covers the exact
  token cost, exceeding the larger of the two by less than one unit.
\<close>

theorem byok_cost_covers:
  "case calculate_byok_orchestration_cost st up now tokens_in tokens_out provider model s of
     (cost, s') \<Rightarrow> pricing_byok_platform_fee_usdc st \<le> cost \<and>
       (case fst (get_live_pricing_for_model st up now provider model True s) of
          None \<Rightarrow> cost = pricing_byok_platform_fee_usdc st
        | Some r \<Rightarrow>
            (let exact = tokens_in * pr_tokens_in_cost_per_1k r + tokens_out * pr_tokens_out_cost_per_1k r
             in exact \<le> cost * 1000 \<and> cost * 1000 < max (exact + 1000) (pricing_byok_platform_fee_usdc st * 1000 + 1)))"
proof (cases "get_live_pricing_for_model st up now provider model True s")
  case (Pair rule s')
  show ?thesis
  proof (cases rule)
    case None
    with Pair show ?thesis by (simp add: calculate_byok_orchestration_cost_def)
  next
    case (Some r)
    let ?x = "tokens_in * pr_tokens_in_cost_per_1k r + tokens_out * pr_tokens_out_cost_per_1k r"
    from Pair Some show ?thesis
      using ceil_div_ge [of 1000 ?x] ceil_div_less [of 1000 ?x]
      by (auto simp: calculate_byok_orchestration_cost_def Let_def max_def)
  qed
qed

end
