(* ===== verification/Dispatch.thy ===== *)
theory Dispatch
  imports Schedules Mpp Pricing Credit
begin

text \<open>
  Executing scheduled runs and event triggers: prompt templates (\<^verbatim>\<open>scheduling/templating.py\<close>), the run itself
  with its results and publications (\<^verbatim>\<open>scheduling/runner.py\<close>), the worker (\<^verbatim>\<open>scheduling/worker.py\<close>), the
  task view (\<^verbatim>\<open>scheduling/a2a_tasks.py\<close>) and the webhook with its background runs and chains
  (\<^verbatim>\<open>teardrop/routers/agent_event_triggers.py\<close>).

  The agent, the publication and callback clients, the JSON decoder of the standard library and the rate
  limiter's verdicts are arguments; every other step is a transaction of \<open>Schedules\<close> or a read of the credit
  ledger. What leaves the system is returned as a list of outbound messages.

  The lemmas show that only a caller with the trigger's secret starts a run, that rendering never reads the
  payload as a template, that a run is published at most once and that chains are bounded.
\<close>

section \<open>Prompt templates\<close>

text \<open>A value of the event payload; \<open>EvFloat\<close> carries its \<^verbatim>\<open>str\<close>, \<open>EvOther\<close> is a list, an object or null.\<close>

datatype event_value = EvBool bool | EvInt int | EvFloat string | EvStr string | EvOther

definition value_max_chars :: nat where
  "value_max_chars = 4000"

fun coerce_scalar :: "event_value option \<Rightarrow> string" where
  "coerce_scalar (Some (EvBool b)) = (if b then ''true'' else ''false'')"
| "coerce_scalar (Some (EvInt n)) = py_str_int n"
| "coerce_scalar (Some (EvFloat s)) = s"
| "coerce_scalar (Some (EvStr s)) = take value_max_chars s"
| "coerce_scalar _ = []"

definition key_char :: "char \<Rightarrow> bool" where
  "key_char c \<longleftrightarrow> (let n = of_char c :: nat in (48 \<le> n \<and> n \<le> 57) \<or> (65 \<le> n \<and> n \<le> 90) \<or> (97 \<le> n \<and> n \<le> 122) \<or> n = 95)"

text \<open>
  A match of the placeholder pattern at the start of a text: the key and what follows the match. The classes
  of the pattern are disjoint, so there is at most one match.
\<close>

definition match_placeholder :: "string \<Rightarrow> (string \<times> string) option" where
  "match_placeholder t =
    (if take 2 t \<noteq> ''{{'' then None
     else (let r = dropWhile py_isspace (drop 2 t); key = takeWhile key_char r;
               rest = dropWhile py_isspace (dropWhile key_char r)
           in if key \<noteq> [] \<and> take 2 rest = ''}}'' then Some (key, drop 2 rest) else None))"

lemma match_placeholder_shorter: "match_placeholder t = Some (key, rest) \<Longrightarrow> length rest < length t"
proof -
  assume m: "match_placeholder t = Some (key, rest)"
  let ?r = "dropWhile py_isspace (drop 2 t)"
  have "rest = drop 2 (dropWhile py_isspace (dropWhile key_char ?r))" "take 2 t = ''{{''"
    using m by (auto simp: match_placeholder_def Let_def split: if_splits)
  moreover have "length (dropWhile py_isspace (dropWhile key_char ?r)) \<le> length (drop 2 t)"
    by (metis length_dropWhile_le order_trans)
  moreover have "t \<noteq> []" using calculation(2) by auto
  ultimately show "length rest < length t" by (cases t) auto
qed

function substitute :: "(string \<Rightarrow> string) \<Rightarrow> string \<Rightarrow> string" where
  "substitute f [] = []"
| "substitute f (c # t) =
    (case match_placeholder (c # t) of
       Some (key, rest) \<Rightarrow> f key @ substitute f rest
     | None \<Rightarrow> c # substitute f t)"
  by pat_completeness auto
termination by (relation "measure (length \<circ> snd)") (auto dest: match_placeholder_shorter)

text \<open>\<open>dump\<close>: the compact JSON text of the payload, \<open>None\<close> when encoding raises. A payload that is not an object has no keys.\<close>

definition render_event_prompt :: "string option \<Rightarrow> string \<Rightarrow> (string \<times> event_value) list \<Rightarrow> nat \<Rightarrow> string" where
  "render_event_prompt dump template data max_chars =
    (let event_json = (case dump of None \<Rightarrow> [] | Some j \<Rightarrow> take value_max_chars j)
     in take max_chars (substitute (\<lambda>key. if key = ''event_json'' then event_json else coerce_scalar (map_of data key)) template))"

section \<open>Task view\<close>

datatype a2a_task_state = TaskSubmitted | TaskCompleted | TaskFailed | TaskRejected

fun to_a2a_task_state :: "run_status option \<Rightarrow> a2a_task_state" where
  "to_a2a_task_state None = TaskSubmitted"
| "to_a2a_task_state (Some RunCompleted) = TaskCompleted"
| "to_a2a_task_state (Some RunFailed) = TaskFailed"
| "to_a2a_task_state (Some RunTimeout) = TaskFailed"
| "to_a2a_task_state (Some RunSkipped) = TaskRejected"

record event_task =
  et_id :: ident
  et_context_id :: string
  et_state :: a2a_task_state
  et_timestamp :: instant
  et_artifacts :: "(string \<times> string) list"
  et_schedule_id :: ident
  et_chain_id :: ident
  et_hop_index :: int

definition build_event_task :: "instant \<Rightarrow> ident \<Rightarrow> ident \<Rightarrow> run_result option \<Rightarrow> ident \<Rightarrow> int \<Rightarrow> event_task" where
  "build_event_task now schedule_id run_id result chain_id hop_index =
    \<lparr>et_id = run_id, et_context_id = ''event-trigger:'' @ schedule_id, et_state = to_a2a_task_state (map_option rr_status result),
     et_timestamp = (case result of Some r \<Rightarrow> rr_created_at r | None \<Rightarrow> now),
     et_artifacts = (case result of Some r \<Rightarrow> if rr_output_text r \<noteq> [] then [(run_id @ '':result'', rr_output_text r)] else [] | None \<Rightarrow> []),
     et_schedule_id = schedule_id, et_chain_id = chain_id, et_hop_index = hop_index\<rparr>"

section \<open>Publications\<close>

text \<open>\<open>raw_decode\<close>: \<^verbatim>\<open>JSONDecoder().raw_decode\<close>, the value and the end of its text, or \<open>None\<close> if it raises.\<close>

type_synonym raw_decoder = "string \<Rightarrow> (json \<times> nat) option"

definition human_callback_text :: "raw_decoder \<Rightarrow> string \<Rightarrow> string \<Rightarrow> string" where
  "human_callback_text raw_decode output_text error =
    (let text = (if output_text \<noteq> [] then output_text else error) in
     if py_strip output_text = [] then text
     else (let stripped = dropWhile py_isspace output_text in
           case raw_decode stripped of
             None \<Rightarrow> text
           | Some (v, end_pos) \<Rightarrow>
               (case v of
                  MObj kvs \<Rightarrow> (case map_of kvs ''task_class'' of
                                Some (MStr _) \<Rightarrow> dropWhile py_isspace (drop end_pos stripped)
                              | _ \<Rightarrow> text)
                | _ \<Rightarrow> text)))"

text \<open>
  The link pattern, searched without regard to case. \<^verbatim>\<open>\w\<close> are the letters, digits and numerals of the code
  points below 256 and the underscore. A host name has no dot, so the part before the top-level domain is a
  whole run of its characters.
\<close>

definition word_char :: "char \<Rightarrow> bool" where
  "word_char c \<longleftrightarrow> key_char c \<or> (let n = of_char c :: nat in
     n \<in> {170, 178, 179, 181, 185, 186, 188, 189, 190} \<or> (192 \<le> n \<and> n \<noteq> 215 \<and> n \<noteq> 247))"

definition starts_word :: "string \<Rightarrow> bool" where
  "starts_word t \<longleftrightarrow> (case t of [] \<Rightarrow> False | c # _ \<Rightarrow> word_char c)"

definition host_char :: "char \<Rightarrow> bool" where
  "host_char c \<longleftrightarrow> (key_char c \<and> c \<noteq> CHR ''_'') \<or> c = CHR ''-''"

definition link_domains :: "string list" where
  "link_domains = [''com'', ''org'', ''net'', ''io'', ''ai'', ''xyz'', ''dev'', ''co'', ''app'']"

definition link_at :: "bool \<Rightarrow> string \<Rightarrow> bool" where
  "link_at after_word t =
    (let low = py_lower t; boundary = (after_word \<noteq> starts_word t); host = takeWhile host_char t; rest = drop (length host + 1) t
     in take 7 low = ''http://'' \<or> take 8 low = ''https://'' \<or> (boundary \<and> take 4 low = ''www.'') \<or>
        (boundary \<and> host \<noteq> [] \<and> take 1 (drop (length host) t) = ''.'' \<and>
         list_ex (\<lambda>d. take (length d) (py_lower rest) = d \<and> \<not> starts_word (drop (length d) rest)) link_domains))"

fun has_link :: "bool \<Rightarrow> string \<Rightarrow> bool" where
  "has_link after_word [] = False"
| "has_link after_word (c # t) = (link_at after_word (c # t) \<or> has_link (word_char c) t)"

definition x_post_text :: "raw_decoder \<Rightarrow> nat \<Rightarrow> string \<Rightarrow> string option" where
  "x_post_text raw_decode max_chars output_text =
    (let text = py_strip (human_callback_text raw_decode output_text []) in
     if text = [] then None else if max_chars < length text then None else if has_link False text then None else Some text)"

datatype outbound = Tweet string | Callback string run_result callback_format

record run_env =
  re_clock :: "nat \<Rightarrow> instant"
  re_ids :: "nat \<Rightarrow> ident"
  re_settings :: settings
  re_ledger :: db
  re_pricing_settings :: pricing_settings
  re_pricing :: "pricing_rule option"
  re_is_byok :: bool
  re_min_run_reserve :: usdc
  re_refusal_text :: "credit_refusal \<Rightarrow> string"
  re_max_failures :: int
  re_x_enabled :: bool
  re_x_configured :: bool
  re_x_org_id :: ident
  re_x_max_chars :: nat
  re_raw_decode :: raw_decoder
  re_post_tweet :: "string \<Rightarrow> string option"
  re_url_allowed :: "string \<Rightarrow> bool"

text \<open>\<open>re_post_tweet\<close> is \<open>None\<close> when the client raises, after the text may have been posted.\<close>

definition publish_x_broadcast :: "run_env \<Rightarrow> instant \<Rightarrow> scheduled_run \<Rightarrow> run_result \<Rightarrow> sched_db \<Rightarrow> outbound list \<times> sched_db" where
  "publish_x_broadcast env now schedule stored s =
    (if \<not> re_x_enabled env \<or> \<not> re_x_configured env then ([], s)
     else if re_x_org_id env \<noteq> sr_org_id schedule then ([], s)
     else if rr_status stored \<noteq> RunCompleted then ([], s)
     else case x_post_text (re_raw_decode env) (re_x_max_chars env) (rr_output_text stored) of
            None \<Rightarrow> ([], s)
          | Some text \<Rightarrow>
              (case reserve_x_broadcast now (rr_run_id stored) (sr_id schedule) (sr_org_id schedule) s of
                 (False, s1) \<Rightarrow> ([], s1)
               | (True, s1) \<Rightarrow>
                   ([Tweet text], (case re_post_tweet env text of
                                     None \<Rightarrow> s1
                                   | Some tweet_id \<Rightarrow> record_x_broadcast_tweet (rr_run_id stored) tweet_id s1))))"

section \<open>Runs\<close>

datatype agent_outcome = AgentCapacityError | AgentRaises py_error | AgentResult run_status string string usdc

record agent_call =
  ac_prompt :: string
  ac_run_id :: ident
  ac_thread_id :: string
  ac_user_role :: string
  ac_source :: string

definition min_required :: "run_env \<Rightarrow> usdc" where
  "min_required env =
    (if re_is_byok env then get_byok_platform_fee (re_pricing_settings env) True
     else max (case re_pricing env of Some p \<Rightarrow> pr_run_price_usdc p | None \<Rightarrow> 0) (re_min_run_reserve env))"

definition deliver :: "run_env \<Rightarrow> instant \<Rightarrow> scheduled_run \<Rightarrow> run_result \<Rightarrow> sched_db \<Rightarrow> outbound list \<times> sched_db" where
  "deliver env now schedule stored s =
    (if sr_callback_format schedule = CallbackX then publish_x_broadcast env now schedule stored s
     else case sr_callback_url schedule of
            None \<Rightarrow> ([], s)
          | Some url \<Rightarrow> (if url \<noteq> [] \<and> re_url_allowed env url then [Callback url stored (sr_callback_format schedule)] else [], s))"

text \<open>
  Each statement is a transaction, so an exception keeps what the earlier ones committed: the result is
  recorded, the schedule is marked, and the result is delivered.
\<close>

definition record_and_mark ::
  "run_env \<Rightarrow> scheduled_run \<Rightarrow> ident \<Rightarrow> run_status \<Rightarrow> string \<Rightarrow> usdc \<Rightarrow> string \<Rightarrow> (sched_db \<Rightarrow> py_error + (unit \<times> sched_db)) \<Rightarrow>
   (run_result \<Rightarrow> sched_db \<Rightarrow> outbound list \<times> sched_db) \<Rightarrow> sched_db \<Rightarrow> (py_error + run_result) \<times> outbound list \<times> sched_db" where
  "record_and_mark env schedule run_id status output_text cost error mark after s =
    (case record_scheduled_run_result (re_clock env 1) (re_ids env 0) (sr_id schedule) (sr_org_id schedule) run_id status output_text cost error s of
       Inl e \<Rightarrow> (Inl e, [], s)
     | Inr (stored, s1) \<Rightarrow>
         (case mark s1 of
            Inl e \<Rightarrow> (Inl e, [], s1)
          | Inr (_, s2) \<Rightarrow> (case after stored s2 of (out, s3) \<Rightarrow> (Inr stored, out, s3))))"

definition run_and_record ::
  "run_env \<Rightarrow> (agent_call \<Rightarrow> agent_outcome) \<Rightarrow> scheduled_run \<Rightarrow> agent_call \<Rightarrow> sched_db \<Rightarrow> (py_error + run_result) \<times> outbound list \<times> sched_db" where
  "run_and_record env agent schedule ac s =
    (let i = sr_id schedule; t = re_clock env; record = record_and_mark env schedule (ac_run_id ac) in
     case verify_credit (re_settings env) (t 0) (sr_org_id schedule) (min_required env) None (re_ledger env) of
       Refused why \<Rightarrow> record RunSkipped [] 0 (re_refusal_text env why) (mark_scheduled_run_skipped (t 2) i) (\<lambda>_ s. ([], s)) s
     | Verified \<Rightarrow>
         (case agent ac of
            AgentRaises e \<Rightarrow> (Inl e, [], s)
          | AgentCapacityError \<Rightarrow>
              record RunSkipped [] 0 ''Agent run capacity is temporarily exhausted.'' (requeue_scheduled_run_after_capacity (t 2) i) (\<lambda>_ s. ([], s)) s
          | AgentResult status output_text error cost \<Rightarrow>
              record status output_text cost (if error \<noteq> [] then error else if status \<noteq> RunCompleted then output_text else [])
                (if status = RunCompleted then mark_scheduled_run_succeeded (t 2) i
                 else (\<lambda>s. bindE (mark_scheduled_run_failed (t 2) i (re_max_failures env) s) (\<lambda>(_, s'). Inr ((), s'))))
                (deliver env (t 3) schedule) s))"

definition execute_scheduled_run ::
  "run_env \<Rightarrow> (agent_call \<Rightarrow> agent_outcome) \<Rightarrow> ident \<Rightarrow> scheduled_run \<Rightarrow> sched_db \<Rightarrow> (py_error + run_result) \<times> outbound list \<times> sched_db" where
  "execute_scheduled_run env agent run_id schedule s =
     run_and_record env agent schedule
       \<lparr>ac_prompt = sr_prompt schedule, ac_run_id = run_id, ac_thread_id = ''scheduled:'' @ sr_id schedule @ '':'' @ run_id,
        ac_user_role = ''scheduled'', ac_source = ''schedule''\<rparr> s"

definition execute_event_run ::
  "run_env \<Rightarrow> (agent_call \<Rightarrow> agent_outcome) \<Rightarrow> scheduled_run \<Rightarrow> string \<Rightarrow> ident \<Rightarrow> sched_db \<Rightarrow> (py_error + run_result) \<times> outbound list \<times> sched_db" where
  "execute_event_run env agent schedule prompt run_id s =
     run_and_record env agent schedule
       \<lparr>ac_prompt = prompt, ac_run_id = run_id, ac_thread_id = ''event:'' @ sr_id schedule @ '':'' @ run_id,
        ac_user_role = ''event'', ac_source = ''trigger''\<rparr> s"

text \<open>
  A worker's tick: the claimed schedules run concurrently up to a cap and a failing one does not stop the
  others. The executions are taken here in the order of the claim, each with its own environment.
\<close>

fun execute_isolated ::
  "(nat \<Rightarrow> run_env) \<Rightarrow> (agent_call \<Rightarrow> agent_outcome) \<Rightarrow> (nat \<Rightarrow> ident) \<Rightarrow> nat \<Rightarrow> scheduled_run list \<Rightarrow> sched_db \<Rightarrow> outbound list \<times> sched_db" where
  "execute_isolated env agent rid k [] s = ([], s)"
| "execute_isolated env agent rid k (r # rs) s =
    (case execute_scheduled_run (env k) agent (rid k) r s of
       (_, out, s1) \<Rightarrow> (case execute_isolated env agent rid (Suc k) rs s1 of (out', s2) \<Rightarrow> (out @ out', s2)))"

definition scheduled_runs_tick ::
  "instant \<Rightarrow> ident set \<Rightarrow> (nat \<Rightarrow> run_env) \<Rightarrow> (agent_call \<Rightarrow> agent_outcome) \<Rightarrow> (nat \<Rightarrow> ident) \<Rightarrow> sched_db \<Rightarrow> outbound list \<times> sched_db" where
  "scheduled_runs_tick now locked env agent rid s =
    (case claim_due_schedules now locked 25 s of (rs, s1) \<Rightarrow> execute_isolated env agent rid 0 rs s1)"

section \<open>Event dispatch\<close>

record event_settings =
  es_enabled :: bool
  es_chain_max_hops :: int
  es_prompt_max_chars :: nat
  es_max_concurrency :: int
  es_max_concurrency_per_org :: int
  es_max_failures :: int
  es_timeout_seconds :: int

record spawned =
  sp_schedule :: scheduled_run
  sp_prompt :: string
  sp_run_id :: ident
  sp_lease_seconds :: int
  sp_chain_id :: ident
  sp_hop_index :: int

definition hash_secret :: "(bytes \<Rightarrow> bytes) \<Rightarrow> string \<Rightarrow> string" where
  "hash_secret sha secret = hexlify (sha (utf8 secret))"

definition verify_secret :: "(bytes \<Rightarrow> bytes) \<Rightarrow> string \<Rightarrow> string \<Rightarrow> bool" where
  "verify_secret sha provided stored_hash \<longleftrightarrow> hash_secret sha provided = stored_hash"

definition chain_reservation :: "event_settings \<Rightarrow> ident \<Rightarrow> spawned \<Rightarrow> run_result \<Rightarrow> scheduled_run \<Rightarrow> ident \<Rightarrow> reservation" where
  "chain_reservation es worker sp result child run_id =
     \<lparr>rv_schedule_id = sr_id child, rv_org_id = sr_org_id (sp_schedule sp), rv_idempotency_key = ''chain:'' @ rr_run_id result,
      rv_run_id = run_id, rv_owner_id = worker, rv_lease_seconds = sp_lease_seconds sp, rv_global_limit = es_max_concurrency es,
      rv_org_limit = es_max_concurrency_per_org es, rv_chain_id = sp_chain_id sp, rv_hop_index = sp_hop_index sp + 1\<rparr>"

definition chain_payload :: "spawned \<Rightarrow> run_result \<Rightarrow> (string \<times> event_value) list" where
  "chain_payload sp result =
     [(''output_text'', EvStr (rr_output_text result)), (''parent_run_id'', EvStr (rr_run_id result)),
      (''parent_trigger_id'', EvStr (sr_id (sp_schedule sp))), (''chain_id'', EvStr (sp_chain_id sp))]"

text \<open>
  The child of a completed run: either it is spawned, or the reason why not is audited. Spawning a task does
  not raise, so the cleanup of a reserved child is not reached.
\<close>

definition dispatch_chain_child ::
  "event_settings \<Rightarrow> ident \<Rightarrow> (nat \<Rightarrow> instant) \<Rightarrow> (nat \<Rightarrow> ident) \<Rightarrow> string option \<Rightarrow> spawned \<Rightarrow> run_result \<Rightarrow> sched_db \<Rightarrow> spawned option \<times> sched_db" where
  "dispatch_chain_child es worker t ids dump sp result s =
    (let schedule = sp_schedule sp;
         skip = (\<lambda>reason. (None, record_event_trigger_event (t 1) (ids 2) (sr_id schedule) (sr_org_id schedule)
                    ChainDispatchSkipped (rr_run_id result) None 0 reason s))
     in if rr_status result \<noteq> RunCompleted \<or> sr_next_trigger_id schedule = None then (None, s)
        else if es_chain_max_hops es < sp_hop_index sp + 1 then skip ''Chain hop limit reached.''
        else case get_scheduled_run (the (sr_next_trigger_id schedule)) (sr_org_id schedule) s of
               None \<Rightarrow> skip ''Chain target unavailable.''
             | Some child \<Rightarrow>
                 if sr_org_id child \<noteq> sr_org_id schedule \<or> sr_schedule_kind child \<noteq> EventKind \<or> \<not> sr_enabled child
                 then skip ''Chain target unavailable.''
                 else
                   (let prompt = render_event_prompt dump (sr_prompt child) (chain_payload sp result) (es_prompt_max_chars es) in
                    case reserve_event_dispatch_lease (t 0) (ids 1) (chain_reservation es worker sp result child (ids 0)) s of
                      Inl _ \<Rightarrow> skip ''Chain dispatch failed.''
                    | Inr ((run_id, LeaseAccepted), s1) \<Rightarrow>
                        (Some \<lparr>sp_schedule = child, sp_prompt = prompt, sp_run_id = run_id, sp_lease_seconds = sp_lease_seconds sp,
                               sp_chain_id = sp_chain_id sp, sp_hop_index = sp_hop_index sp + 1\<rparr>, s1)
                    | Inr ((_, LeaseSaturated), _) \<Rightarrow> skip ''Chain capacity unavailable.''
                    | Inr ((_, LeaseDuplicate), _) \<Rightarrow> skip ''Chain dispatch already reserved.''))"

text \<open>
  A background run, with the child it spawns and what it sends. Its heartbeat renews the lease in steps of
  its own. An exception of the cleanup ends the task and leaves the lease to the recovery; one that stops the
  cleanup of a lease that could not be started is caught by the handler, which tries once more.
\<close>

definition cleanup_run ::
  "event_settings \<Rightarrow> ident \<Rightarrow> instant \<Rightarrow> (nat \<Rightarrow> ident) \<Rightarrow> spawned \<Rightarrow> sched_db \<Rightarrow> sched_db" where
  "cleanup_run es worker now ids sp s =
    (case fail_event_dispatch now (ids 3) (ids 4) (sr_id (sp_schedule sp)) (sr_org_id (sp_schedule sp)) (sp_run_id sp) worker
        (es_max_failures es) event_run_failed s of
       Inl _ \<Rightarrow> s
     | Inr (_, s') \<Rightarrow> s')"

definition run_event_in_background ::
  "event_settings \<Rightarrow> ident \<Rightarrow> run_env \<Rightarrow> (agent_call \<Rightarrow> agent_outcome) \<Rightarrow> (nat \<Rightarrow> instant) \<Rightarrow> (nat \<Rightarrow> ident) \<Rightarrow> string option \<Rightarrow>
   spawned \<Rightarrow> sched_db \<Rightarrow> spawned option \<times> outbound list \<times> sched_db" where
  "run_event_in_background es worker env agent t ids dump sp s =
    (case start_event_dispatch_lease (t 2) (sp_run_id sp) worker (sp_lease_seconds sp) s of
       (False, s1) \<Rightarrow>
         (case fail_event_dispatch (t 3) (ids 3) (ids 4) (sr_id (sp_schedule sp)) (sr_org_id (sp_schedule sp)) (sp_run_id sp) worker
             (es_max_failures es) event_run_failed s1 of
            Inl _ \<Rightarrow> (None, [], cleanup_run es worker (t 4) (\<lambda>k. ids (k + 3)) sp s1)
          | Inr (_, s2) \<Rightarrow> (None, [], s2))
     | (True, s1) \<Rightarrow>
         (case execute_event_run env agent (sp_schedule sp) (sp_prompt sp) (sp_run_id sp) s1 of
            (Inl _, out, s2) \<Rightarrow> (None, out, cleanup_run es worker (t 3) ids sp s2)
          | (Inr result, out, s2) \<Rightarrow>
              (case finish_event_dispatch_lease (t 4) (ids 5) (sr_id (sp_schedule sp)) (sr_org_id (sp_schedule sp)) (sp_run_id sp) worker result s2 of
                 Inl _ \<Rightarrow> (None, out, cleanup_run es worker (t 5) ids sp s2)
               | Inr (False, s3) \<Rightarrow> (None, out, s3)
               | Inr (True, s3) \<Rightarrow> (case dispatch_chain_child es worker t ids dump sp result s3 of (child, s4) \<Rightarrow> (child, out, s4)))))"

section \<open>The webhook\<close>

text \<open>The request after the framework parsed it: the body is not JSON, JSON but no object, or an object.\<close>

datatype event_body = BodyInvalid | BodyNotObject | BodyObject "(string \<times> event_value) list"

record event_request =
  rq_token :: string
  rq_secret :: "string option"
  rq_idempotency_key :: "string option"
  rq_length :: nat
  rq_body :: event_body
  rq_dump :: "string option"
  rq_ip_allowed :: bool
  rq_token_allowed :: bool

datatype http_error =
    TriggersDisabled | RateLimited | TriggerNotFound | InvalidSecret | PayloadTooLarge | NotJson | NotAnObject
  | KeyTooLong | PromptEmpty | TooManyRuns | ServerError py_error

datatype dispatch_response = Http http_error | RunAccepted ident | RunDuplicate ident

definition request_key :: "event_request \<Rightarrow> (string \<times> event_value) list \<Rightarrow> string option" where
  "request_key rq body =
    (case rq_idempotency_key rq of
       Some k \<Rightarrow> if k \<noteq> [] then Some k
                  else (case map_of body ''idempotency_key'' of Some (EvStr c) \<Rightarrow> if c \<noteq> [] then Some c else None | _ \<Rightarrow> None)
     | None \<Rightarrow> (case map_of body ''idempotency_key'' of Some (EvStr c) \<Rightarrow> if c \<noteq> [] then Some c else None | _ \<Rightarrow> None))"

definition authenticate :: "(bytes \<Rightarrow> bytes) \<Rightarrow> event_request \<Rightarrow> string option \<Rightarrow> bool" where
  "authenticate sha rq secret_hash =
    (case (secret_hash, rq_secret rq) of
       (Some h, Some p) \<Rightarrow> h \<noteq> [] \<and> p \<noteq> [] \<and> verify_secret sha p h
     | _ \<Rightarrow> False)"

definition start_dispatch ::
  "event_settings \<Rightarrow> ident \<Rightarrow> (nat \<Rightarrow> instant) \<Rightarrow> (nat \<Rightarrow> ident) \<Rightarrow> scheduled_run \<Rightarrow> string \<Rightarrow> string option \<Rightarrow> sched_db \<Rightarrow>
   dispatch_response \<times> spawned option \<times> sched_db" where
  "start_dispatch es worker t ids schedule prompt key s =
    (let run_id = ids 0; lease_seconds = es_timeout_seconds es + 60;
         rv = \<lparr>rv_schedule_id = sr_id schedule, rv_org_id = sr_org_id schedule,
               rv_idempotency_key = (case key of Some k \<Rightarrow> k | None \<Rightarrow> ''run:'' @ run_id), rv_run_id = run_id, rv_owner_id = worker,
               rv_lease_seconds = lease_seconds, rv_global_limit = es_max_concurrency es, rv_org_limit = es_max_concurrency_per_org es,
               rv_chain_id = run_id, rv_hop_index = 0\<rparr>
     in case reserve_event_dispatch_lease (t 1) (ids 1) rv s of
          Inl e \<Rightarrow> (Http (ServerError e), None, s)
        | Inr ((_, LeaseSaturated), _) \<Rightarrow> (Http TooManyRuns, None, s)
        | Inr ((run, LeaseDuplicate), _) \<Rightarrow>
            (RunDuplicate run, None,
             record_event_trigger_event (t 2) (ids 2) (sr_id schedule) (sr_org_id schedule) DispatchDuplicate run None 0 [] s)
        | Inr ((run, LeaseAccepted), s1) \<Rightarrow>
            (RunAccepted run, Some \<lparr>sp_schedule = schedule, sp_prompt = prompt, sp_run_id = run, sp_lease_seconds = lease_seconds,
               sp_chain_id = run, sp_hop_index = 0\<rparr>, s1))"

definition dispatch_event ::
  "(bytes \<Rightarrow> bytes) \<Rightarrow> event_settings \<Rightarrow> ident \<Rightarrow> (nat \<Rightarrow> instant) \<Rightarrow> (nat \<Rightarrow> ident) \<Rightarrow> event_request \<Rightarrow> sched_db \<Rightarrow>
   dispatch_response \<times> spawned option \<times> sched_db" where
  "dispatch_event sha es worker t ids rq s =
    (if \<not> es_enabled es then (Http TriggersDisabled, None, s)
     else if \<not> rq_ip_allowed rq \<or> \<not> rq_token_allowed rq then (Http RateLimited, None, s)
     else case get_event_trigger_for_dispatch (rq_token rq) s of
            None \<Rightarrow> (Http TriggerNotFound, None, s)
          | Some (schedule, secret_hash) \<Rightarrow>
              if \<not> authenticate sha rq secret_hash
              then (Http InvalidSecret, None,
                record_event_trigger_event (t 0) (ids 2) (sr_id schedule) (sr_org_id schedule) SecretRejected [] None 0 [] s)
              else if \<not> sr_enabled schedule then (Http TriggerNotFound, None, s)
              else if 64 * 1024 < rq_length rq then (Http PayloadTooLarge, None, s)
              else case rq_body rq of
                     BodyInvalid \<Rightarrow> (Http NotJson, None, s)
                   | BodyNotObject \<Rightarrow> (Http NotAnObject, None, s)
                   | BodyObject body \<Rightarrow>
                       (let key = request_key rq body;
                            rendered = render_event_prompt (rq_dump rq) (sr_prompt schedule) body (es_prompt_max_chars es)
                        in if (\<exists>k \<in> set_option key. 256 < length k) then (Http KeyTooLong, None, s)
                           else if py_strip rendered = [] then (Http PromptEmpty, None, s)
                           else case Option.bind key (\<lambda>k. get_existing_dispatch (sr_id schedule) k s) of
                                  Some existing \<Rightarrow>
                                    (RunDuplicate existing, None,
                                     record_event_trigger_event (t 0) (ids 2) (sr_id schedule) (sr_org_id schedule) DispatchDuplicate existing None 0 [] s)
                                | None \<Rightarrow> start_dispatch es worker t ids schedule rendered key s))"

section \<open>Handlers as histories of operations\<close>

lemma record_result_frame:
  assumes "record_scheduled_run_result now rid i org run_id status out cost error s = Inr (r, s')"
  shows "insert_result r s = Inr s'" "rr_run_id r = run_id" "rr_schedule_id r = i" "rr_status r = status" "rr_output_text r = out" "rr_cost_usdc r = cost"
    "rr_error r = error" "rr_org_id r = org"
  using assms by (auto simp: record_scheduled_run_result_def Let_def bindE_eq_Inr_iff)

definition same_dispatches :: "sched_db \<Rightarrow> sched_db \<Rightarrow> bool" where
  "same_dispatches s s' \<longleftrightarrow> sd_keys s' = sd_keys s \<and> sd_leases s' = sd_leases s \<and> sd_events s' = sd_events s"

lemma same_dispatches_trans: "same_dispatches s s' \<Longrightarrow> same_dispatches s' s'' \<Longrightarrow> same_dispatches s s''"
  by (simp add: same_dispatches_def)

lemma publish_ops:
  assumes "publish_x_broadcast env now schedule stored s = (out, s')"
  shows "sched_op\<^sup>*\<^sup>* s s' \<and> same_dispatches s s'"
proof -
  obtain b s1 where r: "reserve_x_broadcast now (rr_run_id stored) (sr_id schedule) (sr_org_id schedule) s = (b, s1)" by fastforce
  have one: "sched_op s s1" using sched_op.reserve_x [of s now "rr_run_id stored" "sr_id schedule" "sr_org_id schedule"] r by simp
  have same: "same_dispatches s s1" using r by (auto simp: reserve_x_broadcast_def same_dispatches_def split: if_splits)
  consider "s' = s" | "s' = s1" | tweet where "s' = record_x_broadcast_tweet (rr_run_id stored) tweet s1"
    using assms r unfolding publish_x_broadcast_def by (auto split: if_splits option.splits bool.splits)
  then show ?thesis
  proof cases
    case (3 tweet)
    have "sched_op s1 s'" unfolding 3 by (rule sched_op.tweet)
    then show ?thesis using one same 3 by (auto simp: same_dispatches_def record_x_broadcast_tweet_def intro: rtranclp.rtrancl_into_rtrancl)
  qed (use one same in \<open>auto simp: same_dispatches_def\<close>)
qed

lemma deliver_ops: "deliver env now schedule stored s = (out, s') \<Longrightarrow> sched_op\<^sup>*\<^sup>* s s' \<and> same_dispatches s s'"
  by (auto simp: deliver_def same_dispatches_def split: if_splits option.splits dest: publish_ops)

text \<open>A run records a result and marks its schedule; keys, leases and audit are not touched.\<close>

definition quiet :: "sched_db \<Rightarrow> sched_db \<Rightarrow> bool" where
  "quiet s s' \<longleftrightarrow> sched_op\<^sup>*\<^sup>* s s' \<and> same_dispatches s s'"

lemma quiet_refl [simp]: "quiet s s"
  by (simp add: quiet_def same_dispatches_def)

lemma quiet_trans [trans]: "quiet s s' \<Longrightarrow> quiet s' s'' \<Longrightarrow> quiet s s''"
  by (auto simp: quiet_def same_dispatches_def)

lemma quiet_step: "sched_op s s' \<Longrightarrow> same_dispatches s s' \<Longrightarrow> quiet s s'"
  by (auto simp: quiet_def)

lemma update_run_same: "update_run i p f s = Inr (x, s') \<Longrightarrow> same_dispatches s s'"
  by (simp add: same_dispatches_def update_run_frame)

lemma marks_quiet:
  "mark_scheduled_run_skipped now i s = Inr (u, s') \<Longrightarrow> quiet s s'"
  "mark_scheduled_run_succeeded now i s = Inr (u, s') \<Longrightarrow> quiet s s'"
  "requeue_scheduled_run_after_capacity now i s = Inr (u, s') \<Longrightarrow> quiet s s'"
  "mark_scheduled_run_failed now i limit s = Inr (x, s') \<Longrightarrow> quiet s s'"
proof -
  show "quiet s s'" if h: "mark_scheduled_run_skipped now i s = Inr (u, s')"
    by (rule quiet_step [OF sched_op.skipped [OF h]]) (use h in \<open>auto simp: mark_scheduled_run_skipped_def bindE_eq_Inr_iff dest: update_run_same\<close>)
  show "quiet s s'" if h: "mark_scheduled_run_succeeded now i s = Inr (u, s')"
    by (rule quiet_step [OF sched_op.succeeded [OF h]]) (use h in \<open>auto simp: mark_scheduled_run_succeeded_def bindE_eq_Inr_iff dest: update_run_same\<close>)
  show "quiet s s'" if h: "requeue_scheduled_run_after_capacity now i s = Inr (u, s')"
    by (rule quiet_step [OF sched_op.requeue [OF h]]) (use h in \<open>auto simp: requeue_scheduled_run_after_capacity_def bindE_eq_Inr_iff dest: update_run_same\<close>)
  show "quiet s s'" if h: "mark_scheduled_run_failed now i limit s = Inr (x, s')"
    by (rule quiet_step [OF sched_op.failed [OF h]]) (use h in \<open>auto simp: mark_scheduled_run_failed_def dest: update_run_same\<close>)
qed

lemma record_result_quiet:
  assumes "record_scheduled_run_result now rid i org run_id status out cost error s = Inr (r, s')"
  shows "quiet s s'"
proof (rule quiet_step)
  show "sched_op s s'" using assms by (rule sched_op.result)
  show "same_dispatches s s'" using insert_result_frame [OF record_result_frame(1) [OF assms]] by (simp add: same_dispatches_def)
qed

lemma record_and_mark_quiet:
  assumes "record_and_mark env schedule run_id status out cost error mark after s = (r, out', s')"
    and mark: "\<And>s u s'. mark s = Inr (u, s') \<Longrightarrow> quiet s s'" and after: "\<And>st s ob s'. after st s = (ob, s') \<Longrightarrow> quiet s s'"
  shows "quiet s s'"
proof (cases "record_scheduled_run_result (re_clock env 1) (re_ids env 0) (sr_id schedule) (sr_org_id schedule) run_id status out cost error s")
  case (Inr x)
  obtain stored s1 where x: "x = (stored, s1)" by fastforce
  have rec: "quiet s s1" using record_result_quiet Inr x by blast
  show ?thesis
  proof (cases "mark s1")
    case m: (Inr y)
    obtain u s2 o3 s3 where "y = (u, s2)" "after stored s2 = (o3, s3)" by (metis prod.exhaust)
    with assms(1) Inr x m have "s' = s3" "quiet s1 s2" "quiet s2 s3" using mark after by (auto simp: record_and_mark_def)
    with rec show ?thesis by (metis quiet_trans)
  qed (use assms(1) Inr x rec in \<open>auto simp: record_and_mark_def\<close>)
qed (use assms(1) in \<open>auto simp: record_and_mark_def\<close>)

lemma run_and_record_quiet:
  assumes "run_and_record env agent schedule ac s = (r, out, s')"
  shows "quiet s s'"
proof -
  have del: "\<And>st s o' s'. deliver env (re_clock env 3) schedule st s = (o', s') \<Longrightarrow> quiet s s'" using deliver_ops by (simp add: quiet_def)
  let ?credit = "verify_credit (re_settings env) (re_clock env 0) (sr_org_id schedule) (min_required env) None (re_ledger env)"
  note run = assms [unfolded run_and_record_def Let_def]
  show ?thesis
  proof (cases ?credit)
    case (Refused why)
    then show ?thesis by (intro record_and_mark_quiet [OF run [unfolded Refused verify_result.case]]) (auto intro: marks_quiet)
  next
    case Verified
    note run = run [unfolded Verified verify_result.case]
    show ?thesis
    proof (cases "agent ac")
      case AgentCapacityError
      then show ?thesis by (intro record_and_mark_quiet [OF run [unfolded AgentCapacityError agent_outcome.case]]) (auto intro: marks_quiet)
    next
      case (AgentResult status out' error cost)
      show ?thesis
        by (rule record_and_mark_quiet [OF run [unfolded AgentResult agent_outcome.case]])
          (auto simp: bindE_eq_Inr_iff split: if_splits intro: marks_quiet del)
    qed (use run in simp)
  qed
qed

definition hops_ok :: "int \<Rightarrow> sched_db \<Rightarrow> bool" where
  "hops_ok n s \<longleftrightarrow> (\<forall>k \<in> set (sd_keys s). dk_hop_index k \<le> n)"

text \<open>A handler is a history of operations that keeps the hop limit.\<close>

definition within_hops :: "int \<Rightarrow> sched_db \<Rightarrow> sched_db \<Rightarrow> bool" where
  "within_hops n s s' \<longleftrightarrow> sched_op\<^sup>*\<^sup>* s s' \<and> (hops_ok n s \<longrightarrow> hops_ok n s')"

lemma within_hops_trans: "within_hops n s s' \<Longrightarrow> within_hops n s' s'' \<Longrightarrow> within_hops n s s''"
  by (auto simp: within_hops_def)

lemma within_hops_keys: "sched_op\<^sup>*\<^sup>* s s' \<Longrightarrow> sd_keys s' = sd_keys s \<Longrightarrow> within_hops n s s'"
  by (simp add: within_hops_def hops_ok_def)

lemma quiet_within: "quiet s s' \<Longrightarrow> within_hops n s s'"
  by (simp add: quiet_def same_dispatches_def within_hops_keys)

lemma record_event_frame:
  "sd_keys (record_event_trigger_event now eid i org ty run st c e s) = sd_keys s"
  "sd_leases (record_event_trigger_event now eid i org ty run st c e s) = sd_leases s"
  "sd_runs (record_event_trigger_event now eid i org ty run st c e s) = sd_runs s"
  "sd_results (record_event_trigger_event now eid i org ty run st c e s) = sd_results s"
  by (auto simp: record_event_trigger_event_def insert_event_row_def)

lemma record_event_within: "ty \<noteq> RunSettled \<Longrightarrow> within_hops n s (record_event_trigger_event now eid i org ty run st c e s)"
  by (rule within_hops_keys) (auto simp: record_event_frame intro: sched_op.audit)

lemma reserve_within:
  assumes "reserve_event_dispatch_lease now eid rv s = Inr (x, s')" "run_unused (rv_run_id rv) s" "rv_hop_index rv \<le> n"
  shows "within_hops n s s'"
proof -
  obtain run outcome where x: "x = (run, outcome)" by fastforce
  have "hops_ok n s \<longrightarrow> hops_ok n s'"
    using assms(1) [unfolded x]
  proof (cases rule: reserve_cases)
    case (accepted s1 s2)
    then show ?thesis using assms(3) by (auto simp: reserve_accepted_state [OF accepted(6-8)] hops_ok_def reserved_key_def)
  qed simp_all
  with assms(1,2) show ?thesis by (auto simp: within_hops_def intro: sched_op.reserve)
qed

lemma chain_child_cases:
  assumes "dispatch_chain_child es worker t ids dump sp result s = (child, s')"
  obtains (none) "child = None" "s' = s"
    | (skipped) reason where "child = None"
        "s' = record_event_trigger_event (t 1) (ids 2) (sr_id (sp_schedule sp)) (sr_org_id (sp_schedule sp)) ChainDispatchSkipped (rr_run_id result) None 0 reason s"
    | (spawned) target c run where "child = Some c" "sp_hop_index sp + 1 \<le> es_chain_max_hops es" "sp_hop_index c = sp_hop_index sp + 1"
        "sp_chain_id c = sp_chain_id sp" "sp_schedule c = target" "sr_org_id target = sr_org_id (sp_schedule sp)" "target \<in> set (sd_runs s)"
        "sr_enabled target" "sr_schedule_kind target = EventKind"
        "reserve_event_dispatch_lease (t 0) (ids 1) (chain_reservation es worker sp result target (ids 0)) s = Inr ((run, LeaseAccepted), s')"
        "sp_run_id c = run"
proof -
  let ?skip = "\<lambda>reason. (None, record_event_trigger_event (t 1) (ids 2) (sr_id (sp_schedule sp)) (sr_org_id (sp_schedule sp)) ChainDispatchSkipped
    (rr_run_id result) None 0 reason s)"
  have skip: thesis if "(child, s') = ?skip reason" for reason using that skipped by simp
  let ?next = "get_scheduled_run (the (sr_next_trigger_id (sp_schedule sp))) (sr_org_id (sp_schedule sp)) s"
  note def = assms [unfolded dispatch_chain_child_def Let_def]
  consider "rr_status result \<noteq> RunCompleted \<or> sr_next_trigger_id (sp_schedule sp) = None"
    | "\<not> (rr_status result \<noteq> RunCompleted \<or> sr_next_trigger_id (sp_schedule sp) = None)" "es_chain_max_hops es < sp_hop_index sp + 1 \<or> ?next = None"
    | target where "\<not> (rr_status result \<noteq> RunCompleted \<or> sr_next_trigger_id (sp_schedule sp) = None)" "\<not> es_chain_max_hops es < sp_hop_index sp + 1"
        "?next = Some target" by fastforce
  then show thesis
  proof cases
    case 1
    then show thesis using def none by simp
  next
    case 2
    then show thesis using def skip by (auto split: if_splits)
  next
    case (3 target)
    then have target: "target \<in> set (sd_runs s)" "sr_org_id target = sr_org_id (sp_schedule sp)"
      using find_SomeD unfolding get_scheduled_run_def by fastforce+
    show thesis
    proof (cases "sr_schedule_kind target = EventKind \<and> sr_enabled target")
      case False
      then show thesis using def skip 3 by auto
    next
      case True
      then show thesis
        using def 3 target skip spawned [of _ target]
        by (auto split: sum.splits prod.splits lease_outcome.splits)
    qed
  qed
qed

lemma chain_child_within:
  assumes "dispatch_chain_child es worker t ids dump sp result s = (child, s')" "run_unused (ids 0) s"
  shows "within_hops (es_chain_max_hops es) s s'"
  using assms(1)
proof (cases rule: chain_child_cases)
  case (spawned target c run)
  show ?thesis by (rule reserve_within [OF spawned(10)]) (use assms(2) spawned(2) in \<open>simp_all add: chain_reservation_def\<close>)
next
  case (skipped reason)
  then show ?thesis by (simp add: record_event_within)
qed (simp add: within_hops_def)

lemma cleanup_within: "within_hops n s (cleanup_run es worker now ids sp s)"
proof (cases "fail_event_dispatch now (ids 3) (ids 4) (sr_id (sp_schedule sp)) (sr_org_id (sp_schedule sp)) (sp_run_id sp) worker
    (es_max_failures es) event_run_failed s")
  case (Inr x)
  obtain r s' where x: "x = (r, s')" by fastforce
  have "sd_keys s' = sd_keys s"
    using Inr [unfolded x]
  proof (cases rule: fail_cases)
    case (settled l stored s1)
    from settled(7) ensure_result_frame(1) [OF settled(6)] show ?thesis
      by (cases rule: insert_event_row_cases) (simp add: update_leases_def)
  qed simp
  then show ?thesis using Inr x by (auto simp: cleanup_run_def intro!: within_hops_keys intro: sched_op.fail)
qed (simp add: cleanup_run_def within_hops_def)

lemma lease_update_frame:
  "sd_keys (snd (update_leases p f s)) = sd_keys s" "sd_events (snd (update_leases p f s)) = sd_events s"
  by (simp_all add: update_leases_def)

lemma start_frame:
  assumes "start_event_dispatch_lease now run_id owner n s = (b, s')"
  shows "sched_op s s'" "sd_keys s' = sd_keys s" "sd_events s' = sd_events s"
proof -
  have s': "s' = snd (start_event_dispatch_lease now run_id owner n s)" using assms by simp
  show "sched_op s s'" unfolding s' by (rule sched_op.start)
  show "sd_keys s' = sd_keys s" "sd_events s' = sd_events s" by (simp_all add: s' start_event_dispatch_lease_def lease_update_frame)
qed

lemma finish_frame:
  assumes "finish_event_dispatch_lease now eid i org run_id owner result s = Inr (b, s')"
  shows "sched_op s s'" "sd_keys s' = sd_keys s" "run_unused j s \<Longrightarrow> j \<noteq> run_id \<Longrightarrow> run_unused j s'"
proof -
  show "sched_op s s'" using assms by (rule sched_op.finish)
  have "sd_keys s' = sd_keys s \<and> (\<forall>e \<in> set (sd_events s'). e \<in> set (sd_events s) \<or> te_run_id e = run_id)"
    using assms
  proof (cases rule: finish_cases)
    case (closed l)
    from closed(6) show ?thesis by (cases rule: insert_event_row_cases) (auto simp: lease_update_frame settled_event_def)
  qed simp
  then show "sd_keys s' = sd_keys s" "run_unused j s \<Longrightarrow> j \<noteq> run_id \<Longrightarrow> run_unused j s'" by (auto simp: run_unused_def)
qed

lemma fail_is_cleanup:
  "fail_event_dispatch now (ids 3) (ids 4) (sr_id (sp_schedule sp)) (sr_org_id (sp_schedule sp)) (sp_run_id sp) worker (es_max_failures es)
     event_run_failed s = Inr (b, s') \<Longrightarrow> s' = cleanup_run es worker now ids sp s"
  by (simp add: cleanup_run_def)

lemma background_within:
  assumes run: "run_event_in_background es worker env agent t ids dump sp s = (child, out, s')"
    and fresh: "run_unused (ids 0) s" "ids 0 \<noteq> sp_run_id sp"
  shows "within_hops (es_chain_max_hops es) s s'"
proof -
  let ?n = "es_chain_max_hops es"
  obtain b s1 where start: "start_event_dispatch_lease (t 2) (sp_run_id sp) worker (sp_lease_seconds sp) s = (b, s1)" by fastforce
  note sf = start_frame [OF start]
  have 1: "within_hops ?n s s1" using sf by (auto intro: within_hops_keys)
  obtain r out2 s2 where ex: "execute_event_run env agent (sp_schedule sp) (sp_prompt sp) (sp_run_id sp) s1 = (r, out2, s2)" by (metis prod.exhaust)
  then have q: "quiet s1 s2" unfolding execute_event_run_def by (rule run_and_record_quiet)
  have 2: "within_hops ?n s s2" using 1 quiet_within [OF q] by (rule within_hops_trans)
  have unused: "run_unused (ids 0) s2" using fresh(1) sf(3) q by (simp add: run_unused_def quiet_def same_dispatches_def)
  show ?thesis
  proof (cases "\<exists>result s3. b \<and> r = Inr result \<and>
      finish_event_dispatch_lease (t 4) (ids 5) (sr_id (sp_schedule sp)) (sr_org_id (sp_schedule sp)) (sp_run_id sp) worker result s2 = Inr (True, s3)")
    case True
    then obtain result s3 where ok: "b" "r = Inr result"
      "finish_event_dispatch_lease (t 4) (ids 5) (sr_id (sp_schedule sp)) (sr_org_id (sp_schedule sp)) (sp_run_id sp) worker result s2 = Inr (True, s3)" by blast
    note ff = finish_frame [OF ok(3)]
    obtain c s4 where chain: "dispatch_chain_child es worker t ids dump sp result s3 = (c, s4)" by fastforce
    have "within_hops ?n s2 s3" using ff by (auto intro: within_hops_keys)
    moreover have "within_hops ?n s3 s4" using chain_child_within [OF chain] ff(3) [OF unused fresh(2)] by simp
    moreover have "s' = s4" using run start ex ok chain by (simp add: run_event_in_background_def)
    ultimately show ?thesis using 2 within_hops_trans by blast
  next
    case False
    then consider now ids' where "s' = cleanup_run es worker now ids' sp s1" | now where "s' = cleanup_run es worker now ids sp s2"
      | result b' where "finish_event_dispatch_lease (t 4) (ids 5) (sr_id (sp_schedule sp)) (sr_org_id (sp_schedule sp)) (sp_run_id sp) worker result s2 = Inr (b', s')"
      using run start ex fail_is_cleanup unfolding run_event_in_background_def by (fastforce split: bool.splits sum.splits prod.splits)
    then show ?thesis
    proof cases
      case 3
      note ff = finish_frame [OF 3]
      have "within_hops ?n s2 s'" using ff by (auto intro: within_hops_keys)
      with 2 show ?thesis by (rule within_hops_trans)
    qed (use 1 2 cleanup_within within_hops_trans in blast)+
  qed
qed

lemma start_dispatch_cases:
  assumes "start_dispatch es worker t ids schedule prompt key s = (resp, spawn, s')"
  obtains (refused) "spawn = None" "s' = s"
    | (duplicate) run where "spawn = None"
        "s' = record_event_trigger_event (t 2) (ids 2) (sr_id schedule) (sr_org_id schedule) DispatchDuplicate run None 0 [] s"
    | (accepted) sp rv run where "spawn = Some sp" "resp = RunAccepted run" "sp_schedule sp = schedule" "sp_run_id sp = run" "sp_chain_id sp = run"
        "sp_hop_index sp = 0" "rv_run_id rv = ids 0" "rv_hop_index rv = 0" "rv_schedule_id rv = sr_id schedule"
        "reserve_event_dispatch_lease (t 1) (ids 1) rv s = Inr ((run, LeaseAccepted), s')" "rv_chain_id rv = ids 0"
proof -
  let ?rv = "\<lparr>rv_schedule_id = sr_id schedule, rv_org_id = sr_org_id schedule,
    rv_idempotency_key = (case key of Some k \<Rightarrow> k | None \<Rightarrow> ''run:'' @ ids 0), rv_run_id = ids 0, rv_owner_id = worker,
    rv_lease_seconds = es_timeout_seconds es + 60, rv_global_limit = es_max_concurrency es, rv_org_limit = es_max_concurrency_per_org es,
    rv_chain_id = ids 0, rv_hop_index = 0\<rparr>"
  note def = assms [unfolded start_dispatch_def Let_def]
  show thesis
  proof (cases "reserve_event_dispatch_lease (t 1) (ids 1) ?rv s")
    case (Inl e)
    then show thesis using def refused by simp
  next
    case (Inr x)
    obtain run outcome s1 where x: "x = ((run, outcome), s1)" by (metis prod.exhaust)
    show thesis
    proof (cases outcome)
      case LeaseAccepted
      let ?sp = "\<lparr>sp_schedule = schedule, sp_prompt = prompt, sp_run_id = run, sp_lease_seconds = es_timeout_seconds es + 60,
          sp_chain_id = run, sp_hop_index = 0\<rparr>"
      from LeaseAccepted def Inr x have "spawn = Some ?sp" "resp = RunAccepted run" "s' = s1" by simp_all
      with Inr x LeaseAccepted show thesis by (intro accepted [of ?sp run ?rv]) simp_all
    qed (use def Inr x refused duplicate in auto)
  qed
qed

lemma dispatch_event_cases:
  assumes "dispatch_event sha es worker t ids rq s = (resp, spawn, s')"
  obtains (refused) "spawn = None" "s' = s"
    | (audited) now eid i org ty run where "ty \<noteq> RunSettled" "spawn = None"
        "s' = record_event_trigger_event now eid i org ty run None 0 [] s"
    | (started) schedule h prompt key where "get_event_trigger_for_dispatch (rq_token rq) s = Some (schedule, h)" "authenticate sha rq h"
        "sr_enabled schedule" "es_enabled es" "start_dispatch es worker t ids schedule prompt key s = (resp, spawn, s')"
proof (cases "get_event_trigger_for_dispatch (rq_token rq) s")
  case None
  then show thesis using assms refused by (simp add: dispatch_event_def split: if_splits)
next
  case (Some x)
  obtain schedule h where x: "x = (schedule, h)" by fastforce
  note def = assms [unfolded dispatch_event_def Some x option.case prod.case]
  show thesis
  proof (cases "es_enabled es \<and> rq_ip_allowed rq \<and> rq_token_allowed rq \<and> authenticate sha rq h \<and> sr_enabled schedule \<and> \<not> 64 * 1024 < rq_length rq")
    case False
    then show thesis using def refused
        audited [of SecretRejected "t 0" "ids 2" "sr_id schedule" "sr_org_id schedule" "[]"] by (auto split: if_splits)
  next
    case True
    show thesis
    proof (cases "rq_body rq")
      case (BodyObject body)
      let ?key = "request_key rq body"
      let ?p = "render_event_prompt (rq_dump rq) (sr_prompt schedule) body (es_prompt_max_chars es)"
      show thesis
      proof (cases "(\<exists>k \<in> set_option ?key. 256 < length k) \<or> py_strip ?p = []")
        case True
        then show thesis using def \<open>es_enabled es \<and> _\<close> BodyObject refused by (auto simp: Let_def split: if_splits)
      next
        case False
        show thesis
        proof (cases "Option.bind ?key (\<lambda>k. get_existing_dispatch (sr_id schedule) k s)")
          case None
          with def True False BodyObject have "start_dispatch es worker t ids schedule ?p ?key s = (resp, spawn, s')" by (simp add: Let_def)
          then show thesis using started Some x True by blast
        next
          case (Some e)
          then show thesis using def True False BodyObject
              audited [of DispatchDuplicate "t 0" "ids 2" "sr_id schedule" "sr_org_id schedule" e] by (auto simp: Let_def)
        qed
      qed
    qed (use def True refused in auto)
  qed
qed

lemma dispatch_event_within:
  assumes "dispatch_event sha es worker t ids rq s = (resp, spawn, s')" "run_unused (ids 0) s" "0 \<le> n"
  shows "within_hops n s s'"
  using assms(1)
proof (cases rule: dispatch_event_cases)
  case (started schedule h prompt key)
  from started(5) show ?thesis
  proof (cases rule: start_dispatch_cases)
    case (accepted sp rv run)
    show ?thesis by (rule reserve_within [OF accepted(10)]) (use assms(2,3) accepted(7,8) in simp_all)
  qed (simp_all add: within_hops_def record_event_within [unfolded within_hops_def])
next
  case (audited now eid i org ty run)
  then show ?thesis by (simp add: record_event_within)
qed (simp add: within_hops_def)

lemma execute_isolated_quiet: "execute_isolated env agent rid k rs s = (out, s') \<Longrightarrow> quiet s s'"
proof (induction rs arbitrary: k s out s')
  case (Cons r rs)
  obtain x o1 s1 where 1: "execute_scheduled_run (env k) agent (rid k) r s = (x, o1, s1)" by (metis prod.exhaust)
  obtain o2 s2 where 2: "execute_isolated env agent rid (Suc k) rs s1 = (o2, s2)" by fastforce
  have "quiet s s1" using 1 unfolding execute_scheduled_run_def by (rule run_and_record_quiet)
  moreover have "quiet s1 s'" using Cons.IH [OF 2] Cons.prems 1 2 by simp
  ultimately show ?case by (rule quiet_trans)
qed simp

lemma tick_within: "scheduled_runs_tick now locked env agent rid s = (out, s') \<Longrightarrow> within_hops n s s'"
proof -
  assume tick: "scheduled_runs_tick now locked env agent rid s = (out, s')"
  obtain rs s1 where c: "claim_due_schedules now locked 25 s = (rs, s1)" by fastforce
  have "sched_op s s1" using sched_op.claim [of s now locked 25] c by simp
  moreover have "sd_keys s1 = sd_keys s" using c by (auto simp: claim_due_schedules_def Let_def)
  ultimately have "within_hops n s s1" by (auto intro: within_hops_keys)
  moreover have "quiet s1 s'" using tick c by (simp add: scheduled_runs_tick_def execute_isolated_quiet)
  ultimately show "within_hops n s s'" using quiet_within within_hops_trans by blast
qed

text \<open>
  The running service: webhook calls, background runs, worker ticks, and any other operation on the tables
  that reserves no dispatch (managing triggers, heartbeats, recovery, deletion, retention).
\<close>

inductive service_step :: "(bytes \<Rightarrow> bytes) \<Rightarrow> event_settings \<Rightarrow> sched_db \<Rightarrow> sched_db \<Rightarrow> bool" for sha es where
  webhook: "dispatch_event sha es worker t ids rq s = (resp, spawn, s') \<Longrightarrow> run_unused (ids 0) s \<Longrightarrow> service_step sha es s s'"
| background: "run_event_in_background es worker env agent t ids dump sp s = (child, out, s') \<Longrightarrow> run_unused (ids 0) s \<Longrightarrow>
    ids 0 \<noteq> sp_run_id sp \<Longrightarrow> service_step sha es s s'"
| tick: "scheduled_runs_tick now locked env agent rid s = (out, s') \<Longrightarrow> service_step sha es s s'"
| other: "sched_step s s' \<Longrightarrow> set (sd_keys s') \<subseteq> set (sd_keys s) \<Longrightarrow> service_step sha es s s'"

lemma sched_ops_steps: "sched_op\<^sup>*\<^sup>* s s' \<Longrightarrow> sched_step\<^sup>*\<^sup>* s s'"
  by (induction rule: rtranclp_induct) (auto intro: sched_step.op rtranclp.rtrancl_into_rtrancl)

lemma service_step_keeps:
  assumes "service_step sha es s s'" "0 \<le> es_chain_max_hops es"
  shows "sched_step\<^sup>*\<^sup>* s s' \<and> (hops_ok (es_chain_max_hops es) s \<longrightarrow> hops_ok (es_chain_max_hops es) s')"
  using assms
proof (induction rule: service_step.induct)
  case (webhook worker t ids rq s resp spawn s')
  from dispatch_event_within [OF webhook(1,2,3)] show ?case by (simp add: within_hops_def sched_ops_steps)
next
  case (background worker env agent t ids dump sp s child out s')
  from background_within [OF background(1-3)] show ?case by (simp add: within_hops_def sched_ops_steps)
next
  case (tick now locked env agent rid s out s')
  from tick_within [OF tick(1), of "es_chain_max_hops es"] show ?case by (simp add: within_hops_def sched_ops_steps)
next
  case (other s s')
  then show ?case by (auto simp: hops_ok_def)
qed

lemma service_steps_keep:
  assumes "(service_step sha es)\<^sup>*\<^sup>* empty_sched s" "0 \<le> es_chain_max_hops es"
  shows "sched_ok s \<and> hops_ok (es_chain_max_hops es) s"
  using assms(1)
proof (induction rule: rtranclp_induct)
  case base
  show ?case using empty_sched_ok by (simp add: hops_ok_def empty_sched_def)
next
  case (step t u)
  with service_step_keeps [OF step(2) assms(2)] show ?case using table.steps_keep by blast
qed

section \<open>Publication slots are kept\<close>

lemma insert_event_broadcasts: "insert_event_row e s = Inr s' \<Longrightarrow> sd_broadcasts s' = sd_broadcasts s"
  by (erule insert_event_row_cases) simp

lemma update_leases_broadcasts [simp]: "sd_broadcasts (snd (update_leases p f s)) = sd_broadcasts s"
  by (simp add: update_leases_def)

lemma recover_leases_broadcasts:
  "recover_leases now rid eid limit k ls s = Inr (n, s') \<Longrightarrow> sd_broadcasts s' = sd_broadcasts s"
proof (induction ls arbitrary: k s)
  case (Cons l ls)
  obtain s1 where s1: "recover_lease now (rid k) (eid k) limit l s = Inr s1" "recover_leases now rid eid limit (Suc k) ls s1 = Inr (n, s')"
    using Cons.prems by (auto simp: bindE_eq_Inr_iff)
  have "sd_broadcasts s1 = sd_broadcasts s"
    using s1(1) by (cases rule: recover_lease_cases) (auto dest!: insert_event_broadcasts simp: ensure_result_frame(4))
  with Cons.IH [OF s1(2)] show ?case by simp
qed simp

definition published :: "sched_db \<Rightarrow> ident set" where
  "published s = xb_run_id ` set (sd_broadcasts s)"

lemma published_same: "sd_broadcasts s' = sd_broadcasts s \<Longrightarrow> published s \<subseteq> published s'"
  by (simp add: published_def)

lemma sched_op_published: "sched_op s s' \<Longrightarrow> published s \<subseteq> published s'"
proof (induction rule: sched_op.induct)
  case (reserve rv s now eid o' s')
  obtain run outcome where "o' = (run, outcome)" by fastforce
  with reserve(2) have "reserve_event_dispatch_lease now eid rv s = Inr ((run, outcome), s')" by simp
  then show ?case
  proof (cases rule: reserve_cases)
    case (accepted s1 s2)
    then show ?thesis by (simp add: reserve_accepted_state [OF accepted(6-8)] published_same)
  qed simp_all
next
  case (finish now eid i org run_id owner rr s b s')
  from finish(1) show ?case
    by (cases rule: finish_cases) (auto dest!: insert_event_broadcasts simp: published_def)
next
  case (fail now rid eid i org run_id owner limit error s z s')
  from fail(1) show ?case
    by (cases rule: fail_cases) (auto dest!: insert_event_broadcasts simp: ensure_result_frame(4) published_def)
next
  case (recover now locked rids eids n limit s m s')
  then show ?case unfolding recover_expired_event_dispatches_def by (intro published_same recover_leases_broadcasts)
next
  case (update now i org u s x s')
  then show ?case by (auto simp: update_scheduled_run_def update_run_frame intro!: published_same split: if_splits)
next
  case (reserve_x s now run_id i org)
  then show ?case by (auto simp: reserve_x_broadcast_def published_def)
next
  case (tweet s run_id tweet)
  have "map xb_run_id (sd_broadcasts (record_x_broadcast_tweet run_id tweet s)) = map xb_run_id (sd_broadcasts s)"
    by (simp add: record_x_broadcast_tweet_def map_update_where)
  then show ?case unfolding published_def by (metis image_set order_refl)
qed (auto simp: create_scheduled_run_def create_event_trigger_def queue_scheduled_run_now_def insert_run_def
    requeue_scheduled_run_after_capacity_def rotate_event_trigger_secret_def mark_scheduled_run_skipped_def record_scheduled_run_result_def
    mark_scheduled_run_succeeded_def mark_scheduled_run_failed_def Let_def bindE_eq_Inr_iff update_run_frame insert_result_frame
    claim_due_schedules_def start_event_dispatch_lease_def renew_event_dispatch_lease_def record_event_trigger_event_def insert_event_row_def
    intro!: published_same split: if_splits)

lemma sched_steps_published: "sched_step\<^sup>*\<^sup>* s s' \<Longrightarrow> published s \<subseteq> published s'"
proof (induction rule: rtranclp_induct)
  case (step t u)
  from step(2) have "published t \<subseteq> published u"
  proof (induction rule: sched_step.induct)
    case (op s s')
    then show ?case by (rule sched_op_published)
  qed (auto simp: delete_scheduled_run_def delete_old_results_def delete_old_keys_def Let_def intro!: published_same)
  with step show ?case by blast
qed simp

lemma publish_slot:
  assumes "publish_x_broadcast env now schedule stored s = (out, s')" "out \<noteq> []"
  shows "rr_run_id stored \<notin> published s" "rr_run_id stored \<in> published s'" "rr_status stored = RunCompleted"
proof -
  obtain msg where msg: "x_post_text (re_raw_decode env) (re_x_max_chars env) (rr_output_text stored) = Some msg" "rr_status stored = RunCompleted"
    using assms by (auto simp: publish_x_broadcast_def split: if_splits option.splits)
  obtain b s1 where r: "reserve_x_broadcast now (rr_run_id stored) (sr_id schedule) (sr_org_id schedule) s = (b, s1)" by fastforce
  have b: "b" and s': "s' = s1 \<or> (\<exists>tweet. s' = record_x_broadcast_tweet (rr_run_id stored) tweet s1)"
    using assms msg r by (auto simp: publish_x_broadcast_def split: if_splits option.splits bool.splits)
  have "rr_run_id stored \<notin> published s" "rr_run_id stored \<in> published s1"
    using r b by (auto simp: reserve_x_broadcast_def published_def split: if_splits)
  moreover have "published s1 \<subseteq> published s'" using s' sched_op_published [OF sched_op.tweet] by auto
  ultimately show "rr_run_id stored \<notin> published s" "rr_run_id stored \<in> published s'" "rr_status stored = RunCompleted" using msg(2) by auto
qed

section \<open>Templates\<close>

text \<open>
  What the pattern \<^verbatim>\<open>{{\s*([a-zA-Z0-9_]+)\s*}}\<close> says, without the matcher: a slot is two braces, space, a
  key, space, two braces. A template is a list of slots and of words in which no slot starts.
\<close>

datatype template_part = Words string | Slot string string string

fun written :: "template_part \<Rightarrow> string" where
  "written (Words w) = w"
| "written (Slot a key b) = ''{{'' @ a @ key @ b @ ''}}''"

definition template_text :: "template_part list \<Rightarrow> string" where
  "template_text ps = concat (map written ps)"

definition slot_ok :: "string \<Rightarrow> string \<Rightarrow> string \<Rightarrow> bool" where
  "slot_ok a key b \<longleftrightarrow> list_all py_isspace a \<and> key \<noteq> [] \<and> list_all key_char key \<and> list_all py_isspace b"

definition starts_slot :: "string \<Rightarrow> bool" where
  "starts_slot u \<longleftrightarrow> (\<exists>a key b v. slot_ok a key b \<and> u = written (Slot a key b) @ v)"

fun words_ok :: "string \<Rightarrow> string \<Rightarrow> bool" where
  "words_ok [] t = True"
| "words_ok (c # w) t = (\<not> starts_slot (c # w @ t) \<and> words_ok w t)"

fun template_ok :: "template_part list \<Rightarrow> bool" where
  "template_ok [] = True"
| "template_ok (Words w # ps) = (words_ok w (template_text ps) \<and> template_ok ps)"
| "template_ok (Slot a key b # ps) = (slot_ok a key b \<and> template_ok ps)"

definition slot_value :: "string option \<Rightarrow> (string \<times> event_value) list \<Rightarrow> string \<Rightarrow> string" where
  "slot_value dump data key =
    (if key = ''event_json'' then (case dump of None \<Rightarrow> [] | Some j \<Rightarrow> take 4000 j)
     else case map_of data key of
            Some (EvStr v) \<Rightarrow> take 4000 v
          | Some (EvInt n) \<Rightarrow> py_str_int n
          | Some (EvFloat v) \<Rightarrow> v
          | Some (EvBool b) \<Rightarrow> if b then ''true'' else ''false''
          | _ \<Rightarrow> [])"

fun filled :: "string option \<Rightarrow> (string \<times> event_value) list \<Rightarrow> template_part \<Rightarrow> string" where
  "filled dump data (Words w) = w"
| "filled dump data (Slot a key b) = slot_value dump data key"

lemma key_char_classes: "key_char c \<Longrightarrow> \<not> py_isspace c" "\<not> key_char CHR ''}''" "\<not> py_isspace CHR ''}''"
  by (auto simp: key_char_def py_isspace_def Let_def)

lemma takeWhile_prefix:
  "list_all p xs \<Longrightarrow> (case ys of [] \<Rightarrow> True | y # _ \<Rightarrow> \<not> p y) \<Longrightarrow> takeWhile p (xs @ ys) = xs \<and> dropWhile p (xs @ ys) = ys"
  by (induction xs) (auto split: list.splits)

lemma match_placeholder_slot:
  assumes "slot_ok a key b"
  shows "match_placeholder (written (Slot a key b) @ v) = Some (key, v)"
proof -
  have key: "key \<noteq> []" "list_all key_char key" using assms by (simp_all add: slot_ok_def)
  then obtain c k where ck: "key = c # k" "\<not> py_isspace c" using key_char_classes(1) by (cases key) auto
  have "dropWhile py_isspace (a @ key @ b @ ''}}'' @ v) = key @ b @ ''}}'' @ v"
    using takeWhile_prefix [of py_isspace a "key @ b @ ''}}'' @ v"] assms ck by (simp add: slot_ok_def)
  moreover have "(case b @ ''}}'' @ v of [] \<Rightarrow> True | y # _ \<Rightarrow> \<not> key_char y)"
    using assms key_char_classes by (cases b) (auto simp: slot_ok_def)
  then have "takeWhile key_char (key @ b @ ''}}'' @ v) = key" "dropWhile key_char (key @ b @ ''}}'' @ v) = b @ ''}}'' @ v"
    using takeWhile_prefix [OF key(2)] by blast+
  moreover have "dropWhile py_isspace (b @ ''}}'' @ v) = ''}}'' @ v"
    using takeWhile_prefix [of py_isspace b "''}}'' @ v"] assms key_char_classes(3) by (simp add: slot_ok_def)
  ultimately show ?thesis using key(1) by (simp add: match_placeholder_def Let_def numeral_2_eq_2)
qed

lemma match_placeholder_written:
  assumes "match_placeholder u = Some (key, v)"
  shows "\<exists>a b. slot_ok a key b \<and> u = written (Slot a key b) @ v"
proof -
  define r where "r = dropWhile py_isspace (drop 2 u)"
  define rest where "rest = dropWhile py_isspace (dropWhile key_char r)"
  let ?a = "takeWhile py_isspace (drop 2 u)" and ?b = "takeWhile py_isspace (dropWhile key_char r)"
  have m: "take 2 u = ''{{''" "key = takeWhile key_char r" "key \<noteq> []" "take 2 rest = ''}}''" "v = drop 2 rest"
    using assms by (auto simp: match_placeholder_def Let_def r_def rest_def split: if_splits)
  have "u = take 2 u @ drop 2 u" "drop 2 u = ?a @ r" "r = key @ dropWhile key_char r" "dropWhile key_char r = ?b @ rest"
      "rest = take 2 rest @ drop 2 rest"
    by (simp_all add: r_def rest_def m(2))
  then have "u = ''{{'' @ ?a @ key @ ?b @ ''}}'' @ v" using m(1,4,5) by (metis append.assoc)
  moreover have "slot_ok ?a key ?b"
    unfolding slot_ok_def m(2) using m(2,3) by (auto simp: list_all_iff dest: set_takeWhileD)
  ultimately show ?thesis by (intro exI [of _ ?a] exI [of _ ?b]) simp
qed

text \<open>The matcher accepts exactly the texts that start with a slot.\<close>

lemma starts_slot_iff: "starts_slot u \<longleftrightarrow> match_placeholder u \<noteq> None"
proof
  assume "starts_slot u"
  then show "match_placeholder u \<noteq> None" using match_placeholder_slot by (fastforce simp: starts_slot_def)
next
  assume "match_placeholder u \<noteq> None"
  then obtain key v where "match_placeholder u = Some (key, v)" by auto
  from match_placeholder_written [OF this] show "starts_slot u" unfolding starts_slot_def by blast
qed

lemma substitute_words: "words_ok w t \<Longrightarrow> substitute f (w @ t) = w @ substitute f t"
proof (induction w)
  case (Cons c w)
  then have "match_placeholder (c # w @ t) = None" by (metis starts_slot_iff words_ok.simps(2))
  with Cons show ?case by simp
qed simp

lemma substitute_slot:
  assumes "slot_ok a key b"
  shows "substitute f (written (Slot a key b) @ t) = f key @ substitute f t"
proof -
  obtain u where "written (Slot a key b) @ t = CHR ''{'' # u" by simp
  then show ?thesis using match_placeholder_slot [OF assms, of t] by simp
qed

lemma substitute_template:
  "template_ok ps \<Longrightarrow> substitute f (template_text ps) =
     concat (map (\<lambda>part. case part of Words w \<Rightarrow> w | Slot a key b \<Rightarrow> f key) ps)"
proof (induction ps rule: template_ok.induct)
  case (2 w ps)
  then show ?case using substitute_words [of w "template_text ps" f] by (simp add: template_text_def)
next
  case (3 a key b ps)
  then show ?case using substitute_slot [of a key b f "template_text ps"] by (simp add: template_text_def)
qed (simp add: template_text_def)

text \<open>Every text is a template.\<close>

lemma template_exists: "\<exists>ps. template_ok ps \<and> template_text ps = t"
proof (induction t rule: length_induct)
  case (1 t)
  show ?case
  proof (cases "match_placeholder t")
    case (Some m)
    then obtain a key b v where v: "slot_ok a key b" "t = written (Slot a key b) @ v"
      using match_placeholder_written by (cases m) blast
    from v(2) have "length v < length t" by simp
    with 1 obtain ps where "template_ok ps" "template_text ps = v" by blast
    with v show ?thesis by (intro exI [of _ "Slot a key b # ps"]) (simp add: template_text_def)
  next
    case None
    show ?thesis
    proof (cases t)
      case Nil
      then show ?thesis by (intro exI [of _ "[]"]) (simp add: template_text_def)
    next
      case (Cons c u)
      then have "length u < length t" by simp
      with 1 obtain ps where "template_ok ps" "template_text ps = u" by blast
      with Cons None show ?thesis
        by (intro exI [of _ "Words [c] # ps"]) (simp add: template_text_def starts_slot_iff)
    qed
  qed
qed

section \<open>Properties\<close>

text \<open>
  C27. Only the holder of a trigger's secret starts a run. When a webhook call spawns a run, its token names an
  enabled event trigger whose stored hash is the hash of the presented secret, and the run starts a chain of
  its own; any other call leaves schedules, results, dispatch keys and leases as they were.
\<close>

theorem event_dispatch_authenticated:
  assumes "dispatch_event sha es worker t ids rq s = (resp, spawn, s')"
  shows "case spawn of
      Some sp \<Rightarrow> (\<exists>schedule \<in> set (sd_runs s). \<exists>p. sr_trigger_token schedule = Some (rq_token rq) \<and> sr_schedule_kind schedule = EventKind \<and>
        sr_enabled schedule \<and> rq_secret rq = Some p \<and> sr_secret_hash schedule = Some (hash_secret sha p) \<and>
        sp_schedule sp = schedule \<and> sp_chain_id sp = sp_run_id sp \<and> sp_hop_index sp = 0 \<and> resp = RunAccepted (sp_run_id sp))
    | None \<Rightarrow> sd_runs s' = sd_runs s \<and> sd_results s' = sd_results s \<and> sd_keys s' = sd_keys s \<and> sd_leases s' = sd_leases s"
  using assms
proof (cases rule: dispatch_event_cases)
  case (started schedule h prompt key)
  have found: "schedule \<in> set (sd_runs s)" "sr_trigger_token schedule = Some (rq_token rq)" "sr_schedule_kind schedule = EventKind" "h = sr_secret_hash schedule"
    using started(1) find_SomeD unfolding get_event_trigger_for_dispatch_def by fastforce+
  obtain p where p: "rq_secret rq = Some p" "sr_secret_hash schedule = Some (hash_secret sha p)"
    using started(2) found(4) by (auto simp: authenticate_def verify_secret_def split: option.splits)
  from started(5) show ?thesis
    by (cases rule: start_dispatch_cases) (use found p started(3) in \<open>auto simp: record_event_frame\<close>)
qed (auto simp: record_event_frame)

lemma length_by_second:
  assumes "distinct (map (\<lambda>k. (f k, g k)) ks)" "\<And>k. k \<in> set ks \<Longrightarrow> f k = c"
  shows "length ks = card (g ` set ks)"
proof -
  have "map (\<lambda>k. (f k, g k)) ks = map (Pair c) (map g ks)" using assms(2) by simp
  then have "distinct (map g ks)" using assms(1) by (metis distinct_map)
  then show ?thesis by (metis distinct_card length_map set_map)
qed

text \<open>
  The runs of one event, in the order they were spawned: the run of an accepted webhook call, then the child
  that each of them spawned when it ran. Between two of them anything may happen to the tables.
\<close>

inductive event_lineage :: "(bytes \<Rightarrow> bytes) \<Rightarrow> event_settings \<Rightarrow> spawned list \<Rightarrow> sched_db \<Rightarrow> bool" for sha es where
  root: "dispatch_event sha es worker t ids rq s = (resp, Some sp, s') \<Longrightarrow> event_lineage sha es [sp] s'"
| child: "event_lineage sha es sps s \<Longrightarrow> run_event_in_background es worker env agent t ids dump (last sps) s1 = (Some c, out, s') \<Longrightarrow>
    event_lineage sha es (sps @ [c]) s'"

definition key_of_run :: "spawned \<Rightarrow> dispatch_key \<Rightarrow> bool" where
  "key_of_run sp k \<longleftrightarrow> dk_run_id k = sp_run_id sp \<and> dk_chain_id k = sp_chain_id sp \<and> dk_hop_index k = sp_hop_index sp"

lemma reserve_accepted_key:
  assumes "reserve_event_dispatch_lease now eid rv s = Inr ((run, LeaseAccepted), s')"
  shows "run = rv_run_id rv \<and> reserved_key now rv \<in> set (sd_keys s')"
  using assms
proof (cases rule: reserve_cases)
  case (accepted s1 s2)
  then show ?thesis using reserve_accepted_state [OF accepted(6-8)] by simp
qed simp_all

lemma webhook_spawn:
  assumes "dispatch_event sha es worker t ids rq s = (resp, Some sp, s')"
  shows "sp_chain_id sp = sp_run_id sp \<and> sp_hop_index sp = 0 \<and> (\<exists>k \<in> set (sd_keys s'). key_of_run sp k)"
  using assms
proof (cases rule: dispatch_event_cases)
  case (started schedule h prompt key)
  from started(5) show ?thesis
  proof (cases rule: start_dispatch_cases)
    case (accepted sp' rv run)
    from reserve_accepted_key [OF accepted(10)] accepted show ?thesis
      by (auto simp: key_of_run_def reserved_key_def intro!: bexI [of _ "reserved_key (t 1) rv"])
  qed simp_all
qed simp_all

lemma chain_spawn:
  assumes "dispatch_chain_child es worker t ids dump sp result s = (Some c, s')"
  shows "sp_chain_id c = sp_chain_id sp \<and> sp_hop_index c = sp_hop_index sp + 1 \<and> sp_hop_index c \<le> es_chain_max_hops es \<and>
    (\<exists>k \<in> set (sd_keys s'). key_of_run c k)"
  using assms
proof (cases rule: chain_child_cases)
  case (spawned target c' run)
  from reserve_accepted_key [OF spawned(10)] spawned show ?thesis
    by (auto simp: key_of_run_def reserved_key_def chain_reservation_def
        intro!: bexI [of _ "reserved_key (t 0) (chain_reservation es worker sp result target (ids 0))"])
qed simp_all

lemma background_spawn:
  assumes "run_event_in_background es worker env agent t ids dump sp s = (Some c, out, s')"
  obtains result s3 where "dispatch_chain_child es worker t ids dump sp result s3 = (Some c, s')"
  using assms unfolding run_event_in_background_def by (auto split: bool.splits sum.splits prod.splits)

lemma lineage_chain:
  assumes "event_lineage sha es sps s" "0 \<le> es_chain_max_hops es"
  shows "sps \<noteq> [] \<and> (\<forall>k < length sps. sp_chain_id (sps ! k) = sp_run_id (hd sps) \<and> sp_hop_index (sps ! k) = int k) \<and>
    int (length sps) \<le> es_chain_max_hops es + 1 \<and> (\<exists>k \<in> set (sd_keys s). key_of_run (last sps) k)"
  using assms
proof (induction rule: event_lineage.induct)
  case (root worker t ids rq s resp sp s')
  with webhook_spawn [OF root(1)] show ?case by simp
next
  case (child sps s worker env agent t ids dump s1 c out s')
  then have "sps \<noteq> []" "\<forall>k < length sps. sp_chain_id (sps ! k) = sp_run_id (hd sps) \<and> sp_hop_index (sps ! k) = int k" by simp_all
  moreover from this have "sp_chain_id (last sps) = sp_run_id (hd sps)" "sp_hop_index (last sps) = int (length sps) - 1"
    by (auto simp: last_conv_nth of_nat_diff Suc_leI)
  moreover obtain result s3 where "dispatch_chain_child es worker t ids dump (last sps) result s3 = (Some c, s')"
    using child(2) by (rule background_spawn)
  note chain_spawn [OF this]
  ultimately show ?case by (auto simp: nth_append less_Suc_eq)
qed

text \<open>
  C28. Chains are bounded. Every run that an event causes stays in the event's chain: the children, one after
  the other, carry the run id of the event's first run as their chain id and count their hop, in the run and
  in its dispatch key, so an event causes at most the configured number of hops after its first run, even
  when triggers point to each other in a cycle. And however webhook calls, background runs, worker ticks,
  heartbeats, recovery and the management of triggers interleave, the dispatch table never holds more runs of
  one chain than that.
\<close>

theorem event_chain_bounded:
  assumes "event_lineage sha es sps s'" and "(service_step sha es)\<^sup>*\<^sup>* empty_sched s" and "0 \<le> es_chain_max_hops es"
  shows "length sps \<le> nat (es_chain_max_hops es) + 1 \<and>
    (\<forall>k < length sps. sp_chain_id (sps ! k) = sp_run_id (hd sps) \<and> sp_hop_index (sps ! k) = int k) \<and>
    (\<exists>k \<in> set (sd_keys s'). dk_run_id k = sp_run_id (last sps) \<and> dk_chain_id k = sp_run_id (hd sps) \<and> dk_hop_index k = int (length sps) - 1) \<and>
    length (rows_where (\<lambda>k. dk_chain_id k = c) (sd_keys s)) \<le> nat (es_chain_max_hops es) + 1"
proof -
  let ?n = "es_chain_max_hops es" and ?ks = "rows_where (\<lambda>k. dk_chain_id k = c) (sd_keys s)"
  note chain = lineage_chain [OF assms(1,3)]
  have last: "sp_chain_id (last sps) = sp_run_id (hd sps)" "sp_hop_index (last sps) = int (length sps) - 1"
    using chain by (auto simp: last_conv_nth of_nat_diff Suc_leI)
  have ok: "keys_ok (run_ids s) (sd_keys s)" "hops_ok ?n s" using service_steps_keep [OF assms(2,3)] by (auto simp: sched_ok_def)
  then have "distinct (map (\<lambda>k. (dk_chain_id k, dk_hop_index k)) ?ks)" by (intro distinct_map_rows_where) (simp add: keys_ok_def)
  then have "length ?ks = card (dk_hop_index ` set ?ks)" by (rule length_by_second) simp
  also have "\<dots> \<le> card {0..?n}" using ok by (intro card_mono) (auto simp: keys_ok_def hops_ok_def)
  also have "\<dots> = nat ?n + 1" using assms(3) by (simp add: nat_add_distrib)
  finally show ?thesis using chain last assms(3) by (auto simp: key_of_run_def)
qed

text \<open>
  C32. Rendering fills exactly the slots of the template and never reads the payload as a template. Every
  text splits into slots, \<^verbatim>\<open>{{\<close> space key space \<^verbatim>\<open>}}\<close> with a key of letters, digits and underscores, and words
  in which no slot starts; and however it is split that way, the prompt is its words as they are and, for
  each slot, the payload's value: the JSON text for \<^verbatim>\<open>event_json\<close> and strings cut at 4000 characters,
  numbers and booleans printed, nothing for a missing or nested value, and values that look like slots
  left as they are, all cut at the configured length.
\<close>

theorem prompt_rendering_opaque:
  assumes "template_ok ps"
  shows "render_event_prompt dump (template_text ps) data max_chars = take max_chars (concat (map (filled dump data) ps)) \<and>
    (\<exists>qs. template_ok qs \<and> template_text qs = template)"
proof -
  have slot: "(if key = ''event_json'' then (case dump of None \<Rightarrow> [] | Some j \<Rightarrow> take value_max_chars j)
      else coerce_scalar (map_of data key)) = slot_value dump data key" for key
    by (auto simp: slot_value_def value_max_chars_def split: option.split event_value.split)
  have "(case part of Words w \<Rightarrow> w | Slot a key b \<Rightarrow> slot_value dump data key) = filled dump data part" for part
    by (cases part) simp_all
  then show ?thesis
    using substitute_template [OF assms, of "slot_value dump data"] template_exists [of template]
    by (simp add: render_event_prompt_def slot)
qed

text \<open>
  A run is published at most once. After the result of a run was handed to the publication client, and
  whatever the services and workers do in between, no result of the same run is handed to it again, even when
  the client failed.
\<close>

theorem run_published_once:
  assumes "publish_x_broadcast env now schedule stored s = (out, s1)" "out \<noteq> []" "sched_step\<^sup>*\<^sup>* s1 s2"
    and "publish_x_broadcast env' now' schedule' stored' s2 = (out', s3)" "rr_run_id stored' = rr_run_id stored"
  shows "out' = []"
  using publish_slot [OF assms(1,2)] publish_slot(1) [OF assms(4)] sched_steps_published [OF assms(3)] assms(5) by auto

text \<open>
  A run that is not funded does not start. When the credit check refuses the organisation, the agent is
  not called (the outcome is the same for every agent), nothing is sent, and the run is either recorded as
  skipped with the reason, its schedule's failure count unchanged, or the recording itself raises.
\<close>

theorem unfunded_run_skipped:
  assumes "verify_credit (re_settings env) (re_clock env 0) (sr_org_id schedule) (min_required env) None (re_ledger env) = Refused why"
    and "run_and_record env agent schedule ac s = (r, out, s')"
  shows "run_and_record env agent' schedule ac s = (r, out, s') \<and> out = [] \<and>
    (case r of Inr stored \<Rightarrow> rr_status stored = RunSkipped \<and> rr_cost_usdc stored = 0 \<and> rr_error stored = re_refusal_text env why \<and> stored \<in> set (sd_results s') \<and>
       map (\<lambda>x. (sr_id x, sr_consecutive_failures x, sr_enabled x)) (sd_runs s') = map (\<lambda>x. (sr_id x, sr_consecutive_failures x, sr_enabled x)) (sd_runs s)
     | Inl e \<Rightarrow> True)"
proof -
  let ?rec = "record_scheduled_run_result (re_clock env 1) (re_ids env 0) (sr_id schedule) (sr_org_id schedule) (ac_run_id ac) RunSkipped [] 0 (re_refusal_text env why) s"
  have run: "record_and_mark env schedule (ac_run_id ac) RunSkipped [] 0 (re_refusal_text env why)
      (mark_scheduled_run_skipped (re_clock env 2) (sr_id schedule)) (\<lambda>_ s. ([], s)) s = (r, out, s')"
    using assms by (simp add: run_and_record_def Let_def)
  have same: "run_and_record env agent' schedule ac s = (r, out, s')" using assms run by (simp add: run_and_record_def Let_def)
  show ?thesis
  proof (cases ?rec)
    case (Inl e)
    then show ?thesis using run same by (auto simp: record_and_mark_def)
  next
    case (Inr x)
    obtain stored s1 where x: "x = (stored, s1)" by fastforce
    note rf = record_result_frame [OF Inr [unfolded x]]
    show ?thesis
    proof (cases "mark_scheduled_run_skipped (re_clock env 2) (sr_id schedule) s1")
      case (Inl e)
      then show ?thesis using run same Inr x by (auto simp: record_and_mark_def)
    next
      case m: (Inr y)
      obtain u s2 where y: "y = (u, s2)" by (metis prod.exhaust)
      obtain z where up: "update_run (sr_id schedule) (\<lambda>_. True) (\<lambda>r. r\<lparr>sr_last_run_at := Some (re_clock env 2), sr_updated_at := re_clock env 2\<rparr>) s1 = Inr (z, s2)"
        using m y by (auto simp: mark_scheduled_run_skipped_def bindE_eq_Inr_iff)
      have "map (\<lambda>x. (sr_id x, sr_consecutive_failures x, sr_enabled x)) (sd_runs s2) = map (\<lambda>x. (sr_id x, sr_consecutive_failures x, sr_enabled x)) (sd_runs s)"
        using up by (cases rule: update_run_cases) (auto simp: insert_result_frame [OF rf(1)] map_update_where)
      then show ?thesis
        using run same Inr x m y rf insert_result_frame(6) [OF rf(1)] update_run_frame(4) [OF up] by (auto simp: record_and_mark_def)
    qed
  qed
qed

section \<open>Witnesses\<close>

text \<open>A trigger whose secret hashes to one zero byte, a call with that secret, and an environment with an empty ledger.\<close>

definition demo_hash :: "bytes \<Rightarrow> bytes" where
  "demo_hash bs = [0]"

definition demo_hook :: scheduled_run where
  "demo_hook = demo_run\<lparr>sr_secret_hash := Some ''00''\<rparr>"

definition demo_hooks :: sched_db where
  "demo_hooks = empty_sched\<lparr>sd_runs := [demo_hook]\<rparr>"

definition demo_events :: event_settings where
  "demo_events = \<lparr>es_enabled = True, es_chain_max_hops = 3, es_prompt_max_chars = 10, es_max_concurrency = 2,
     es_max_concurrency_per_org = 1, es_max_failures = 5, es_timeout_seconds = 300\<rparr>"

definition demo_request :: event_request where
  "demo_request = \<lparr>rq_token = ''k'', rq_secret = Some ''s'', rq_idempotency_key = Some ''key'', rq_length = 2, rq_body = BodyObject [],
     rq_dump = Some ''{}'', rq_ip_allowed = True, rq_token_allowed = True\<rparr>"

definition demo_run_env :: run_env where
  "demo_run_env = \<lparr>re_clock = (\<lambda>k. seconds (int k)), re_ids = demo_ids, re_settings = default_settings, re_ledger = empty_db,
     re_pricing_settings = demo_pricing_settings, re_pricing = None, re_is_byok = False, re_min_run_reserve = 10000,
     re_refusal_text = (\<lambda>_. ''Insufficient credit''), re_max_failures = 5, re_x_enabled = True, re_x_configured = True, re_x_org_id = ''o'',
     re_x_max_chars = 280, re_raw_decode = (\<lambda>_. None), re_post_tweet = (\<lambda>_. None), re_url_allowed = (\<lambda>_. True)\<rparr>"

lemma demo_hook_created: "create_event_trigger 0 ''t'' ''o'' ''u'' ''n'' ''p'' None ''k'' ''00'' CallbackJson None empty_sched = Inr (demo_hook, demo_hooks)"
  by (simp add: create_event_trigger_def Let_def insert_run_def run_range_def run_checks_def int4_def empty_sched_def demo_hooks_def demo_hook_def demo_run_def)

lemma demo_digest: "hexlify (demo_hash bs) = ''00''"
  unfolding demo_hash_def by code_simp

lemma demo_dispatched:
  "\<exists>sp s'. dispatch_event demo_hash demo_events ''w'' (\<lambda>k. seconds (int k)) demo_ids demo_request demo_hooks = (RunAccepted (demo_ids 0), Some sp, s') \<and>
     length (sd_keys s') = 1"
  by (simp add: dispatch_event_def start_dispatch_def Let_def demo_hooks_def demo_hook_def demo_run_def demo_events_def demo_request_def
      empty_sched_def get_event_trigger_for_dispatch_def authenticate_def verify_secret_def hash_secret_def demo_digest
      request_key_def get_existing_dispatch_def existing_dispatch_def render_event_prompt_def match_placeholder_def py_strip_def py_isspace_def
      reserve_event_dispatch_lease_def insert_key_def insert_lease_def insert_event_row_def int2_def bigint_def
      reserved_key_def reserved_lease_def accepted_event_def active_leases_def active_org_leases_def demo_ids_def)

theorem event_dispatch_authenticated_witness:
  "\<exists>sp s'. dispatch_event demo_hash demo_events ''w'' (\<lambda>k. seconds (int k)) demo_ids demo_request demo_hooks = (RunAccepted (demo_ids 0), Some sp, s') \<and>
     sp_schedule sp \<in> set (sd_runs demo_hooks) \<and> sr_secret_hash (sp_schedule sp) = Some (hash_secret demo_hash ''s'')"
proof -
  obtain sp s' where d: "dispatch_event demo_hash demo_events ''w'' (\<lambda>k. seconds (int k)) demo_ids demo_request demo_hooks = (RunAccepted (demo_ids 0), Some sp, s')"
    using demo_dispatched by blast
  from event_dispatch_authenticated [OF d] d show ?thesis by (auto simp: demo_request_def)
qed

text \<open>A second trigger whose runs hand over to the first, called once, and the run of its event.\<close>

definition demo_chain_hook :: scheduled_run where
  "demo_chain_hook = demo_hook\<lparr>sr_id := ''u'', sr_trigger_token := Some ''c'', sr_next_trigger_id := Some ''t''\<rparr>"

definition demo_chain_hooks :: sched_db where
  "demo_chain_hooks = demo_hooks\<lparr>sd_runs := [demo_hook, demo_chain_hook]\<rparr>"

definition demo_chain_ids :: "nat \<Rightarrow> ident" where
  "demo_chain_ids k = CHR ''b'' # replicate k CHR ''c''"

definition demo_spawned :: spawned where
  "demo_spawned = \<lparr>sp_schedule = demo_chain_hook, sp_prompt = ''p'', sp_run_id = demo_ids 0, sp_lease_seconds = 360,
     sp_chain_id = demo_ids 0, sp_hop_index = 0\<rparr>"

definition demo_spawned_rv :: reservation where
  "demo_spawned_rv = \<lparr>rv_schedule_id = ''u'', rv_org_id = ''o'', rv_idempotency_key = ''key'', rv_run_id = demo_ids 0, rv_owner_id = ''w'',
     rv_lease_seconds = 360, rv_global_limit = 2, rv_org_limit = 1, rv_chain_id = demo_ids 0, rv_hop_index = 0\<rparr>"

definition demo_spawned_db :: sched_db where
  "demo_spawned_db = demo_chain_hooks\<lparr>sd_keys := [reserved_key (seconds 1) demo_spawned_rv],
     sd_leases := [reserved_lease (seconds 1) demo_spawned_rv], sd_events := [accepted_event (seconds 1) (demo_ids 1) demo_spawned_rv]\<rparr>"

lemma demo_chain_created:
  "create_event_trigger 0 ''u'' ''o'' ''u'' ''n'' ''p'' None ''c'' ''00'' CallbackJson (Some ''t'') demo_hooks = Inr (demo_chain_hook, demo_chain_hooks)"
  by (simp add: create_event_trigger_def Let_def insert_run_def run_range_def run_checks_def int4_def empty_sched_def demo_hooks_def demo_hook_def
      demo_run_def demo_chain_hooks_def demo_chain_hook_def)

lemma demo_chain_dispatched:
  "dispatch_event demo_hash demo_events ''w'' (\<lambda>k. seconds (int k)) demo_ids (demo_request\<lparr>rq_token := ''c''\<rparr>) demo_chain_hooks =
     (RunAccepted (demo_ids 0), Some demo_spawned, demo_spawned_db)"
  by (simp add: dispatch_event_def start_dispatch_def Let_def demo_hooks_def demo_hook_def demo_run_def demo_events_def demo_request_def
      empty_sched_def get_event_trigger_for_dispatch_def authenticate_def verify_secret_def hash_secret_def demo_digest
      request_key_def get_existing_dispatch_def existing_dispatch_def render_event_prompt_def match_placeholder_def py_strip_def py_isspace_def
      reserve_event_dispatch_lease_def insert_key_def insert_lease_def insert_event_row_def int2_def bigint_def
      reserved_key_def reserved_lease_def accepted_event_def active_leases_def active_org_leases_def demo_ids_def
      demo_chain_hooks_def demo_chain_hook_def demo_spawned_def demo_spawned_db_def demo_spawned_rv_def)

lemma demo_chain_ran:
  "\<exists>c out s'. run_event_in_background demo_events ''w'' (demo_run_env\<lparr>re_min_run_reserve := 0\<rparr>) (\<lambda>_. AgentResult RunCompleted ''hi'' [] 0)
     (\<lambda>k. seconds (int k)) demo_chain_ids None demo_spawned demo_spawned_db = (Some c, out, s')"
  by (simp add: run_event_in_background_def start_event_dispatch_lease_def update_leases_def execute_event_run_def run_and_record_def
      record_and_mark_def record_scheduled_run_result_def insert_result_def mark_scheduled_run_succeeded_def update_run_def run_range_def
      run_checks_def int4_def deliver_def verify_credit_def credit_account_def org_outstanding_def min_required_def verify_principal_def empty_db_def
      finish_event_dispatch_lease_def close_lease_def settled_event_def lease_open_def insert_event_row_def dispatch_chain_child_def get_scheduled_run_def
      render_event_prompt_def match_placeholder_def chain_reservation_def reserve_event_dispatch_lease_def existing_dispatch_def
      active_leases_def active_org_leases_def lease_active_def insert_key_def insert_lease_def int2_def bigint_def
      reserved_key_def reserved_lease_def accepted_event_def demo_ids_def demo_chain_ids_def
      demo_spawned_def demo_spawned_db_def demo_spawned_rv_def demo_run_env_def demo_chain_hooks_def demo_chain_hook_def demo_hooks_def demo_hook_def
      demo_run_def demo_events_def empty_sched_def rows_where_def eval_nat_numeral Let_def)

theorem event_chain_bounded_witness:
  "\<exists>c s'. event_lineage demo_hash demo_events [demo_spawned, c] s' \<and> (service_step demo_hash demo_events)\<^sup>*\<^sup>* empty_sched s' \<and>
     sp_chain_id c = demo_ids 0 \<and> sp_hop_index c = 1 \<and> length (rows_where (\<lambda>k. dk_chain_id k = demo_ids 0) (sd_keys s')) \<le> 4"
proof -
  obtain c out s' where ran: "run_event_in_background demo_events ''w'' (demo_run_env\<lparr>re_min_run_reserve := 0\<rparr>)
      (\<lambda>_. AgentResult RunCompleted ''hi'' [] 0) (\<lambda>k. seconds (int k)) demo_chain_ids None demo_spawned demo_spawned_db = (Some c, out, s')"
    using demo_chain_ran by blast
  have unused: "run_unused (demo_ids 0) demo_chain_hooks" "run_unused (demo_chain_ids 0) demo_spawned_db" "demo_chain_ids 0 \<noteq> sp_run_id demo_spawned"
    by (simp_all add: run_unused_def demo_chain_hooks_def demo_hooks_def empty_sched_def demo_spawned_db_def demo_spawned_def demo_spawned_rv_def
        reserved_key_def reserved_lease_def accepted_event_def demo_ids_def demo_chain_ids_def)
  have "service_step demo_hash demo_events empty_sched demo_hooks"
    by (rule service_step.other [OF sched_step.op [OF sched_op.create_trigger [OF demo_hook_created]]]) (simp add: demo_hooks_def)
  moreover have "service_step demo_hash demo_events demo_hooks demo_chain_hooks"
    by (rule service_step.other [OF sched_step.op [OF sched_op.create_trigger [OF demo_chain_created]]]) (simp add: demo_chain_hooks_def)
  moreover have "service_step demo_hash demo_events demo_chain_hooks demo_spawned_db"
    by (rule service_step.webhook [OF demo_chain_dispatched unused(1)])
  moreover have "service_step demo_hash demo_events demo_spawned_db s'" by (rule service_step.background [OF ran unused(2,3)])
  ultimately have r: "(service_step demo_hash demo_events)\<^sup>*\<^sup>* empty_sched s'" by (meson converse_rtranclp_into_rtranclp rtranclp.rtrancl_refl)
  have "run_event_in_background demo_events ''w'' (demo_run_env\<lparr>re_min_run_reserve := 0\<rparr>) (\<lambda>_. AgentResult RunCompleted ''hi'' [] 0)
      (\<lambda>k. seconds (int k)) demo_chain_ids None (last [demo_spawned]) demo_spawned_db = (Some c, out, s')" using ran by simp
  from event_lineage.child [OF event_lineage.root [OF demo_chain_dispatched] this]
  have l: "event_lineage demo_hash demo_events [demo_spawned, c] s'" by simp
  from event_chain_bounded [OF l r, of "demo_ids 0"]
  have bound: "length (rows_where (\<lambda>k. dk_chain_id k = demo_ids 0) (sd_keys s')) \<le> 4"
    and all: "\<forall>k < 2. sp_chain_id ([demo_spawned, c] ! k) = sp_run_id demo_spawned \<and> sp_hop_index ([demo_spawned, c] ! k) = int k"
    by (simp_all add: demo_events_def numeral_2_eq_2)
  from all [rule_format, of 1] have "sp_chain_id c = demo_ids 0" "sp_hop_index c = 1" by (simp_all add: demo_spawned_def)
  with bound l r show ?thesis by blast
qed

definition demo_result :: run_result where
  "demo_result = \<lparr>rr_id = ''x'', rr_schedule_id = ''t'', rr_org_id = ''o'', rr_run_id = ''r'', rr_status = RunCompleted, rr_output_text = ''hi'',
     rr_cost_usdc = 0, rr_error = [], rr_created_at = 0\<rparr>"

theorem run_published_once_witness:
  "\<exists>s1 s2. publish_x_broadcast demo_run_env 0 demo_run demo_result demo_sched = ([Tweet ''hi''], s1) \<and>
     publish_x_broadcast demo_run_env 1 demo_run demo_result s1 = ([], s2)"
proof -
  obtain s1 where 1: "publish_x_broadcast demo_run_env 0 demo_run demo_result demo_sched = ([Tweet ''hi''], s1)"
    by (simp add: publish_x_broadcast_def demo_run_env_def demo_run_def demo_result_def demo_sched_def empty_sched_def x_post_text_def human_callback_text_def
        reserve_x_broadcast_def py_strip_def py_isspace_def link_at_def py_lower_def starts_word_def word_char_def key_char_def host_char_def Let_def)
  obtain out s2 where 2: "publish_x_broadcast demo_run_env 1 demo_run demo_result s1 = (out, s2)" by fastforce
  from run_published_once [OF 1 _ _ 2] 1 2 show ?thesis by auto
qed

theorem unfunded_run_skipped_witness:
  "case execute_scheduled_run demo_run_env (\<lambda>_. AgentCapacityError) ''r'' demo_run demo_sched of
     (Inr stored, out, s') \<Rightarrow> out = [] \<and> rr_status stored = RunSkipped
   | _ \<Rightarrow> True"
proof -
  obtain r out s' where run: "execute_scheduled_run demo_run_env (\<lambda>_. AgentCapacityError) ''r'' demo_run demo_sched = (r, out, s')" by (metis prod.exhaust)
  have "verify_credit (re_settings demo_run_env) (re_clock demo_run_env 0) (sr_org_id demo_run) (min_required demo_run_env) None (re_ledger demo_run_env)
      = Refused (InsufficientCredit 0 0 10000 False)"
    by (simp add: verify_credit_def demo_run_env_def empty_db_def credit_account_def min_required_def org_outstanding_def Let_def)
  from unfunded_run_skipped [OF this run [unfolded execute_scheduled_run_def]] run show ?thesis by (auto split: sum.splits)
qed

definition demo_template :: "template_part list" where
  "demo_template = [Words ''{say '', Slot '' '' ''text'' [], Words ''} to {{a b}} '', Slot [] ''b'' '' '', Slot [] ''no'' []]"

lemma demo_template_ok: "template_ok demo_template"
  by (simp add: demo_template_def starts_slot_iff slot_ok_def template_text_def match_placeholder_def key_char_def py_isspace_def)

theorem prompt_rendering_opaque_witness:
  "render_event_prompt None ''{say {{ text}}} to {{a b}} {{b }}{{no}}'' [(''text'', EvStr ''{{b}}''), (''b'', EvBool True)] 40 = ''{say {{b}}} to {{a b}} true''"
proof -
  have shown: "template_text demo_template = ''{say {{ text}}} to {{a b}} {{b }}{{no}}''" by (simp add: demo_template_def template_text_def)
  have "concat (map (filled None [(''text'', EvStr ''{{b}}''), (''b'', EvBool True)]) demo_template) = ''{say {{b}}} to {{a b}} true''"
    by (simp add: demo_template_def slot_value_def)
  with prompt_rendering_opaque [OF demo_template_ok, of None "[(''text'', EvStr ''{{b}}''), (''b'', EvBool True)]" 40 "[]"] shown
  show ?thesis by simp
qed

end
