(* ===== verification/Runs.thy ===== *)
theory Runs
  imports Billing Payments Pricing "HOL-Library.Sublist"
begin

text \<open>
  The money of a run: the gate in front of it (\<^verbatim>\<open>teardrop/agent_runtime.py\<close>), its price and the settlement
  after it (\<^verbatim>\<open>teardrop/agent_post_run.py\<close>), the rows it leaves in the usage ledger (\<^verbatim>\<open>teardrop/usage.py\<close>,
  \<^verbatim>\<open>billing/history.py\<close>) and the earnings of the authors whose tools it called.

  The graph that runs the agent is an argument: it times out, raises, or returns a state with the usage it
  checkpointed. The database, the price caches and the payment claims are the states of the components this
  one calls. A run awaits between its steps: what other requests do meanwhile to the prices before each
  allocation, and to the database before the settlement, are arguments too, and the tasks that record
  earnings are handed back, to run later on whatever the database is then.

  The lemmas show that no billable run starts unfunded, that a run's price is debited, or queued with the
  earnings it owes, but never both, that authors are only paid from charges that were collected, and when
  what they are paid is covered by the charge.
\<close>

section \<open>The usage ledger\<close>

definition record_usage_event :: "ident \<Rightarrow> usdc \<Rightarrow> db \<Rightarrow> db" where
  "record_usage_event i cost d =
    (if \<not> bigint cost \<or> exists_where (\<lambda>u. ue_id u = i) (usage_events d) then d
     else d\<lparr>usage_events := usage_events d @
       [\<lparr>ue_id = i, ue_cost_usdc = cost, ue_settlement_tx = [], ue_settlement_status = ''none''\<rparr>]\<rparr>)"

definition record_settlement :: "ident \<Rightarrow> usdc \<Rightarrow> string \<Rightarrow> string \<Rightarrow> db \<Rightarrow> db" where
  "record_settlement i cost tx stat d =
    (if \<not> bigint cost then d
     else d\<lparr>usage_events := update_where (\<lambda>u. ue_id u = i)
       (\<lambda>u. u\<lparr>ue_cost_usdc := cost, ue_settlement_tx := tx, ue_settlement_status := stat\<rparr>) (usage_events d)\<rparr>)"

text \<open>\<open>confirmed\<close>: the verdict of the receipt check, \<open>None\<close> when it raises or times out.\<close>

definition verify_settlement_on_chain :: "bool option \<Rightarrow> ident \<Rightarrow> string \<Rightarrow> db \<Rightarrow> db" where
  "verify_settlement_on_chain confirmed i tx d =
    (if tx = [] then d
     else case confirmed of
            Some False \<Rightarrow> mark_charge_reverted i tx (record_settlement i 0 tx ''reverted'' d)
          | _ \<Rightarrow> d)"

section \<open>The gate\<close>

datatype run_billing = Unbilled | CreditBilled | X402Billed billing_result

datatype gate_outcome = Admitted run_billing | CreditRefused credit_refusal | PaymentRequired "string option"

record gate_env =
  ge_billing_enabled :: bool
  ge_billable_auth_methods :: "string list"
  ge_settings :: settings
  ge_min_run_reserve :: usdc
  ge_hash :: "bytes \<Rightarrow> bytes"
  ge_parse :: header_parser
  ge_verify :: verify_env
  ge_requirements :: "payment_requirement list"

definition run_floor :: "gate_env \<Rightarrow> instant \<Rightarrow> bool \<Rightarrow> usdc \<Rightarrow> pricing_state \<Rightarrow> usdc" where
  "run_floor env now is_byok platform_fee prices =
    (if is_byok then platform_fee
     else max (case get_current_pricing now prices of Some r \<Rightarrow> pr_run_price_usdc r | None \<Rightarrow> 0) (ge_min_run_reserve env))"

definition credit_gate :: "gate_env \<Rightarrow> instant \<Rightarrow> ident \<Rightarrow> ident \<Rightarrow> usdc \<Rightarrow> db \<Rightarrow> gate_outcome" where
  "credit_gate env now org prin required d =
    (case verify_credit (ge_settings env) now org required (if prin = [] then None else Some prin) d of
       Verified \<Rightarrow> Admitted CreditBilled
     | Refused why \<Rightarrow> CreditRefused why)"

definition machine_org :: "ident \<Rightarrow> db \<Rightarrow> bool" where
  "machine_org org d \<longleftrightarrow> org \<noteq> [] \<and> (case orgs d org of None \<Rightarrow> False | Some o' \<Rightarrow> is_machine_org o')"

definition run_billing_gate ::
  "gate_env \<Rightarrow> instant \<Rightarrow> string \<Rightarrow> ident \<Rightarrow> ident \<Rightarrow> string option \<Rightarrow> bool \<Rightarrow> usdc \<Rightarrow> pricing_state \<Rightarrow> db \<Rightarrow>
   facilitator_health \<times> nonce_store \<Rightarrow> gate_outcome \<times> facilitator_health \<times> nonce_store" where
  "run_billing_gate env now auth_method prin org header is_byok platform_fee prices d hs =
    (let required = run_floor env now is_byok platform_fee prices in
     if \<not> ge_billing_enabled env \<or> auth_method \<notin> set (ge_billable_auth_methods env) then (Admitted Unbilled, hs)
     else if auth_method = ''siwe'' \<and> get_credit_balance org d \<le> 0 \<and> \<not> machine_org org d
     then (case header of
             None \<Rightarrow> (PaymentRequired None, hs)
           | Some h \<Rightarrow>
               if h = [] then (PaymentRequired None, hs)
               else (case verify_payment (ge_hash env) (ge_parse env) (ge_verify env) (ge_requirements env) h hs of
                       (b, hs') \<Rightarrow> (if br_verified b then Admitted (X402Billed b) else PaymentRequired (Some (br_error b)), hs')))
     else (credit_gate env now org prin required d, hs))"

section \<open>The price of a run\<close>

text \<open>
  \<open>upstream\<close> is the price of a turn whose provider reported its cost. A turn without provider or model takes
  those of the run. The price lookups answer from stale values when the database is down and do not raise, so
  the fallback for a raise is the same lookup on the totals of the run.
\<close>

record run_model =
  rm_provider :: string
  rm_model :: string
  rm_byok_tier_pricing :: bool
  rm_byok_provider :: string
  rm_byok_model :: string

definition priced_turn :: "run_model \<Rightarrow> turn \<Rightarrow> turn" where
  "priced_turn m t = t\<lparr>tn_provider := (if tn_provider t = [] then rm_provider m else tn_provider t),
     tn_model := (if tn_model t = [] then rm_model m else tn_model t)\<rparr>"

definition calculate_run_cost ::
  "pricing_settings \<Rightarrow> (turn \<Rightarrow> usdc option) \<Rightarrow> bool \<Rightarrow> instant \<Rightarrow> run_model \<Rightarrow> bool \<Rightarrow> usdc \<Rightarrow> turn list \<Rightarrow> usage_data \<Rightarrow>
   pricing_state \<Rightarrow> usdc \<times> pricing_state" where
  "calculate_run_cost ps upstream up now m is_byok platform_fee turns u s =
    (let tools = calculate_tool_cost_usdc ps up now (us_billable_tool_calls u) (us_billable_tool_names u) in
     if is_byok
     then (let (fee, s1) = (if rm_byok_tier_pricing m
               then calculate_byok_orchestration_cost ps up now (us_tokens_in u) (us_tokens_out u) (rm_byok_provider m) (rm_byok_model m) s
               else (platform_fee, s));
               (t, s2) = tools s1
           in (fee + t, s2))
     else if turns \<noteq> []
     then (let (c, s1) = calculate_turns_token_cost_usdc ps upstream up now (map (priced_turn m) turns) s;
               (t, s2) = tools s1
           in (c + t, s2))
     else calculate_run_cost_usdc ps up now u (rm_provider m) (rm_model m) s)"

section \<open>Author earnings\<close>

text \<open>
  The world at the \<open>k\<close>-th tool of the loop: whether the database answers, the clock, the author of a published
  tool, and what happened to the prices and their caches since the step before. \<open>injected\<close> are the tools the
  run was given.
\<close>

record alloc_step =
  as_up :: bool
  as_now :: instant
  as_catalogue :: "string \<Rightarrow> string \<Rightarrow> ident option"
  as_moved :: "pricing_state \<Rightarrow> pricing_state"

fun earnings_allocations ::
  "pricing_settings \<Rightarrow> (nat \<Rightarrow> alloc_step) \<Rightarrow> nat \<Rightarrow> string set \<Rightarrow> ident \<Rightarrow> string list \<Rightarrow>
   pricing_state \<Rightarrow> allocation_item list \<times> pricing_state" where
  "earnings_allocations ps w k injected caller [] s = ([], s)"
| "earnings_allocations ps w k injected caller (tname # ts) s =
    (if tname \<notin> injected \<or> CHR ''/'' \<notin> set tname then earnings_allocations ps w (Suc k) injected caller ts s
     else
       (let (slug, bare) = split_slash tname in
        case as_catalogue (w k) bare slug of
          None \<Rightarrow> earnings_allocations ps w (Suc k) injected caller ts s
        | Some author \<Rightarrow>
            (let (cost, s1) = calculate_tool_cost_usdc ps (as_up (w k)) (as_now (w k)) 1 [tname] (as_moved (w k) s);
                 (rest, s2) = earnings_allocations ps w (Suc k) injected caller ts s1
             in (if author \<noteq> [] \<and> 0 < cost \<and> author \<noteq> caller then Allocation author bare caller cost # rest else rest, s2))))"

definition compute_marketplace_earnings_allocations ::
  "pricing_settings \<Rightarrow> (nat \<Rightarrow> alloc_step) \<Rightarrow> string set \<Rightarrow> ident \<Rightarrow> string list \<Rightarrow> bool \<Rightarrow>
   pricing_state \<Rightarrow> allocation_item list \<times> pricing_state" where
  "compute_marketplace_earnings_allocations ps w injected caller names promotional s =
    (if promotional \<or> injected = {} \<or> names = [] then ([], s)
     else earnings_allocations ps w 0 injected caller names s)"

text \<open>The background tasks that are started, and the run of one of them at some later time.\<close>

record earnings_task =
  et_author :: ident
  et_tool :: string
  et_caller :: ident
  et_cost :: usdc

fun record_marketplace_earnings :: "allocation_item list \<Rightarrow> earnings_task list" where
  "record_marketplace_earnings [] = []"
| "record_marketplace_earnings (Allocation author tool caller cost # as) =
     \<lparr>et_author = author, et_tool = tool, et_caller = caller, et_cost = cost\<rparr> # record_marketplace_earnings as"
| "record_marketplace_earnings (_ # as) = record_marketplace_earnings as"

definition run_earnings_task :: "settings \<Rightarrow> instant \<Rightarrow> ident \<Rightarrow> earnings_task \<Rightarrow> db \<Rightarrow> db" where
  "run_earnings_task st now i t d = record_tool_call_earnings st now i (et_author t) (et_tool t) (et_caller t) (et_cost t) d"

section \<open>Settlement after a run\<close>

text \<open>
  What the settlement of a run finds: the clock and fresh ids, the charge namespace, the x402 scheme and its
  ceiling, the facilitators (\<open>sv_timeout\<close>: the call did not return in time) and Python's text of a payload.
\<close>

record settle_env =
  sv_settings :: settings
  sv_now :: instant
  sv_ids :: "nat \<Rightarrow> ident"
  sv_uuid5 :: "string \<Rightarrow> ident"
  sv_scheme :: string
  sv_ceiling :: usdc
  sv_servers :: nat
  sv_settle :: "nat \<Rightarrow> payment_payload option \<Rightarrow> payment_requirement option \<Rightarrow> settle_response option"
  sv_timeout :: bool
  sv_payload_text :: "payment_payload \<Rightarrow> string"

record settled_run =
  st_usage_id :: ident
  st_org_id :: ident
  st_principal_id :: ident
  st_run_id :: ident
  st_source :: string
  st_enqueue_x402 :: bool

record settlement_result =
  sr_billable :: bool
  sr_amount_usdc :: usdc
  sr_tx :: string

definition unsettled :: settlement_result where
  "unsettled = \<lparr>sr_billable = False, sr_amount_usdc = 0, sr_tx = []\<rparr>"

definition charge ::
  "settle_env \<Rightarrow> settled_run \<Rightarrow> string \<Rightarrow> string \<Rightarrow> charge_status \<Rightarrow> usdc \<Rightarrow> usdc \<Rightarrow> string \<Rightarrow> db \<Rightarrow> ident \<times> db" where
  "charge env run payer meth stat amount settled tx =
     record_charge (sv_uuid5 env) (st_source run) (st_run_id run) meth amount stat settled tx (st_org_id run) (st_principal_id run)
       (if meth = ''x402'' then payer else []) ''agent_run'' (st_usage_id run)"

definition principal_of :: "settled_run \<Rightarrow> ident option" where
  "principal_of run = (if st_principal_id run = [] then None else Some (st_principal_id run))"

definition settle_credit :: "settle_env \<Rightarrow> settled_run \<Rightarrow> usdc \<Rightarrow> allocation_item list \<Rightarrow> db \<Rightarrow> settlement_result \<times> db" where
  "settle_credit env run cost allocations d =
    (case debit_credit (sv_settings env) (sv_now env) (sv_ids env 0) (st_org_id run) cost (''run:'' @ st_run_id run) (principal_of run) d of
       ((True, deducted), d1) \<Rightarrow>
         (let d2 = record_settlement (st_usage_id run) deducted [] ''settled'' d1;
              (_, d3) = charge env run [] ''credit'' ChargeSettled cost deducted [] d2
          in (\<lparr>sr_billable = True, sr_amount_usdc = deducted, sr_tx = []\<rparr>, d3))
     | ((False, _), d1) \<Rightarrow>
         (let d2 = record_settlement (st_usage_id run) cost [] ''failed'' d1;
              (cid, d3) = charge env run [] ''credit'' ChargeFailed cost 0 [] d2
          in (unsettled, enqueue_failed_settlement (sv_settings env) (sv_now env) (sv_ids env 1) (st_usage_id run) (st_org_id run)
                (st_run_id run) CreditMethod cost None (principal_of run) cid allocations d3)))"

definition clamped_cost :: "settle_env \<Rightarrow> usdc \<Rightarrow> usdc" where
  "clamped_cost env cost = (if sv_scheme env = ''upto'' \<and> 0 < sv_ceiling env \<and> sv_ceiling env < cost then sv_ceiling env else cost)"

definition settle_x402 :: "settle_env \<Rightarrow> settled_run \<Rightarrow> billing_result \<Rightarrow> usdc \<Rightarrow> db \<Rightarrow> (py_error + settlement_result) \<times> db" where
  "settle_x402 env run b cost d =
    (let failed =
           (let d1 = record_settlement (st_usage_id run) 0 [] ''failed'' d;
                (cid, d2) = charge env run (br_payer b) ''x402'' ChargeFailed cost 0 [] d1
            in (Inr unsettled,
                if st_enqueue_x402 run
                then enqueue_failed_settlement (sv_settings env) (sv_now env) (sv_ids env 1) (st_usage_id run) (st_org_id run)
                  (st_run_id run) X402Method cost (map_option (sv_payload_text env) (br_payload b)) None cid [] d2
                else d2))
     in if sv_timeout env then failed
        else case settle_payment (sv_servers env) (sv_settle env) b (Some cost) of
               Inl e \<Rightarrow> (Inl e, d)
             | Inr b' \<Rightarrow>
                 if br_settled b'
                 then (let d1 = record_settlement (st_usage_id run) (br_amount_usdc b') (br_tx_hash b') ''settled'' d;
                           (_, d2) = charge env run (br_payer b) ''x402'' ChargeSettled cost (max 0 (br_amount_usdc b')) (br_tx_hash b') d1
                       in (Inr \<lparr>sr_billable = True, sr_amount_usdc = max 0 (br_amount_usdc b'), sr_tx = br_tx_hash b'\<rparr>, d2))
                 else failed)"

definition dispatch_settlement ::
  "settle_env \<Rightarrow> settled_run \<Rightarrow> run_billing \<Rightarrow> usdc \<Rightarrow> allocation_item list \<Rightarrow> db \<Rightarrow> (py_error + settlement_result) \<times> db" where
  "dispatch_settlement env run billing cost allocations d =
    (case billing of
       Unbilled \<Rightarrow> (Inr unsettled, d)
     | CreditBilled \<Rightarrow> (case settle_credit env run cost allocations d of (r, d') \<Rightarrow> (Inr r, d'))
     | X402Billed b \<Rightarrow> settle_x402 env run b (clamped_cost env cost) d)"

section \<open>One run\<close>

datatype graph_outcome =
    GraphTimeout (partial_text: string)
  | GraphRaises (partial_text: string)
  | GraphDone (final_text: string) (task_failed: bool) "turn list" usage_data

datatype task_state = RunDone | RunBroken | RunTimedOut

record agent_result =
  ar_task_state :: task_state
  ar_output_text :: string
  ar_cost_usdc :: usdc
  ar_billable :: bool
  ar_settlement_amount_usdc :: usdc
  ar_settlement_tx :: string
  ar_error :: string

text \<open>
  The run context that the settlement needs: the run's model and fees, the injected marketplace tools and
  the promotional standing, which is read for credit runs only. \<open>rc_up\<close> and \<open>rc_now\<close> are the database and the
  clock when the run is priced, \<open>rc_alloc\<close> the world of the allocations after it, and \<open>rc_meanwhile\<close> what other
  transactions did to the database between the usage row and the settlement.
\<close>

record run_context =
  rc_pricing :: pricing_settings
  rc_upstream :: "turn \<Rightarrow> usdc option"
  rc_up :: bool
  rc_now :: instant
  rc_model :: run_model
  rc_is_byok :: bool
  rc_platform_fee :: usdc
  rc_alloc :: "nat \<Rightarrow> alloc_step"
  rc_meanwhile :: "db \<Rightarrow> db"
  rc_injected :: "string set"
  rc_onboarding_credit :: bool

definition promotional_run :: "run_context \<Rightarrow> run_billing \<Rightarrow> ident \<Rightarrow> db \<Rightarrow> bool" where
  "promotional_run rc billing org d \<longleftrightarrow> rc_onboarding_credit rc \<and> billing = CreditBilled \<and> is_promotional_credit org d"

definition unbilled_result :: "task_state \<Rightarrow> string \<Rightarrow> string \<Rightarrow> agent_result" where
  "unbilled_result ts out err =
     \<lparr>ar_task_state = ts, ar_output_text = (if out = [] then err else out), ar_cost_usdc = 0, ar_billable = False,
      ar_settlement_amount_usdc = 0, ar_settlement_tx = [], ar_error = err\<rparr>"

definition run_agent_once ::
  "settle_env \<Rightarrow> run_context \<Rightarrow> settled_run \<Rightarrow> run_billing \<Rightarrow> graph_outcome \<Rightarrow> pricing_state \<times> db \<Rightarrow>
   (py_error + agent_result) \<times> earnings_task list \<times> pricing_state \<times> db" where
  "run_agent_once env rc run billing graph sd =
    (let (s, d) = sd; promotional = promotional_run rc billing (st_org_id run) d in
     case graph of
       GraphTimeout out \<Rightarrow> (Inr (unbilled_result RunTimedOut out ''Task timed out.''), [], s, record_usage_event (st_usage_id run) 0 d)
     | GraphRaises out \<Rightarrow> (Inr (unbilled_result RunBroken out ''Task failed.''), [], s, record_usage_event (st_usage_id run) 0 d)
     | GraphDone out broken turns u \<Rightarrow>
         (let (cost, s1) = calculate_run_cost (rc_pricing rc) (rc_upstream rc) (rc_up rc) (rc_now rc) (rc_model rc) (rc_is_byok rc)
                (rc_platform_fee rc) turns u s;
              d1 = rc_meanwhile rc (record_usage_event (st_usage_id run) cost d);
              (allocations, s2) = compute_marketplace_earnings_allocations (rc_pricing rc) (rc_alloc rc)
                (rc_injected rc) (st_org_id run) (us_billable_tool_names u) promotional s1
          in case dispatch_settlement env run billing cost allocations d1 of
               (Inl e, d2) \<Rightarrow> (Inl e, [], s2, d2)
             | (Inr r, d2) \<Rightarrow>
                 (let billable = (sr_billable r \<and> \<not> promotional)
                  in (Inr \<lparr>ar_task_state = (if broken then RunBroken else RunDone),
                        ar_output_text = (if out \<noteq> [] then out else if broken then ''Task failed.'' else ''Task completed.''),
                        ar_cost_usdc = cost, ar_billable = billable, ar_settlement_amount_usdc = max 0 (sr_amount_usdc r),
                        ar_settlement_tx = sr_tx r, ar_error = []\<rparr>,
                      if billable then record_marketplace_earnings allocations else [], s2, d2))))"

section \<open>What a lookup costs\<close>

text \<open>Two states in which every lookup at one time gives the same price.\<close>

definition same_prices :: "pricing_settings \<Rightarrow> bool \<Rightarrow> instant \<Rightarrow> pricing_state \<Rightarrow> pricing_state \<Rightarrow> bool" where
  "same_prices ps up now s s' \<longleftrightarrow>
     fst (get_live_pricing ps up now s') = fst (get_live_pricing ps up now s) \<and>
     fst (get_tool_pricing_overrides ps up now s') = fst (get_tool_pricing_overrides ps up now s) \<and>
     (\<forall>q. fst (get_org_tool_price_by_qualified_name up now q s') = fst (get_org_tool_price_by_qualified_name up now q s)) \<and>
     (\<forall>t. fst (get_platform_tool_price up now t s') = fst (get_platform_tool_price up now t s))"

lemma same_prices_refl [simp]: "same_prices ps up now s s"
  by (simp add: same_prices_def)

lemma same_prices_trans: "same_prices ps up now s s' \<Longrightarrow> same_prices ps up now s' s'' \<Longrightarrow> same_prices ps up now s s''"
  by (simp add: same_prices_def)

lemmas lookup_defs = get_live_pricing_def get_tool_pricing_overrides_def get_org_tool_price_by_qualified_name_def
  get_platform_tool_price_def get_current_pricing_def get_current_tool_overrides_def load_org_tool_price_def load_platform_tool_price_def

lemma live_pricing_same: "same_prices ps up now s (snd (get_live_pricing ps up now s))"
proof -
  obtain v r c where g: "ttl_get (live_pricing_config ps) now (from_db up (get_current_pricing now s)) (RedisOff, live_pricing_cache s) = (v, r, c)"
    by (metis prod_cases3)
  then show ?thesis using ttl_get_again [OF g] by (simp add: same_prices_def lookup_defs case_prod_beta)
qed

lemma overrides_same: "same_prices ps up now s (snd (get_tool_pricing_overrides ps up now s))"
proof -
  obtain v r c where g: "ttl_get (tool_overrides_config ps) now (from_db up (Some (get_current_tool_overrides s))) (RedisOff, tool_overrides_cache s) = (v, r, c)"
    by (metis prod_cases3)
  then show ?thesis using ttl_get_again [OF g] by (simp add: same_prices_def lookup_defs case_prod_beta)
qed

lemma org_price_same: "same_prices ps up now s (snd (get_org_tool_price_by_qualified_name up now q s))"
proof -
  obtain v r c where g: "ttl_get org_price_config now (from_db up (load_org_tool_price q s)) (RedisOff, cache_at (org_tool_price_caches s) q) = (v, r, c)"
    by (metis prod_cases3)
  then show ?thesis using ttl_get_again [OF g] by (simp add: same_prices_def lookup_defs cache_at_def case_prod_beta)
qed

lemma platform_price_same: "same_prices ps up now s (snd (get_platform_tool_price up now t s))"
proof -
  obtain v r c where g: "ttl_get platform_price_config now (from_db up (load_platform_tool_price t s)) (RedisOff, cache_at (platform_tool_caches s) t) = (v, r, c)"
    by (metis prod_cases3)
  then show ?thesis using ttl_get_again [OF g] by (simp add: same_prices_def lookup_defs cache_at_def case_prod_beta)
qed

lemma resolve_same:
  "same_prices ps up now s (snd (resolve_tool_cost up now t ov dc mp s))"
  "same_prices ps up now s s' \<Longrightarrow> fst (resolve_tool_cost up now t ov dc mp s') = fst (resolve_tool_cost up now t ov dc mp s)"
  using org_price_same [of ps up now s t] platform_price_same [of ps up now s t]
  by (auto simp: resolve_tool_cost_def same_prices_def case_prod_beta split: option.splits)

definition default_tool_cost :: "pricing_settings \<Rightarrow> bool \<Rightarrow> instant \<Rightarrow> pricing_state \<Rightarrow> usdc" where
  "default_tool_cost ps up now s = (case fst (get_live_pricing ps up now s) of Some r \<Rightarrow> pr_tool_call_cost r | None \<Rightarrow> 0)"

definition tool_price :: "pricing_settings \<Rightarrow> bool \<Rightarrow> instant \<Rightarrow> pricing_state \<Rightarrow> string \<Rightarrow> usdc" where
  "tool_price ps up now s t = fst (resolve_tool_cost up now t (fst (get_tool_pricing_overrides ps up now s)) (default_tool_cost ps up now s)
     (pricing_marketplace_enabled ps) s)"

lemma same_prices_view:
  assumes "same_prices ps up now s s'"
  shows "default_tool_cost ps up now s' = default_tool_cost ps up now s" "tool_price ps up now s' t = tool_price ps up now s t"
    "fst (get_tool_pricing_overrides ps up now s') = fst (get_tool_pricing_overrides ps up now s)"
proof -
  show d: "default_tool_cost ps up now s' = default_tool_cost ps up now s" using assms by (simp add: default_tool_cost_def same_prices_def)
  show o': "fst (get_tool_pricing_overrides ps up now s') = fst (get_tool_pricing_overrides ps up now s)" using assms by (simp add: same_prices_def)
  show "tool_price ps up now s' t = tool_price ps up now s t" unfolding tool_price_def d o' by (rule resolve_same(2) [OF assms])
qed

lemma named_tools_view:
  "fst (named_tools_cost up now ts ov dc mp s) = sum_list (map (\<lambda>t. fst (resolve_tool_cost up now t ov dc mp s)) ts) \<and>
   same_prices ps up now s (snd (named_tools_cost up now ts ov dc mp s))"
proof (induction ts arbitrary: s)
  case (Cons t ts)
  let ?s = "snd (resolve_tool_cost up now t ov dc mp s)"
  have same: "same_prices ps up now s ?s" by (rule resolve_same(1))
  from Cons.IH [of ?s] resolve_same(2) [OF same] same_prices_trans [OF same] show ?case by (simp add: case_prod_beta)
qed simp

lemma tool_cost_view:
  assumes "names \<noteq> []"
  shows "fst (calculate_tool_cost_usdc ps up now calls names s) =
      sum_list (map (tool_price ps up now s) names) + max 0 (calls - int (length names)) * default_tool_cost ps up now s"
    "same_prices ps up now s (snd (calculate_tool_cost_usdc ps up now calls names s))"
proof -
  let ?s1 = "snd (get_live_pricing ps up now s)" and ?dc = "default_tool_cost ps up now s" and ?mp = "pricing_marketplace_enabled ps"
  let ?s2 = "snd (get_tool_pricing_overrides ps up now ?s1)" and ?ov = "fst (get_tool_pricing_overrides ps up now ?s1)"
  have 1: "same_prices ps up now s ?s1" by (rule live_pricing_same)
  have 2: "same_prices ps up now s ?s2" using same_prices_trans [OF 1 overrides_same] .
  note named = named_tools_view [of up now names ?ov ?dc ?mp ?s2 ps]
  have run: "calculate_tool_cost_usdc ps up now calls names s =
      (fst (named_tools_cost up now names ?ov ?dc ?mp ?s2) + max 0 (calls - int (length names)) * ?dc, snd (named_tools_cost up now names ?ov ?dc ?mp ?s2))"
    using assms by (simp add: calculate_tool_cost_usdc_def case_prod_beta Let_def default_tool_cost_def)
  have "fst (resolve_tool_cost up now t ?ov ?dc ?mp ?s2) = tool_price ps up now s t" for t
    unfolding tool_price_def same_prices_view(3) [OF 1] by (rule resolve_same(2) [OF 2])
  with run named show "fst (calculate_tool_cost_usdc ps up now calls names s) =
      sum_list (map (tool_price ps up now s) names) + max 0 (calls - int (length names)) * ?dc" by simp
  from run named same_prices_trans [OF 2] show "same_prices ps up now s (snd (calculate_tool_cost_usdc ps up now calls names s))" by simp
qed

text \<open>
  No price of these tools rises above what was charged for it: there is an invariant of the price states the
  allocations go through, kept by what happens between the steps and by the lookups themselves, under which
  every lookup answers at most the charged price.
\<close>

definition no_price_rises ::
  "pricing_settings \<Rightarrow> (nat \<Rightarrow> alloc_step) \<Rightarrow> string list \<Rightarrow> (string \<Rightarrow> usdc) \<Rightarrow> (pricing_state \<Rightarrow> bool) \<Rightarrow> bool" where
  "no_price_rises ps w names charged P \<longleftrightarrow> (\<forall>k x t. P x \<and> t \<in> set names \<longrightarrow>
     P (snd (calculate_tool_cost_usdc ps (as_up (w k)) (as_now (w k)) 1 [t] (as_moved (w k) x))) \<and>
     tool_price ps (as_up (w k)) (as_now (w k)) (as_moved (w k) x) t \<le> charged t)"

lemma allocations_bounded:
  assumes "no_price_rises ps w names charged P" "\<forall>t \<in> set names. 0 \<le> charged t" "P s" "set ts \<subseteq> set names"
  shows "sum_list (map alloc_total_cost_usdc (fst (earnings_allocations ps w k injected caller ts s))) \<le> sum_list (map charged ts)"
  using assms(3,4)
proof (induction ts arbitrary: k s)
  case (Cons t ts)
  let ?run = "calculate_tool_cost_usdc ps (as_up (w k)) (as_now (w k)) 1 [t] (as_moved (w k) s)"
  have "P (snd ?run)" "fst ?run \<le> charged t"
    using assms(1) Cons.prems tool_cost_view(1) [of "[t]" ps "as_up (w k)" "as_now (w k)" 1] by (simp_all add: no_price_rises_def)
  moreover have "0 \<le> charged t" "set ts \<subseteq> set names" using Cons.prems assms(2) by auto
  moreover note Cons.IH [of "snd ?run" "Suc k"] Cons.IH [OF Cons.prems(1), of "Suc k"]
  ultimately show ?case by (auto simp: case_prod_beta Let_def split: option.split)
qed simp

section \<open>What a settlement changes\<close>

lemma record_settlement_frame: "\<exists>us. record_settlement i cost tx stat d = d\<lparr>usage_events := us\<rparr>"
  by (cases d) (auto simp: record_settlement_def)

lemma record_usage_frame: "\<exists>us. record_usage_event i cost d = d\<lparr>usage_events := us\<rparr>"
  by (cases d) (auto simp: record_usage_event_def)

lemma charge_frame: "\<exists>cs. snd (charge env run payer meth stat amount settled tx d) = d\<lparr>billing_charges := cs\<rparr>"
  by (cases d) (auto simp: charge_def record_charge_def insert_charge_def Let_def split: sum.splits if_splits)

lemma noted_frame:
  "\<exists>us cs. snd (charge env run payer meth stat amount settled tx (record_settlement i cost tx' stat' d)) = d\<lparr>usage_events := us, billing_charges := cs\<rparr>"
  using record_settlement_frame [of i cost tx' stat' d] charge_frame [of env run payer meth stat amount settled tx] by metis

lemma settle_credit_cases:
  assumes "settle_credit env run cost as d = (r, d')"
  obtains (collected) d1 us cs where
      "debit_credit (sv_settings env) (sv_now env) (sv_ids env 0) (st_org_id run) cost (''run:'' @ st_run_id run) (principal_of run) d = ((True, sr_amount_usdc r), d1)"
      "r = \<lparr>sr_billable = True, sr_amount_usdc = sr_amount_usdc r, sr_tx = []\<rparr>" "d' = d1\<lparr>usage_events := us, billing_charges := cs\<rparr>"
    | (queued) us cs cid where
      "debit_credit (sv_settings env) (sv_now env) (sv_ids env 0) (st_org_id run) cost (''run:'' @ st_run_id run) (principal_of run) d = ((False, 0), d)"
      "r = unsettled" "cid = charge_id_for (sv_uuid5 env) (st_source run) (st_run_id run)"
      "d' = enqueue_failed_settlement (sv_settings env) (sv_now env) (sv_ids env 1) (st_usage_id run) (st_org_id run)
         (st_run_id run) CreditMethod cost None (principal_of run) cid as (d\<lparr>usage_events := us, billing_charges := cs\<rparr>)"
proof -
  obtain ok a d1 where deb: "debit_credit (sv_settings env) (sv_now env) (sv_ids env 0) (st_org_id run) cost (''run:'' @ st_run_id run) (principal_of run) d = ((ok, a), d1)"
    by (metis prod.exhaust)
  show thesis
  proof (cases ok)
    case True
    obtain us cs where f: "snd (charge env run [] ''credit'' ChargeSettled cost a [] (record_settlement (st_usage_id run) a [] ''settled'' d1)) =
        d1\<lparr>usage_events := us, billing_charges := cs\<rparr>" using noted_frame by metis
    show thesis by (rule collected [where us = us and cs = cs]) (use assms deb True f in \<open>auto simp: settle_credit_def case_prod_beta Let_def\<close>)
  next
    case False
    then have d1: "a = 0" "d1 = d" using debit_credit_refused deb by auto
    obtain us cs where f: "snd (charge env run [] ''credit'' ChargeFailed cost 0 [] (record_settlement (st_usage_id run) cost [] ''failed'' d)) =
        d\<lparr>usage_events := us, billing_charges := cs\<rparr>" using noted_frame by metis
    have cid: "fst (charge env run [] ''credit'' ChargeFailed cost 0 [] x) = charge_id_for (sv_uuid5 env) (st_source run) (st_run_id run)" for x
      by (simp add: charge_def record_charge_def Let_def)
    show thesis by (rule queued [where us = us and cs = cs]) (use assms deb False d1 f cid in \<open>auto simp: settle_credit_def case_prod_beta Let_def\<close>)
  qed
qed

lemma settle_x402_frame:
  assumes "settle_x402 env run b cost d = (r, d')"
  obtains (noted) us cs where "d' = d\<lparr>usage_events := us, billing_charges := cs\<rparr>"
    | (queued) us cs i ue o' rid payload p cid where "r = Inr unsettled"
        "d' = enqueue_failed_settlement (sv_settings env) (sv_now env) i ue o' rid X402Method cost payload p cid [] (d\<lparr>usage_events := us, billing_charges := cs\<rparr>)"
proof -
  let ?failed = "charge env run (br_payer b) ''x402'' ChargeFailed cost 0 [] (record_settlement (st_usage_id run) 0 [] ''failed'' d)"
  let ?settled = "\<lambda>b'. charge env run (br_payer b) ''x402'' ChargeSettled cost (max 0 (br_amount_usdc b')) (br_tx_hash b')
    (record_settlement (st_usage_id run) (br_amount_usdc b') (br_tx_hash b') ''settled'' d)"
  let ?enq = "enqueue_failed_settlement (sv_settings env) (sv_now env) (sv_ids env 1) (st_usage_id run) (st_org_id run)
         (st_run_id run) X402Method cost (map_option (sv_payload_text env) (br_payload b)) None (fst ?failed) [] (snd ?failed)"
  show thesis
  proof (cases "\<exists>b'. \<not> sv_timeout env \<and> settle_payment (sv_servers env) (sv_settle env) b (Some cost) = Inr b' \<and> br_settled b'")
    case True
    then obtain b' where b': "\<not> sv_timeout env" "settle_payment (sv_servers env) (sv_settle env) b (Some cost) = Inr b'" "br_settled b'" by blast
    then have "d' = snd (?settled b')" using assms by (simp add: settle_x402_def case_prod_beta Let_def)
    then show thesis using noted noted_frame by metis
  next
    case False
    then have "d' = d \<or> d' = snd ?failed \<or> r = Inr unsettled \<and> d' = ?enq"
      using assms by (auto simp: settle_x402_def case_prod_beta Let_def split: if_splits sum.splits)
    then show thesis
    proof (elim disjE)
      assume "d' = d"
      then have "d' = d\<lparr>usage_events := usage_events d, billing_charges := billing_charges d\<rparr>" by simp
      then show thesis by (rule noted)
    next
      assume "d' = snd ?failed"
      then show thesis using noted noted_frame by metis
    next
      assume q: "r = Inr unsettled \<and> d' = ?enq"
      obtain us cs where "snd ?failed = d\<lparr>usage_events := us, billing_charges := cs\<rparr>" using noted_frame by metis
      with q show thesis using queued by metis
    qed
  qed
qed

lemma plain_change_notes:
  "plain_change d (d'\<lparr>usage_events := us, billing_charges := cs\<rparr>) = plain_change d d'"
  "plain_change (d\<lparr>usage_events := us, billing_charges := cs\<rparr>) d' = plain_change d d'"
  by (simp_all add: plain_change_def)

lemma settle_credit_wallet:
  assumes "settle_credit env run cost as d = (r, d')"
  shows "(audited d \<longrightarrow> audited d') \<and> (\<exists>new. org_credit_ledger d' = org_credit_ledger d @ new) \<and> plain_change d d'"
  using assms
proof (cases rule: settle_credit_cases)
  case (collected d1 us cs)
  have "d1 = snd (debit_credit (sv_settings env) (sv_now env) (sv_ids env 0) (st_org_id run) cost (''run:'' @ st_run_id run) (principal_of run) d)"
    using collected(1) by simp
  then show ?thesis using debit.keeps_audit debit.ledger_grows debit_wallet.plain collected(3) by (simp add: plain_change_notes)
next
  case (queued us cs cid)
  have "org_credit_ledger d' = org_credit_ledger d" by (simp add: queued(4) enqueue_failed_settlement_def)
  moreover have "audited d \<longrightarrow> audited d'" using enqueue_op.keeps_audit queued(4) by simp
  moreover have "plain_change d d'" using enqueue_wallet.plain queued(4) by (metis plain_change_notes(2))
  ultimately show ?thesis by simp
qed

lemma settle_x402_wallet:
  assumes "settle_x402 env run b cost d = (r, d')"
  shows "(audited d \<longrightarrow> audited d') \<and> (\<exists>new. org_credit_ledger d' = org_credit_ledger d @ new) \<and> plain_change d d'"
  using assms
proof (cases rule: settle_x402_frame)
  case (queued us cs i ue o' rid payload p cid)
  have "org_credit_ledger d' = org_credit_ledger d" by (simp add: queued(2) enqueue_failed_settlement_def)
  moreover have "audited d \<longrightarrow> audited d'" using enqueue_op.keeps_audit queued(2) by simp
  moreover have "plain_change d d'" using enqueue_wallet.plain queued(2) by (metis plain_change_notes(2))
  ultimately show ?thesis by simp
qed (simp add: plain_change_def)

text \<open>The settlement of a run fulfils the contract of the billing services, so runs refine the books.\<close>

interpretation run_wallet: wallet_operation "\<lambda>d. snd (dispatch_settlement env run billing cost as d)" for env run billing cost as
proof -
  have "(audited d \<longrightarrow> audited (snd (dispatch_settlement env run billing cost as d))) \<and>
      (\<exists>new. org_credit_ledger (snd (dispatch_settlement env run billing cost as d)) = org_credit_ledger d @ new) \<and>
      plain_change d (snd (dispatch_settlement env run billing cost as d))" for d
  proof (cases billing)
    case CreditBilled
    obtain r d' where s: "settle_credit env run cost as d = (r, d')" by fastforce
    then show ?thesis using settle_credit_wallet [OF s] CreditBilled by (simp add: dispatch_settlement_def)
  next
    case (X402Billed b)
    obtain r d' where s: "settle_x402 env run b (clamped_cost env cost) d = (r, d')" by fastforce
    then show ?thesis using settle_x402_wallet [OF s] X402Billed by (simp add: dispatch_settlement_def)
  qed (simp add: dispatch_settlement_def)
  then show "wallet_operation (\<lambda>d. snd (dispatch_settlement env run billing cost as d))" by unfold_locales blast+
qed

text \<open>What one task of the background does, whenever it runs: one pending earning of its author, or nothing.\<close>

lemma run_earnings_task_row:
  "\<exists>new. run_earnings_task st now i t d = d\<lparr>tool_author_earnings := tool_author_earnings d @ new\<rparr> \<and> length new \<le> 1 \<and>
    (\<forall>e \<in> set new. ea_org_id e = et_author t \<and> ea_tool_name e = et_tool t \<and> ea_caller_org_id e = et_caller t \<and>
       ea_amount_usdc e = et_cost t \<and> ea_author_share_usdc e = author_share st (et_cost t) \<and> ea_status e = EarningPending)"
proof -
  consider (none) "run_earnings_task st now i t d = d"
    | (row) r where "insert_earning r d = Inr (run_earnings_task st now i t d)" "ea_org_id r = et_author t" "ea_tool_name r = et_tool t"
      "ea_caller_org_id r = et_caller t" "ea_amount_usdc r = et_cost t" "ea_author_share_usdc r = author_share st (et_cost t)" "ea_status r = EarningPending"
    by (fastforce simp: run_earnings_task_def record_tool_call_earnings_def insert_tool_call_earnings_def Let_def bindE_def split: sum.splits if_splits)
  then show ?thesis
  proof cases
    case none
    then show ?thesis by (intro exI [of _ "[]"]) simp
  next
    case (row r)
    then show ?thesis using insert_earning_InrD [OF row(1)] by (intro exI [of _ "[r]"]) simp
  qed
qed

text \<open>The task of one billable call: a call of an injected tool that the catalogue gave to another organisation.\<close>

definition earned_call :: "(nat \<Rightarrow> alloc_step) \<Rightarrow> string set \<Rightarrow> ident \<Rightarrow> earnings_task \<Rightarrow> string \<Rightarrow> bool" where
  "earned_call w injected caller t tname \<longleftrightarrow> tname \<in> injected \<and> CHR ''/'' \<in> set tname \<and> et_tool t = snd (split_slash tname) \<and>
     (\<exists>k. as_catalogue (w k) (snd (split_slash tname)) (fst (split_slash tname)) = Some (et_author t)) \<and>
     et_caller t = caller \<and> et_author t \<noteq> caller \<and> 0 < et_cost t"

lemma allocations_calls:
  "\<exists>calls. subseq calls names \<and>
     list_all2 (earned_call w injected caller) (record_marketplace_earnings (fst (earnings_allocations ps w k injected caller names s))) calls"
proof (induction names arbitrary: k s)
  case (Cons t ts)
  let ?tail = "\<lambda>s. fst (earnings_allocations ps w (Suc k) injected caller ts s)"
  obtain slug bare where sb: "split_slash t = (slug, bare)" by fastforce
  show ?case
  proof (cases "t \<in> injected \<and> CHR ''/'' \<in> set t \<and> as_catalogue (w k) bare slug \<noteq> None")
    case False
    then have "fst (earnings_allocations ps w k injected caller (t # ts) s) = ?tail s" using sb by auto
    then show ?thesis using Cons.IH [of "Suc k" s] list_emb_Cons by metis
  next
    case True
    then obtain author where author: "as_catalogue (w k) bare slug = Some author" by auto
    obtain cost s1 where c: "calculate_tool_cost_usdc ps (as_up (w k)) (as_now (w k)) 1 [t] (as_moved (w k) s) = (cost, s1)" by fastforce
    have run: "fst (earnings_allocations ps w k injected caller (t # ts) s) =
        (if author \<noteq> [] \<and> 0 < cost \<and> author \<noteq> caller then Allocation author bare caller cost # ?tail s1 else ?tail s1)"
      using True author sb c by (simp add: case_prod_beta)
    obtain calls where calls: "subseq calls ts" "list_all2 (earned_call w injected caller) (record_marketplace_earnings (?tail s1)) calls"
      using Cons.IH by blast
    show ?thesis
    proof (cases "author \<noteq> [] \<and> 0 < cost \<and> author \<noteq> caller")
      case paid: True
      have "earned_call w injected caller \<lparr>et_author = author, et_tool = bare, et_caller = caller, et_cost = cost\<rparr> t"
        using True paid author sb by (auto simp: earned_call_def)
      then show ?thesis using run paid calls by (intro exI [of _ "t # calls"]) simp
    next
      case False
      then have "fst (earnings_allocations ps w k injected caller (t # ts) s) = ?tail s1" unfolding run by (simp only: if_False)
      then show ?thesis using calls list_emb_Cons by metis
    qed
  qed
qed simp

lemma debit_credit_keeps:
  assumes "debit_credit st now i org amount reason p d = ((True, a), d')" "0 < amount"
  shows "pending_settlements d' = pending_settlements d" "tool_author_earnings d' = tool_author_earnings d"
proof -
  obtain d1 where l: "debit_credit_locked st now i org amount reason p d = Inr ((True, amount, Some i), d1)" "d' = invalidate_daily_spend_cache org d1"
    using debit_credit_ok [OF assms] by blast
  then show "pending_settlements d' = pending_settlements d" "tool_author_earnings d' = tool_author_earnings d"
    by (auto simp: invalidate_daily_spend_cache_def elim!: debit_locked_success dest!: insert_ledger_InrD(1))
qed

lemma free_debit: "amount \<le> 0 \<Longrightarrow> debit_credit st now i org amount reason p d = ((True, 0), d)"
  by (simp add: debit_credit_def)

text \<open>Whatever the rail, a settlement records no earnings; and when it collected, it queues nothing.\<close>

lemma settlement_side_effects:
  assumes "dispatch_settlement env run billing cost as d = (r, d')"
  shows "tool_author_earnings d' = tool_author_earnings d"
    "r = Inr x \<Longrightarrow> sr_billable x \<Longrightarrow> pending_settlements d' = pending_settlements d"
proof -
  have "tool_author_earnings d' = tool_author_earnings d \<and> (\<forall>x. r = Inr x \<longrightarrow> sr_billable x \<longrightarrow> pending_settlements d' = pending_settlements d)"
  proof (cases billing)
    case Unbilled
    with assms show ?thesis by (auto simp: dispatch_settlement_def)
  next
    case CreditBilled
    with assms obtain x where s: "settle_credit env run cost as d = (x, d')" "r = Inr x" by (auto simp: dispatch_settlement_def split: prod.splits)
    from s(1) show ?thesis
    proof (cases rule: settle_credit_cases)
      case (collected d1 us cs)
      have "pending_settlements d1 = pending_settlements d \<and> tool_author_earnings d1 = tool_author_earnings d"
        using debit_credit_keeps [OF collected(1)] collected(1) by (cases "0 < cost") (auto simp: free_debit)
      then show ?thesis by (simp add: collected(3))
    next
      case (queued us cs cid)
      then show ?thesis by (simp add: s(2) unsettled_def enqueue_failed_settlement_def)
    qed
  next
    case (X402Billed b)
    with assms have s: "settle_x402 env run b (clamped_cost env cost) d = (r, d')" by (simp add: dispatch_settlement_def)
    from s show ?thesis by (cases rule: settle_x402_frame) (auto simp: enqueue_failed_settlement_def unsettled_def)
  qed
  then show "tool_author_earnings d' = tool_author_earnings d" "r = Inr x \<Longrightarrow> sr_billable x \<Longrightarrow> pending_settlements d' = pending_settlements d" by auto
qed

text \<open>What a charge that was collected looks like on each rail.\<close>

lemma collected_charge:
  assumes "dispatch_settlement env run billing cost as d = (Inr x, d')" "sr_billable x"
  shows "case billing of
      Unbilled \<Rightarrow> False
    | CreditBilled \<Rightarrow> sr_amount_usdc x = max 0 cost \<and>
        (\<forall>y. get_credit_balance y d' = get_credit_balance y d - (if y = st_org_id run then max 0 cost else 0)) \<and>
        length (org_credit_ledger d') = length (org_credit_ledger d) + (if 0 < cost then 1 else 0)
    | X402Billed b \<Rightarrow> \<not> sv_timeout env \<and> (\<exists>b'. settle_payment (sv_servers env) (sv_settle env) b (Some (clamped_cost env cost)) = Inr b' \<and>
        br_settled b' \<and> sr_tx x = br_tx_hash b' \<and> sr_amount_usdc x = max 0 (br_amount_usdc b'))"
proof (cases billing)
  case Unbilled
  with assms show ?thesis by (auto simp: dispatch_settlement_def unsettled_def)
next
  case CreditBilled
  with assms(1) have "settle_credit env run cost as d = (x, d')" by (auto simp: dispatch_settlement_def split: prod.splits)
  then show ?thesis
  proof (cases rule: settle_credit_cases)
    case (collected d1 us cs)
    have "sr_amount_usdc x = max 0 cost \<and> length (org_credit_ledger d1) = length (org_credit_ledger d) + (if 0 < cost then 1 else 0) \<and>
        (\<forall>y. get_credit_balance y d1 = get_credit_balance y d - (if y = st_org_id run then max 0 cost else 0))"
    proof (cases "0 < cost")
      case True
      then show ?thesis using debit_credit_effect [OF collected(1) True] by auto
    next
      case False
      then show ?thesis using collected(1) by (auto simp: free_debit)
    qed
    then show ?thesis using CreditBilled collected(3) by (simp add: get_credit_balance_def)
  next
    case (queued us cs cid)
    then show ?thesis using assms(2) by (simp add: unsettled_def)
  qed
next
  case (X402Billed b)
  then show ?thesis using assms
    by (auto simp: dispatch_settlement_def settle_x402_def unsettled_def case_prod_beta Let_def split: if_splits sum.splits)
qed

lemma run_agent_once_done:
  assumes "run_agent_once env rc run billing graph (s, d) = (Inr r, tasks, s', d')"
  obtains (unbilled) us where "\<forall>out broken turns u. graph \<noteq> GraphDone out broken turns u" "d' = d\<lparr>usage_events := us\<rparr>" "tasks = []"
      "\<not> ar_billable r" "ar_cost_usdc r = 0" "ar_settlement_amount_usdc r = 0"
    | (settled) out broken turns u as x s1 where "graph = GraphDone out broken turns u"
        "as = fst (compute_marketplace_earnings_allocations (rc_pricing rc) (rc_alloc rc) (rc_injected rc) (st_org_id run)
           (us_billable_tool_names u) (promotional_run rc billing (st_org_id run) d) s1)"
        "dispatch_settlement env run billing (ar_cost_usdc r) as (rc_meanwhile rc (record_usage_event (st_usage_id run) (ar_cost_usdc r) d)) = (Inr x, d')"
        "ar_billable r \<longleftrightarrow> sr_billable x \<and> \<not> promotional_run rc billing (st_org_id run) d"
        "ar_settlement_amount_usdc r = max 0 (sr_amount_usdc x)" "ar_settlement_tx r = sr_tx x"
        "tasks = (if ar_billable r then record_marketplace_earnings as else [])"
proof (cases graph)
  case (GraphTimeout out)
  then show thesis using assms unbilled record_usage_frame by (auto simp: run_agent_once_def unbilled_result_def Let_def) metis
next
  case (GraphRaises out)
  then show thesis using assms unbilled record_usage_frame by (auto simp: run_agent_once_def unbilled_result_def Let_def) metis
next
  case (GraphDone out broken turns u)
  let ?promo = "promotional_run rc billing (st_org_id run) d"
  obtain cost s1 where cost: "calculate_run_cost (rc_pricing rc) (rc_upstream rc) (rc_up rc) (rc_now rc) (rc_model rc) (rc_is_byok rc)
      (rc_platform_fee rc) turns u s = (cost, s1)" by fastforce
  obtain as s2 where as: "compute_marketplace_earnings_allocations (rc_pricing rc) (rc_alloc rc)
      (rc_injected rc) (st_org_id run) (us_billable_tool_names u) ?promo s1 = (as, s2)" by fastforce
  obtain y d2 where y: "dispatch_settlement env run billing cost as (rc_meanwhile rc (record_usage_event (st_usage_id run) cost d)) = (y, d2)" by fastforce
  note def = assms [unfolded run_agent_once_def GraphDone Let_def prod.case graph_outcome.case cost as y]
  obtain x where x: "y = Inr x" using def by (cases y) auto
  have "ar_cost_usdc r = cost" "ar_billable r \<longleftrightarrow> sr_billable x \<and> \<not> ?promo" "d' = d2"
    "ar_settlement_amount_usdc r = max 0 (sr_amount_usdc x)" "ar_settlement_tx r = sr_tx x"
    "tasks = (if ar_billable r then record_marketplace_earnings as else [])"
    using def x by auto
  then show thesis using settled [OF GraphDone, of as s1 x] as x y by simp
qed

lemma computed_calls:
  "\<exists>calls. subseq calls names \<and> list_all2 (earned_call w injected caller)
     (record_marketplace_earnings (fst (compute_marketplace_earnings_allocations ps w injected caller names promo s))) calls"
  using allocations_calls by (fastforce simp: compute_marketplace_earnings_allocations_def)

section \<open>Properties\<close>

text \<open>
  C7. No billable run starts unfunded. When billing is on and the caller's kind of login is billable, a run
  that the gate admits is billed: by credit, and then a debit of any amount up to the run's floor goes
  through at that moment; or by an on-chain payment that was verified, which only wallet users without
  credit and without a machine organisation may use.
\<close>

theorem billable_run_funded:
  assumes "audited d" "\<forall>x \<in> set (pending_settlements d). 0 \<le> ps_amount_usdc x" "i \<notin> led_id ` set (org_credit_ledger d)"
    and "ge_billing_enabled env" "auth_method \<in> set (ge_billable_auth_methods env)"
    and "run_billing_gate env now auth_method prin org header is_byok fee prices d hs = (Admitted b, hs')"
  shows "case b of
      Unbilled \<Rightarrow> False
    | CreditBilled \<Rightarrow> hs' = hs \<and> (\<forall>amount. 0 < amount \<and> amount \<le> run_floor env now is_byok fee prices \<longrightarrow>
        fst (debit_credit (ge_settings env) now i org amount reason (if prin = [] then None else Some prin) d) = (True, amount))
    | X402Billed r \<Rightarrow> br_verified r \<and> auth_method = ''siwe'' \<and> get_credit_balance org d \<le> 0 \<and> \<not> machine_org org d"
proof -
  let ?p = "if prin = [] then None else Some prin" and ?req = "run_floor env now is_byok fee prices"
  have debit: "fst (debit_credit (ge_settings env) now i org amount reason ?p d) = (True, amount)"
    if "verify_credit (ge_settings env) now org ?req ?p d = Verified" "0 < amount" "amount \<le> ?req" for amount
    by (rule verify_credit_covers [OF assms(1,2) that assms(3)])
  show ?thesis
  proof (cases "auth_method = ''siwe'' \<and> get_credit_balance org d \<le> 0 \<and> \<not> machine_org org d")
    case True
    then show ?thesis using assms(4-6) by (auto simp: run_billing_gate_def Let_def split: option.splits if_splits prod.splits)
  next
    case False
    then have "credit_gate env now org prin ?req d = Admitted b" "hs' = hs"
      using assms(4-6) unfolding run_billing_gate_def Let_def by (auto split: if_splits)
    then show ?thesis using debit by (auto simp: credit_gate_def split: verify_result.splits)
  qed
qed

text \<open>
  C8. The price of a credit run is collected now or queued, never both and never lost. A settlement either
  debits exactly the price, with one ledger row, and leaves the queue alone; or leaves every balance and the
  ledger alone and queues exactly the price, with the authors' allocations that the recovery has to pay.
\<close>

theorem run_collected_or_queued:
  assumes "dispatch_settlement env run CreditBilled cost as d = (Inr r, d')" "0 < cost" "bigint cost"
    and "sv_ids env 1 \<notin> ps_id ` set (pending_settlements d)"
  shows "if sr_billable r
    then sr_amount_usdc r = cost \<and> pending_settlements d' = pending_settlements d \<and>
      (\<forall>x. get_credit_balance x d' = get_credit_balance x d - (if x = st_org_id run then cost else 0)) \<and>
      length (org_credit_ledger d') = Suc (length (org_credit_ledger d))
    else org_credits d' = org_credits d \<and> org_credit_ledger d' = org_credit_ledger d \<and>
      (\<exists>row. pending_settlements d' = pending_settlements d @ [row] \<and> ps_org_id row = st_org_id run \<and> ps_run_id row = st_run_id run \<and>
        ps_billing_method row = CreditMethod \<and> ps_amount_usdc row = cost \<and> ps_status row = SettlementPending \<and>
        ps_charge_id row = charge_id_for (sv_uuid5 env) (st_source run) (st_run_id run) \<and>
        ps_earnings_allocations row = StoredAllocations as)"
proof -
  have s: "settle_credit env run cost as d = (r, d')" using assms(1) by (auto simp: dispatch_settlement_def split: prod.splits)
  from s show ?thesis
  proof (cases rule: settle_credit_cases)
    case (collected d1 us cs)
    have "\<forall>x. get_credit_balance x d1 = get_credit_balance x d - (if x = st_org_id run then cost else 0)" "sr_amount_usdc r = cost"
      "length (org_credit_ledger d1) = Suc (length (org_credit_ledger d))"
      using debit_credit_effect [OF collected(1) assms(2)] by auto
    moreover have "sr_billable r" using collected(2) by (metis settlement_result.select_convs(1))
    moreover have "pending_settlements d1 = pending_settlements d" by (rule debit_credit_keeps(1) [OF collected(1) assms(2)])
    ultimately show ?thesis by (simp add: collected(3) get_credit_balance_def)
  next
    case (queued us cs cid)
    have "\<not> exists_where (\<lambda>x. ps_id x = sv_ids env 1) (pending_settlements d)" using assms(4) by (auto simp: image_iff)
    then show ?thesis using assms(2,3) queued by (simp add: unsettled_def enqueue_failed_settlement_def)
  qed
qed

text \<open>
  C9. Authors are paid only from charges that were collected, once per call. A run itself records no earnings;
  it starts background tasks, and only when its charge was collected: the organisation's balance fell by
  exactly the price, with its ledger row, or the facilitator settled the payment in the transaction the result
  shows; nothing is then queued that would pay them again. There is at most one task per billable call, in
  the order of the calls, each for a call of a marketplace tool of another organisation, and whenever such
  a task runs it records at most one pending earning, of that author and amount. A run that timed out or
  failed in the platform starts no task, costs nothing, touches no balance and queues nothing.
\<close>

theorem run_pays_authors_once:
  assumes "run_agent_once env rc run billing graph (s, d) = (Inr r, tasks, s', d')"
  shows "(case graph of
      GraphDone out broken turns u \<Rightarrow>
        (let d0 = rc_meanwhile rc (record_usage_event (st_usage_id run) (ar_cost_usdc r) d); cost = max 0 (ar_cost_usdc r) in
         tool_author_earnings d' = tool_author_earnings d0 \<and>
         (if tasks = [] then True
          else pending_settlements d' = pending_settlements d0 \<and>
            (case billing of
               Unbilled \<Rightarrow> False
             | CreditBilled \<Rightarrow> ar_settlement_amount_usdc r = cost \<and>
                 (\<forall>x. get_credit_balance x d' = get_credit_balance x d0 - (if x = st_org_id run then cost else 0)) \<and>
                 length (org_credit_ledger d') = length (org_credit_ledger d0) + (if 0 < cost then 1 else 0)
             | X402Billed b \<Rightarrow>
                 (\<exists>b'. settle_payment (sv_servers env) (sv_settle env) b (Some (clamped_cost env (ar_cost_usdc r))) = Inr b' \<and>
                    br_settled b' \<and> ar_settlement_tx r = br_tx_hash b')) \<and>
            (\<exists>calls. subseq calls (us_billable_tool_names u) \<and>
               list_all2 (earned_call (rc_alloc rc) (rc_injected rc) (st_org_id run)) tasks calls)))
    | _ \<Rightarrow> tasks = [] \<and> \<not> ar_billable r \<and> ar_settlement_amount_usdc r = 0 \<and> org_credits d' = org_credits d \<and>
        org_credit_ledger d' = org_credit_ledger d \<and> pending_settlements d' = pending_settlements d \<and>
        tool_author_earnings d' = tool_author_earnings d) \<and>
    (\<forall>st now i t x. \<exists>new. run_earnings_task st now i t x = x\<lparr>tool_author_earnings := tool_author_earnings x @ new\<rparr> \<and> length new \<le> 1 \<and>
       list_all (\<lambda>e. ea_org_id e = et_author t \<and> ea_amount_usdc e = et_cost t \<and> ea_status e = EarningPending) new)"
proof -
  have task: "\<forall>st now i t x. \<exists>new. run_earnings_task st now i t x = x\<lparr>tool_author_earnings := tool_author_earnings x @ new\<rparr> \<and> length new \<le> 1 \<and>
       list_all (\<lambda>e. ea_org_id e = et_author t \<and> ea_amount_usdc e = et_cost t \<and> ea_status e = EarningPending) new"
    using run_earnings_task_row by (fastforce simp: list_all_iff)
  from assms show ?thesis
  proof (cases rule: run_agent_once_done)
    case (unbilled us)
    from unbilled(1) consider out where "graph = GraphTimeout out" | out where "graph = GraphRaises out" by (cases graph) auto
    then show ?thesis using task unbilled(2-) by cases simp_all
  next
    case (settled out broken turns u as x s1)
    note eff = settlement_side_effects [OF settled(3)]
    show ?thesis
    proof (cases "tasks = []")
      case True
      then show ?thesis using task eff(1) settled(1) by simp
    next
      case False
      then have paid: "ar_billable r" "sr_billable x" "tasks = record_marketplace_earnings as" using settled(4,7) by (auto split: if_splits)
      note collected = collected_charge [OF settled(3) paid(2)]
      have "\<exists>calls. subseq calls (us_billable_tool_names u) \<and> list_all2 (earned_call (rc_alloc rc) (rc_injected rc) (st_org_id run)) tasks calls"
        unfolding paid(3) settled(2) by (rule computed_calls)
      then show ?thesis using task eff(1) eff(2) [OF refl paid(2)] collected False settled(1,5,6)
        by (cases billing) (auto simp: Let_def)
    qed
  qed
qed

text \<open>
  C10. What authors are allocated is part of what the caller is charged, as long as no price rises in between.
  The charge prices the run's tools first and every allocation prices its tool again, later, each at its own
  time and after whatever happened to the prices and the caches since. If no lookup then answers more than
  the call was charged, the allocations add up to at most the charge for the tools. (A price that rises in
  between breaks this: \<open>allocation_may_exceed_charge\<close>.)
\<close>

theorem allocations_within_charge:
  assumes "calculate_tool_cost_usdc ps up now calls names s = (tools, s1)"
    and "compute_marketplace_earnings_allocations ps w injected caller names promotional s2 = (as, s3)"
    and "no_price_rises ps w names (tool_price ps up now s) P" "P s2"
    and "\<forall>t \<in> set names. 0 \<le> tool_price ps up now s t" "0 \<le> default_tool_cost ps up now s"
  shows "sum_list (map alloc_total_cost_usdc as) \<le> tools"
proof (cases "names = []")
  case True
  then have "tools = (if calls \<le> 0 then 0 else calls * default_tool_cost ps up now s)" "as = []"
    using assms(1,2) by (auto simp: calculate_tool_cost_usdc_def compute_marketplace_earnings_allocations_def default_tool_cost_def case_prod_beta split: if_splits)
  then show ?thesis using assms(6) by simp
next
  case False
  have view: "tools = sum_list (map (tool_price ps up now s) names) + max 0 (calls - int (length names)) * default_tool_cost ps up now s"
    using tool_cost_view(1) [OF False, where ps = ps and up = up and now = now and calls = calls and s = s] assms(1) by simp
  have "sum_list (map alloc_total_cost_usdc as) \<le> sum_list (map (tool_price ps up now s) names)"
  proof (cases "promotional \<or> injected = {}")
    case True
    then have "as = []" using assms(2) by (auto simp: compute_marketplace_earnings_allocations_def)
    then show ?thesis using assms(5) by (auto intro!: sum_list_nonneg)
  next
    case run: False
    then have "as = fst (earnings_allocations ps w 0 injected caller names s2)"
      using assms(2) False by (simp add: compute_marketplace_earnings_allocations_def)
    then show ?thesis using allocations_bounded [OF assms(3,5,4)] by simp
  qed
  also have "\<dots> \<le> tools" using view assms(6) by simp
  finally show ?thesis .
qed

section \<open>Witnesses\<close>

definition demo_gate :: gate_env where
  "demo_gate = \<lparr>ge_billing_enabled = True, ge_billable_auth_methods = [''email'', ''siwe''], ge_settings = default_settings,
     ge_min_run_reserve = 10, ge_hash = demo_sha, ge_parse = demo_parse, ge_verify = demo_env, ge_requirements = [demo_requirement]\<rparr>"

definition demo_settle :: settle_env where
  "demo_settle = \<lparr>sv_settings = default_settings, sv_now = 5, sv_ids = (\<lambda>k. replicate (k + 1) CHR ''i''), sv_uuid5 = id, sv_scheme = ''exact'',
     sv_ceiling = 0, sv_servers = 1, sv_settle = (\<lambda>_ _ _. None), sv_timeout = False, sv_payload_text = (\<lambda>_. [])\<rparr>"

definition demo_settled :: settled_run where
  "demo_settled = \<lparr>st_usage_id = ''u'', st_org_id = ''acme'', st_principal_id = ''bob'', st_run_id = ''r'', st_source = ''api'', st_enqueue_x402 = True\<rparr>"

definition demo_alloc :: alloc_step where
  "demo_alloc = \<lparr>as_up = True, as_now = 9, as_catalogue = (\<lambda>_ _. Some ''auth''), as_moved = (\<lambda>s. s)\<rparr>"

definition demo_context :: run_context where
  "demo_context = \<lparr>rc_pricing = demo_pricing_settings, rc_upstream = (\<lambda>_. None), rc_up = True, rc_now = 9,
     rc_model = \<lparr>rm_provider = [], rm_model = [], rm_byok_tier_pricing = False, rm_byok_provider = [], rm_byok_model = []\<rparr>,
     rc_is_byok = True, rc_platform_fee = 30, rc_alloc = (\<lambda>_. demo_alloc), rc_meanwhile = (\<lambda>d. d), rc_injected = {''acme/quote''}, rc_onboarding_credit = False\<rparr>"

theorem billable_run_funded_witness:
  "\<exists>hs'. run_billing_gate demo_gate 5 ''email'' ''bob'' ''acme'' None True 40 demo_pricing demo_db (demo_health, demo_store) = (Admitted CreditBilled, hs') \<and>
     fst (debit_credit default_settings 5 ''x1'' ''acme'' 40 ''run'' (Some ''bob'') demo_db) = (True, 40)"
proof -
  have "verify_credit default_settings 5 ''acme'' 40 (Some ''bob'') demo_db = Verified"
    by (simp add: verify_credit_def verify_principal_def principal_outstanding_def org_outstanding_def
        truthy_def debit_eval_simps demo_simps Let_def)
  then have g: "run_billing_gate demo_gate 5 ''email'' ''bob'' ''acme'' None True 40 demo_pricing demo_db (demo_health, demo_store) =
      (Admitted CreditBilled, (demo_health, demo_store))"
    by (simp add: run_billing_gate_def credit_gate_def demo_gate_def run_floor_def)
  have "run_floor demo_gate 5 True 40 demo_pricing = 40" by (simp add: run_floor_def)
  moreover have "ge_settings demo_gate = default_settings" by (simp add: demo_gate_def)
  ultimately show ?thesis
    using billable_run_funded [OF demo_db_audited _ _ _ _ g, of "''x1''" "''run''"] g by (simp add: demo_gate_def demo_simps)
qed

theorem run_collected_or_queued_witness:
  "\<exists>r d'. dispatch_settlement demo_settle demo_settled CreditBilled 40 [] demo_db = (Inr r, d') \<and> sr_billable r \<and> get_credit_balance ''acme'' d' = 60"
proof -
  obtain r d' where run: "dispatch_settlement demo_settle demo_settled CreditBilled 40 [] demo_db = (Inr r, d')"
    by (simp add: dispatch_settlement_def case_prod_beta)
  have "fst (debit_credit default_settings 5 ''i'' ''acme'' 40 ''run:r'' (Some ''bob'') demo_db) = (True, 40)"
    by (simp add: debit_eval_simps demo_simps Let_def)
  then obtain d1 where "debit_credit default_settings 5 ''i'' ''acme'' 40 ''run:r'' (Some ''bob'') demo_db = ((True, 40), d1)"
    by (cases "debit_credit default_settings 5 ''i'' ''acme'' 40 ''run:r'' (Some ''bob'') demo_db") auto
  then have "sr_billable r"
    using run by (auto simp: dispatch_settlement_def settle_credit_def demo_settle_def demo_settled_def principal_of_def case_prod_beta Let_def)
  moreover have "get_credit_balance ''acme'' demo_db = 100" by (simp add: demo_simps get_credit_balance_def)
  ultimately show ?thesis using run_collected_or_queued [OF run] run by (simp add: bigint_def demo_settled_def demo_simps)
qed

text \<open>One call of a marketplace tool at 10, on a bring-your-own-key run with a fee of 30.\<close>

definition cheap_pricing :: pricing_state where
  "cheap_pricing = demo_pricing\<lparr>pricing_rules := [demo_rule\<lparr>pr_tool_call_cost := 10\<rparr>]\<rparr>"

definition demo_usage :: usage_data where
  "demo_usage = \<lparr>us_tokens_in = 0, us_tokens_out = 0, us_billable_tool_calls = 1, us_billable_tool_names = [''acme/quote''], us_cache_creation_tokens = 0\<rparr>"

lemmas lookup_eval_simps = default_tool_cost_def get_live_pricing_def get_current_pricing_def first_row_def ttl_get_def ttl_load_def
  live_pricing_config_def in_process_config_def from_db_def demo_pricing_def demo_rule_def is_current_def rows_where_def
  resolve_tool_cost_def get_tool_pricing_overrides_def tool_overrides_config_def get_current_tool_overrides_def
  get_org_tool_price_by_qualified_name_def cache_at_def org_price_config_def load_org_tool_price_def demo_pricing_settings_def Let_def

lemma cheap_prices: "default_tool_cost demo_pricing_settings True 9 cheap_pricing = 10" "tool_price demo_pricing_settings True 9 cheap_pricing ''acme/quote'' = 10"
proof -
  show d: "default_tool_cost demo_pricing_settings True 9 cheap_pricing = 10" by (simp add: lookup_eval_simps cheap_pricing_def)
  show "tool_price demo_pricing_settings True 9 cheap_pricing ''acme/quote'' = 10"
    unfolding tool_price_def d by (simp add: lookup_eval_simps cheap_pricing_def)
qed

text \<open>The price of one call and, if nothing happens in between, its allocation.\<close>

lemma one_call_price: "fst (calculate_tool_cost_usdc ps up now 1 [t] s) = tool_price ps up now s t"
  using tool_cost_view(1) [of "[t]" ps up now 1 s] by simp

lemma quote_allocated:
  "fst (compute_marketplace_earnings_allocations ps (\<lambda>_. \<lparr>as_up = up, as_now = now, as_catalogue = (\<lambda>_ _. Some ''auth''), as_moved = f\<rparr>)
     {''acme/quote''} ''org'' [''acme/quote''] False s) =
   (if 0 < tool_price ps up now (f s) ''acme/quote'' then [Allocation ''auth'' ''quote'' ''org'' (tool_price ps up now (f s) ''acme/quote'')] else [])"
  by (simp add: compute_marketplace_earnings_allocations_def case_prod_beta Let_def one_call_price)

theorem allocations_within_charge_witness:
  "\<exists>tools s1 as s3. calculate_tool_cost_usdc demo_pricing_settings True 9 1 [''acme/quote''] cheap_pricing = (tools, s1) \<and>
     compute_marketplace_earnings_allocations demo_pricing_settings (\<lambda>_. demo_alloc) {''acme/quote''} ''org'' [''acme/quote''] False s1 = (as, s3) \<and>
     as = [Allocation ''auth'' ''quote'' ''org'' 10] \<and> sum_list (map alloc_total_cost_usdc as) \<le> tools"
proof -
  obtain tools s1 where 1: "calculate_tool_cost_usdc demo_pricing_settings True 9 1 [''acme/quote''] cheap_pricing = (tools, s1)" by fastforce
  obtain as s3 where 2: "compute_marketplace_earnings_allocations demo_pricing_settings (\<lambda>_. demo_alloc) {''acme/quote''} ''org'' [''acme/quote''] False s1 = (as, s3)"
    by fastforce
  let ?P = "same_prices demo_pricing_settings True 9 cheap_pricing"
  have P: "?P s1" using tool_cost_view(2) [of "[''acme/quote'']" demo_pricing_settings True 9 cheap_pricing 1] 1 by simp
  have hold: "no_price_rises demo_pricing_settings (\<lambda>_. demo_alloc) [''acme/quote''] (tool_price demo_pricing_settings True 9 cheap_pricing) ?P"
    using same_prices_trans [OF _ tool_cost_view(2)] same_prices_view(2) by (auto simp: no_price_rises_def demo_alloc_def)
  have "as = [Allocation ''auth'' ''quote'' ''org'' 10]"
    using quote_allocated [of demo_pricing_settings True 9 "\<lambda>s. s" s1] 2 same_prices_view(2) [OF P] cheap_prices by (simp add: demo_alloc_def)
  then show ?thesis using allocations_within_charge [OF 1 2 hold P] cheap_prices 1 2 by simp
qed

text \<open>
  When a price is raised between the charge and the allocation, here by an override to 5000, the author is
  allocated more than the caller was charged for the call.
\<close>

lemma allocation_may_exceed_charge:
  "\<exists>s1. calculate_tool_cost_usdc demo_pricing_settings True 9 1 [''acme/quote''] cheap_pricing = (10, s1) \<and>
     fst (compute_marketplace_earnings_allocations demo_pricing_settings
       (\<lambda>_. demo_alloc\<lparr>as_moved := (\<lambda>s. snd (upsert_tool_pricing_override ''acme/quote'' 5000 s))\<rparr>) {''acme/quote''} ''org'' [''acme/quote''] False s1) =
       [Allocation ''auth'' ''quote'' ''org'' 5000]"
proof -
  obtain tools s1 where 1: "calculate_tool_cost_usdc demo_pricing_settings True 9 1 [''acme/quote''] cheap_pricing = (tools, s1)" by fastforce
  then have "tools = 10" using one_call_price [of demo_pricing_settings True 9 "''acme/quote''" cheap_pricing] cheap_prices by simp
  have "tool_price demo_pricing_settings True 9 (snd (upsert_tool_pricing_override ''acme/quote'' 5000 s)) ''acme/quote'' = 5000" for s
  proof -
    let ?s = "snd (upsert_tool_pricing_override ''acme/quote'' 5000 s)"
    have "tool_pricing_overrides ?s ''acme/quote'' = Some 5000" "tool_overrides_cache ?s = empty_cache"
      by (simp_all add: upsert_tool_pricing_override_def bigint_def ttl_invalidate_def)
    then show ?thesis by (simp add: tool_price_def overrides_reloaded resolve_tool_cost_def)
  qed
  then show ?thesis
    using 1 \<open>tools = 10\<close> quote_allocated [of demo_pricing_settings True 9 "\<lambda>s. snd (upsert_tool_pricing_override ''acme/quote'' 5000 s)" s1]
    by (simp add: demo_alloc_def)
qed

theorem run_pays_authors_once_witness:
  "\<exists>r tasks s' d'. run_agent_once demo_settle demo_context demo_settled CreditBilled (GraphDone ''hi'' False [] demo_usage) (cheap_pricing, demo_db) =
       (Inr r, tasks, s', d') \<and>
     tasks = [\<lparr>et_author = ''auth'', et_tool = ''quote'', et_caller = ''acme'', et_cost = 10\<rparr>] \<and> get_credit_balance ''acme'' d' = 60"
proof -
  let ?run = "run_agent_once demo_settle demo_context demo_settled CreditBilled (GraphDone ''hi'' False [] demo_usage) (cheap_pricing, demo_db)"
  obtain cost s1 where cost: "calculate_run_cost demo_pricing_settings (\<lambda>_. None) True 9 (rc_model demo_context) True 30 [] demo_usage cheap_pricing = (cost, s1)"
    by fastforce
  obtain s0 where s0: "calculate_tool_cost_usdc demo_pricing_settings True 9 1 [''acme/quote''] cheap_pricing = (10, s0)"
    using one_call_price [of demo_pricing_settings True 9 "''acme/quote''" cheap_pricing] cheap_prices(2) by (metis prod.collapse)
  then have c: "cost = 40" "s1 = s0" using cost by (simp_all add: calculate_run_cost_def demo_context_def demo_usage_def)
  let ?alloc = "compute_marketplace_earnings_allocations demo_pricing_settings (\<lambda>_. demo_alloc) {''acme/quote''} ''acme'' [''acme/quote''] False s1"
  have same: "same_prices demo_pricing_settings True 9 cheap_pricing s1"
    using tool_cost_view(2) [of "[''acme/quote'']" demo_pricing_settings True 9 cheap_pricing 1] s0 c(2) by simp
  have "fst ?alloc = [Allocation ''auth'' ''quote'' ''acme'' 10]"
    using same_prices_view(2) [OF same] cheap_prices
    by (simp add: compute_marketplace_earnings_allocations_def case_prod_beta Let_def one_call_price demo_alloc_def)
  then obtain s2 where alloc: "?alloc = ([Allocation ''auth'' ''quote'' ''acme'' 10], s2)" by (metis prod.collapse)
  let ?d = "record_usage_event ''u'' 40 demo_db"
  obtain r d' where settle: "dispatch_settlement demo_settle demo_settled CreditBilled 40 [Allocation ''auth'' ''quote'' ''acme'' 10] ?d = (Inr r, d')"
    by (simp add: dispatch_settlement_def case_prod_beta)
  have "fst (debit_credit default_settings 5 ''i'' ''acme'' 40 ''run:r'' (Some ''bob'') ?d) = (True, 40)"
    by (simp add: debit_eval_simps demo_simps record_usage_event_def bigint_def Let_def)
  then obtain d1 where "debit_credit default_settings 5 ''i'' ''acme'' 40 ''run:r'' (Some ''bob'') ?d = ((True, 40), d1)" by (metis prod.collapse)
  then have "sr_billable r"
    using settle by (auto simp: dispatch_settlement_def settle_credit_def demo_settle_def demo_settled_def principal_of_def case_prod_beta Let_def)
  then obtain ar where run: "?run = (Inr ar, [\<lparr>et_author = ''auth'', et_tool = ''quote'', et_caller = ''acme'', et_cost = 10\<rparr>], s2, d')" "ar_cost_usdc ar = 40"
    using cost c alloc settle
    by (simp add: run_agent_once_def promotional_run_def demo_context_def demo_settled_def demo_usage_def Let_def)
  have "get_credit_balance ''acme'' ?d = 100" by (simp add: get_credit_balance_def demo_simps record_usage_event_def)
  moreover have "rc_meanwhile demo_context x = x" for x by (simp add: demo_context_def)
  ultimately have "get_credit_balance ''acme'' d' = 60"
    using run_pays_authors_once [OF run(1)] run(2) by (simp add: Let_def demo_settled_def)
  with run(1) show ?thesis by blast
qed

end
