(* ===== verification/Inbound.thy ===== *)
theory Inbound
  imports Runs Schedules Mpp
begin

text \<open>
  Inbound agent-to-agent messages: the task table with its leases, claims, recovery and retention
  (\<^verbatim>\<open>teardrop/a2a_tasks.py\<close>), the worker pool of a process, and the endpoints that accept a message, run it
  synchronously or as a task, and report its status (\<^verbatim>\<open>teardrop/routers/a2a_messages.py\<close>).

  Every operation names the process that performs it (\<open>owner\<close>), so a history interleaves any number of
  processes. The agent, the normal form of a message, token decoding and rate limits are arguments.

  The lemmas show that a task runs at most once, that its result is final, that a repeated client task id
  finds the same task, that tasks are read only by their callers, and that a paid result is handed out only
  after its payment settled.
\<close>

section \<open>The task table\<close>

datatype inbound_state = InSubmitted | InRunning | InCompleted | InFailed | InTimeout | InRejectedPayment | InRejectedCredit

definition terminal_inbound_states :: "inbound_state list" where
  "terminal_inbound_states = [InCompleted, InFailed, InTimeout, InRejectedPayment, InRejectedCredit]"

record inbound_task =
  it_id :: ident
  it_run_id :: ident
  it_client_task_id :: string
  it_context_id :: string
  it_message :: json
  it_metadata :: json
  it_user_message :: string
  it_caller_org_id :: ident
  it_caller_user_id :: ident
  it_caller_ip :: string
  it_auth_method :: string
  it_state :: inbound_state
  it_output_text :: string
  it_error :: string
  it_usage_event_id :: "ident option"
  it_cost_usdc :: usdc
  it_settlement_tx :: string
  it_billing_method :: string
  it_settlement_amount_usdc :: usdc
  it_duration_ms :: int
  it_owner :: ident
  it_lease_expires_at :: "instant option"
  it_created_at :: instant
  it_started_at :: "instant option"
  it_finished_at :: "instant option"

record inbound_event =
  ie_id :: ident
  ie_run_id :: ident
  ie_usage_event_id :: "ident option"
  ie_caller_org_id :: ident
  ie_caller_user_id :: ident
  ie_caller_address :: string
  ie_caller_ip :: string
  ie_auth_method :: string
  ie_context_id :: string
  ie_task_id :: ident
  ie_task_state :: inbound_state
  ie_cost_usdc :: usdc
  ie_settlement_amount_usdc :: usdc
  ie_settlement_tx :: string
  ie_billing_method :: string
  ie_duration_ms :: int
  ie_error :: string

record inbound_db =
  ib_tasks :: "inbound_task list"
  ib_events :: "inbound_event list"

definition interruption_error :: string where
  "interruption_error = ''Task interrupted before its result was persisted.''"

definition task_active :: "inbound_task \<Rightarrow> bool" where
  "task_active t \<longleftrightarrow> it_state t \<in> {InSubmitted, InRunning}"

text \<open>The two partial unique indexes on the client's task id, and the keys.\<close>

definition same_client_task :: "inbound_task \<Rightarrow> inbound_task \<Rightarrow> bool" where
  "same_client_task a b \<longleftrightarrow> it_client_task_id a \<noteq> [] \<and> it_client_task_id b = it_client_task_id a \<and>
     ((it_caller_org_id a \<noteq> [] \<and> it_caller_user_id a \<noteq> [] \<and> it_caller_org_id b = it_caller_org_id a \<and> it_caller_user_id b = it_caller_user_id a) \<or>
      (it_caller_org_id a = [] \<and> it_caller_user_id a = [] \<and> it_caller_org_id b = [] \<and> it_caller_user_id b = [] \<and> it_caller_ip b = it_caller_ip a))"

definition task_conflict :: "inbound_task \<Rightarrow> inbound_task \<Rightarrow> bool" where
  "task_conflict a b \<longleftrightarrow> it_id b = it_id a \<or> it_run_id b = it_run_id a \<or> same_client_task a b"

definition insert_inbound_task :: "inbound_task \<Rightarrow> inbound_db \<Rightarrow> py_error + (bool \<times> inbound_db)" where
  "insert_inbound_task t s =
    (if 256 < length (it_client_task_id t) \<or> 256 < length (it_context_id t) then Inl (DbError CheckViolation)
     else if exists_where (task_conflict t) (ib_tasks s) then Inr (False, s)
     else Inr (True, s\<lparr>ib_tasks := ib_tasks s @ [t]\<rparr>))"

section \<open>Operations\<close>

record task_request =
  tq_client_task_id :: "string option"
  tq_context_id :: "string option"
  tq_message :: json
  tq_metadata :: json
  tq_user_message :: string

record caller =
  cl_org_id :: ident
  cl_user_id :: ident
  cl_ip :: string
  cl_auth_method :: string

definition text_or_empty :: "string option \<Rightarrow> string" where
  "text_or_empty x = (case x of Some s \<Rightarrow> s | None \<Rightarrow> [])"

definition new_inbound_task :: "instant \<Rightarrow> ident \<Rightarrow> int \<Rightarrow> ident \<Rightarrow> ident \<Rightarrow> task_request \<Rightarrow> caller \<Rightarrow> inbound_task" where
  "new_inbound_task now owner lease_seconds task_id run_id q c =
    \<lparr>it_id = task_id, it_run_id = run_id, it_client_task_id = text_or_empty (tq_client_task_id q), it_context_id = text_or_empty (tq_context_id q),
     it_message = tq_message q, it_metadata = tq_metadata q, it_user_message = tq_user_message q, it_caller_org_id = cl_org_id c,
     it_caller_user_id = cl_user_id c, it_caller_ip = cl_ip c,
     it_auth_method = (if cl_auth_method c = [] then ''anonymous'' else cl_auth_method c), it_state = InSubmitted, it_output_text = [],
     it_error = [], it_usage_event_id = None, it_cost_usdc = 0, it_settlement_tx = [], it_billing_method = [],
     it_settlement_amount_usdc = 0, it_duration_ms = 0, it_owner = owner, it_lease_expires_at = Some (now + seconds lease_seconds),
     it_created_at = now, it_started_at = None, it_finished_at = None\<rparr>"

definition first_created :: "(inbound_task \<Rightarrow> bool) \<Rightarrow> inbound_db \<Rightarrow> inbound_task option" where
  "first_created p s = first_row (sort_key (\<lambda>t. (it_created_at t, it_id t)) (rows_where p (ib_tasks s)))"

definition create_inbound_task ::
  "instant \<Rightarrow> ident \<Rightarrow> int \<Rightarrow> ident \<Rightarrow> ident \<Rightarrow> task_request \<Rightarrow> caller \<Rightarrow> inbound_db \<Rightarrow> py_error + ((inbound_task \<times> bool) \<times> inbound_db)" where
  "create_inbound_task now owner lease_seconds task_id run_id q c s =
    (let t = new_inbound_task now owner lease_seconds task_id run_id q c; client = it_client_task_id t in
     bindE (insert_inbound_task t s) (\<lambda>(inserted, s1).
       if inserted then Inr ((t, True), s1)
       else if client = [] then Inl (RuntimeError ''Inbound A2A task insert was not applied'')
       else case first_created
              (if cl_org_id c \<noteq> [] \<and> cl_user_id c \<noteq> []
               then (\<lambda>x. it_caller_org_id x = cl_org_id c \<and> it_caller_user_id x = cl_user_id c \<and> it_client_task_id x = client)
               else (\<lambda>x. it_caller_org_id x = [] \<and> it_caller_user_id x = [] \<and> it_caller_ip x = cl_ip c \<and> it_client_task_id x = client)) s1 of
              None \<Rightarrow> Inl (RuntimeError ''Inbound A2A task insert conflict could not be resolved'')
            | Some x \<Rightarrow> Inr ((x, False), s1)))"

definition get_inbound_task :: "ident \<Rightarrow> ident option \<Rightarrow> ident option \<Rightarrow> bool \<Rightarrow> inbound_db \<Rightarrow> inbound_task option" where
  "get_inbound_task task_id org user anonymous_only s =
    (if anonymous_only then find (\<lambda>t. it_id t = task_id \<and> it_caller_org_id t = [] \<and> it_caller_user_id t = []) (ib_tasks s)
     else if org = None \<and> user = None then find (\<lambda>t. it_id t = task_id) (ib_tasks s)
     else if truthy org \<and> truthy user
     then find (\<lambda>t. it_id t = task_id \<and> Some (it_caller_org_id t) = org \<and> Some (it_caller_user_id t) = user) (ib_tasks s)
     else None)"

definition update_tasks :: "(inbound_task \<Rightarrow> bool) \<Rightarrow> (inbound_task \<Rightarrow> inbound_task) \<Rightarrow> inbound_db \<Rightarrow> inbound_task option \<times> inbound_db" where
  "update_tasks p f s = (map_option f (find p (ib_tasks s)), s\<lparr>ib_tasks := update_where p f (ib_tasks s)\<rparr>)"

definition claim_inbound_task :: "instant \<Rightarrow> ident \<Rightarrow> int \<Rightarrow> ident \<Rightarrow> inbound_db \<Rightarrow> inbound_task option \<times> inbound_db" where
  "claim_inbound_task now owner lease_seconds task_id =
     update_tasks (\<lambda>t. it_id t = task_id \<and> it_state t = InSubmitted \<and> it_owner t = owner \<and> (\<exists>e \<in> set_option (it_lease_expires_at t). now < e))
       (\<lambda>t. t\<lparr>it_state := InRunning, it_started_at := (case it_started_at t of None \<Rightarrow> Some now | x \<Rightarrow> x),
              it_lease_expires_at := Some (now + seconds lease_seconds)\<rparr>)"

definition renew_inbound_task_leases :: "instant \<Rightarrow> ident \<Rightarrow> int \<Rightarrow> inbound_db \<Rightarrow> nat \<times> inbound_db" where
  "renew_inbound_task_leases now owner lease_seconds s =
    (let mine = (\<lambda>t. it_owner t = owner \<and> task_active t)
     in (length (rows_where mine (ib_tasks s)),
         s\<lparr>ib_tasks := update_where mine (\<lambda>t. t\<lparr>it_lease_expires_at := Some (now + seconds lease_seconds)\<rparr>) (ib_tasks s)\<rparr>))"

definition mark_inbound_task_billing_method :: "ident \<Rightarrow> string \<Rightarrow> inbound_db \<Rightarrow> py_error + inbound_db" where
  "mark_inbound_task_billing_method task_id meth s =
    (if meth \<notin> {''credit'', ''x402''} then Inl (ValueError ''Unsupported billing method'')
     else Inr (s\<lparr>ib_tasks := update_where (\<lambda>t. it_id t = task_id \<and> it_state t = InRunning) (\<lambda>t. t\<lparr>it_billing_method := meth\<rparr>) (ib_tasks s)\<rparr>))"

record task_outcome =
  to_state :: inbound_state
  to_output_text :: string
  to_error :: string
  to_usage_event_id :: "ident option"
  to_cost_usdc :: usdc
  to_settlement_tx :: string
  to_billing_method :: string
  to_settlement_amount_usdc :: usdc
  to_duration_ms :: int

definition interrupted :: "inbound_task \<Rightarrow> bool" where
  "interrupted t \<longleftrightarrow> it_state t = InFailed \<and> it_error t = interruption_error"

definition may_finish :: "ident \<Rightarrow> ident \<Rightarrow> task_outcome \<Rightarrow> inbound_task \<Rightarrow> bool" where
  "may_finish owner task_id x t \<longleftrightarrow> it_id t = task_id \<and> it_owner t = owner \<and>
     (task_active t \<or> (interrupted t \<and> (take 65536 (to_output_text x) \<noteq> [] \<or> take 1024 (to_error x) \<noteq> [])))"

definition finished_task :: "instant \<Rightarrow> task_outcome \<Rightarrow> inbound_task \<Rightarrow> inbound_task" where
  "finished_task now x t =
     t\<lparr>it_state := to_state x, it_output_text := take 65536 (to_output_text x),
       it_error := (if interrupted t \<and> to_state x = InCompleted \<and> take 1024 (to_error x) = [] then interruption_error else take 1024 (to_error x)),
       it_usage_event_id := to_usage_event_id x, it_cost_usdc := max 0 (to_cost_usdc x), it_settlement_tx := to_settlement_tx x,
       it_billing_method := to_billing_method x, it_settlement_amount_usdc := max 0 (to_settlement_amount_usdc x),
       it_duration_ms := max 0 (to_duration_ms x), it_finished_at := (case it_finished_at t of None \<Rightarrow> Some now | y \<Rightarrow> y),
       it_lease_expires_at := Some now\<rparr>"

definition finish_inbound_task :: "instant \<Rightarrow> ident \<Rightarrow> ident \<Rightarrow> task_outcome \<Rightarrow> inbound_db \<Rightarrow> py_error + (inbound_task option \<times> inbound_db)" where
  "finish_inbound_task now owner task_id x s =
    (if to_state x \<notin> set terminal_inbound_states then Inl (ValueError ''Task state is not terminal'')
     else if \<not> bigint (max 0 (to_cost_usdc x)) \<or> \<not> bigint (max 0 (to_settlement_amount_usdc x)) \<or> \<not> int4 (max 0 (to_duration_ms x))
     then Inl (DbError DataError)
     else Inr (update_tasks (may_finish owner task_id x) (finished_task now x) s))"

section \<open>Recovery and retention\<close>

text \<open>\<open>locked\<close>: tasks that other transactions hold. One clock reading per statement.\<close>

definition orphaned :: "instant \<Rightarrow> ident \<Rightarrow> ident set \<Rightarrow> inbound_task \<Rightarrow> bool" where
  "orphaned now owner locked t \<longleftrightarrow> task_active t \<and> (\<exists>e \<in> set_option (it_lease_expires_at t). e \<le> now) \<and> it_owner t \<noteq> owner \<and> it_id t \<notin> locked"

definition interrupt_task :: "instant \<Rightarrow> inbound_task \<Rightarrow> inbound_task" where
  "interrupt_task now t = t\<lparr>it_state := InFailed, it_output_text := [], it_error := interruption_error,
     it_finished_at := (case it_finished_at t of None \<Rightarrow> Some now | y \<Rightarrow> y), it_lease_expires_at := Some now\<rparr>"

definition orphan_batch :: "instant \<Rightarrow> ident \<Rightarrow> ident set \<Rightarrow> nat \<Rightarrow> inbound_db \<Rightarrow> inbound_task list" where
  "orphan_batch now owner locked n s =
     take n (sort_key (\<lambda>t. (it_created_at t, it_id t)) (rows_where (orphaned now owner locked) (ib_tasks s)))"

definition recover_batch :: "instant \<Rightarrow> ident \<Rightarrow> ident set \<Rightarrow> nat \<Rightarrow> inbound_db \<Rightarrow> inbound_task list \<times> inbound_db" where
  "recover_batch now owner locked n s =
    (let batch = orphan_batch now owner locked n s
     in (map (interrupt_task now) batch, s\<lparr>ib_tasks := update_where (\<lambda>t. t \<in> set batch) (interrupt_task now) (ib_tasks s)\<rparr>))"

partial_function (option) recover_loop ::
  "(nat \<Rightarrow> 's \<Rightarrow> 't list \<times> 's) \<Rightarrow> nat \<Rightarrow> nat \<Rightarrow> 't list \<Rightarrow> 's \<Rightarrow> ('t list \<times> 's) option" where
  "recover_loop batch n k acc s =
    (case batch k s of (rows, s') \<Rightarrow>
       if length rows < n then Some (acc @ rows, s')
       else recover_loop batch n (Suc k) (acc @ rows) s')"

definition recover_orphaned_inbound_tasks ::
  "(nat \<Rightarrow> instant) \<Rightarrow> ident \<Rightarrow> (nat \<Rightarrow> ident set) \<Rightarrow> int \<Rightarrow> inbound_db \<Rightarrow> (inbound_task list \<times> inbound_db) option" where
  "recover_orphaned_inbound_tasks clock owner locked n s =
    (if n \<le> 0 then Some ([], s)
     else recover_loop (\<lambda>k. recover_batch (clock k) owner (locked k) (nat n)) (nat n) 0 [] s)"

definition old_terminal :: "instant \<Rightarrow> int \<Rightarrow> ident set \<Rightarrow> inbound_task \<Rightarrow> bool" where
  "old_terminal now ttl_days locked t \<longleftrightarrow> \<not> task_active t \<and> it_created_at t < now - days ttl_days \<and> it_id t \<notin> locked"

definition old_batch :: "instant \<Rightarrow> ident set \<Rightarrow> int \<Rightarrow> nat \<Rightarrow> inbound_db \<Rightarrow> inbound_task list" where
  "old_batch now locked ttl_days n s =
     take n (sort_key (\<lambda>t. (it_created_at t, it_id t)) (rows_where (old_terminal now ttl_days locked) (ib_tasks s)))"

definition delete_terminal_inbound_tasks :: "instant \<Rightarrow> ident set \<Rightarrow> int \<Rightarrow> int \<Rightarrow> inbound_db \<Rightarrow> nat \<times> inbound_db" where
  "delete_terminal_inbound_tasks now locked ttl_days n s =
    (if ttl_days \<le> 0 \<or> n \<le> 0 then (0, s)
     else (let old = old_batch now locked ttl_days (nat n) s
           in (length old, s\<lparr>ib_tasks := rows_where (\<lambda>t. t \<notin> set old) (ib_tasks s)\<rparr>)))"

definition cleanup_terminal_inbound_tasks ::
  "(nat \<Rightarrow> instant) \<Rightarrow> (nat \<Rightarrow> ident set) \<Rightarrow> int \<Rightarrow> int \<Rightarrow> inbound_db \<Rightarrow> (nat \<times> inbound_db) option" where
  "cleanup_terminal_inbound_tasks clock locked ttl_days n s =
     delete_ttl_rows (\<lambda>k. delete_terminal_inbound_tasks (clock k) (locked k) ttl_days n) (nat n) 0 0 s"

section \<open>Audit rows\<close>

text \<open>An audit row that cannot be inserted is logged and dropped.\<close>

definition record_inbound_event :: "bool \<Rightarrow> inbound_event \<Rightarrow> inbound_db \<Rightarrow> inbound_db" where
  "record_inbound_event up e s =
    (let e' = e\<lparr>ie_settlement_amount_usdc := max 0 (ie_settlement_amount_usdc e), ie_error := take 1024 (ie_error e)\<rparr> in
     if \<not> up \<or> exists_where (\<lambda>x. ie_id x = ie_id e) (ib_events s) \<or> ie_task_state e \<notin> set terminal_inbound_states \<or>
        \<not> bigint (ie_cost_usdc e') \<or> \<not> bigint (ie_settlement_amount_usdc e') \<or> \<not> int4 (ie_duration_ms e')
     then s
     else s\<lparr>ib_events := ib_events s @ [e']\<rparr>)"

definition task_event :: "ident \<Rightarrow> inbound_task \<Rightarrow> inbound_state \<Rightarrow> usdc \<Rightarrow> inbound_event" where
  "task_event i t stt cost =
    \<lparr>ie_id = i, ie_run_id = it_run_id t, ie_usage_event_id = it_usage_event_id t, ie_caller_org_id = it_caller_org_id t,
     ie_caller_user_id = it_caller_user_id t, ie_caller_address = [], ie_caller_ip = it_caller_ip t, ie_auth_method = it_auth_method t,
     ie_context_id = it_context_id t, ie_task_id = it_id t, ie_task_state = stt, ie_cost_usdc = cost,
     ie_settlement_amount_usdc = it_settlement_amount_usdc t, ie_settlement_tx = it_settlement_tx t, ie_billing_method = it_billing_method t,
     ie_duration_ms = it_duration_ms t, ie_error = it_error t\<rparr>"

text \<open>\<open>usage_cost\<close>: the cost of a usage row, \<open>None\<close> when there is no such row or the query fails.\<close>

fun record_recovered_a2a_task_audits ::
  "(ident \<Rightarrow> usdc option) \<Rightarrow> bool \<Rightarrow> (nat \<Rightarrow> ident) \<Rightarrow> nat \<Rightarrow> inbound_task list \<Rightarrow> inbound_db \<Rightarrow> inbound_db" where
  "record_recovered_a2a_task_audits usage_cost up ids k [] s = s"
| "record_recovered_a2a_task_audits usage_cost up ids k (t # ts) s =
    (let cost = (case it_usage_event_id t of
                   None \<Rightarrow> max 0 (it_cost_usdc t)
                 | Some u \<Rightarrow> (case (if u = [] then None else usage_cost u) of None \<Rightarrow> max 0 (it_cost_usdc t) | Some c \<Rightarrow> max 0 c))
     in record_recovered_a2a_task_audits usage_cost up ids (Suc k) ts
          (record_inbound_event up (task_event (ids k) t InFailed cost) s))"

section \<open>Running a task\<close>

record auth_payload =
  ap_org_id :: ident
  ap_sub :: ident
  ap_auth_method :: string

record inbound_job =
  jb_task :: inbound_task
  jb_payload :: "auth_payload option"
  jb_header :: string
  jb_requirements :: "payment_requirement list option"

text \<open>What a process works on; \<open>iw_spawned\<close> are the background tasks that record earnings, to be run elsewhere.\<close>

record inbound_world =
  iw_tasks :: inbound_db
  iw_db :: db
  iw_prices :: pricing_state
  iw_spawned :: "earnings_task list"
  iw_pay :: "facilitator_health \<times> nonce_store"

text \<open>How the call of the agent ends: no slot was free, the task was cancelled, something raised, or the graph ran.\<close>

datatype inbound_call = NoCapacity | CallCancelled | CallRaises | CallRuns graph_outcome

text \<open>
  The world of one task. \<open>in_left\<close> is what an on-chain settlement left in the billing result (transaction and
  amount) when the call ended early; \<open>in_payer\<close> reads the payer attribute of an SDK payload; \<open>in_refusal\<close> and
  \<open>in_402\<close> give the texts of refusals.
\<close>

record inbound_env =
  in_owner :: ident
  in_lease_seconds :: int
  in_claimed_at :: instant
  in_finished_at :: instant
  in_event_id :: ident
  in_events_up :: bool
  in_gate :: gate_env
  in_settle :: settle_env
  in_context :: run_context
  in_usage_id :: ident
  in_call :: inbound_call
  in_left :: "string \<times> usdc"
  in_payer :: "payment_payload \<Rightarrow> string"
  in_refusal :: "credit_refusal \<Rightarrow> string"
  in_402 :: "string option \<Rightarrow> string"
  in_release_up :: bool
  in_duration_ms :: int

definition settlement_withheld :: string where
  "settlement_withheld = ''Payment settlement failed; the task result was withheld.''"

definition is_x402 :: "run_billing \<Rightarrow> bool" where
  "is_x402 b \<longleftrightarrow> (case b of X402Billed _ \<Rightarrow> True | _ \<Rightarrow> False)"

definition x402_result_withheld :: "run_billing \<Rightarrow> agent_result \<Rightarrow> bool" where
  "x402_result_withheld b r \<longleftrightarrow> is_x402 b \<and> ar_task_state r = RunDone \<and> ar_settlement_tx r = []"

definition payment_caller_address :: "inbound_env \<Rightarrow> run_billing \<Rightarrow> string" where
  "payment_caller_address env b =
    (case b of X402Billed x \<Rightarrow> (case br_payload x of None \<Rightarrow> [] | Some p \<Rightarrow> py_strip (in_payer env p)) | _ \<Rightarrow> [])"

definition billing_label :: "run_billing \<Rightarrow> inbound_state \<Rightarrow> string" where
  "billing_label b stt =
    (case b of
       CreditBilled \<Rightarrow> ''credit''
     | X402Billed _ \<Rightarrow> ''x402''
     | Unbilled \<Rightarrow> (case stt of InRejectedPayment \<Rightarrow> ''x402'' | InRejectedCredit \<Rightarrow> ''credit'' | _ \<Rightarrow> []))"

definition billing_left :: "inbound_env \<Rightarrow> run_billing \<Rightarrow> string \<times> usdc" where
  "billing_left env b = (if is_x402 b then in_left env else ([], 0))"

text \<open>Persist the outcome and, when the row was this process's to finish, append its audit row.\<close>

definition finish_async_task ::
  "inbound_env \<Rightarrow> inbound_task \<Rightarrow> inbound_state \<Rightarrow> string \<Rightarrow> string \<Rightarrow> run_billing \<Rightarrow> ident option \<Rightarrow> usdc \<Rightarrow> usdc option \<Rightarrow>
   string option \<Rightarrow> int \<Rightarrow> inbound_db \<Rightarrow> py_error + inbound_db" where
  "finish_async_task env t stt out err b usage cost amount tx duration s =
    (let tx' = (case tx of Some x \<Rightarrow> x | None \<Rightarrow> fst (billing_left env b));
         amount' = max 0 (case amount of Some x \<Rightarrow> x | None \<Rightarrow> snd (billing_left env b));
         x = \<lparr>to_state = stt, to_output_text = out, to_error = err, to_usage_event_id = usage, to_cost_usdc = cost, to_settlement_tx = tx',
              to_billing_method = billing_label b stt, to_settlement_amount_usdc = amount', to_duration_ms = duration\<rparr>
     in bindE (finish_inbound_task (in_finished_at env) (in_owner env) (it_id t) x s) (\<lambda>(row, s1).
          case row of
            None \<Rightarrow> Inr s1
          | Some _ \<Rightarrow>
              Inr (record_inbound_event (in_events_up env)
                ((task_event (in_event_id env) t stt (max 0 cost))\<lparr>ie_usage_event_id := usage, ie_caller_address := payment_caller_address env b,
                   ie_settlement_amount_usdc := amount', ie_settlement_tx := tx', ie_billing_method := billing_label b stt,
                   ie_duration_ms := max 0 duration, ie_error := err\<rparr>) s1)))"

definition inbound_result_state :: "task_state \<Rightarrow> inbound_state" where
  "inbound_result_state ts = (case ts of RunDone \<Rightarrow> InCompleted | RunBroken \<Rightarrow> InFailed | RunTimedOut \<Rightarrow> InTimeout)"

definition a2a_run :: "inbound_env \<Rightarrow> ident \<Rightarrow> ident \<Rightarrow> ident \<Rightarrow> settled_run" where
  "a2a_run env org user run_id =
    \<lparr>st_usage_id = in_usage_id env, st_org_id = org, st_principal_id = user, st_run_id = run_id, st_source = ''a2a'', st_enqueue_x402 = False\<rparr>"

datatype admission = Admit run_billing | RejectPayment string | RejectCredit string

text \<open>The billing of an inbound message: anonymous callers pay on chain, authenticated ones pass the run gate.\<close>

definition admit_inbound ::
  "inbound_env \<Rightarrow> auth_payload option \<Rightarrow> string \<Rightarrow> payment_requirement list option \<Rightarrow> ident \<Rightarrow> inbound_world \<Rightarrow> admission \<times> inbound_world" where
  "admit_inbound env payload header reqs org w =
    (let g = in_gate env in
     case payload of
       None \<Rightarrow>
         if ge_billing_enabled g
         then (case verify_payment (ge_hash g) (ge_parse g) (ge_verify g) (case reqs of Some r \<Rightarrow> r | None \<Rightarrow> ge_requirements g) header (iw_pay w) of
                 (b, hs) \<Rightarrow> (if br_verified b then Admit (X402Billed b) else RejectPayment (br_error b), w\<lparr>iw_pay := hs\<rparr>))
         else (Admit Unbilled, w)
     | Some p \<Rightarrow>
         (case run_billing_gate g (in_claimed_at env) (ap_auth_method p) (ap_sub p) org (if header = [] then None else Some header)
             (rc_is_byok (in_context env)) (rc_platform_fee (in_context env)) (iw_prices w) (iw_db w) (iw_pay w) of
            (Admitted b, hs) \<Rightarrow> (Admit b, w\<lparr>iw_pay := hs\<rparr>)
          | (CreditRefused why, hs) \<Rightarrow> (RejectCredit (in_refusal env why), w\<lparr>iw_pay := hs\<rparr>)
          | (PaymentRequired e, hs) \<Rightarrow> (RejectPayment (in_402 env e), w\<lparr>iw_pay := hs\<rparr>)))"

datatype task_exception = CapacityExhausted | TaskCancelled | TaskRaised

definition call_agent ::
  "inbound_env \<Rightarrow> settled_run \<Rightarrow> run_billing \<Rightarrow> inbound_world \<Rightarrow> (task_exception + agent_result) \<times> inbound_world" where
  "call_agent env run b w =
    (case in_call env of
       NoCapacity \<Rightarrow> (Inl CapacityExhausted, w)
     | CallCancelled \<Rightarrow> (Inl TaskCancelled, w)
     | CallRaises \<Rightarrow> (Inl TaskRaised, w)
     | CallRuns graph \<Rightarrow>
         (case run_agent_once (in_settle env) (in_context env) run b graph (iw_prices w, iw_db w) of
            (Inl _, _, ps, d) \<Rightarrow> (Inl TaskRaised, w\<lparr>iw_prices := ps, iw_db := d\<rparr>)
          | (Inr r, tasks, ps, d) \<Rightarrow> (Inr r, w\<lparr>iw_prices := ps, iw_db := d, iw_spawned := iw_spawned w @ tasks\<rparr>)))"

definition shown_text :: "agent_result \<Rightarrow> string" where
  "shown_text r = (if ar_task_state r = RunTimedOut then ''Task failed.'' else ar_output_text r)"

definition result_error :: "agent_result \<Rightarrow> string" where
  "result_error r = (if ar_task_state r = RunDone then [] else ar_output_text r)"

definition on_tasks :: "(inbound_db \<Rightarrow> py_error + inbound_db) \<Rightarrow> inbound_world \<Rightarrow> (py_error + unit) \<times> inbound_world" where
  "on_tasks f w = (case f (iw_tasks w) of Inl e \<Rightarrow> (Inl e, w) | Inr s \<Rightarrow> (Inr (), w\<lparr>iw_tasks := s\<rparr>))"

text \<open>The body of the \<^verbatim>\<open>try\<close>, with the billing result it leaves behind.\<close>

definition inbound_task_body ::
  "inbound_env \<Rightarrow> inbound_job \<Rightarrow> inbound_task \<Rightarrow> inbound_world \<Rightarrow> (task_exception + unit) \<times> run_billing \<times> inbound_world" where
  "inbound_task_body env job t w =
    (let settled = (\<lambda>b (r, w). (case r of Inl (_ :: py_error) \<Rightarrow> Inl TaskRaised | Inr _ \<Rightarrow> Inr (), b, w));
         org = it_caller_org_id (jb_task job)
     in case admit_inbound env (jb_payload job) (jb_header job) (jb_requirements job) org w of
          (RejectPayment e, w1) \<Rightarrow>
            (let e' = (if jb_payload job = None then e else py_or e ''Payment required'')
             in settled Unbilled (on_tasks (finish_async_task env t InRejectedPayment e' e' Unbilled None 0 None None 0) w1))
        | (RejectCredit e, w1) \<Rightarrow> settled Unbilled (on_tasks (finish_async_task env t InRejectedCredit e e Unbilled None 0 None None 0) w1)
        | (Admit b, w1) \<Rightarrow>
            (case (if b = Unbilled then (Inr (), w1)
                   else on_tasks (mark_inbound_task_billing_method (it_id (jb_task job)) (if is_x402 b then ''x402'' else ''credit'')) w1) of
               (Inl _, w2) \<Rightarrow> (Inl TaskRaised, b, w2)
             | (Inr _, w2) \<Rightarrow>
                 (case call_agent env (a2a_run env org (it_caller_user_id (jb_task job)) (it_run_id (jb_task job))) b w2 of
                    (Inl e, w3) \<Rightarrow> (Inl e, b, w3)
                  | (Inr r, w3) \<Rightarrow>
                      (let held = x402_result_withheld b r
                       in settled b (on_tasks (finish_async_task env t
                            (if held then InRejectedPayment else inbound_result_state (ar_task_state r))
                            (if held then settlement_withheld else shown_text r)
                            (if held then settlement_withheld else result_error r)
                            b (Some (in_usage_id env)) (ar_cost_usdc r) (Some (max 0 (ar_settlement_amount_usdc r)))
                            (Some (ar_settlement_tx r)) (in_duration_ms env)) w3)))))"

definition release_claim :: "inbound_env \<Rightarrow> string \<Rightarrow> run_billing \<Rightarrow> inbound_world \<Rightarrow> (py_error + unit) \<times> inbound_world" where
  "release_claim env header b w =
    (if header = [] \<or> b = CreditBilled then (Inr (), w)
     else case iw_pay w of (h, s) \<Rightarrow>
       (case release_nonce (in_release_up env) (payment_nonce_hash (ge_hash (in_gate env)) (ge_parse (in_gate env)) header) s of
          (r, s') \<Rightarrow> (r, w\<lparr>iw_pay := (h, s')\<rparr>)))"

text \<open>The handlers of the \<^verbatim>\<open>try\<close>: the result tells whether the coroutine raised.\<close>

definition end_failed :: "inbound_env \<Rightarrow> inbound_task \<Rightarrow> string \<Rightarrow> string \<Rightarrow> run_billing \<Rightarrow> usdc option \<Rightarrow> inbound_world \<Rightarrow> bool \<times> inbound_world" where
  "end_failed env t out err b amount w =
    (case on_tasks (finish_async_task env t InFailed out err b None 0 amount None 0) w of (r, w') \<Rightarrow> (isl r, w'))"

definition end_inbound_task ::
  "inbound_env \<Rightarrow> inbound_job \<Rightarrow> inbound_task \<Rightarrow> task_exception \<Rightarrow> run_billing \<Rightarrow> inbound_world \<Rightarrow> bool \<times> inbound_world" where
  "end_inbound_task env job t e b w =
    (case e of
       CapacityExhausted \<Rightarrow>
         (case release_claim env (jb_header job) b w of
            (Inl _, w2) \<Rightarrow> (True, w2)
          | (Inr _, w2) \<Rightarrow> end_failed env t ''Agent run capacity is temporarily exhausted. Please retry shortly.''
              ''Agent run capacity is temporarily exhausted.'' b (Some 0) w2)
     | TaskCancelled \<Rightarrow> (True, snd (end_failed env t ''Task cancelled before completion.'' ''Task cancelled before completion.'' b None w))
     | TaskRaised \<Rightarrow> end_failed env t ''Task failed.'' ''Task failed.'' b None w)"

definition run_async_inbound_task :: "inbound_env \<Rightarrow> inbound_job \<Rightarrow> inbound_world \<Rightarrow> bool \<times> inbound_world" where
  "run_async_inbound_task env job w =
    (case claim_inbound_task (in_claimed_at env) (in_owner env) (in_lease_seconds env) (it_id (jb_task job)) (iw_tasks w) of
       (None, s) \<Rightarrow> (False, w\<lparr>iw_tasks := s\<rparr>)
     | (Some t, s) \<Rightarrow>
         (case inbound_task_body env job t (w\<lparr>iw_tasks := s\<rparr>) of
            (Inr _, _, w1) \<Rightarrow> (False, w1)
          | (Inl e, b, w1) \<Rightarrow> end_inbound_task env job t e b w1))"

section \<open>The worker pool\<close>

text \<open>The queue of a process, \<open>None\<close> before the workers start and after they stop.\<close>

record worker_pool =
  wp_queue :: "inbound_job list option"
  wp_size :: nat

definition mark_worker_interrupted :: "inbound_env \<Rightarrow> ident \<Rightarrow> inbound_world \<Rightarrow> inbound_world" where
  "mark_worker_interrupted env task_id w =
    (case finish_inbound_task (in_finished_at env) (in_owner env) task_id
        \<lparr>to_state = InFailed, to_output_text = [], to_error = ''Task worker stopped before completion'', to_usage_event_id = None,
         to_cost_usdc = 0, to_settlement_tx = [], to_billing_method = [], to_settlement_amount_usdc = 0, to_duration_ms = 0\<rparr> (iw_tasks w) of
       Inl _ \<Rightarrow> w
     | Inr (_, s) \<Rightarrow> w\<lparr>iw_tasks := s\<rparr>)"

definition inbound_task_worker :: "inbound_env \<Rightarrow> worker_pool \<times> inbound_world \<Rightarrow> worker_pool \<times> inbound_world" where
  "inbound_task_worker env pw =
    (case pw of (p, w) \<Rightarrow>
       (case wp_queue p of
          Some (job # q) \<Rightarrow>
            (case run_async_inbound_task env job w of
               (raised, w') \<Rightarrow> (p\<lparr>wp_queue := Some q\<rparr>, if raised then mark_worker_interrupted env (it_id (jb_task job)) w' else w'))
        | _ \<Rightarrow> (p, w)))"

definition start_inbound_task_workers :: "int \<Rightarrow> int \<Rightarrow> worker_pool \<Rightarrow> py_error + worker_pool" where
  "start_inbound_task_workers max_concurrency queue_size p =
    (if wp_queue p \<noteq> None then Inr p
     else if max_concurrency \<le> 0 \<or> queue_size \<le> 0 then Inl (ValueError ''Inbound A2A worker limits must be positive'')
     else Inr \<lparr>wp_queue = Some [], wp_size = nat queue_size\<rparr>)"

definition enqueue_inbound_task :: "inbound_job \<Rightarrow> worker_pool \<Rightarrow> bool \<times> worker_pool" where
  "enqueue_inbound_task job p =
    (case wp_queue p of
       None \<Rightarrow> (False, p)
     | Some q \<Rightarrow> if wp_size p \<le> length q then (False, p) else (True, p\<lparr>wp_queue := Some (q @ [job])\<rparr>))"

text \<open>Tasks that run at that moment are cancelled (\<open>CallCancelled\<close>); the ones still queued are marked.\<close>

definition stop_inbound_task_workers :: "inbound_env \<Rightarrow> worker_pool \<times> inbound_world \<Rightarrow> worker_pool \<times> inbound_world" where
  "stop_inbound_task_workers env pw =
    (case pw of (p, w) \<Rightarrow>
       (p\<lparr>wp_queue := None\<rparr>,
        fold (\<lambda>job. mark_worker_interrupted env (it_id (jb_task job))) (case wp_queue p of None \<Rightarrow> [] | Some q \<Rightarrow> q) w))"

section \<open>The endpoints\<close>

text \<open>
  A message as parsed: its role, the kind and text of its parts, and the JSON stored for it. \<open>normal\<close> is the
  normal form that pydantic gives a stored message (\<open>None\<close>: it does not validate), \<open>sb_normal\<close> the one of the
  message received.
\<close>

record send_body =
  sb_role :: string
  sb_parts :: "(string \<times> string option) list"
  sb_message :: json
  sb_normal :: json
  sb_metadata :: json
  sb_context_id :: "string option"
  sb_task_id :: "string option"

record send_request =
  sq_auth :: "int + auth_payload option"
  sq_header :: string
  sq_prefer :: string
  sq_ip :: string
  sq_limited :: bool
  sq_body :: "send_body option"

datatype send_response =
    Refusal int string
  | TaskReply (reply_code: int) (reply_id: ident) (reply_state: string) (reply_text: string) (reply_pending: bool)

definition message_text :: "send_body \<Rightarrow> string option" where
  "message_text b =
    (let parts = filter (\<lambda>s. s \<noteq> []) (map (\<lambda>(kind, txt). if kind = ''text'' then py_strip (text_or_empty txt) else []) (sb_parts b));
         combined = py_join [CHR 0x0A] parts
     in if sb_role b \<noteq> ''user'' \<or> parts = [] \<or> 4096 < length combined then None else Some combined)"

definition prefers_async :: "bool \<Rightarrow> string \<Rightarrow> bool" where
  "prefers_async enabled prefer \<longleftrightarrow> enabled \<and>
     (\<exists>part \<in> set (py_split (CHR '','') prefer). py_lower (takeWhile (\<lambda>c. c \<noteq> CHR '';'') (py_strip part)) = ''respond-async'')"

definition task_response_state :: "inbound_state \<Rightarrow> string" where
  "task_response_state stt =
    (case stt of InSubmitted \<Rightarrow> ''submitted'' | InRunning \<Rightarrow> ''working'' | InCompleted \<Rightarrow> ''completed'' | _ \<Rightarrow> ''failed'')"

definition task_request_matches :: "(json \<Rightarrow> json option) \<Rightarrow> inbound_task \<Rightarrow> send_body \<Rightarrow> bool" where
  "task_request_matches normal t b \<longleftrightarrow>
     map_option sort_keys (normal (it_message t)) = Some (sort_keys (sb_normal b)) \<and>
     sort_keys (it_metadata t) = sort_keys (sb_metadata b) \<and>
     it_context_id t = text_or_empty (sb_context_id b) \<and> it_client_task_id t = text_or_empty (sb_task_id b)"

definition stored_reply :: "int \<Rightarrow> inbound_task \<Rightarrow> send_response" where
  "stored_reply code t = TaskReply code (it_id t) (task_response_state (it_state t)) (py_or (it_output_text t) (it_error t)) (task_active t)"

text \<open>
  The stored message was validated when its task was created, so reading it back for the reply does not raise;
  a row that was edited by hand could make the endpoint fail.
\<close>

definition message_status :: "bool \<Rightarrow> int + auth_payload option \<Rightarrow> ident \<Rightarrow> inbound_db \<Rightarrow> send_response" where
  "message_status enabled auth task_id s =
    (if \<not> enabled then Refusal 404 ''A2A inbound endpoint disabled''
     else case auth of
       Inl code \<Rightarrow> Refusal code ''Invalid token''
     | Inr payload \<Rightarrow>
         (case (case payload of
                  None \<Rightarrow> get_inbound_task task_id None None True s
                | Some p \<Rightarrow>
                    if ap_org_id p \<noteq> [] \<and> ap_sub p \<noteq> [] then get_inbound_task task_id (Some (ap_org_id p)) (Some (ap_sub p)) False s else None) of
            None \<Rightarrow> Refusal 404 ''A2A task not found''
          | Some t \<Rightarrow> stored_reply 200 t))"

text \<open>
  The settings of the endpoint and the ids drawn for a message. \<open>sd_intro\<close> are the requirements of the
  introductory price (\<open>Inl\<close>: they cannot be built), \<open>sd_402_up\<close> tells whether a challenge can be issued.
\<close>

record send_env =
  sd_enabled :: bool
  sd_async_enabled :: bool
  sd_run_id :: ident
  sd_task_id :: ident
  sd_intro :: "unit + payment_requirement list option"
  sd_402_up :: bool
  sd_normal :: "json \<Rightarrow> json option"
  sd_run :: inbound_env

definition caller_of :: "send_request \<Rightarrow> auth_payload option \<Rightarrow> caller" where
  "caller_of q payload =
    \<lparr>cl_org_id = (case payload of None \<Rightarrow> [] | Some p \<Rightarrow> ap_org_id p), cl_user_id = (case payload of None \<Rightarrow> [] | Some p \<Rightarrow> ap_sub p),
     cl_ip = sq_ip q, cl_auth_method = py_or (case payload of None \<Rightarrow> [] | Some p \<Rightarrow> ap_auth_method p) ''anonymous''\<rparr>"

definition fail_unqueued :: "inbound_env \<Rightarrow> inbound_task \<Rightarrow> string \<Rightarrow> inbound_world \<Rightarrow> inbound_world" where
  "fail_unqueued env t why w = snd (on_tasks (finish_async_task env t InFailed why why Unbilled None 0 None None 0) w)"

definition send_async ::
  "send_env \<Rightarrow> send_request \<Rightarrow> auth_payload option \<Rightarrow> send_body \<Rightarrow> string \<Rightarrow> payment_requirement list option \<Rightarrow>
   worker_pool \<times> inbound_world \<Rightarrow> send_response \<times> worker_pool \<times> inbound_world" where
  "send_async env q payload b txt intro pw =
    (case pw of (p, w) \<Rightarrow>
       (case create_inbound_task (in_claimed_at (sd_run env)) (in_owner (sd_run env)) (in_lease_seconds (sd_run env)) (sd_task_id env) (sd_run_id env)
           \<lparr>tq_client_task_id = sb_task_id b, tq_context_id = sb_context_id b, tq_message = sb_message b, tq_metadata = sb_metadata b,
            tq_user_message = txt\<rparr> (caller_of q payload) (iw_tasks w) of
          Inl _ \<Rightarrow> (Refusal 503 ''A2A task queue temporarily unavailable'', p, w)
        | Inr ((t, created), s) \<Rightarrow>
            (let w1 = w\<lparr>iw_tasks := s\<rparr> in
             if \<not> created
             then (if \<not> task_request_matches (sd_normal env) t b
                   then (Refusal 409 ''Client task ID is already associated with a different request'', p, w1)
                   else (stored_reply (if task_active t then 202 else 200) t, p, w1))
             else case enqueue_inbound_task \<lparr>jb_task = t, jb_payload = payload, jb_header = sq_header q, jb_requirements = intro\<rparr> p of
                    (False, p1) \<Rightarrow> (Refusal 503 ''A2A task queue is full'', p1, fail_unqueued (sd_run env) t ''Task queue is full.'' w1)
                  | (True, p1) \<Rightarrow> (TaskReply 202 (it_id t) ''submitted'' [] True, p1, w1))))"

definition sync_event ::
  "send_env \<Rightarrow> caller \<Rightarrow> send_body \<Rightarrow> inbound_state \<Rightarrow> ident option \<Rightarrow> string \<Rightarrow> usdc \<Rightarrow> usdc \<Rightarrow> string \<Rightarrow> string \<Rightarrow> int \<Rightarrow> string \<Rightarrow> inbound_event" where
  "sync_event env c b stt usage address cost amount tx meth duration err =
    \<lparr>ie_id = in_event_id (sd_run env), ie_run_id = sd_run_id env, ie_usage_event_id = usage, ie_caller_org_id = cl_org_id c,
     ie_caller_user_id = cl_user_id c, ie_caller_address = address, ie_caller_ip = cl_ip c, ie_auth_method = cl_auth_method c,
     ie_context_id = text_or_empty (sb_context_id b), ie_task_id = py_or (text_or_empty (sb_task_id b)) (sd_run_id env), ie_task_state = stt,
     ie_cost_usdc = cost, ie_settlement_amount_usdc = amount, ie_settlement_tx = tx, ie_billing_method = meth, ie_duration_ms = duration,
     ie_error = err\<rparr>"

definition note_event :: "send_env \<Rightarrow> inbound_event \<Rightarrow> inbound_world \<Rightarrow> inbound_world" where
  "note_event env e w = w\<lparr>iw_tasks := record_inbound_event (in_events_up (sd_run env)) e (iw_tasks w)\<rparr>"

definition send_sync ::
  "send_env \<Rightarrow> send_request \<Rightarrow> auth_payload option \<Rightarrow> send_body \<Rightarrow> payment_requirement list option \<Rightarrow> inbound_world \<Rightarrow>
   (task_exception + send_response) \<times> inbound_world" where
  "send_sync env q payload b intro w =
    (let run = sd_run env; c = caller_of q payload; rejected = (\<lambda>stt meth e. note_event env (sync_event env c b stt None [] 0 0 [] meth 0 e))
     in case admit_inbound run payload (sq_header q) intro (cl_org_id c) w of
          (RejectPayment e, w1) \<Rightarrow>
            (Inr (Refusal 402 e), if payload = None \<or> sq_header q \<noteq> [] then rejected InRejectedPayment ''x402'' e w1 else w1)
        | (RejectCredit e, w1) \<Rightarrow> (Inr (Refusal 402 e), rejected InRejectedCredit ''credit'' e w1)
        | (Admit billing, w1) \<Rightarrow>
            (case call_agent run (a2a_run run (cl_org_id c) (cl_user_id c) (sd_run_id env)) billing w1 of
               (Inl CapacityExhausted, w2) \<Rightarrow>
                 (case release_claim run (sq_header q) billing w2 of
                    (Inl _, w3) \<Rightarrow> (Inl TaskRaised, w3)
                  | (Inr _, w3) \<Rightarrow> (Inr (Refusal 503 ''Agent run capacity is exhausted''), w3))
             | (Inl e, w2) \<Rightarrow> (Inl e, w2)
             | (Inr r, w2) \<Rightarrow>
                 (let held = x402_result_withheld billing r;
                      w3 = note_event env (sync_event env c b (if held then InRejectedPayment else inbound_result_state (ar_task_state r))
                        (Some (in_usage_id run)) (payment_caller_address run billing) (ar_cost_usdc r) (ar_settlement_amount_usdc r)
                        (ar_settlement_tx r) (if billing = Unbilled then [] else billing_label billing InCompleted) (in_duration_ms run)
                        (if held then settlement_withheld else result_error r)) w2
                  in (Inr (if held then Refusal 402 settlement_withheld
                           else TaskReply 200 (py_or (text_or_empty (sb_task_id b)) (sd_run_id env))
                             (if ar_task_state r = RunDone then ''completed'' else ''failed'') (shown_text r) False), w3))))"

definition message_send ::
  "send_env \<Rightarrow> send_request \<Rightarrow> worker_pool \<times> inbound_world \<Rightarrow> (task_exception + send_response) \<times> worker_pool \<times> inbound_world" where
  "message_send env q pw =
    (let same = (\<lambda>r. (Inr r, pw)); billing_on = ge_billing_enabled (in_gate (sd_run env)) in
     if \<not> sd_enabled env then same (Refusal 404 ''A2A inbound endpoint disabled'')
     else case sq_auth q of
       Inl code \<Rightarrow> same (Refusal code ''Invalid token'')
     | Inr payload \<Rightarrow>
         if sq_limited q then same (Refusal 429 ''Rate limit exceeded'')
         else if payload = None \<and> billing_on \<and> sq_header q = []
         then same (case sd_intro env of
                      Inl _ \<Rightarrow> Refusal 503 ''A2A intro pricing is temporarily unavailable''
                    | Inr _ \<Rightarrow> if sd_402_up env then Refusal 402 ''Payment required'' else Refusal 503 ''Payment service temporarily unavailable'')
         else case sq_body q of
           None \<Rightarrow> same (Refusal 422 ''Request body must be an object'')
         | Some b \<Rightarrow>
             (case message_text b of
                None \<Rightarrow> same (Refusal 422 ''A2A message must contain at least one non-empty text part'')
              | Some txt \<Rightarrow>
                  (case (if payload = None \<and> billing_on then sd_intro env else Inr None) of
                     Inl _ \<Rightarrow> same (Refusal 503 ''A2A intro pricing is temporarily unavailable'')
                   | Inr intro \<Rightarrow>
                       if prefers_async (sd_async_enabled env) (sq_prefer q)
                       then (case send_async env q payload b txt intro pw of (r, pw') \<Rightarrow> (Inr r, pw'))
                       else (case send_sync env q payload b intro (snd pw) of (r, w') \<Rightarrow> (r, fst pw, w')))))"

section \<open>The contract of the table\<close>

definition task_ok :: "inbound_task \<Rightarrow> bool" where
  "task_ok t \<longleftrightarrow> (task_active t \<longleftrightarrow> it_finished_at t = None) \<and> length (it_output_text t) \<le> 65536 \<and> length (it_error t) \<le> 1024 \<and>
     length (it_client_task_id t) \<le> 256 \<and> length (it_context_id t) \<le> 256 \<and> 0 \<le> it_cost_usdc t \<and> 0 \<le> it_settlement_amount_usdc t \<and>
     0 \<le> it_duration_ms t"

definition tasks_ok :: "inbound_db \<Rightarrow> bool" where
  "tasks_ok s \<longleftrightarrow> distinct (map it_id (ib_tasks s)) \<and> distinct (map it_run_id (ib_tasks s)) \<and> (\<forall>t \<in> set (ib_tasks s). task_ok t) \<and>
     (\<forall>a \<in> set (ib_tasks s). \<forall>b \<in> set (ib_tasks s). same_client_task a b \<longrightarrow> a = b)"

text \<open>A task with a result of its own: neither active nor failed by a recovery.\<close>

definition has_result :: "inbound_task \<Rightarrow> bool" where
  "has_result t \<longleftrightarrow> \<not> task_active t \<and> \<not> interrupted t"

definition task_identity :: "inbound_task \<Rightarrow> ident \<times> ident \<times> string \<times> ident \<times> ident \<times> string \<times> ident \<times> json \<times> json \<times> string" where
  "task_identity t = (it_id t, it_run_id t, it_client_task_id t, it_caller_org_id t, it_caller_user_id t, it_caller_ip t, it_owner t,
     it_message t, it_metadata t, it_context_id t)"

definition task_progress :: "inbound_task \<Rightarrow> inbound_task \<Rightarrow> bool" where
  "task_progress t t' \<longleftrightarrow> task_identity t' = task_identity t \<and> (it_state t' = InSubmitted \<longrightarrow> it_state t = InSubmitted) \<and>
     (task_active t' \<longrightarrow> task_active t) \<and> (has_result t \<longrightarrow> t' = t)"

definition task_history :: "ident \<Rightarrow> inbound_db \<Rightarrow> inbound_db \<Rightarrow> bool" where
  "task_history i s s' \<longleftrightarrow> (\<forall>t' \<in> set (ib_tasks s'). it_id t' = i \<longrightarrow> (\<exists>t \<in> set (ib_tasks s). task_progress t t'))"

lemma task_progress_refl [simp]: "task_progress t t"
  by (simp add: task_progress_def)

lemma task_progress_trans: "task_progress t t' \<Longrightarrow> task_progress t' t'' \<Longrightarrow> task_progress t t''"
  by (auto simp: task_progress_def)

lemma task_progress_id: "task_progress t t' \<Longrightarrow> it_id t' = it_id t"
  by (simp add: task_progress_def task_identity_def)

lemma task_history_trans: "task_history i s s' \<Longrightarrow> task_history i s' s'' \<Longrightarrow> task_history i s s''"
  unfolding task_history_def by (metis task_progress_id task_progress_trans)

lemma task_history_sub: "set (ib_tasks s') \<subseteq> set (ib_tasks s) \<Longrightarrow> task_history i s s'"
  unfolding task_history_def by (meson subsetD task_progress_refl)

text \<open>
  What every operation on the table promises: the table stays well-formed and the row of a task whose id is
  not drawn again only moves forward.
\<close>

locale inbound_operation =
  fixes i :: ident and run :: "inbound_db \<Rightarrow> inbound_db"
  assumes keeps: "tasks_ok s \<Longrightarrow> tasks_ok (run s)"
    and moves: "tasks_ok s \<Longrightarrow> task_history i s (run s)"
begin

lemma result_kept:
  assumes "tasks_ok s" "t \<in> set (ib_tasks s)" "it_id t = i" "has_result t" "t' \<in> set (ib_tasks (run s))" "it_id t' = i"
  shows "t' = t"
proof -
  obtain u where u: "u \<in> set (ib_tasks s)" "task_progress u t'" using moves [OF assms(1)] assms(5,6) by (auto simp: task_history_def)
  have "u = t"
  proof (rule distinct_key_eq)
    show "distinct (map it_id (ib_tasks s))" using assms(1) by (simp add: tasks_ok_def)
    show "it_id u = it_id t" using task_progress_id [OF u(2)] assms(3,6) by simp
  qed (use u(1) assms(2) in simp_all)
  with u(2) assms(4) show ?thesis by (simp add: task_progress_def)
qed

end

lemma inbound_operation_id: "inbound_operation i (\<lambda>s. s)"
  by unfold_locales (simp_all add: task_history_sub)

lemma inbound_operation_comp:
  assumes "inbound_operation i f" "inbound_operation i g"
  shows "inbound_operation i (\<lambda>s. g (f s))"
  using assms unfolding inbound_operation_def by (meson task_history_trans)

lemma task_by_id: "tasks_ok s \<Longrightarrow> a \<in> set (ib_tasks s) \<Longrightarrow> b \<in> set (ib_tasks s) \<Longrightarrow> it_id a = it_id b \<Longrightarrow> a = b"
  unfolding tasks_ok_def by (blast intro: distinct_key_eq)

lemma same_client_task_identity:
  "task_identity a' = task_identity a \<Longrightarrow> task_identity b' = task_identity b \<Longrightarrow> same_client_task a' b' \<longleftrightarrow> same_client_task a b"
  by (auto simp: same_client_task_def task_identity_def)

lemma same_client_task_sym: "same_client_task a b \<Longrightarrow> same_client_task b a"
  by (auto simp: same_client_task_def)

lemma tasks_ok_update:
  assumes ok: "tasks_ok s" and step: "\<And>t. t \<in> set (ib_tasks s) \<Longrightarrow> p t \<Longrightarrow> task_progress t (f t) \<and> (task_ok t \<longrightarrow> task_ok (f t))"
  shows "tasks_ok (s\<lparr>ib_tasks := update_where p f (ib_tasks s)\<rparr>)"
    and "task_history i s (s\<lparr>ib_tasks := update_where p f (ib_tasks s)\<rparr>)"
proof -
  let ?g = "\<lambda>t. if p t then f t else t" and ?ts = "ib_tasks s"
  have g: "task_progress t (?g t)" "task_ok t \<Longrightarrow> task_ok (?g t)" if "t \<in> set ?ts" for t using step [OF that] by simp_all
  have ident: "task_identity (?g t) = task_identity t" if "t \<in> set ?ts" for t using g(1) [OF that] by (simp add: task_progress_def)
  have keys: "map it_id (map ?g ?ts) = map it_id ?ts" "map it_run_id (map ?g ?ts) = map it_run_id ?ts"
    using ident by (simp_all add: task_identity_def)
  have client: "?g a = ?g b" if "a \<in> set ?ts" "b \<in> set ?ts" "same_client_task (?g a) (?g b)" for a b
  proof -
    have "same_client_task a b" using that(3) same_client_task_identity [OF ident [OF that(1)] ident [OF that(2)]] by simp
    then have "a = b" using ok that(1,2) unfolding tasks_ok_def by blast
    then show ?thesis by simp
  qed
  have "\<forall>a \<in> set (map ?g ?ts). \<forall>b \<in> set (map ?g ?ts). same_client_task a b \<longrightarrow> a = b"
    unfolding set_map ball_simps using client by blast
  moreover have "\<forall>t \<in> set (map ?g ?ts). task_ok t" unfolding set_map ball_simps using g(2) ok unfolding tasks_ok_def by blast
  moreover have "ib_tasks (s\<lparr>ib_tasks := update_where p f ?ts\<rparr>) = map ?g ?ts" by (simp add: update_where_def)
  ultimately show "tasks_ok (s\<lparr>ib_tasks := update_where p f ?ts\<rparr>)"
    using ok unfolding tasks_ok_def by (simp only: keys)
  show "task_history i s (s\<lparr>ib_tasks := update_where p f ?ts\<rparr>)"
    unfolding task_history_def
  proof (intro ballI impI)
    fix t'
    assume "t' \<in> set (ib_tasks (s\<lparr>ib_tasks := update_where p f ?ts\<rparr>))"
    then have "t' \<in> set (map ?g ?ts)" by (simp add: update_where_def)
    then obtain t where "t' = ?g t" "t \<in> set ?ts" unfolding set_map by (rule imageE)
    with g(1) show "\<exists>t \<in> set ?ts. task_progress t t'" by blast
  qed
qed

lemma tasks_ok_filter:
  assumes "tasks_ok s"
  shows "tasks_ok (s\<lparr>ib_tasks := rows_where p (ib_tasks s)\<rparr>)" "task_history i s (s\<lparr>ib_tasks := rows_where p (ib_tasks s)\<rparr>)"
  using assms by (auto simp: tasks_ok_def rows_where_def distinct_map_filter intro: task_history_sub)

lemma insert_inbound_task_ok:
  assumes ok: "tasks_ok s" and ins: "insert_inbound_task t s = Inr (b, s')" and t: "task_ok t" "it_id t \<noteq> i"
  shows "tasks_ok s' \<and> task_history i s s'"
proof (cases "exists_where (task_conflict t) (ib_tasks s)")
  case True
  with ins ok show ?thesis by (auto simp: insert_inbound_task_def task_history_sub split: if_splits)
next
  case False
  then have none: "\<not> task_conflict t x" if "x \<in> set (ib_tasks s)" for x using that by (auto simp: exists_where_iff)
  have s': "s' = s\<lparr>ib_tasks := ib_tasks s @ [t]\<rparr>" using ins False by (auto simp: insert_inbound_task_def split: if_splits)
  have "task_history i s s'" using t(2) by (auto simp: s' task_history_def intro: task_progress_refl)
  moreover have "it_id t \<notin> it_id ` set (ib_tasks s)" "it_run_id t \<notin> it_run_id ` set (ib_tasks s)"
    using none by (force simp: task_conflict_def)+
  moreover have "\<not> same_client_task t x" "\<not> same_client_task x t" if "x \<in> set (ib_tasks s)" for x
    using none [OF that] same_client_task_sym by (auto simp: task_conflict_def)
  ultimately show ?thesis using ok t(1) by (auto simp: s' tasks_ok_def)
qed

lemma create_cases:
  assumes "create_inbound_task now owner ls task_id run_id q c s = Inr ((t, created), s')"
  obtains (fresh) "created" "t = new_inbound_task now owner ls task_id run_id q c" "insert_inbound_task t s = Inr (True, s')"
  | (old) "\<not> created" "s' = s" "t \<in> set (ib_tasks s)" "it_client_task_id t = text_or_empty (tq_client_task_id q)"
      "if cl_org_id c \<noteq> [] \<and> cl_user_id c \<noteq> [] then it_caller_org_id t = cl_org_id c \<and> it_caller_user_id t = cl_user_id c
       else it_caller_org_id t = [] \<and> it_caller_user_id t = [] \<and> it_caller_ip t = cl_ip c"
proof -
  let ?t = "new_inbound_task now owner ls task_id run_id q c"
  have first: "x \<in> set (ib_tasks s) \<and> p x" if "first_created p s = Some x" for p x
  proof -
    from that obtain r where "sort_key (\<lambda>t. (it_created_at t, it_id t)) (rows_where p (ib_tasks s)) = x # r"
      by (auto simp: first_created_def first_row_def split: list.splits)
    then have "x \<in> set (rows_where p (ib_tasks s))" by (metis list.set_intros(1) set_sort)
    then show ?thesis by (simp add: rows_where_def)
  qed
  obtain b s1 where ins: "insert_inbound_task ?t s = Inr (b, s1)" using assms by (auto simp: create_inbound_task_def Let_def bindE_eq_Inr_iff)
  show thesis
  proof (cases b)
    case True
    with assms ins fresh show ?thesis by (auto simp: create_inbound_task_def Let_def)
  next
    case False
    then have s1: "s1 = s" using ins by (auto simp: insert_inbound_task_def split: if_splits)
    have client: "it_client_task_id ?t = text_or_empty (tq_client_task_id q)" by (simp add: new_inbound_task_def)
    show ?thesis
    proof (cases "cl_org_id c \<noteq> [] \<and> cl_user_id c \<noteq> []")
      case True
      with assms ins False s1 client
      have "first_created (\<lambda>x. it_caller_org_id x = cl_org_id c \<and> it_caller_user_id x = cl_user_id c \<and>
          it_client_task_id x = text_or_empty (tq_client_task_id q)) s = Some t" "\<not> created" "s' = s"
        by (auto simp: create_inbound_task_def Let_def split: if_splits option.splits)
      with first old True show ?thesis by fastforce
    next
      case anon: False
      with assms ins False s1 client
      have "first_created (\<lambda>x. it_caller_org_id x = [] \<and> it_caller_user_id x = [] \<and> it_caller_ip x = cl_ip c \<and>
          it_client_task_id x = text_or_empty (tq_client_task_id q)) s = Some t" "\<not> created" "s' = s"
        by (simp_all add: create_inbound_task_def Let_def split: if_split_asm option.split_asm)
      with first old anon show ?thesis by fastforce
    qed
  qed
qed

lemma create_operation:
  assumes "tasks_ok s" "create_inbound_task now owner ls task_id run_id q c s = Inr (r, s')" "task_id \<noteq> i"
  shows "tasks_ok s' \<and> task_history i s s'"
proof -
  obtain t created where r: "r = (t, created)" by fastforce
  from assms(2) show ?thesis unfolding r
  proof (cases rule: create_cases)
    case fresh
    then have "task_ok t" by (auto simp: insert_inbound_task_def new_inbound_task_def task_ok_def task_active_def split: if_splits)
    with insert_inbound_task_ok [OF assms(1) fresh(3)] fresh(2) assms(3) show ?thesis by (simp add: new_inbound_task_def)
  qed (use assms(1) in \<open>simp add: task_history_sub\<close>)
qed

section \<open>The operations keep it\<close>

lemmas task_move_defs = task_progress_def task_identity_def task_ok_def task_active_def has_result_def interrupted_def

interpretation claim_op: inbound_operation i "\<lambda>s. snd (claim_inbound_task now owner ls task_id s)"
proof
  fix s
  assume ok: "tasks_ok s"
  let ?p = "\<lambda>t. it_id t = task_id \<and> it_state t = InSubmitted \<and> it_owner t = owner \<and> (\<exists>e \<in> set_option (it_lease_expires_at t). now < e)"
  let ?f = "\<lambda>t. t\<lparr>it_state := InRunning, it_started_at := (case it_started_at t of None \<Rightarrow> Some now | x \<Rightarrow> x),
    it_lease_expires_at := Some (now + seconds ls)\<rparr>"
  have "task_progress t (?f t) \<and> (task_ok t \<longrightarrow> task_ok (?f t))" if "?p t" for t using that by (auto simp: task_move_defs)
  from tasks_ok_update [of s ?p ?f, OF ok this]
  show "tasks_ok (snd (claim_inbound_task now owner ls task_id s))" "task_history i s (snd (claim_inbound_task now owner ls task_id s))"
    by (simp_all add: claim_inbound_task_def update_tasks_def)
qed

interpretation renew_op: inbound_operation i "\<lambda>s. snd (renew_inbound_task_leases now owner ls s)"
proof
  fix s
  assume ok: "tasks_ok s"
  let ?f = "\<lambda>t. t\<lparr>it_lease_expires_at := Some (now + seconds ls)\<rparr>"
  have "task_progress t (?f t) \<and> (task_ok t \<longrightarrow> task_ok (?f t))" if "it_owner t = owner \<and> task_active t" for t
    using that by (auto simp: task_move_defs)
  from tasks_ok_update [of s "\<lambda>t. it_owner t = owner \<and> task_active t" ?f, OF ok this]
  show "tasks_ok (snd (renew_inbound_task_leases now owner ls s))" "task_history i s (snd (renew_inbound_task_leases now owner ls s))"
    by (simp_all add: renew_inbound_task_leases_def Let_def)
qed

lemma mark_operation:
  assumes ok: "tasks_ok s" and mark: "mark_inbound_task_billing_method task_id meth s = Inr s'"
  shows "tasks_ok s' \<and> task_history i s s'"
proof -
  let ?p = "\<lambda>t. it_id t = task_id \<and> it_state t = InRunning" and ?f = "\<lambda>t. t\<lparr>it_billing_method := meth\<rparr>"
  have "task_progress t (?f t) \<and> (task_ok t \<longrightarrow> task_ok (?f t))" if "?p t" for t using that by (auto simp: task_move_defs)
  from tasks_ok_update [of s ?p ?f, OF ok this] mark show ?thesis
    by (auto simp: mark_inbound_task_billing_method_def split: if_splits)
qed

lemma finish_operation:
  assumes ok: "tasks_ok s" and finish: "finish_inbound_task now owner task_id x s = Inr (r, s')"
  shows "tasks_ok s' \<and> task_history i s s'"
proof -
  have x: "to_state x \<noteq> InSubmitted" "to_state x \<noteq> InRunning"
    using finish by (auto simp: finish_inbound_task_def terminal_inbound_states_def split: if_splits)
  have "length interruption_error \<le> 1024" by (simp add: interruption_error_def)
  then have "task_progress t (finished_task now x t) \<and> (task_ok t \<longrightarrow> task_ok (finished_task now x t))" if "may_finish owner task_id x t" for t
    using that x by (auto simp: may_finish_def finished_task_def task_move_defs split: option.splits)
  from tasks_ok_update [of s "may_finish owner task_id x" "finished_task now x", OF ok this] finish show ?thesis
    by (auto simp: finish_inbound_task_def update_tasks_def split: if_splits)
qed

lemma interrupt_progress:
  assumes "task_active t"
  shows "task_progress t (interrupt_task now t) \<and> (task_ok t \<longrightarrow> task_ok (interrupt_task now t))"
  using assms by (auto simp: interrupt_task_def task_move_defs interruption_error_def split: option.splits)

lemma orphan_batch_set: "t \<in> set (orphan_batch now owner locked n s) \<Longrightarrow> t \<in> set (ib_tasks s) \<and> orphaned now owner locked t"
  unfolding orphan_batch_def by (drule in_set_takeD) (simp add: rows_where_def)

interpretation recover_op: inbound_operation i "\<lambda>s. snd (recover_batch now owner locked n s)"
proof
  fix s
  assume ok: "tasks_ok s"
  let ?b = "orphan_batch now owner locked n s"
  have "task_progress t (interrupt_task now t) \<and> (task_ok t \<longrightarrow> task_ok (interrupt_task now t))" if "t \<in> set ?b" for t
    using orphan_batch_set [OF that] by (intro interrupt_progress) (simp add: orphaned_def)
  from tasks_ok_update [of s "\<lambda>t. t \<in> set ?b" "interrupt_task now", OF ok this]
  show "tasks_ok (snd (recover_batch now owner locked n s))" "task_history i s (snd (recover_batch now owner locked n s))"
    by (simp_all add: recover_batch_def Let_def)
qed

interpretation delete_op: inbound_operation i "\<lambda>s. snd (delete_terminal_inbound_tasks now locked ttl_days n s)"
proof
  fix s
  assume "tasks_ok s"
  from tasks_ok_filter [OF this]
  show "tasks_ok (snd (delete_terminal_inbound_tasks now locked ttl_days n s))"
    "task_history i s (snd (delete_terminal_inbound_tasks now locked ttl_days n s))"
    using \<open>tasks_ok s\<close> by (simp_all add: delete_terminal_inbound_tasks_def Let_def task_history_sub)
qed

interpretation audit_op: inbound_operation i "record_inbound_event up e"
  by unfold_locales (auto simp: record_inbound_event_def Let_def tasks_ok_def task_history_sub)

section \<open>Histories\<close>

text \<open>
  The statements of any number of processes in any order. New tasks draw ids other than \<open>i\<close>: the id of the task
  under observation is not drawn twice.
\<close>

inductive inbound_step :: "ident \<Rightarrow> inbound_db \<Rightarrow> inbound_db \<Rightarrow> bool" for i where
  create: "create_inbound_task now owner ls task_id run_id q c s = Inr (r, s') \<Longrightarrow> task_id \<noteq> i \<Longrightarrow> inbound_step i s s'"
| claim: "inbound_step i s (snd (claim_inbound_task now owner ls task_id s))"
| renew: "inbound_step i s (snd (renew_inbound_task_leases now owner ls s))"
| mark: "mark_inbound_task_billing_method task_id meth s = Inr s' \<Longrightarrow> inbound_step i s s'"
| finish: "finish_inbound_task now owner task_id x s = Inr (r, s') \<Longrightarrow> inbound_step i s s'"
| recover: "inbound_step i s (snd (recover_batch now owner locked n s))"
| delete: "inbound_step i s (snd (delete_terminal_inbound_tasks now locked ttl_days n s))"
| audit: "inbound_step i s (record_inbound_event up e s)"

lemma inbound_step_keeps:
  assumes "inbound_step i s s'" "tasks_ok s"
  shows "tasks_ok s' \<and> task_history i s s'"
  using assms(1)
proof cases
  case create
  then show ?thesis using create_operation [OF assms(2)] by blast
next
  case mark
  then show ?thesis using mark_operation [OF assms(2)] by blast
next
  case finish
  then show ?thesis using finish_operation [OF assms(2)] by blast
qed (use assms(2) claim_op.keeps claim_op.moves renew_op.keeps renew_op.moves recover_op.keeps recover_op.moves delete_op.keeps
    delete_op.moves audit_op.keeps audit_op.moves in simp_all)

lemma inbound_steps_keep:
  assumes "(inbound_step i)\<^sup>*\<^sup>* s s'" "tasks_ok s"
  shows "tasks_ok s' \<and> task_history i s s'"
  using assms(1)
proof induction
  case (step y z)
  with inbound_step_keeps [OF step.hyps(2)] task_history_trans show ?case by blast
qed (simp add: assms(2) task_history_sub)

section \<open>A task runs once\<close>

lemma update_tasks_none: "(\<And>t. t \<in> set (ib_tasks s) \<Longrightarrow> \<not> p t) \<Longrightarrow> update_tasks p f s = (None, s)"
  by (simp add: update_tasks_def find_None_iff update_where_none)

lemma unclaimable:
  assumes "\<And>t. t \<in> set (ib_tasks s) \<Longrightarrow> it_id t = i \<Longrightarrow> it_state t \<noteq> InSubmitted"
  shows "claim_inbound_task now owner ls i s = (None, s)"
  unfolding claim_inbound_task_def by (rule update_tasks_none) (use assms in blast)

lemma unfinishable:
  assumes "\<And>t. t \<in> set (ib_tasks s) \<Longrightarrow> it_id t = i \<Longrightarrow> has_result t" "finish_inbound_task now owner i x s = Inr (r, s')"
  shows "r = None \<and> s' = s"
proof -
  have "update_tasks (may_finish owner i x) (finished_task now x) s = (None, s)"
    by (rule update_tasks_none) (use assms(1) in \<open>auto simp: may_finish_def has_result_def\<close>)
  with assms(2) show ?thesis by (auto simp: finish_inbound_task_def split: if_splits)
qed

lemma updated_row:
  assumes "update_tasks p f s = (Some t, s')" "t' \<in> set (ib_tasks s')" "it_id t' = it_id t" "tasks_ok s'"
  shows "t' = t"
proof -
  obtain u where u: "find p (ib_tasks s) = Some u" "t = f u" using assms(1) by (auto simp: update_tasks_def)
  then have "t \<in> set (ib_tasks s')" using find_SomeD [OF u(1)] assms(1) by (auto simp: update_tasks_def set_update_where)
  with assms(2-4) show ?thesis by (blast intro: task_by_id)
qed

text \<open>
  C21. An accepted task runs at most once. After one process claimed a task, whatever claims, renewals, results,
  recoveries and deletions follow in any process, the task cannot be claimed again, and a worker that still
  holds a job for it does nothing: no agent call, no payment, no row changes.
\<close>

theorem inbound_task_runs_once:
  assumes "tasks_ok s" "claim_inbound_task now owner ls i s = (Some t, s1)" "(inbound_step i)\<^sup>*\<^sup>* s1 s2"
    and "it_id (jb_task job) = i"
  shows "claim_inbound_task now' owner' ls' i s2 = (None, s2) \<and>
    run_async_inbound_task env job (w\<lparr>iw_tasks := s2\<rparr>) = (False, w\<lparr>iw_tasks := s2\<rparr>)"
proof -
  have ok: "tasks_ok s1" using claim_op.keeps [OF assms(1), of now owner ls i] assms(2) by simp
  have t: "it_id t = i" "it_state t = InRunning"
    using assms(2) find_SomeD by (fastforce simp: claim_inbound_task_def update_tasks_def)+
  have running: "it_state u \<noteq> InSubmitted" if "u \<in> set (ib_tasks s1)" "it_id u = i" for u
    using updated_row [OF assms(2) [unfolded claim_inbound_task_def] that(1) _ ok] that(2) t by simp
  have "it_state u \<noteq> InSubmitted" if u: "u \<in> set (ib_tasks s2)" "it_id u = i" for u
  proof -
    obtain v where v: "v \<in> set (ib_tasks s1)" "task_progress v u"
      using inbound_steps_keep [OF assms(3) ok] u by (auto simp: task_history_def)
    then show ?thesis using running [OF v(1)] task_progress_id [OF v(2)] u(2) by (auto simp: task_progress_def)
  qed
  from unclaimable [OF this] assms(4) show ?thesis by (simp add: run_async_inbound_task_def)
qed

text \<open>
  C22. A result is final. Once a task was finished with a result of its own, its row is never changed again until
  retention deletes it: later results are refused, also those of its own process, and recovery skips it. Only a
  task that a recovery had failed can still receive the result of the process that owns it.
\<close>

theorem inbound_result_final:
  assumes "tasks_ok s" "finish_inbound_task now owner i x s = Inr (Some t, s1)" "has_result t" "(inbound_step i)\<^sup>*\<^sup>* s1 s2"
  shows "(\<forall>t' \<in> set (ib_tasks s2). it_id t' = i \<longrightarrow> t' = t) \<and>
    (\<forall>now' owner' x' r s3. finish_inbound_task now' owner' i x' s2 = Inr (r, s3) \<longrightarrow> r = None \<and> s3 = s2)"
proof -
  have ok: "tasks_ok s1" using finish_operation [OF assms(1,2), of i] by simp
  have upd: "update_tasks (may_finish owner i x) (finished_task now x) s = (Some t, s1)"
    using assms(2) by (auto simp: finish_inbound_task_def split: if_splits)
  then have "it_id t = i" using find_SomeD by (fastforce simp: update_tasks_def may_finish_def finished_task_def)
  then have only: "u = t" if "u \<in> set (ib_tasks s1)" "it_id u = i" for u using updated_row [OF upd that(1) _ ok] that(2) by simp
  have same: "u = t" if u: "u \<in> set (ib_tasks s2)" "it_id u = i" for u
  proof -
    obtain v where v: "v \<in> set (ib_tasks s1)" "task_progress v u"
      using inbound_steps_keep [OF assms(4) ok] u by (auto simp: task_history_def)
    moreover have "v = t" using only [OF v(1)] task_progress_id [OF v(2)] u(2) by simp
    ultimately show ?thesis using assms(3) by (simp add: task_progress_def)
  qed
  then show ?thesis using unfinishable [of s2 i] assms(3) by blast
qed

section \<open>Who reads a task\<close>

definition caller_owns :: "auth_payload option \<Rightarrow> inbound_task \<Rightarrow> bool" where
  "caller_owns payload t \<longleftrightarrow>
    (case payload of
       None \<Rightarrow> it_caller_org_id t = [] \<and> it_caller_user_id t = []
     | Some p \<Rightarrow> ap_org_id p \<noteq> [] \<and> ap_sub p \<noteq> [] \<and> it_caller_org_id t = ap_org_id p \<and> it_caller_user_id t = ap_sub p)"

lemma find_task:
  assumes "tasks_ok s" "t \<in> set (ib_tasks s)"
  shows "find (\<lambda>u. it_id u = it_id t \<and> q u) (ib_tasks s) = (if q t then Some t else None)"
proof (cases "q t")
  case True
  then obtain u where "find (\<lambda>u. it_id u = it_id t \<and> q u) (ib_tasks s) = Some u"
    using assms(2) by (cases "find (\<lambda>u. it_id u = it_id t \<and> q u) (ib_tasks s)") (auto simp: find_None_iff)
  moreover from find_SomeD [OF this] assms have "u = t" by (blast intro: task_by_id)
  ultimately show ?thesis using True by simp
next
  case False
  have "u = t" if "u \<in> set (ib_tasks s)" "it_id u = it_id t" for u using assms that by (blast intro: task_by_id)
  with False show ?thesis by (auto simp: find_None_iff)
qed

text \<open>
  C25. Tasks are read by their callers only. The status endpoint answers with the stored state of a task exactly
  when the caller is the organisation and user that created it, or the task was created anonymously and the
  caller is anonymous too; everybody else is told that there is no such task.
\<close>

theorem inbound_reads_isolated:
  assumes "tasks_ok s" "t \<in> set (ib_tasks s)"
  shows "message_status True (Inr payload) (it_id t) s =
    (if caller_owns payload t then stored_reply 200 t else Refusal 404 ''A2A task not found'')"
proof (cases payload)
  case None
  then show ?thesis
    using find_task [OF assms, of "\<lambda>u. it_caller_org_id u = [] \<and> it_caller_user_id u = []"]
    by (auto simp: message_status_def get_inbound_task_def caller_owns_def)
next
  case (Some p)
  then show ?thesis
    using find_task [OF assms, of "\<lambda>u. it_caller_org_id u = ap_org_id p \<and> it_caller_user_id u = ap_sub p"]
    by (auto simp: message_status_def get_inbound_task_def caller_owns_def truthy_def)
qed

section \<open>Repeated messages\<close>

lemma first_created_unique:
  assumes "x \<in> set (ib_tasks s)" "p x" "\<And>y. y \<in> set (ib_tasks s) \<Longrightarrow> p y \<Longrightarrow> y = x"
  shows "first_created p s = Some x"
proof -
  let ?rows = "sort_key (\<lambda>t. (it_created_at t, it_id t)) (rows_where p (ib_tasks s))"
  have "set ?rows = {y \<in> set (ib_tasks s). p y}" by (simp add: rows_where_def)
  also have "\<dots> = {x}" using assms by blast
  finally have rows: "set ?rows = {x}" .
  show ?thesis
  proof (cases ?rows)
    case (Cons y r)
    with rows have "y = x" by auto
    with Cons show ?thesis by (simp add: first_created_def first_row_def)
  qed (use rows in simp)
qed

text \<open>A caller whose client task ids are unique: both identifiers are known, or none is.\<close>

definition identified :: "caller \<Rightarrow> bool" where
  "identified c \<longleftrightarrow> (cl_org_id c \<noteq> [] \<and> cl_user_id c \<noteq> []) \<or> (cl_org_id c = [] \<and> cl_user_id c = [])"

definition owned_task :: "caller \<Rightarrow> string \<Rightarrow> inbound_task \<Rightarrow> bool" where
  "owned_task c k t \<longleftrightarrow> it_client_task_id t = k \<and> it_caller_org_id t = cl_org_id c \<and> it_caller_user_id t = cl_user_id c \<and>
     (cl_org_id c = [] \<longrightarrow> it_caller_ip t = cl_ip c)"

lemma create_repeated:
  assumes ok: "tasks_ok s" and x: "x \<in> set (ib_tasks s)" "owned_task c k x" and k: "k \<noteq> []" "tq_client_task_id q = Some k"
    and len: "length k \<le> 256" "length (text_or_empty (tq_context_id q)) \<le> 256" and c: "identified c"
  shows "create_inbound_task now owner ls task_id run_id q c s = Inr ((x, False), s)"
proof -
  let ?t = "new_inbound_task now owner ls task_id run_id q c"
  have same: "same_client_task ?t y \<longleftrightarrow> owned_task c k y" for y
    using c k by (auto simp: same_client_task_def owned_task_def identified_def new_inbound_task_def text_or_empty_def)
  have unique: "y = x" if "y \<in> set (ib_tasks s)" "owned_task c k y" for y
  proof -
    have "same_client_task x y" using x(2) that(2) k(1) c by (auto simp: same_client_task_def owned_task_def identified_def)
    with ok that(1) x(1) show ?thesis unfolding tasks_ok_def by blast
  qed
  have "exists_where (task_conflict ?t) (ib_tasks s)" using x same by (auto simp: exists_where_iff task_conflict_def)
  then have ins: "insert_inbound_task ?t s = Inr (False, s)"
    using len k by (simp add: insert_inbound_task_def new_inbound_task_def text_or_empty_def)
  have client: "it_client_task_id ?t = k" using k(2) by (simp add: new_inbound_task_def text_or_empty_def)
  have first: "first_created (owned_task c k) s = Some x" by (rule first_created_unique [where p = "owned_task c k", OF x]) (rule unique)
  show ?thesis
  proof (cases "cl_org_id c = []")
    case True
    then have "owned_task c k = (\<lambda>y. it_caller_org_id y = [] \<and> it_caller_user_id y = [] \<and> it_caller_ip y = cl_ip c \<and> it_client_task_id y = k)"
      using c by (auto simp: fun_eq_iff owned_task_def identified_def)
    with first True ins client k(1) show ?thesis unfolding create_inbound_task_def Let_def by simp
  next
    case False
    then have "owned_task c k = (\<lambda>y. it_caller_org_id y = cl_org_id c \<and> it_caller_user_id y = cl_user_id c \<and> it_client_task_id y = k)"
      by (auto simp: fun_eq_iff owned_task_def)
    with first False c ins client k(1) show ?thesis unfolding create_inbound_task_def Let_def identified_def by simp
  qed
qed

lemma send_async_reply:
  assumes "send_async env q payload b txt intro (p, w) = (TaskReply code i stt out pend, p1, w1)" "tasks_ok (iw_tasks w)"
    and "sb_task_id b = Some k" "k \<noteq> []" "identified (caller_of q payload)" "sd_normal env (sb_message b) = Some (sb_normal b)"
  obtains t where "tasks_ok (iw_tasks w1)" "t \<in> set (ib_tasks (iw_tasks w1))" "it_id t = i" "owned_task (caller_of q payload) k t"
    "task_request_matches (sd_normal env) t b" "length k \<le> 256" "length (text_or_empty (sb_context_id b)) \<le> 256"
proof -
  let ?c = "caller_of q payload" and ?run = "sd_run env"
  let ?q = "\<lparr>tq_client_task_id = sb_task_id b, tq_context_id = sb_context_id b, tq_message = sb_message b, tq_metadata = sb_metadata b,
    tq_user_message = txt\<rparr>"
  obtain t created s where cr: "create_inbound_task (in_claimed_at ?run) (in_owner ?run) (in_lease_seconds ?run) (sd_task_id env)
      (sd_run_id env) ?q ?c (iw_tasks w) = Inr ((t, created), s)"
    using assms(1) by (auto simp: send_async_def split: sum.splits)
  have len: "length k \<le> 256" "length (text_or_empty (sb_context_id b)) \<le> 256"
    using cr assms(3) by (auto simp: create_inbound_task_def Let_def bindE_eq_Inr_iff insert_inbound_task_def new_inbound_task_def
        text_or_empty_def split: if_splits)
  have ok: "tasks_ok s" using create_operation [OF assms(2) cr, of "sd_task_id env @ ''x''"] by simp
  from cr show thesis
  proof (cases rule: create_cases)
    case fresh
    then have w1: "iw_tasks w1 = s" "it_id t = i"
      using assms(1) cr by (auto simp: send_async_def Let_def split: prod.splits bool.splits if_splits)
    have "t \<in> set (ib_tasks s)" using fresh(3) by (auto simp: insert_inbound_task_def split: if_splits)
    moreover have "owned_task ?c k t" using fresh(2) assms(3) by (simp add: owned_task_def new_inbound_task_def text_or_empty_def)
    moreover have "task_request_matches (sd_normal env) t b"
      using fresh(2) assms(3,6) by (simp add: task_request_matches_def new_inbound_task_def text_or_empty_def)
    ultimately show ?thesis using that [of t] ok w1 len by simp
  next
    case old
    then have w1: "iw_tasks w1 = s" "it_id t = i" "task_request_matches (sd_normal env) t b"
      using assms(1) cr by (auto simp: send_async_def stored_reply_def Let_def split: if_splits)
    moreover have "owned_task ?c k t" using old(4,5) assms(3,5) by (auto simp: owned_task_def identified_def text_or_empty_def split: if_splits)
    ultimately show ?thesis using that [of t] ok old(2,3) len by simp
  qed
qed

text \<open>
  C23. Repeating a message does not repeat its work. When an asynchronous message with a task id of the client's
  was accepted, then sending it again, after anything that other requests and processes did and as long as the
  task is kept, returns the state of the same task: nothing is created, queued or changed. What is relied on:
  validating a stored message gives the normal form it had when it was received.
\<close>

theorem client_task_idempotent:
  assumes "tasks_ok (iw_tasks w)" "send_async env q payload b txt intro (p, w) = (TaskReply code i stt out pend, p1, w1)"
    and "sb_task_id b = Some k" "k \<noteq> []" "identified (caller_of q payload)" "sd_normal env (sb_message b) = Some (sb_normal b)"
    and "(inbound_step i)\<^sup>*\<^sup>* (iw_tasks w1) (iw_tasks w2)" "x \<in> set (ib_tasks (iw_tasks w2))" "it_id x = i"
    and "sq_ip q' = sq_ip q" "sd_normal env' = sd_normal env"
  shows "send_async env' q' payload b txt' intro' (p2, w2) = (stored_reply (if task_active x then 202 else 200) x, p2, w2)"
proof -
  obtain t where t: "tasks_ok (iw_tasks w1)" "t \<in> set (ib_tasks (iw_tasks w1))" "it_id t = i" "owned_task (caller_of q payload) k t"
    "task_request_matches (sd_normal env) t b" "length k \<le> 256" "length (text_or_empty (sb_context_id b)) \<le> 256"
    using send_async_reply [OF assms(2,1,3-6)] .
  have hist: "tasks_ok (iw_tasks w2)" "task_history i (iw_tasks w1) (iw_tasks w2)" using inbound_steps_keep [OF assms(7) t(1)] by simp_all
  then obtain u where u: "u \<in> set (ib_tasks (iw_tasks w1))" "task_progress u x" using assms(8,9) by (auto simp: task_history_def)
  moreover have "u = t" by (rule task_by_id [OF t(1) u(1) t(2)]) (simp add: t(3) assms(9) flip: task_progress_id [OF u(2)])
  ultimately have ident: "task_identity x = task_identity t" by (simp add: task_progress_def)
  have c: "caller_of q' payload = caller_of q payload" using assms(10) by (simp add: caller_of_def)
  have "owned_task (caller_of q payload) k x" "task_request_matches (sd_normal env) x b"
    using t(4,5) ident by (simp_all add: owned_task_def task_request_matches_def task_identity_def)
  then show ?thesis
    using create_repeated [OF hist(1) assms(8) _ assms(4)] t(6,7) assms(3,5,11) by (simp add: send_async_def c)
qed

section \<open>Paid results\<close>

definition paid_row :: "inbound_state \<Rightarrow> string \<Rightarrow> string \<Rightarrow> bool" where
  "paid_row stt meth tx \<longleftrightarrow> (stt = InCompleted \<and> meth = ''x402'' \<longrightarrow> tx \<noteq> [])"

definition paid_task :: "inbound_task \<Rightarrow> bool" where
  "paid_task t \<longleftrightarrow> paid_row (it_state t) (it_billing_method t) (it_settlement_tx t)"

definition paid_ok :: "inbound_db \<Rightarrow> bool" where
  "paid_ok s \<longleftrightarrow> (\<forall>t \<in> set (ib_tasks s). paid_task t) \<and>
     (\<forall>e \<in> set (ib_events s). paid_row (ie_task_state e) (ie_billing_method e) (ie_settlement_tx e))"

lemma paid_ok_update:
  assumes "paid_ok s" "\<And>t. t \<in> set (ib_tasks s) \<Longrightarrow> p t \<Longrightarrow> paid_task t \<Longrightarrow> paid_task (f t)"
  shows "paid_ok (s\<lparr>ib_tasks := update_where p f (ib_tasks s)\<rparr>)"
  using assms by (auto simp: paid_ok_def set_update_where)

lemma paid_event:
  assumes "paid_ok s" "paid_row (ie_task_state e) (ie_billing_method e) (ie_settlement_tx e)"
  shows "paid_ok (record_inbound_event up e s)"
  using assms by (auto simp: paid_ok_def record_inbound_event_def Let_def)

lemma paid_finish:
  assumes "paid_ok s" "finish_inbound_task now owner i x s = Inr (r, s')" "paid_row (to_state x) (to_billing_method x) (to_settlement_tx x)"
  shows "paid_ok s'"
  using assms paid_ok_update [OF assms(1), of "may_finish owner i x" "finished_task now x"]
  by (auto simp: finish_inbound_task_def update_tasks_def paid_task_def finished_task_def split: if_splits)

lemma paid_claim: "paid_ok s \<Longrightarrow> paid_ok (snd (claim_inbound_task now owner ls i s))"
  unfolding claim_inbound_task_def update_tasks_def by (simp, rule paid_ok_update) (auto simp: paid_task_def paid_row_def)

lemma paid_mark:
  assumes "paid_ok s" "mark_inbound_task_billing_method i meth s = Inr s'"
  shows "paid_ok s'"
  using assms paid_ok_update [OF assms(1), of "\<lambda>t. it_id t = i \<and> it_state t = InRunning" "\<lambda>t. t\<lparr>it_billing_method := meth\<rparr>"]
  by (auto simp: mark_inbound_task_billing_method_def paid_task_def paid_row_def split: if_splits)

lemma paid_create:
  assumes "paid_ok s" "create_inbound_task now owner ls task_id run_id q c s = Inr ((t, created), s')"
  shows "paid_ok s'"
  using assms(2)
proof (cases rule: create_cases)
  case fresh
  then have "paid_task t" "s' = s\<lparr>ib_tasks := ib_tasks s @ [t]\<rparr>"
    by (auto simp: insert_inbound_task_def new_inbound_task_def paid_task_def paid_row_def split: if_splits)
  with assms(1) show ?thesis by (simp add: paid_ok_def)
qed (use assms(1) in simp)

lemma task_event_state [simp]: "ie_task_state (task_event i t stt cost) = stt"
  by (simp add: task_event_def)

lemma finish_async_paid:
  assumes "paid_ok s" "finish_async_task env t stt out err b usage cost amount tx duration s = Inr s'"
    and "stt = InCompleted \<and> is_x402 b \<Longrightarrow> tx \<noteq> None \<and> tx \<noteq> Some []"
  shows "paid_ok s'"
proof -
  have row: "paid_row stt (billing_label b stt) (case tx of Some x \<Rightarrow> x | None \<Rightarrow> fst (billing_left env b))"
    using assms(3) by (auto simp: paid_row_def billing_label_def is_x402_def split: run_billing.splits inbound_state.splits option.splits)
  show ?thesis
    using assms(2) paid_finish [OF assms(1)] row
    by (auto simp: finish_async_task_def Let_def bindE_def split: sum.splits option.splits intro!: paid_event)
qed

lemma admit_tasks: "iw_tasks (snd (admit_inbound env payload header reqs org w)) = iw_tasks w"
  by (auto simp: admit_inbound_def Let_def split: option.splits prod.splits gate_outcome.splits)

lemma call_agent_tasks: "iw_tasks (snd (call_agent env run b w)) = iw_tasks w"
  by (auto simp: call_agent_def split: inbound_call.splits prod.splits sum.splits)

lemma release_claim_tasks: "iw_tasks (snd (release_claim env header b w)) = iw_tasks w"
  by (auto simp: release_claim_def split: prod.splits)

lemma result_withheld:
  assumes "\<not> x402_result_withheld b r" "inbound_result_state (ar_task_state r) = InCompleted" "is_x402 b"
  shows "ar_settlement_tx r \<noteq> []"
  using assms by (cases "ar_task_state r") (auto simp: x402_result_withheld_def inbound_result_state_def)

lemma on_tasks_paid:
  assumes "paid_ok (iw_tasks w)" "\<And>s'. f (iw_tasks w) = Inr s' \<Longrightarrow> paid_ok s'"
  shows "paid_ok (iw_tasks (snd (on_tasks f w)))"
  using assms by (auto simp: on_tasks_def split: sum.splits)

lemma body_paid:
  assumes "paid_ok (iw_tasks w)"
  shows "paid_ok (iw_tasks (snd (snd (inbound_task_body env job t w))))"
proof -
  let ?adm = "admit_inbound env (jb_payload job) (jb_header job) (jb_requirements job) (it_caller_org_id (jb_task job)) w"
  obtain a w1 where a: "?adm = (a, w1)" by fastforce
  then have p1: "paid_ok (iw_tasks w1)" using admit_tasks [of env "jb_payload job" "jb_header job" "jb_requirements job"] assms by (metis snd_conv)
  have reject: "paid_ok (iw_tasks (snd (on_tasks (finish_async_task env t stt e e Unbilled None 0 None None 0) w1)))" for stt e
    by (rule on_tasks_paid [OF p1]) (erule finish_async_paid [OF p1], simp add: is_x402_def)
  show ?thesis
  proof (cases a)
    case (Admit b)
    let ?mark = "if b = Unbilled then (Inr (), w1)
      else on_tasks (mark_inbound_task_billing_method (it_id (jb_task job)) (if is_x402 b then ''x402'' else ''credit'')) w1"
    obtain m w2 where m: "?mark = (m, w2)" by fastforce
    have "paid_ok (iw_tasks (snd ?mark))" using p1 on_tasks_paid [OF p1] paid_mark [OF p1] by auto
    with m have p2: "paid_ok (iw_tasks w2)" by simp
    obtain r w3 where r: "call_agent env (a2a_run env (it_caller_org_id (jb_task job)) (it_caller_user_id (jb_task job)) (it_run_id (jb_task job))) b w2 = (r, w3)"
      by fastforce
    then have p3: "paid_ok (iw_tasks w3)" using call_agent_tasks p2 by (metis snd_conv)
    have delivered: "paid_ok (iw_tasks (snd (on_tasks (finish_async_task env t
         (if x402_result_withheld b x then InRejectedPayment else inbound_result_state (ar_task_state x)) out err b usage cost amount
         (Some (ar_settlement_tx x)) duration) w3)))" for x out err usage cost amount duration
      by (rule on_tasks_paid [OF p3]) (erule finish_async_paid [OF p3], use result_withheld [of b x] in \<open>auto split: if_splits\<close>)
    show ?thesis
    proof (cases m)
      case (Inl e)
      then show ?thesis by (simp add: inbound_task_body_def a Admit m p2 Let_def)
    next
      case (Inr u)
      then have m': "m = Inr ()" by simp
      show ?thesis
      proof (cases r)
        case (Inl e)
        then show ?thesis by (simp add: inbound_task_body_def a Admit m r p3 m' Let_def)
      next
        case (Inr x)
        then show ?thesis unfolding inbound_task_body_def Let_def a Admit
          by (simp add: m r m' delivered case_prod_beta del: if_split split del: if_split)
      qed
    qed
  qed (use reject in \<open>simp_all add: inbound_task_body_def a Let_def case_prod_beta\<close>)
qed

lemma end_failed_paid:
  assumes "paid_ok (iw_tasks w)"
  shows "paid_ok (iw_tasks (snd (end_failed env t out err b amount w)))"
proof -
  have "paid_ok (iw_tasks (snd (on_tasks (finish_async_task env t InFailed out err b None 0 amount None 0) w)))"
    by (rule on_tasks_paid [OF assms]) (erule finish_async_paid [OF assms], simp)
  then show ?thesis by (simp add: end_failed_def case_prod_beta)
qed

lemma end_paid:
  assumes "paid_ok (iw_tasks w)"
  shows "paid_ok (iw_tasks (snd (end_inbound_task env job t e b w)))"
proof (cases e)
  case CapacityExhausted
  obtain x w2 where x: "release_claim env (jb_header job) b w = (x, w2)" by fastforce
  then have "paid_ok (iw_tasks w2)" using release_claim_tasks assms by (metis snd_conv)
  with CapacityExhausted end_failed_paid show ?thesis unfolding end_inbound_task_def by (cases x) (simp_all add: x)
qed (use end_failed_paid [OF assms] in \<open>simp_all add: end_inbound_task_def\<close>)

lemma run_async_paid:
  assumes "paid_ok (iw_tasks w)"
  shows "paid_ok (iw_tasks (snd (run_async_inbound_task env job w)))"
proof -
  obtain c s where c: "claim_inbound_task (in_claimed_at env) (in_owner env) (in_lease_seconds env) (it_id (jb_task job)) (iw_tasks w) = (c, s)"
    by fastforce
  with paid_claim [OF assms] have s: "paid_ok s" by (metis snd_conv)
  show ?thesis
  proof (cases c)
    case (Some t)
    obtain r b w1 where r: "inbound_task_body env job t (w\<lparr>iw_tasks := s\<rparr>) = (r, b, w1)" by (metis prod_cases3)
    with body_paid [of "w\<lparr>iw_tasks := s\<rparr>" env job t] s have "paid_ok (iw_tasks w1)" by simp
    with end_paid show ?thesis by (cases r) (simp_all add: run_async_inbound_task_def c Some r)
  qed (simp add: run_async_inbound_task_def c s)
qed

lemma mark_interrupted_paid:
  assumes "paid_ok (iw_tasks w)"
  shows "paid_ok (iw_tasks (mark_worker_interrupted env i w))"
  using assms paid_finish [OF assms] by (auto simp: mark_worker_interrupted_def paid_row_def split: sum.split)

lemma worker_paid:
  assumes "paid_ok (iw_tasks w)"
  shows "paid_ok (iw_tasks (snd (inbound_task_worker env (p, w))))"
  using run_async_paid [OF assms] mark_interrupted_paid assms
  by (auto simp: inbound_task_worker_def case_prod_beta split: option.split list.split)

lemma stop_paid:
  assumes "paid_ok (iw_tasks w)"
  shows "paid_ok (iw_tasks (snd (stop_inbound_task_workers env (p, w))))"
proof -
  have "paid_ok (iw_tasks (fold (\<lambda>job. mark_worker_interrupted env (it_id (jb_task job))) q w))" for q
    using assms by (induction q arbitrary: w) (simp_all add: mark_interrupted_paid)
  then show ?thesis by (simp add: stop_inbound_task_workers_def)
qed

lemma send_async_paid:
  assumes "paid_ok (iw_tasks w)"
  shows "paid_ok (iw_tasks (snd (snd (send_async env q payload b txt intro (p, w)))))"
proof -
  have unq: "paid_ok (iw_tasks (fail_unqueued e t why w'))" if "paid_ok (iw_tasks w')" for e t why w'
    unfolding fail_unqueued_def by (rule on_tasks_paid [OF that]) (erule finish_async_paid [OF that], simp)
  let ?run = "sd_run env"
  let ?cr = "create_inbound_task (in_claimed_at ?run) (in_owner ?run) (in_lease_seconds ?run) (sd_task_id env) (sd_run_id env)
    \<lparr>tq_client_task_id = sb_task_id b, tq_context_id = sb_context_id b, tq_message = sb_message b, tq_metadata = sb_metadata b,
     tq_user_message = txt\<rparr> (caller_of q payload) (iw_tasks w)"
  show ?thesis
  proof (cases ?cr)
    case (Inl e)
    then show ?thesis using assms by (simp add: send_async_def)
  next
    case (Inr x)
    obtain t created s where x: "x = ((t, created), s)" by (metis prod.exhaust)
    have "paid_ok s" using paid_create [OF assms Inr [unfolded x]] .
    then show ?thesis using Inr x unq [of "w\<lparr>iw_tasks := s\<rparr>"]
      by (simp add: send_async_def Let_def case_prod_beta split: bool.split)
  qed
qed

lemma send_sync_paid:
  assumes "paid_ok (iw_tasks w)"
  shows "paid_ok (iw_tasks (snd (send_sync env q payload b intro w)))"
proof -
  let ?run = "sd_run env" and ?c = "caller_of q payload"
  obtain a w1 where a: "admit_inbound ?run payload (sq_header q) intro (cl_org_id ?c) w = (a, w1)" by fastforce
  then have p1: "paid_ok (iw_tasks w1)" using admit_tasks assms by (metis snd_conv)
  have noted: "paid_ok (iw_tasks (note_event env (sync_event env ?c b stt usage address cost amount tx meth duration err) w'))"
    if "paid_ok (iw_tasks w')" "paid_row stt meth tx" for stt usage address cost amount tx meth duration err w'
    using paid_event [OF that(1)] that(2) by (simp add: note_event_def sync_event_def)
  show ?thesis
  proof (cases a)
    case (Admit billing)
    obtain r w2 where r: "call_agent ?run (a2a_run ?run (cl_org_id ?c) (cl_user_id ?c) (sd_run_id env)) billing w1 = (r, w2)" by fastforce
    then have p2: "paid_ok (iw_tasks w2)" using call_agent_tasks p1 by (metis snd_conv)
    obtain x w3 where x: "release_claim ?run (sq_header q) billing w2 = (x, w3)" by fastforce
    then have p3: "paid_ok (iw_tasks w3)" using release_claim_tasks p2 by (metis snd_conv)
    have row: "paid_row (if x402_result_withheld billing y then InRejectedPayment else inbound_result_state (ar_task_state y))
        (if billing = Unbilled then [] else billing_label billing InCompleted) (ar_settlement_tx y)" for y
      using result_withheld [of billing y] by (auto simp: paid_row_def billing_label_def is_x402_def split: run_billing.splits if_splits)
    show ?thesis
    proof (cases r)
      case (Inl e)
      then show ?thesis using p2 p3 by (cases e; cases x) (simp_all add: send_sync_def Let_def a Admit r x)
    next
      case (Inr y)
      then show ?thesis unfolding send_sync_def Let_def a Admit
        using noted [OF p2 row] by (simp add: r del: if_split split del: if_split)
    qed
  qed (use p1 noted [OF p1] in \<open>simp_all add: send_sync_def Let_def a paid_row_def\<close>)
qed

lemma message_send_paid:
  assumes "paid_ok (iw_tasks w)"
  shows "paid_ok (iw_tasks (snd (snd (message_send env q (p, w)))))"
  using assms send_async_paid [OF assms] send_sync_paid [OF assms]
  by (simp add: message_send_def Let_def case_prod_beta split: sum.split option.split)

text \<open>
  A process of the service: its endpoints, workers and timers, on the shared tables. Each of them is one step
  here: other processes act on the tables between two steps, not inside the run of one task (the claims,
  leases and results of tasks under finer interleavings are the histories of \<open>inbound_step\<close> above).
\<close>

inductive inbound_service :: "worker_pool \<times> inbound_world \<Rightarrow> worker_pool \<times> inbound_world \<Rightarrow> bool" where
  send: "message_send env q pw = (r, pw') \<Longrightarrow> inbound_service pw pw'"
| work: "inbound_service pw (inbound_task_worker env pw)"
| stop: "inbound_service pw (stop_inbound_task_workers env pw)"
| start: "start_inbound_task_workers m n p = Inr p' \<Longrightarrow> inbound_service (p, w) (p', w)"
| renewal: "inbound_service (p, w) (p, w\<lparr>iw_tasks := snd (renew_inbound_task_leases now owner ls (iw_tasks w))\<rparr>)"
| recovery: "recover_batch now owner locked n (iw_tasks w) = (rows, s) \<Longrightarrow>
    inbound_service (p, w) (p, w\<lparr>iw_tasks := record_recovered_a2a_task_audits usage_cost up ids 0 rows s\<rparr>)"
| retention: "inbound_service (p, w) (p, w\<lparr>iw_tasks := snd (delete_terminal_inbound_tasks now locked ttl_days n (iw_tasks w))\<rparr>)"
| elsewhere: "inbound_service (p, w) (p', w\<lparr>iw_db := d, iw_prices := ps, iw_pay := hs, iw_spawned := ts\<rparr>)"

lemma audits_paid: "paid_ok s \<Longrightarrow> paid_ok (record_recovered_a2a_task_audits usage_cost up ids k ts s)"
  by (induction ts arbitrary: s k) (simp_all add: paid_event paid_row_def Let_def)

lemma inbound_service_paid:
  assumes "inbound_service pw pw'" "paid_ok (iw_tasks (snd pw))"
  shows "paid_ok (iw_tasks (snd pw'))"
  using assms(1)
proof cases
  case (send env q r)
  then show ?thesis using message_send_paid [of "snd pw" env q "fst pw"] assms(2) by simp
next
  case (renewal p w now owner ls)
  then have "paid_ok (iw_tasks w)" using assms(2) by simp
  from paid_ok_update [OF this] show ?thesis by (simp add: renewal renew_inbound_task_leases_def Let_def paid_task_def)
next
  case (recovery now owner locked n w rows s p usage_cost up ids)
  then have "paid_ok (iw_tasks w)" using assms(2) by simp
  from paid_ok_update [OF this] have "paid_ok s" using recovery(3) by (auto simp: recover_batch_def Let_def paid_task_def interrupt_task_def paid_row_def)
  then show ?thesis by (simp add: recovery audits_paid)
next
  case (retention p w now locked ttl_days n)
  then show ?thesis using assms(2) by (auto simp: delete_terminal_inbound_tasks_def Let_def paid_ok_def rows_where_def)
qed (use assms(2) worker_paid [of "snd pw" _ "fst pw"] stop_paid [of "snd pw" _ "fst pw"] in simp_all)

text \<open>
  C24. A paid result is handed out only after its payment settled. Along every interleaving of messages,
  workers, shutdowns, recoveries and retention, a task or an audit row that says completed and paid on chain
  carries the settlement's transaction, so the status endpoint shows the text of a completed on-chain task only
  with its settlement.
\<close>

theorem paid_results_settled:
  assumes "inbound_service\<^sup>*\<^sup>* pw pw'" "paid_ok (iw_tasks (snd pw))"
    and "message_status enabled auth i (iw_tasks (snd pw')) = TaskReply code i' ''completed'' txt pend"
  shows "\<exists>t \<in> set (ib_tasks (iw_tasks (snd pw'))). it_id t = i \<and> txt = py_or (it_output_text t) (it_error t) \<and>
    (it_billing_method t = ''x402'' \<longrightarrow> it_settlement_tx t \<noteq> [])"
proof -
  let ?s = "iw_tasks (snd pw')"
  have ok: "paid_ok ?s" using assms(1,2) by induction (auto intro: inbound_service_paid)
  obtain t where t: "t \<in> set (ib_tasks ?s)" "it_id t = i" "stored_reply 200 t = TaskReply code i' ''completed'' txt pend"
    using assms(3) by (auto simp: message_status_def get_inbound_task_def split: if_splits sum.splits option.splits dest!: find_SomeD)
  then have "it_state t = InCompleted" by (cases "it_state t") (simp_all add: stored_reply_def task_response_state_def)
  with t ok show ?thesis by (auto simp: paid_ok_def paid_task_def paid_row_def stored_reply_def)
qed

section \<open>The loops end\<close>

lemma recover_loop_ends:
  assumes n: "0 < n" and start: "P s" "\<forall>r \<in> set acc. G r"
    and step: "\<And>k s. P s \<Longrightarrow> P (snd (batch k s)) \<and> weight (snd (batch k s)) + length (fst (batch k s)) \<le> (weight s :: nat) \<and> (\<forall>r \<in> set (fst (batch k s)). G r)"
    and last: "\<And>k s. P s \<Longrightarrow> length (fst (batch k s)) < n \<Longrightarrow> Q (snd (batch k s))"
  shows "\<exists>rows s'. recover_loop batch n k acc s = Some (rows, s') \<and> (\<forall>r \<in> set rows. G r) \<and> P s' \<and> Q s'"
  using start
proof (induction "weight s" arbitrary: s k acc rule: less_induct)
  case less
  obtain d t where b: "batch k s = (d, t)" by fastforce
  with step [OF less.prems(1), of k] less.prems(2) have t: "P t" "weight t + length d \<le> weight s" "\<forall>r \<in> set (acc @ d). G r" by auto
  show ?case
  proof (cases "length d < n")
    case True
    then show ?thesis using b t last [OF less.prems(1), of k] by (simp add: recover_loop.simps [of batch n k])
  next
    case False
    then have "weight t < weight s" using t(2) n by simp
    moreover have "recover_loop batch n k acc s = recover_loop batch n (Suc k) (acc @ d) t"
      by (subst recover_loop.simps) (use False b in simp)
    ultimately show ?thesis using less.hyps [OF _ t(1,3)] by simp
  qed
qed

definition active_tasks :: "inbound_db \<Rightarrow> inbound_task list" where
  "active_tasks s = rows_where task_active (ib_tasks s)"

lemma tasks_distinct: "tasks_ok s \<Longrightarrow> distinct (ib_tasks s)"
  by (simp add: tasks_ok_def distinct_map)

lemma recover_batch_weight:
  assumes "tasks_ok s"
  shows "length (active_tasks (snd (recover_batch now owner locked n s))) + length (fst (recover_batch now owner locked n s)) = length (active_tasks s)"
proof -
  let ?b = "orphan_batch now owner locked n s"
  have gone: "\<not> task_active (interrupt_task now t)" for t by (simp add: interrupt_task_def task_active_def)
  have "length (rows_where task_active (update_where (\<lambda>t. t \<in> set ?b) (interrupt_task now) ts)) =
      length (rows_where (\<lambda>t. t \<notin> set ?b) (rows_where task_active ts))" for ts
    by (induction ts) (auto simp: rows_where_def gone)
  moreover have "set ?b \<subseteq> set (active_tasks s)" using orphan_batch_set [of _ now owner locked n s] by (auto simp: active_tasks_def rows_where_def orphaned_def)
  moreover have "distinct ?b" unfolding orphan_batch_def using tasks_distinct [OF assms] by (intro distinct_sort_take) (simp add: rows_where_def)
  moreover have "distinct (active_tasks s)" using tasks_distinct [OF assms] by (simp add: active_tasks_def rows_where_def)
  ultimately show ?thesis using length_rows_without [of "active_tasks s" ?b] by (simp add: recover_batch_def Let_def active_tasks_def)
qed

definition lease_lapsed :: "instant \<Rightarrow> ident \<Rightarrow> inbound_task \<Rightarrow> bool" where
  "lease_lapsed at owner t \<longleftrightarrow> task_active t \<and> it_owner t \<noteq> owner \<and> (\<exists>e \<in> set_option (it_lease_expires_at t). e \<le> at)"

lemma recover_batch_last:
  assumes "length (fst (recover_batch now owner {} n s)) < n" "t \<in> set (ib_tasks (snd (recover_batch now owner {} n s)))" "at \<le> now"
  shows "\<not> lease_lapsed at owner t"
proof -
  let ?b = "orphan_batch now owner {} n s"
  have all: "set ?b = set (rows_where (orphaned now owner {}) (ib_tasks s))"
    using assms(1) unfolding recover_batch_def Let_def fst_conv length_map orphan_batch_def by (rule set_sort_take)
  from assms(2) have "t \<in> set (update_where (\<lambda>t. t \<in> set ?b) (interrupt_task now) (ib_tasks s))" by (simp add: recover_batch_def Let_def)
  then show ?thesis
  proof (cases rule: in_update_whereE)
    case (hit r)
    then show ?thesis by (simp add: lease_lapsed_def interrupt_task_def task_active_def)
  next
    case miss
    then have "\<not> orphaned now owner {} t" unfolding all by (simp add: rows_where_def)
    then show ?thesis using assms(3) by (force simp: orphaned_def lease_lapsed_def)
  qed
qed

lemma delete_batch_weight:
  assumes "tasks_ok s"
  shows "length (ib_tasks (snd (delete_terminal_inbound_tasks now locked ttl n s))) + fst (delete_terminal_inbound_tasks now locked ttl n s) =
    length (ib_tasks s)"
proof -
  let ?old = "old_batch now locked ttl (nat n) s"
  have "distinct ?old" unfolding old_batch_def using tasks_distinct [OF assms] by (intro distinct_sort_take) (simp add: rows_where_def)
  moreover have "set ?old \<subseteq> set (ib_tasks s)" by (auto simp: old_batch_def rows_where_def dest: in_set_takeD)
  ultimately show ?thesis using length_rows_without [OF tasks_distinct [OF assms]] by (simp add: delete_terminal_inbound_tasks_def Let_def)
qed

lemma delete_batch_last:
  assumes "fst (delete_terminal_inbound_tasks now {} ttl n s) < nat n" "0 < ttl" "at \<le> now"
    and "t \<in> set (ib_tasks (snd (delete_terminal_inbound_tasks now {} ttl n s)))"
  shows "task_active t \<or> at - days ttl \<le> it_created_at t"
proof -
  let ?old = "old_batch now {} ttl (nat n) s"
  have n: "0 < n" using assms(1) by (cases "n \<le> 0") simp_all
  then have "length ?old < nat n" using assms(1,2) by (simp add: delete_terminal_inbound_tasks_def Let_def)
  then have all: "set ?old = set (rows_where (old_terminal now ttl {}) (ib_tasks s))" unfolding old_batch_def by (rule set_sort_take)
  have "t \<in> set (ib_tasks s)" "t \<notin> set ?old" using assms(2,4) n by (simp_all add: delete_terminal_inbound_tasks_def Let_def rows_where_def)
  then have "\<not> old_terminal now ttl {} t" unfolding all by (simp add: rows_where_def)
  then show ?thesis using assms(3) by (auto simp: old_terminal_def)
qed

text \<open>
  C26. The recovery and retention loops end and do their work. With a positive batch size each returns: the
  recovery reports only tasks that it failed, and then no active task of another process has a lease that was
  lapsed when the loop began; the cleanup leaves no finished task older than the retention period. The tables
  stay well-formed. (No other transaction holds row locks; rows that are locked are left to the next pass.)
\<close>

theorem inbound_loops_end:
  assumes "tasks_ok s" "mono clock" "0 < n" "0 < ttl_days"
  shows "(\<exists>rows s'. recover_orphaned_inbound_tasks clock owner (\<lambda>_. {}) n s = Some (rows, s') \<and> tasks_ok s' \<and>
      (\<forall>t \<in> set rows. interrupted t) \<and> (\<forall>t \<in> set (ib_tasks s'). \<not> lease_lapsed (clock 0) owner t)) \<and>
    (\<exists>m s'. cleanup_terminal_inbound_tasks clock (\<lambda>_. {}) ttl_days n s = Some (m, s') \<and> tasks_ok s' \<and>
      (\<forall>t \<in> set (ib_tasks s'). task_active t \<or> clock 0 - days ttl_days \<le> it_created_at t))"
proof
  have mono: "clock 0 \<le> clock k" for k using assms(2) by (simp add: monoD)
  have "\<exists>rows s'. recover_loop (\<lambda>k. recover_batch (clock k) owner {} (nat n)) (nat n) 0 [] s = Some (rows, s') \<and>
      (\<forall>t \<in> set rows. interrupted t) \<and> tasks_ok s' \<and> (\<forall>t \<in> set (ib_tasks s'). \<not> lease_lapsed (clock 0) owner t)"
  proof (rule recover_loop_ends [where weight = "\<lambda>s. length (active_tasks s)"])
    fix k s
    assume ok: "tasks_ok s"
    show "tasks_ok (snd (recover_batch (clock k) owner {} (nat n) s)) \<and>
      length (active_tasks (snd (recover_batch (clock k) owner {} (nat n) s))) + length (fst (recover_batch (clock k) owner {} (nat n) s))
        \<le> length (active_tasks s) \<and> (\<forall>t \<in> set (fst (recover_batch (clock k) owner {} (nat n) s)). interrupted t)"
      using recover_op.keeps [OF ok] recover_batch_weight [OF ok, of "clock k" owner "{}" "nat n"]
      by (auto simp: recover_batch_def Let_def interrupted_def interrupt_task_def)
  qed (use assms(1,3) recover_batch_last mono in auto)
  then show "\<exists>rows s'. recover_orphaned_inbound_tasks clock owner (\<lambda>_. {}) n s = Some (rows, s') \<and> tasks_ok s' \<and>
      (\<forall>t \<in> set rows. interrupted t) \<and> (\<forall>t \<in> set (ib_tasks s'). \<not> lease_lapsed (clock 0) owner t)"
    using assms(3) by (auto simp: recover_orphaned_inbound_tasks_def)
  show "\<exists>m s'. cleanup_terminal_inbound_tasks clock (\<lambda>_. {}) ttl_days n s = Some (m, s') \<and> tasks_ok s' \<and>
      (\<forall>t \<in> set (ib_tasks s'). task_active t \<or> clock 0 - days ttl_days \<le> it_created_at t)"
    unfolding cleanup_terminal_inbound_tasks_def
    by (rule delete_ttl_rows_ends [where weight = "\<lambda>s. length (ib_tasks s)"])
      (use assms delete_op.keeps delete_batch_weight delete_batch_last mono in auto)
qed

section \<open>Witnesses\<close>

definition demo_run_env :: inbound_env where
  "demo_run_env = \<lparr>in_owner = ''p'', in_lease_seconds = 60, in_claimed_at = 5, in_finished_at = 9, in_event_id = ''e'', in_events_up = True,
     in_gate = demo_gate, in_settle = demo_settle, in_context = demo_context, in_usage_id = ''u'', in_call = CallRuns (GraphTimeout []),
     in_left = ([], 0), in_payer = (\<lambda>_. []), in_refusal = (\<lambda>_. ''no credit''), in_402 = (\<lambda>_. ''pay''), in_release_up = True, in_duration_ms = 3\<rparr>"

definition demo_send :: send_env where
  "demo_send = \<lparr>sd_enabled = True, sd_async_enabled = True, sd_run_id = ''r'', sd_task_id = ''t'', sd_intro = Inr None, sd_402_up = True,
     sd_normal = Some, sd_run = demo_run_env\<rparr>"

definition demo_body :: send_body where
  "demo_body = \<lparr>sb_role = ''user'', sb_parts = [(''text'', Some ''hi'')], sb_message = MObj [], sb_normal = MObj [], sb_metadata = MObj [],
     sb_context_id = None, sb_task_id = Some ''k''\<rparr>"

definition demo_send_request :: send_request where
  "demo_send_request = \<lparr>sq_auth = Inr (Some \<lparr>ap_org_id = ''acme'', ap_sub = ''bob'', ap_auth_method = ''email''\<rparr>), sq_header = [],
     sq_prefer = ''respond-async'', sq_ip = ''1'', sq_limited = False, sq_body = Some demo_body\<rparr>"

definition demo_caller :: "auth_payload option" where
  "demo_caller = Some \<lparr>ap_org_id = ''acme'', ap_sub = ''bob'', ap_auth_method = ''email''\<rparr>"

definition demo_task :: inbound_task where
  "demo_task = new_inbound_task 5 ''p'' 60 ''t'' ''r''
     \<lparr>tq_client_task_id = Some ''k'', tq_context_id = None, tq_message = MObj [], tq_metadata = MObj [], tq_user_message = ''hi''\<rparr>
     (caller_of demo_send_request demo_caller)"

definition demo_inbound :: inbound_db where
  "demo_inbound = \<lparr>ib_tasks = [demo_task], ib_events = []\<rparr>"

definition demo_world :: "inbound_db \<Rightarrow> inbound_world" where
  "demo_world s = \<lparr>iw_tasks = s, iw_db = demo_db, iw_prices = demo_pricing, iw_spawned = [], iw_pay = (demo_health, demo_store)\<rparr>"

lemmas demo_inbound_defs = demo_inbound_def demo_task_def new_inbound_task_def caller_of_def demo_caller_def demo_send_request_def
  text_or_empty_def py_or_def

lemma demo_inbound_ok: "tasks_ok \<lparr>ib_tasks = [], ib_events = []\<rparr>" "tasks_ok demo_inbound"
  by (simp_all add: tasks_ok_def task_ok_def task_active_def demo_inbound_defs)

lemma demo_claimed:
  "claim_inbound_task 6 ''p'' 60 ''t'' demo_inbound =
    (Some (demo_task\<lparr>it_state := InRunning, it_started_at := Some 6, it_lease_expires_at := Some (6 + seconds 60)\<rparr>),
     demo_inbound\<lparr>ib_tasks := [demo_task\<lparr>it_state := InRunning, it_started_at := Some 6, it_lease_expires_at := Some (6 + seconds 60)\<rparr>]\<rparr>)"
  by (simp add: claim_inbound_task_def update_tasks_def demo_inbound_defs seconds_def)

theorem inbound_task_runs_once_witness:
  "fst (claim_inbound_task 6 ''p'' 60 ''t'' demo_inbound) \<noteq> None \<and>
   claim_inbound_task 7 ''p'' 60 ''t'' (snd (claim_inbound_task 6 ''p'' 60 ''t'' demo_inbound)) =
     (None, snd (claim_inbound_task 6 ''p'' 60 ''t'' demo_inbound))"
  using inbound_task_runs_once [OF demo_inbound_ok(2) demo_claimed rtranclp.rtrancl_refl,
      of "\<lparr>jb_task = demo_task, jb_payload = None, jb_header = [], jb_requirements = None\<rparr>" 7 "''p''" 60]
  by (simp add: demo_claimed) (simp add: demo_inbound_defs)

definition demo_outcome :: "string \<Rightarrow> task_outcome" where
  "demo_outcome out = \<lparr>to_state = InCompleted, to_output_text = out, to_error = [], to_usage_event_id = Some ''u'', to_cost_usdc = 7,
     to_settlement_tx = ''0xaa'', to_billing_method = ''x402'', to_settlement_amount_usdc = 7, to_duration_ms = 3\<rparr>"

definition demo_finished_task :: inbound_task where
  "demo_finished_task = finished_task 8 (demo_outcome ''ok'') demo_task"

lemma demo_task_finished:
  "finish_inbound_task 8 ''p'' ''t'' (demo_outcome ''ok'') demo_inbound = Inr (Some demo_finished_task, demo_inbound\<lparr>ib_tasks := [demo_finished_task]\<rparr>)"
  by (simp add: finish_inbound_task_def update_tasks_def may_finish_def demo_outcome_def terminal_inbound_states_def bigint_def int4_def
      task_active_def demo_finished_task_def demo_inbound_defs)

theorem inbound_result_final_witness:
  "fst (projr (finish_inbound_task 8 ''p'' ''t'' (demo_outcome ''ok'') demo_inbound)) = Some demo_finished_task \<and>
   fst (projr (finish_inbound_task 9 ''p'' ''t'' (demo_outcome ''late'') (demo_inbound\<lparr>ib_tasks := [demo_finished_task]\<rparr>))) = None"
proof -
  have r: "has_result demo_finished_task"
    by (simp add: has_result_def task_active_def interrupted_def demo_finished_task_def finished_task_def demo_outcome_def)
  obtain x s' where x: "finish_inbound_task 9 ''p'' ''t'' (demo_outcome ''late'') (demo_inbound\<lparr>ib_tasks := [demo_finished_task]\<rparr>) = Inr (x, s')"
    by (auto simp: finish_inbound_task_def update_tasks_def demo_outcome_def terminal_inbound_states_def bigint_def int4_def)
  with inbound_result_final [OF demo_inbound_ok(2) demo_task_finished r rtranclp.rtrancl_refl] show ?thesis
    using demo_task_finished by auto
qed

theorem inbound_reads_isolated_witness:
  "message_status True (Inr demo_caller) ''t'' demo_inbound = stored_reply 200 demo_task \<and>
   message_status True (Inr None) ''t'' demo_inbound = Refusal 404 ''A2A task not found''"
proof -
  have t: "demo_task \<in> set (ib_tasks demo_inbound)" "it_id demo_task = ''t''" by (simp_all add: demo_inbound_defs)
  have "caller_owns demo_caller demo_task" "\<not> caller_owns None demo_task" by (simp_all add: caller_owns_def demo_inbound_defs)
  with inbound_reads_isolated [OF demo_inbound_ok(2) t(1)] t(2) show ?thesis by simp
qed

theorem client_task_idempotent_witness:
  "fst (send_async demo_send demo_send_request demo_caller demo_body ''hi'' None
      (\<lparr>wp_queue = Some [], wp_size = 5\<rparr>, demo_world \<lparr>ib_tasks = [], ib_events = []\<rparr>)) = TaskReply 202 ''t'' ''submitted'' [] True \<and>
   send_async (demo_send\<lparr>sd_task_id := ''t2'', sd_run_id := ''r2''\<rparr>) demo_send_request demo_caller demo_body ''hi'' None
      (\<lparr>wp_queue = Some [], wp_size = 5\<rparr>, demo_world demo_inbound) =
     (stored_reply 202 demo_task, \<lparr>wp_queue = Some [], wp_size = 5\<rparr>, demo_world demo_inbound)"
proof -
  have s: "send_async demo_send demo_send_request demo_caller demo_body ''hi'' None
      (\<lparr>wp_queue = Some [], wp_size = 5\<rparr>, demo_world \<lparr>ib_tasks = [], ib_events = []\<rparr>) =
      (TaskReply 202 ''t'' ''submitted'' [] True,
       \<lparr>wp_queue = Some [\<lparr>jb_task = demo_task, jb_payload = demo_caller, jb_header = [], jb_requirements = None\<rparr>], wp_size = 5\<rparr>, demo_world demo_inbound)"
    by (simp add: send_async_def create_inbound_task_def insert_inbound_task_def exists_where_def enqueue_inbound_task_def demo_world_def demo_send_def
        demo_run_env_def demo_body_def demo_inbound_defs Let_def)
  have x: "demo_task \<in> set (ib_tasks (iw_tasks (demo_world demo_inbound)))" "it_id demo_task = ''t''" "task_active demo_task"
    by (simp_all add: demo_world_def task_active_def demo_inbound_defs)
  have "tasks_ok (iw_tasks (demo_world \<lparr>ib_tasks = [], ib_events = []\<rparr>))" using demo_inbound_ok(1) by (simp add: demo_world_def)
  from client_task_idempotent [OF this s _ _ _ _ rtranclp.rtrancl_refl x(1,2), of "''k''" demo_send_request "demo_send\<lparr>sd_task_id := ''t2'', sd_run_id := ''r2''\<rparr>"] s x(3)
  show ?thesis by (simp add: demo_body_def demo_send_def identified_def caller_of_def demo_caller_def)
qed

theorem paid_results_settled_witness:
  "message_status True (Inr demo_caller) ''t'' (demo_inbound\<lparr>ib_tasks := [demo_finished_task]\<rparr>) = TaskReply 200 ''t'' ''completed'' ''ok'' False \<and>
   (\<exists>t \<in> {demo_finished_task}. it_settlement_tx t \<noteq> [])"
proof -
  let ?pw = "(\<lparr>wp_queue = None, wp_size = 0\<rparr>, demo_world (demo_inbound\<lparr>ib_tasks := [demo_finished_task]\<rparr>))"
  have "paid_ok (iw_tasks (snd ?pw))"
    by (simp add: demo_world_def paid_ok_def paid_task_def paid_row_def demo_inbound_def demo_finished_task_def finished_task_def demo_outcome_def)
  moreover have m: "message_status True (Inr demo_caller) ''t'' (iw_tasks (snd ?pw)) = TaskReply 200 ''t'' ''completed'' ''ok'' False"
    by (simp add: message_status_def get_inbound_task_def truthy_def stored_reply_def task_response_state_def task_active_def demo_world_def
        demo_finished_task_def finished_task_def demo_outcome_def demo_inbound_defs)
  ultimately obtain t where "t \<in> set (ib_tasks (iw_tasks (snd ?pw)))" "it_billing_method t = ''x402'' \<longrightarrow> it_settlement_tx t \<noteq> []"
    using paid_results_settled [OF rtranclp.rtrancl_refl] by blast
  with m show ?thesis by (simp add: demo_world_def demo_finished_task_def finished_task_def demo_outcome_def)
qed

theorem inbound_loops_end_witness:
  "(\<exists>rows s'. recover_orphaned_inbound_tasks (\<lambda>_. days 40) ''q'' (\<lambda>_. {}) 10 demo_inbound = Some (rows, s') \<and> tasks_ok s') \<and>
   (\<exists>m s'. cleanup_terminal_inbound_tasks (\<lambda>_. days 40) (\<lambda>_. {}) 30 10 demo_inbound = Some (m, s') \<and> tasks_ok s')"
  using inbound_loops_end [OF demo_inbound_ok(2), of "\<lambda>_. days 40" 10 30 "''q''"] by (auto simp: mono_def)

end
