(* ===== verification/Withdrawals.thy ===== *)
theory Withdrawals
  imports Earnings
begin

text \<open>
  Withdrawal of author earnings (\<^verbatim>\<open>marketplace/withdrawals.py\<close>). A withdrawal is claimed in one
  transaction (the earnings it pays are marked settled and linked to it), the transfer is attempted
  outside any transaction, and a second transaction settles the withdrawal, releases its earnings or
  records that the outcome is unknown. The settlement rail (\<^verbatim>\<open>transfer_usdc\<close> and
  \<^verbatim>\<open>verify_usdc_transfer\<close>, network calls) is an argument: each call returns or raises.

  The lemmas show the invariant \<open>payouts_ok\<close> (an earnings row is settled exactly when a withdrawal in
  flight or settled of the same author holds it, and a withdrawal never holds more than its amount),
  that every transaction keeps it, conserves what an author has earned, and never takes an earnings
  row back from a settled withdrawal.
\<close>

section \<open>Errors and the settlement rail\<close>

datatype withdrawal_error =
    WalletsDisabled
  | NoAuthorConfig
  | BelowMinimum usdc
  | InsufficientPending usdc usdc
  | CooldownRemaining int
  | NotPendingWithdrawal
  | NotAwaitingSettlement
  | WithdrawalNotFound
  | DifferentTransactionHash
  | WithdrawalDb db_error

record settlement_rail =
  rail_transfer :: "string \<Rightarrow> usdc \<Rightarrow> string option"
  rail_verify :: "string \<Rightarrow> bool option"

datatype transfer_status = TransferSettled | TransferFailed | TransferInFlight

record transfer_result =
  tr_tx_hash :: string
  tr_status :: transfer_status
  tr_error :: string

section \<open>Table operations\<close>

definition insert_withdrawal :: "withdrawal_row \<Rightarrow> db \<Rightarrow> withdrawal_error + db" where
  "insert_withdrawal w d =
    (if \<not> bigint (wd_amount_usdc w) then Inl (WithdrawalDb DataError)
     else if wd_amount_usdc w \<le> 0 then Inl (WithdrawalDb CheckViolation)
     else if exists_where (\<lambda>x. wd_id x = wd_id w) (tool_author_withdrawals d) then Inl (WithdrawalDb UniqueViolation)
     else if orgs d (wd_org_id w) = None then Inl (WithdrawalDb ForeignKeyViolation)
     else Inr (d\<lparr>tool_author_withdrawals := tool_author_withdrawals d @ [w]\<rparr>))"

definition find_withdrawal :: "ident \<Rightarrow> db \<Rightarrow> withdrawal_row option" where
  "find_withdrawal i d = find (\<lambda>w. wd_id w = i) (tool_author_withdrawals d)"

definition update_withdrawal ::
  "ident \<Rightarrow> (withdrawal_row \<Rightarrow> bool) \<Rightarrow> (withdrawal_row \<Rightarrow> withdrawal_row) \<Rightarrow> db \<Rightarrow> db" where
  "update_withdrawal i p f d =
    d\<lparr>tool_author_withdrawals := update_where (\<lambda>w. wd_id w = i \<and> p w) f (tool_author_withdrawals d)\<rparr>"

definition release_earnings :: "ident \<Rightarrow> db \<Rightarrow> db" where
  "release_earnings i d =
    d\<lparr>tool_author_earnings := update_where (\<lambda>e. ea_withdrawal_id e = Some i \<and> ea_status e = EarningSettled)
        (\<lambda>e. e\<lparr>ea_status := EarningPending, ea_withdrawal_id := None\<rparr>) (tool_author_earnings d)\<rparr>"

definition claimable :: "earning_row \<Rightarrow> bool" where
  "claimable e \<longleftrightarrow> ea_status e = EarningPending \<and> ea_withdrawal_id e = None"

definition claim_earnings :: "ident \<Rightarrow> ident list \<Rightarrow> db \<Rightarrow> db" where
  "claim_earnings i ids d =
    d\<lparr>tool_author_earnings := update_where (\<lambda>e. ea_id e \<in> set ids \<and> claimable e)
        (\<lambda>e. e\<lparr>ea_status := EarningSettled, ea_withdrawal_id := Some i\<rparr>) (tool_author_earnings d)\<rparr>"

section \<open>Requesting\<close>

definition last_withdrawal_at :: "ident \<Rightarrow> db \<Rightarrow> instant option" where
  "last_withdrawal_at org d =
    (case sort_key (\<lambda>w. - wd_created_at w) (rows_where (\<lambda>w. wd_org_id w = org) (tool_author_withdrawals d)) of
       [] \<Rightarrow> None
     | w # _ \<Rightarrow> Some (wd_created_at w))"

definition request_withdrawal ::
  "settings \<Rightarrow> instant \<Rightarrow> instant \<Rightarrow> ident \<Rightarrow> ident \<Rightarrow> usdc \<Rightarrow> db \<Rightarrow> (withdrawal_error + withdrawal_row) \<times> db" where
  "request_withdrawal st now now' i org amount d =
    (if \<not> agent_wallet_enabled st then (Inl WalletsDisabled, d)
     else case tool_author_config d org of
       None \<Rightarrow> (Inl NoAuthorConfig, d)
     | Some wallet \<Rightarrow>
         if amount < marketplace_minimum_withdrawal_usdc st
         then (Inl (BelowMinimum (marketplace_minimum_withdrawal_usdc st)), d)
         else if get_author_balance org d < amount
         then (Inl (InsufficientPending amount (get_author_balance org d)), d)
         else
           (let cooldown = seconds (marketplace_withdrawal_cooldown_seconds st);
                elapsed = (case last_withdrawal_at org d of None \<Rightarrow> None | Some t \<Rightarrow> Some (now - t));
                w = \<lparr>wd_id = i, wd_org_id = org, wd_amount_usdc = amount, wd_tx_hash = [], wd_wallet = wallet,
                     wd_status = WithdrawalPending, wd_created_at = now', wd_settled_at = None,
                     wd_sweep_attempt_count = 0, wd_last_sweep_error = [], wd_next_sweep_at = None\<rparr>
            in if (case elapsed of None \<Rightarrow> False | Some t \<Rightarrow> t < cooldown)
               then (Inl (CooldownRemaining ((cooldown - the elapsed) div seconds 1)), d)
               else transaction (\<lambda>d. bindE (insert_withdrawal w d) (\<lambda>d'. Inr (w, d'))) d))"

section \<open>Processing\<close>

fun take_earnings :: "usdc \<Rightarrow> earning_row list \<Rightarrow> ident list \<times> usdc" where
  "take_earnings remaining [] = ([], 0)"
| "take_earnings remaining (e # es) =
    (if remaining \<le> 0 then ([], 0)
     else if ea_author_share_usdc e > remaining then take_earnings remaining es
     else case take_earnings (remaining - ea_author_share_usdc e) es of
       (ids, taken) \<Rightarrow> (ea_id e # ids, ea_author_share_usdc e + taken))"

definition select_earnings_to_settle :: "ident \<Rightarrow> usdc \<Rightarrow> db \<Rightarrow> ident list \<times> usdc" where
  "select_earnings_to_settle org amount d =
    take_earnings amount
      (sort_key ea_created_at (rows_where (\<lambda>e. ea_org_id e = org \<and> claimable e) (tool_author_earnings d)))"

definition no_earnings_error :: string where
  "no_earnings_error = ''No pending earnings available for withdrawal''"

definition fail_row :: "string \<Rightarrow> withdrawal_row \<Rightarrow> withdrawal_row" where
  "fail_row err w =
    w\<lparr>wd_status := WithdrawalFailed, wd_tx_hash := [], wd_settled_at := None, wd_last_sweep_error := err\<rparr>"

definition in_flight_row :: "withdrawal_row \<Rightarrow> withdrawal_row" where
  "in_flight_row w =
    w\<lparr>wd_status := InFlight, wd_tx_hash := [], wd_settled_at := None, wd_last_sweep_error := []\<rparr>"

definition claim_withdrawal_tx :: "ident \<Rightarrow> db \<Rightarrow> withdrawal_error + ((withdrawal_row \<times> usdc) \<times> db)" where
  "claim_withdrawal_tx i d =
    (case find_withdrawal i d of
       None \<Rightarrow> Inl NotPendingWithdrawal
     | Some w \<Rightarrow>
         if wd_status w \<noteq> WithdrawalPending then Inl NotPendingWithdrawal
         else case select_earnings_to_settle (wd_org_id w) (wd_amount_usdc w) d of
           (ids, taken) \<Rightarrow>
             if ids = [] \<or> taken \<le> 0
             then Inr ((fail_row no_earnings_error w, 0),
                 update_withdrawal i (\<lambda>w. wd_status w = WithdrawalPending) (fail_row no_earnings_error) d)
             else Inr ((in_flight_row w, taken),
                 update_withdrawal i (\<lambda>w. wd_status w = WithdrawalPending) in_flight_row (claim_earnings i ids d)))"

definition claim_withdrawal :: "ident \<Rightarrow> db \<Rightarrow> (withdrawal_error + (withdrawal_row \<times> usdc)) \<times> db" where
  "claim_withdrawal i = transaction (claim_withdrawal_tx i)"

definition attempt_transfer :: "settings \<Rightarrow> settlement_rail \<Rightarrow> string \<Rightarrow> usdc \<Rightarrow> transfer_result" where
  "attempt_transfer st rail dest taken =
    (if taken \<le> 0 \<or> \<not> agent_wallet_enabled st
     then \<lparr>tr_tx_hash = [], tr_status = TransferFailed, tr_error = ''Transfer amount must be positive''\<rparr>
     else case rail_transfer rail dest taken of
       None \<Rightarrow> \<lparr>tr_tx_hash = [], tr_status = TransferInFlight,
                tr_error = ''Transfer outcome unknown; reconciliation required''\<rparr>
     | Some tx \<Rightarrow>
         (case rail_verify rail tx of
            None \<Rightarrow> \<lparr>tr_tx_hash = tx, tr_status = TransferInFlight,
                     tr_error = ''Transaction submitted; confirmation unavailable''\<rparr>
          | Some False \<Rightarrow> \<lparr>tr_tx_hash = tx, tr_status = TransferFailed,
                           tr_error = ''Transaction reverted on-chain''\<rparr>
          | Some True \<Rightarrow> \<lparr>tr_tx_hash = tx, tr_status = TransferSettled, tr_error = []\<rparr>))"

definition awaiting_settlement :: "ident \<Rightarrow> db \<Rightarrow> bool" where
  "awaiting_settlement i d =
    (case find_withdrawal i d of None \<Rightarrow> False | Some w \<Rightarrow> wd_status w = InFlight)"

definition settle_row :: "instant \<Rightarrow> string \<Rightarrow> withdrawal_row \<Rightarrow> withdrawal_row" where
  "settle_row now tx w =
    w\<lparr>wd_status := WithdrawalSettled, wd_tx_hash := tx, wd_settled_at := Some now, wd_last_sweep_error := []\<rparr>"

definition settle_withdrawal :: "instant \<Rightarrow> ident \<Rightarrow> string \<Rightarrow> db \<Rightarrow> (withdrawal_error + unit) \<times> db" where
  "settle_withdrawal now i tx d =
    (if \<not> awaiting_settlement i d then (Inl NotAwaitingSettlement, d)
     else (Inr (), update_withdrawal i (\<lambda>w. wd_status w = InFlight) (settle_row now tx) d))"

definition release_withdrawal :: "ident \<Rightarrow> string \<Rightarrow> db \<Rightarrow> (withdrawal_error + unit) \<times> db" where
  "release_withdrawal i err d =
    (if \<not> awaiting_settlement i d then (Inl NotAwaitingSettlement, d)
     else (Inr (), update_withdrawal i (\<lambda>w. wd_status w = InFlight) (fail_row err) (release_earnings i d)))"

definition record_in_flight :: "ident \<Rightarrow> string \<Rightarrow> string \<Rightarrow> db \<Rightarrow> db" where
  "record_in_flight i tx err =
    update_withdrawal i (\<lambda>w. wd_status w = InFlight) (\<lambda>w. w\<lparr>wd_tx_hash := tx, wd_last_sweep_error := err\<rparr>)"

definition process_withdrawal ::
  "settings \<Rightarrow> settlement_rail \<Rightarrow> instant \<Rightarrow> ident \<Rightarrow> db \<Rightarrow> (withdrawal_error + withdrawal_row) \<times> db" where
  "process_withdrawal st rail now i d =
    (if \<not> agent_wallet_enabled st then (Inl WalletsDisabled, d)
     else case claim_withdrawal i d of
       (Inl e, d1) \<Rightarrow> (Inl e, d1)
     | (Inr (w, taken), d1) \<Rightarrow>
         if wd_status w = WithdrawalFailed then (Inr w, d1)
         else
           (let r = attempt_transfer st rail (wd_wallet w) taken in
            case tr_status r of
              TransferSettled \<Rightarrow>
                (case settle_withdrawal now i (tr_tx_hash r) d1 of
                   (Inl e, d2) \<Rightarrow> (Inl e, d2)
                 | (Inr _, d2) \<Rightarrow>
                     (Inr (w\<lparr>wd_status := WithdrawalSettled, wd_tx_hash := tr_tx_hash r, wd_settled_at := Some now\<rparr>), d2))
            | TransferFailed \<Rightarrow>
                (case release_withdrawal i (tr_error r) d1 of
                   (Inl e, d2) \<Rightarrow> (Inl e, d2)
                 | (Inr _, d2) \<Rightarrow> (Inr (fail_row (tr_error r) w), d2))
            | TransferInFlight \<Rightarrow>
                (Inr (w\<lparr>wd_status := InFlight, wd_tx_hash := tr_tx_hash r, wd_last_sweep_error := tr_error r\<rparr>),
                 record_in_flight i (tr_tx_hash r) (tr_error r) d1)))"

section \<open>Operator actions and listings\<close>

definition complete_withdrawal :: "instant \<Rightarrow> ident \<Rightarrow> string \<Rightarrow> db \<Rightarrow> (withdrawal_error + unit) \<times> db" where
  "complete_withdrawal now i tx d =
    (case find_withdrawal i d of
       None \<Rightarrow> (Inl WithdrawalNotFound, d)
     | Some w \<Rightarrow>
         if wd_tx_hash w \<noteq> [] \<and> wd_tx_hash w \<noteq> tx then (Inl DifferentTransactionHash, d)
         else if wd_status w = InFlight
         then (Inr (), update_withdrawal i (\<lambda>w. wd_status w = InFlight) (settle_row now tx) d)
         else (Inr (), update_withdrawal i (\<lambda>_. True) (\<lambda>w. w\<lparr>wd_tx_hash := tx\<rparr>) d))"

definition list_pending_withdrawals :: "ident option \<Rightarrow> db \<Rightarrow> withdrawal_row list" where
  "list_pending_withdrawals org d =
    sort_key (\<lambda>w. - wd_created_at w)
      (rows_where (\<lambda>w. (case org of None \<Rightarrow> True | Some o' \<Rightarrow> wd_org_id w = o') \<and> wd_status w = WithdrawalPending)
        (tool_author_withdrawals d))"

definition list_org_withdrawals ::
  "ident \<Rightarrow> nat \<Rightarrow> instant option \<Rightarrow> db \<Rightarrow> py_error + (withdrawal_row list \<times> instant option)" where
  "list_org_withdrawals org limit cursor d =
    (let rows = take limit (sort_key (\<lambda>w. - wd_created_at w)
           (rows_where (\<lambda>w. wd_org_id w = org \<and> (case cursor of None \<Rightarrow> True | Some c \<Rightarrow> wd_created_at w < c))
             (tool_author_withdrawals d)))
     in if length rows = limit
        then (if rows = [] then Inl IndexError else Inr (rows, Some (wd_created_at (last rows))))
        else Inr (rows, None))"

definition resettable :: "withdrawal_row \<Rightarrow> bool" where
  "resettable w \<longleftrightarrow> wd_status w \<in> {WithdrawalFailed, WithdrawalExhausted, InFlight}"

definition reset_row :: "withdrawal_row \<Rightarrow> withdrawal_row" where
  "reset_row w =
    w\<lparr>wd_status := WithdrawalPending, wd_tx_hash := [], wd_settled_at := None, wd_sweep_attempt_count := 0,
      wd_last_sweep_error := [], wd_next_sweep_at := None\<rparr>"

definition reset_withdrawal :: "ident \<Rightarrow> db \<Rightarrow> bool \<times> db" where
  "reset_withdrawal i d =
    (case find_withdrawal i d of
       None \<Rightarrow> (False, d)
     | Some w \<Rightarrow>
         if \<not> resettable w then (False, d)
         else
           (let d1 = (if wd_status w = InFlight then release_earnings i d else d)
            in (True, update_withdrawal i resettable reset_row d1)))"

definition list_in_flight_withdrawals :: "nat \<Rightarrow> db \<Rightarrow> withdrawal_row list" where
  "list_in_flight_withdrawals limit d =
    take limit (sort_key wd_created_at (rows_where (\<lambda>w. wd_status w = InFlight) (tool_author_withdrawals d)))"

definition list_exhausted_withdrawals :: "nat \<Rightarrow> db \<Rightarrow> withdrawal_row list" where
  "list_exhausted_withdrawals limit d =
    take limit (sort_key (\<lambda>w. - wd_created_at w)
      (rows_where (\<lambda>w. wd_status w = WithdrawalExhausted) (tool_author_withdrawals d)))"

section \<open>The payout invariant\<close>

definition holds_payout :: "withdrawal_row \<Rightarrow> bool" where
  "holds_payout w \<longleftrightarrow> wd_status w \<in> {InFlight, WithdrawalSettled}"

definition link_ok :: "withdrawal_row list \<Rightarrow> earning_row \<Rightarrow> bool" where
  "link_ok ws e =
    (case ea_withdrawal_id e of
       None \<Rightarrow> ea_status e = EarningPending
     | Some i \<Rightarrow> ea_status e = EarningSettled \<and>
         (\<exists>w \<in> set ws. wd_id w = i \<and> wd_org_id w = ea_org_id e \<and> holds_payout w))"

definition claimed_usdc :: "ident \<Rightarrow> db \<Rightarrow> usdc" where
  "claimed_usdc i d =
    sum_where (\<lambda>e. ea_withdrawal_id e = Some i \<and> ea_status e = EarningSettled) ea_author_share_usdc
      (tool_author_earnings d)"

definition payouts_ok :: "db \<Rightarrow> bool" where
  "payouts_ok d \<longleftrightarrow>
     distinct (map wd_id (tool_author_withdrawals d)) \<and> distinct (map ea_id (tool_author_earnings d)) \<and>
     (\<forall>e \<in> set (tool_author_earnings d). 0 \<le> ea_author_share_usdc e \<and> link_ok (tool_author_withdrawals d) e) \<and>
     (\<forall>w \<in> set (tool_author_withdrawals d). claimed_usdc (wd_id w) d \<le> wd_amount_usdc w \<and> 0 < wd_amount_usdc w)"

definition earned :: "ident \<Rightarrow> db \<Rightarrow> usdc" where
  "earned org d = sum_where (\<lambda>e. ea_org_id e = org) ea_author_share_usdc (tool_author_earnings d)"

definition paid :: "db \<Rightarrow> earning_row \<Rightarrow> bool" where
  "paid d e \<longleftrightarrow> (\<exists>w \<in> set (tool_author_withdrawals d).
     ea_withdrawal_id e = Some (wd_id w) \<and> wd_status w = WithdrawalSettled)"

definition payout_evolves :: "db \<Rightarrow> db \<Rightarrow> bool" where
  "payout_evolves d d' \<longleftrightarrow> (payouts_ok d \<longrightarrow>
     payouts_ok d' \<and> (\<forall>org. earned org d' = earned org d) \<and>
     (\<forall>e \<in> set (tool_author_earnings d). paid d e \<longrightarrow> e \<in> set (tool_author_earnings d') \<and> paid d' e))"

lemma payouts_okD:
  assumes "payouts_ok d"
  shows "distinct (map wd_id (tool_author_withdrawals d))" "distinct (map ea_id (tool_author_earnings d))"
    "e \<in> set (tool_author_earnings d) \<Longrightarrow> 0 \<le> ea_author_share_usdc e"
    "e \<in> set (tool_author_earnings d) \<Longrightarrow> link_ok (tool_author_withdrawals d) e"
    "w \<in> set (tool_author_withdrawals d) \<Longrightarrow> claimed_usdc (wd_id w) d \<le> wd_amount_usdc w"
    "w \<in> set (tool_author_withdrawals d) \<Longrightarrow> 0 < wd_amount_usdc w"
  using assms unfolding payouts_ok_def by auto

text \<open>
  The part of the invariant that survives every interleaving: an earnings row is settled exactly when it
  is linked to a withdrawal of the same author, whatever the status of that withdrawal.
\<close>

definition booked_to :: "withdrawal_row list \<Rightarrow> earning_row \<Rightarrow> bool" where
  "booked_to ws e =
    (case ea_withdrawal_id e of
       None \<Rightarrow> ea_status e = EarningPending
     | Some i \<Rightarrow> ea_status e = EarningSettled \<and> (\<exists>w \<in> set ws. wd_id w = i \<and> wd_org_id w = ea_org_id e))"

definition books_ok :: "db \<Rightarrow> bool" where
  "books_ok d \<longleftrightarrow>
     distinct (map wd_id (tool_author_withdrawals d)) \<and> distinct (map ea_id (tool_author_earnings d)) \<and>
     (\<forall>e \<in> set (tool_author_earnings d). 0 \<le> ea_author_share_usdc e \<and> booked_to (tool_author_withdrawals d) e)"

definition books_evolve :: "db \<Rightarrow> db \<Rightarrow> bool" where
  "books_evolve d d' \<longleftrightarrow> (books_ok d \<longrightarrow> books_ok d' \<and> (\<forall>org. earned org d' = earned org d))"

lemma books_okD:
  assumes "books_ok d"
  shows "distinct (map wd_id (tool_author_withdrawals d))" "distinct (map ea_id (tool_author_earnings d))"
    "e \<in> set (tool_author_earnings d) \<Longrightarrow> 0 \<le> ea_author_share_usdc e"
    "e \<in> set (tool_author_earnings d) \<Longrightarrow> booked_to (tool_author_withdrawals d) e"
  using assms unfolding books_ok_def by auto

lemma payouts_books: "payouts_ok d \<Longrightarrow> books_ok d"
  unfolding payouts_ok_def books_ok_def link_ok_def booked_to_def by (fastforce split: option.splits)

lemma books_evolve_refl [simp]: "books_evolve d d"
  by (simp add: books_evolve_def)

lemma books_evolve_trans: "books_evolve d d1 \<Longrightarrow> books_evolve d1 d2 \<Longrightarrow> books_evolve d d2"
  unfolding books_evolve_def by metis

lemma payout_evolves_refl [simp]: "payout_evolves d d"
  by (simp add: payout_evolves_def)

lemma payout_evolves_trans: "payout_evolves d d1 \<Longrightarrow> payout_evolves d1 d2 \<Longrightarrow> payout_evolves d d2"
  unfolding payout_evolves_def by metis

lemma holder_of_link:
  assumes "payouts_ok d" "w \<in> set (tool_author_withdrawals d)" "e \<in> set (tool_author_earnings d)"
    and "ea_withdrawal_id e = Some (wd_id w)"
  shows "holds_payout w" "ea_org_id e = wd_org_id w" "ea_status e = EarningSettled"
proof -
  obtain w' where w': "w' \<in> set (tool_author_withdrawals d)" "wd_id w' = wd_id w" "wd_org_id w' = ea_org_id e"
    "holds_payout w'"
    using payouts_okD(4) [OF assms(1,3)] assms(4) by (auto simp: link_ok_def)
  then have "w' = w" using distinct_key_eq [OF payouts_okD(1) [OF assms(1)]] assms(2) by blast
  with w' show "holds_payout w" "ea_org_id e = wd_org_id w" by simp_all
  show "ea_status e = EarningSettled"
    using payouts_okD(4) [OF assms(1,3)] assms(4) by (simp add: link_ok_def)
qed

lemma link_ok_mono:
  assumes "link_ok ws e"
    and "\<And>w. w \<in> set ws \<Longrightarrow> holds_payout w \<Longrightarrow>
      \<exists>w' \<in> set ws'. wd_id w' = wd_id w \<and> wd_org_id w' = wd_org_id w \<and> holds_payout w'"
  shows "link_ok ws' e"
  using assms unfolding link_ok_def by (cases "ea_withdrawal_id e") (simp_all, metis)

lemma unlinked_claims_nothing:
  "(\<And>e. e \<in> set (tool_author_earnings d) \<Longrightarrow> ea_withdrawal_id e \<noteq> Some i) \<Longrightarrow> claimed_usdc i d = 0"
  unfolding claimed_usdc_def by (rule sum_where_none) auto

section \<open>Primitive moves\<close>

text \<open>
  An update of a withdrawal row that keeps its identity and, where earnings are linked to it, does not
  stop it holding them.
\<close>

definition linked :: "ident \<Rightarrow> db \<Rightarrow> bool" where
  "linked i d \<longleftrightarrow> (\<exists>e \<in> set (tool_author_earnings d). ea_withdrawal_id e = Some i)"

definition same_withdrawal :: "withdrawal_row \<Rightarrow> withdrawal_row \<Rightarrow> bool" where
  "same_withdrawal w w' \<longleftrightarrow>
     wd_id w' = wd_id w \<and> wd_org_id w' = wd_org_id w \<and> wd_amount_usdc w' = wd_amount_usdc w"

lemma update_withdrawal_evolves:
  assumes same: "\<And>w. same_withdrawal w (f w)"
    and keep: "\<And>w. w \<in> set (tool_author_withdrawals d) \<Longrightarrow> wd_id w = i \<Longrightarrow> p w \<Longrightarrow> linked i d \<Longrightarrow>
      (holds_payout w \<longrightarrow> holds_payout (f w)) \<and> (wd_status w = WithdrawalSettled \<longrightarrow> wd_status (f w) = WithdrawalSettled)"
  shows "payout_evolves d (update_withdrawal i p f d)"
  unfolding payout_evolves_def
proof (intro impI conjI allI ballI)
  assume ok: "payouts_ok d"
  let ?W = "tool_author_withdrawals d" and ?d = "update_withdrawal i p f d"
  have E: "tool_author_earnings ?d = tool_author_earnings d" by (simp add: update_withdrawal_def)
  have moved: "\<exists>w' \<in> set (tool_author_withdrawals ?d). wd_id w' = wd_id w \<and> wd_org_id w' = wd_org_id w \<and>
      (holds_payout w \<longrightarrow> holds_payout w') \<and> (wd_status w = WithdrawalSettled \<longrightarrow> wd_status w' = WithdrawalSettled)"
    if "w \<in> set ?W" "linked (wd_id w) d" for w
  proof (cases "wd_id w = i \<and> p w")
    case True
    then have "f w \<in> set (tool_author_withdrawals ?d)"
      using that(1) by (force simp: update_withdrawal_def set_update_where)
    with True that keep [of w] same [of w] show ?thesis by (auto simp: same_withdrawal_def)
  next
    case False
    then have "w \<in> set (tool_author_withdrawals ?d)"
      using that(1) by (force simp: update_withdrawal_def set_update_where)
    then show ?thesis by blast
  qed
  have ids: "map wd_id (tool_author_withdrawals ?d) = map wd_id ?W"
    unfolding update_withdrawal_def using same by (auto simp: same_withdrawal_def intro!: map_update_where)
  show "payouts_ok ?d"
    unfolding payouts_ok_def
  proof (intro conjI ballI)
    show "distinct (map wd_id (tool_author_withdrawals ?d))" using ids payouts_okD(1) [OF ok] by simp
    show "distinct (map ea_id (tool_author_earnings ?d))" using E payouts_okD(2) [OF ok] by simp
    show "0 \<le> ea_author_share_usdc e" if "e \<in> set (tool_author_earnings ?d)" for e
      using that E payouts_okD(3) [OF ok] by simp
    show "link_ok (tool_author_withdrawals ?d) e" if e: "e \<in> set (tool_author_earnings ?d)" for e
    proof (cases "ea_withdrawal_id e")
      case None
      then show ?thesis using e E payouts_okD(4) [OF ok, of e] by (simp add: link_ok_def)
    next
      case (Some j)
      with e E payouts_okD(4) [OF ok, of e] obtain w where w: "w \<in> set ?W" "wd_id w = j"
        "wd_org_id w = ea_org_id e" "holds_payout w" "ea_status e = EarningSettled"
        by (auto simp: link_ok_def)
      moreover have "linked (wd_id w) d" using Some e E w(2) by (auto simp: linked_def)
      ultimately show ?thesis using moved [of w] Some by (auto simp: link_ok_def)
    qed
    fix w assume "w \<in> set (tool_author_withdrawals ?d)"
    then obtain w0 where "w0 \<in> set ?W" "wd_id w = wd_id w0" "wd_amount_usdc w = wd_amount_usdc w0"
      using same by (auto simp: update_withdrawal_def same_withdrawal_def elim!: in_update_whereE)
    then show "claimed_usdc (wd_id w) ?d \<le> wd_amount_usdc w" "0 < wd_amount_usdc w"
      using payouts_okD(5,6) [OF ok, of w0] by (simp_all add: claimed_usdc_def E)
  qed
  show "earned org ?d = earned org d" for org by (simp add: earned_def E)
  show "e \<in> set (tool_author_earnings ?d)" if "e \<in> set (tool_author_earnings d)" for e using that E by simp
  show "paid ?d e" if e: "e \<in> set (tool_author_earnings d)" and "paid d e" for e
  proof -
    from that(2) obtain w where w: "w \<in> set ?W" "ea_withdrawal_id e = Some (wd_id w)" "wd_status w = WithdrawalSettled"
      by (auto simp: paid_def)
    then have "linked (wd_id w) d" using e by (auto simp: linked_def)
    with moved [OF w(1)] w show ?thesis unfolding paid_def by metis
  qed
qed

text \<open>Releasing the earnings of a withdrawal that is not settled.\<close>

lemma release_unlinks: "payouts_ok d \<Longrightarrow> \<not> linked i (release_earnings i d)"
  using payouts_okD(4) [of d]
  by (fastforce simp: linked_def release_earnings_def link_ok_def elim!: in_update_whereE split: option.splits)

lemma release_claims:
  "claimed_usdc j (release_earnings i d) = (if j = i then 0 else claimed_usdc j d)"
proof -
  have "sum_where (\<lambda>e. ea_withdrawal_id e = Some j \<and> ea_status e = EarningSettled) ea_author_share_usdc
      (update_where (\<lambda>e. ea_withdrawal_id e = Some i \<and> ea_status e = EarningSettled)
        (\<lambda>e. e\<lparr>ea_status := EarningPending, ea_withdrawal_id := None\<rparr>) es) =
    (if j = i then 0 else sum_where (\<lambda>e. ea_withdrawal_id e = Some j \<and> ea_status e = EarningSettled)
        ea_author_share_usdc es)" for es :: "earning_row list"
    by (induction es) auto
  then show ?thesis by (simp add: claimed_usdc_def release_earnings_def)
qed

lemma release_earnings_evolves:
  assumes open': "\<And>w. w \<in> set (tool_author_withdrawals d) \<Longrightarrow> wd_id w = i \<Longrightarrow> wd_status w \<noteq> WithdrawalSettled"
  shows "payout_evolves d (release_earnings i d)"
  unfolding payout_evolves_def
proof (intro impI conjI allI ballI)
  assume ok: "payouts_ok d"
  let ?d = "release_earnings i d"
  have W: "tool_author_withdrawals ?d = tool_author_withdrawals d" by (simp add: release_earnings_def)
  show "payouts_ok ?d"
    unfolding payouts_ok_def W
  proof (intro conjI ballI)
    show "distinct (map wd_id (tool_author_withdrawals d))" by (rule payouts_okD(1) [OF ok])
    have "map ea_id (tool_author_earnings ?d) = map ea_id (tool_author_earnings d)"
      unfolding release_earnings_def by (auto intro!: map_update_where)
    then show "distinct (map ea_id (tool_author_earnings ?d))" using payouts_okD(2) [OF ok] by simp
    fix e assume "e \<in> set (tool_author_earnings ?d)"
    then show "0 \<le> ea_author_share_usdc e" "link_ok (tool_author_withdrawals d) e"
      using payouts_okD(3,4) [OF ok] by (auto simp: release_earnings_def link_ok_def elim!: in_update_whereE)
  next
    fix w assume "w \<in> set (tool_author_withdrawals d)"
    then show "claimed_usdc (wd_id w) ?d \<le> wd_amount_usdc w" "0 < wd_amount_usdc w"
      using payouts_okD(5,6) [OF ok, of w] by (auto simp: release_claims)
  qed
  have "sum_where (\<lambda>e. ea_org_id e = org) ea_author_share_usdc
      (update_where (\<lambda>e. ea_withdrawal_id e = Some i \<and> ea_status e = EarningSettled)
        (\<lambda>e. e\<lparr>ea_status := EarningPending, ea_withdrawal_id := None\<rparr>) es) =
      sum_where (\<lambda>e. ea_org_id e = org) ea_author_share_usdc es" for org and es :: "earning_row list"
    by (induction es) auto
  then show "earned org ?d = earned org d" for org by (simp add: earned_def release_earnings_def)
  fix e assume e: "e \<in> set (tool_author_earnings d)" and p: "paid d e"
  then have "ea_withdrawal_id e \<noteq> Some i" using open' by (auto simp: paid_def)
  with e show "e \<in> set (tool_author_earnings ?d)" by (force simp: release_earnings_def set_update_where)
  show "paid ?d e" using p by (simp add: paid_def W)
qed

lemma release_then_update_evolves:
  assumes "\<And>w. w \<in> set (tool_author_withdrawals d) \<Longrightarrow> wd_id w = i \<Longrightarrow> wd_status w \<noteq> WithdrawalSettled"
    and "\<And>w. same_withdrawal w (f w)"
  shows "payout_evolves d (update_withdrawal i p f (release_earnings i d))"
proof (cases "payouts_ok d")
  case True
  have "payout_evolves (release_earnings i d) (update_withdrawal i p f (release_earnings i d))"
    by (rule update_withdrawal_evolves) (use assms(2) release_unlinks [OF True] in auto)
  moreover have "payout_evolves d (release_earnings i d)"
    by (rule release_earnings_evolves) (rule assms(1))
  ultimately show ?thesis by (metis payout_evolves_trans)
qed (simp add: payout_evolves_def)

text \<open>A new withdrawal.\<close>

lemma insert_withdrawal_evolves:
  assumes "insert_withdrawal w d = Inr d'"
  shows "payout_evolves d d'"
  unfolding payout_evolves_def
proof (intro impI)
  assume ok: "payouts_ok d"
  from assms have d': "d' = d\<lparr>tool_author_withdrawals := tool_author_withdrawals d @ [w]\<rparr>"
    and fresh: "\<forall>x \<in> set (tool_author_withdrawals d). wd_id x \<noteq> wd_id w" and pos: "0 < wd_amount_usdc w"
    by (auto simp: insert_withdrawal_def split: if_splits)
  have "\<And>e. e \<in> set (tool_author_earnings d) \<Longrightarrow> ea_withdrawal_id e \<noteq> Some (wd_id w)"
    using payouts_okD(4) [OF ok] fresh by (force simp: link_ok_def split: option.splits)
  then have none: "claimed_usdc (wd_id w) d = 0" by (rule unlinked_claims_nothing)
  have link: "link_ok (tool_author_withdrawals d @ [w]) e" if "e \<in> set (tool_author_earnings d)" for e
    using payouts_okD(4) [OF ok that] by (auto simp: link_ok_def split: option.splits)
  have "payouts_ok d'"
    using ok fresh pos none link unfolding payouts_ok_def d' by (force simp: claimed_usdc_def)
  then show "payouts_ok d' \<and> (\<forall>org. earned org d' = earned org d) \<and>
      (\<forall>e \<in> set (tool_author_earnings d). paid d e \<longrightarrow> e \<in> set (tool_author_earnings d') \<and> paid d' e)"
    by (auto simp: d' earned_def paid_def)
qed

section \<open>Claiming\<close>

lemma sum_where_sort_key: "sum_where p f (sort_key k xs) = sum_where p f xs"
  unfolding sum_where_def filter_sort by (rule sum_list_map_sort_key)

lemma take_earnings_sound:
  assumes "take_earnings r es = (ids, t)" "distinct (map ea_id es)" "\<And>e. e \<in> set es \<Longrightarrow> 0 \<le> ea_author_share_usdc e"
  shows "set ids \<subseteq> ea_id ` set es" "t = sum_where (\<lambda>e. ea_id e \<in> set ids) ea_author_share_usdc es"
    "t \<le> max 0 r" "distinct ids"
proof -
  have "set ids \<subseteq> ea_id ` set es \<and> t = sum_where (\<lambda>e. ea_id e \<in> set ids) ea_author_share_usdc es \<and>
      t \<le> max 0 r \<and> distinct ids"
    using assms
  proof (induction r es arbitrary: ids t rule: take_earnings.induct)
    case (1 r)
    then show ?case by simp
  next
    case (2 r e es)
    consider "r \<le> 0" | "0 < r" "ea_author_share_usdc e > r" | "0 < r" "ea_author_share_usdc e \<le> r" by linarith
    then show ?case
    proof cases
      case 1
      with 2 show ?thesis by (simp add: sum_where_none)
    next
      case a: 2
      with "2.prems" have run: "take_earnings r es = (ids, t)" by simp
      have IH: "set ids \<subseteq> ea_id ` set es \<and> t = sum_where (\<lambda>e. ea_id e \<in> set ids) ea_author_share_usdc es \<and>
          t \<le> max 0 r \<and> distinct ids"
        by (rule "2.IH"(1)) (use a run "2.prems" in auto)
      then have "ea_id e \<notin> set ids" using "2.prems"(2) by auto
      with IH show ?thesis by auto
    next
      case 3
      obtain ids' t' where run: "take_earnings (r - ea_author_share_usdc e) es = (ids', t')" by fastforce
      with 3 "2.prems" have eq: "ids = ea_id e # ids'" "t = ea_author_share_usdc e + t'" by simp_all
      have IH: "set ids' \<subseteq> ea_id ` set es \<and> t' = sum_where (\<lambda>e. ea_id e \<in> set ids') ea_author_share_usdc es \<and>
          t' \<le> max 0 (r - ea_author_share_usdc e) \<and> distinct ids'"
        by (rule "2.IH"(2)) (use 3 run "2.prems" in auto)
      have fresh: "ea_id e \<notin> ea_id ` set es" using "2.prems"(2) by auto
      have "sum_where (\<lambda>x. ea_id x \<in> set ids) ea_author_share_usdc es =
          sum_where (\<lambda>x. ea_id x \<in> set ids') ea_author_share_usdc es"
      proof (rule sum_where_cong)
        fix x assume "x \<in> set es"
        then have "ea_id x \<noteq> ea_id e" using fresh by (metis imageI)
        then show "(ea_id x \<in> set ids) = (ea_id x \<in> set ids')" by (simp add: eq)
      qed simp
      with IH 3 fresh show ?thesis by (auto simp: eq)
    qed
  qed
  then show "set ids \<subseteq> ea_id ` set es" "t = sum_where (\<lambda>e. ea_id e \<in> set ids) ea_author_share_usdc es"
    "t \<le> max 0 r" "distinct ids" by simp_all
qed

lemma select_earnings_own:
  assumes ok: "books_ok d" and sel: "select_earnings_to_settle org amount d = (ids, t)"
  shows "t \<le> max 0 amount"
    and "e \<in> set (tool_author_earnings d) \<Longrightarrow> ea_id e \<in> set ids \<Longrightarrow> ea_org_id e = org \<and> claimable e"
    and "t = sum_where (\<lambda>e. ea_id e \<in> set ids \<and> claimable e) ea_author_share_usdc (tool_author_earnings d)"
proof -
  let ?E = "tool_author_earnings d"
  let ?own = "rows_where (\<lambda>e. ea_org_id e = org \<and> claimable e) ?E"
  have dist: "distinct (map ea_id ?E)" by (rule books_okD(2) [OF ok])
  then have "distinct (map ea_id ?own)" by (simp add: rows_where_def distinct_map_filter)
  then have "distinct (map ea_id (sort_key ea_created_at ?own))" by (simp add: distinct_map)
  moreover have "take_earnings amount (sort_key ea_created_at ?own) = (ids, t)"
    using sel by (simp add: select_earnings_to_settle_def)
  ultimately have s: "set ids \<subseteq> ea_id ` set ?own" "t = sum_where (\<lambda>e. ea_id e \<in> set ids) ea_author_share_usdc ?own"
    "t \<le> max 0 amount"
    using take_earnings_sound [of amount "sort_key ea_created_at ?own" ids t] books_okD(3) [OF ok]
    by (auto simp: sum_where_sort_key)
  show "t \<le> max 0 amount" by (rule s(3))
  show mem: "ea_org_id e = org \<and> claimable e" if "e \<in> set ?E" "ea_id e \<in> set ids" for e
  proof -
    from that(2) s(1) obtain e' where "e' \<in> set ?E" "ea_org_id e' = org" "claimable e'" "ea_id e' = ea_id e"
      by fastforce
    with distinct_key_eq [OF dist] that(1) show ?thesis by metis
  qed
  have "t = sum_where (\<lambda>e. ea_id e \<in> set ids \<and> ea_org_id e = org \<and> claimable e) ea_author_share_usdc ?E"
    using s(2) by (simp add: sum_where_rows_where)
  also have "\<dots> = sum_where (\<lambda>e. ea_id e \<in> set ids \<and> claimable e) ea_author_share_usdc ?E"
    by (rule sum_where_cong) (use mem in auto)
  finally show "t = sum_where (\<lambda>e. ea_id e \<in> set ids \<and> claimable e) ea_author_share_usdc ?E" .
qed

lemma select_earnings_sound:
  assumes ok: "payouts_ok d" and sel: "select_earnings_to_settle org amount d = (ids, t)" and pos: "0 < amount"
  shows "t \<le> amount"
    and "e \<in> set (tool_author_earnings d) \<Longrightarrow> ea_id e \<in> set ids \<Longrightarrow> ea_org_id e = org \<and> claimable e"
    and "t = sum_where (\<lambda>e. ea_id e \<in> set ids \<and> claimable e) ea_author_share_usdc (tool_author_earnings d)"
  using select_earnings_own [OF payouts_books [OF ok] sel] pos by auto

lemma sum_where_claim:
  fixes es :: "earning_row list" and ids :: "ident list" and i :: ident
  defines "es' \<equiv> update_where (\<lambda>e. ea_id e \<in> set ids \<and> claimable e)
      (\<lambda>e. e\<lparr>ea_status := EarningSettled, ea_withdrawal_id := Some i\<rparr>) es"
  shows "sum_where (\<lambda>e. ea_withdrawal_id e = Some j \<and> ea_status e = EarningSettled) ea_author_share_usdc es' =
      sum_where (\<lambda>e. ea_withdrawal_id e = Some j \<and> ea_status e = EarningSettled) ea_author_share_usdc es +
      (if j = i then sum_where (\<lambda>e. ea_id e \<in> set ids \<and> claimable e) ea_author_share_usdc es else 0)"
    and "sum_where (\<lambda>e. ea_org_id e = org) ea_author_share_usdc es' =
      sum_where (\<lambda>e. ea_org_id e = org) ea_author_share_usdc es"
    and "sum_where (\<lambda>e. ea_org_id e = org \<and> ea_status e = EarningPending) ea_author_share_usdc es' =
      sum_where (\<lambda>e. ea_org_id e = org \<and> ea_status e = EarningPending) ea_author_share_usdc es -
      sum_where (\<lambda>e. ea_org_id e = org \<and> ea_id e \<in> set ids \<and> claimable e) ea_author_share_usdc es"
  unfolding es'_def by (induction es) (auto simp: claimable_def)

lemma find_withdrawalD:
  "find_withdrawal i d = Some w \<Longrightarrow> w \<in> set (tool_author_withdrawals d) \<and> wd_id w = i"
  unfolding find_withdrawal_def using find_SomeD by fastforce

lemma unclaimed_unlinked:
  assumes "payouts_ok d" "w \<in> set (tool_author_withdrawals d)" "\<not> holds_payout w"
  shows "\<not> linked (wd_id w) d" "claimed_usdc (wd_id w) d = 0"
proof -
  show "\<not> linked (wd_id w) d" using holder_of_link(1) [OF assms(1,2)] assms(3) by (auto simp: linked_def)
  then show "claimed_usdc (wd_id w) d = 0" by (intro unlinked_claims_nothing) (auto simp: linked_def)
qed

definition claiming :: "db \<Rightarrow> withdrawal_row \<Rightarrow> ident list \<Rightarrow> usdc \<Rightarrow> bool" where
  "claiming d w ids t \<longleftrightarrow> payouts_ok d \<and> w \<in> set (tool_author_withdrawals d) \<and> wd_status w = WithdrawalPending \<and>
     select_earnings_to_settle (wd_org_id w) (wd_amount_usdc w) d = (ids, t)"

lemma claiming_facts:
  assumes "claiming d w ids t"
  shows "t \<le> wd_amount_usdc w"
    "e \<in> set (tool_author_earnings d) \<Longrightarrow> ea_id e \<in> set ids \<Longrightarrow> ea_org_id e = wd_org_id w \<and> claimable e"
    "t = sum_where (\<lambda>e. ea_id e \<in> set ids \<and> claimable e) ea_author_share_usdc (tool_author_earnings d)"
    "\<not> linked (wd_id w) d" "claimed_usdc (wd_id w) d = 0"
proof -
  from assms have c: "payouts_ok d" "w \<in> set (tool_author_withdrawals d)" "\<not> holds_payout w"
    "select_earnings_to_settle (wd_org_id w) (wd_amount_usdc w) d = (ids, t)"
    by (simp_all add: claiming_def holds_payout_def)
  note sound = select_earnings_sound [OF c(1,4) payouts_okD(6) [OF c(1,2)]]
  show "t \<le> wd_amount_usdc w"
    "e \<in> set (tool_author_earnings d) \<Longrightarrow> ea_id e \<in> set ids \<Longrightarrow> ea_org_id e = wd_org_id w \<and> claimable e"
    "t = sum_where (\<lambda>e. ea_id e \<in> set ids \<and> claimable e) ea_author_share_usdc (tool_author_earnings d)"
    by (rule sound(1), rule sound(2), assumption+, rule sound(3))
  show "\<not> linked (wd_id w) d" "claimed_usdc (wd_id w) d = 0" by (rule unclaimed_unlinked [OF c(1-3)])+
qed

lemma claimed_after:
  assumes "claiming d w ids t"
  shows "claimed_usdc j (claim_earnings (wd_id w) ids d) = claimed_usdc j d + (if j = wd_id w then t else 0)"
  unfolding claimed_usdc_def claim_earnings_def using claiming_facts(3) [OF assms] by (simp add: sum_where_claim)

lemma balance_after:
  assumes "claiming d w ids t"
  shows "get_author_balance org (claim_earnings (wd_id w) ids d) =
   get_author_balance org d - (if org = wd_org_id w then t else 0)"
proof -
  have "sum_where (\<lambda>e. ea_org_id e = org \<and> ea_id e \<in> set ids \<and> claimable e) ea_author_share_usdc (tool_author_earnings d) =
      (if org = wd_org_id w then t else 0)"
  proof (cases "org = wd_org_id w")
    case True
    then show ?thesis
      unfolding claiming_facts(3) [OF assms] using claiming_facts(2) [OF assms] by (auto intro!: sum_where_cong)
  next
    case False
    then show ?thesis using claiming_facts(2) [OF assms] by (auto intro!: sum_where_none)
  qed
  then show ?thesis by (simp add: get_author_balance_def claim_earnings_def sum_where_claim)
qed

lemma claim_evolves:
  assumes cl: "claiming d w ids t"
  shows "payout_evolves d (update_withdrawal (wd_id w) (\<lambda>w. wd_status w = WithdrawalPending) in_flight_row
    (claim_earnings (wd_id w) ids d))" (is "payout_evolves d ?d")
  unfolding payout_evolves_def
proof (intro impI conjI allI ballI)
  from cl have ok: "payouts_ok d" and w: "w \<in> set (tool_author_withdrawals d)" "wd_status w = WithdrawalPending"
    by (simp_all add: claiming_def)
  let ?f = "\<lambda>x. if wd_id x = wd_id w \<and> wd_status x = WithdrawalPending then in_flight_row x else x"
  let ?g = "\<lambda>e. if ea_id e \<in> set ids \<and> claimable e then e\<lparr>ea_status := EarningSettled, ea_withdrawal_id := Some (wd_id w)\<rparr> else e"
  have W: "tool_author_withdrawals ?d = map ?f (tool_author_withdrawals d)"
    by (simp add: update_withdrawal_def claim_earnings_def update_where_def)
  have E: "tool_author_earnings ?d = map ?g (tool_author_earnings d)"
    by (simp add: update_withdrawal_def claim_earnings_def update_where_def)
  have claimed: "claimed_usdc j ?d = claimed_usdc j d + (if j = wd_id w then t else 0)" for j
    using claimed_after [OF cl, of j] by (simp add: claimed_usdc_def update_withdrawal_def)
  have f: "wd_id (?f x) = wd_id x" "wd_org_id (?f x) = wd_org_id x" "wd_amount_usdc (?f x) = wd_amount_usdc x"
    "holds_payout x \<Longrightarrow> holds_payout (?f x)" "wd_status x = WithdrawalSettled \<Longrightarrow> wd_status (?f x) = WithdrawalSettled" for x
    by (simp_all add: in_flight_row_def holds_payout_def)
  have fw: "?f w \<in> set (tool_author_withdrawals ?d)" "holds_payout (?f w)"
    using w by (simp_all add: W in_flight_row_def holds_payout_def)
  show "payouts_ok ?d"
    unfolding payouts_ok_def
  proof (intro conjI ballI)
    have "map wd_id (tool_author_withdrawals ?d) = map wd_id (tool_author_withdrawals d)" by (simp add: W f(1))
    then show "distinct (map wd_id (tool_author_withdrawals ?d))" using payouts_okD(1) [OF ok] by simp
    have "map ea_id (tool_author_earnings ?d) = map ea_id (tool_author_earnings d)" by (simp add: E)
    then show "distinct (map ea_id (tool_author_earnings ?d))" using payouts_okD(2) [OF ok] by simp
    fix e assume "e \<in> set (tool_author_earnings ?d)"
    then obtain e0 where e0: "e0 \<in> set (tool_author_earnings d)" "e = ?g e0" by (auto simp: E)
    then show "0 \<le> ea_author_share_usdc e" using payouts_okD(3) [OF ok e0(1)] by simp
    show "link_ok (tool_author_withdrawals ?d) e"
    proof (cases "ea_id e0 \<in> set ids \<and> claimable e0")
      case True
      with e0 claiming_facts(2) [OF cl e0(1)] fw show ?thesis
        by (auto simp: link_ok_def in_flight_row_def intro!: bexI [OF _ fw(1)])
    next
      case False
      with e0 have "e = e0" by auto
      moreover have "link_ok (tool_author_withdrawals ?d) e0"
      proof (rule link_ok_mono [OF payouts_okD(4) [OF ok e0(1)]])
        fix x assume "x \<in> set (tool_author_withdrawals d)" "holds_payout x"
        then show "\<exists>x' \<in> set (tool_author_withdrawals ?d). wd_id x' = wd_id x \<and> wd_org_id x' = wd_org_id x \<and> holds_payout x'"
          unfolding W using f by (intro bexI [of _ "?f x"]) simp_all
      qed
      ultimately show ?thesis by simp
    qed
  next
    fix x assume "x \<in> set (tool_author_withdrawals ?d)"
    then obtain x0 where x0: "x0 \<in> set (tool_author_withdrawals d)" "x = ?f x0" by (auto simp: W)
    then show "0 < wd_amount_usdc x" using payouts_okD(6) [OF ok x0(1)] by (simp add: in_flight_row_def)
    show "claimed_usdc (wd_id x) ?d \<le> wd_amount_usdc x"
    proof (cases "wd_id x0 = wd_id w")
      case True
      then have "x0 = w" using distinct_key_eq [OF payouts_okD(1) [OF ok] x0(1) w(1)] by simp
      then show ?thesis using claimed claiming_facts(1,5) [OF cl] x0(2) by (simp add: in_flight_row_def)
    next
      case False
      then show ?thesis using claimed payouts_okD(5) [OF ok x0(1)] x0(2) by simp
    qed
  qed
  show "earned org ?d = earned org d" for org
    by (simp add: earned_def update_withdrawal_def claim_earnings_def sum_where_claim)
  fix e assume e: "e \<in> set (tool_author_earnings d)" and p: "paid d e"
  then have "\<not> claimable e" by (auto simp: paid_def claimable_def)
  then have ge: "?g e = e" by simp
  show "e \<in> set (tool_author_earnings ?d)" unfolding E set_map by (rule image_eqI [where f = ?g, OF ge [symmetric] e])
  from p obtain x where x: "x \<in> set (tool_author_withdrawals d)" "ea_withdrawal_id e = Some (wd_id x)"
      "wd_status x = WithdrawalSettled"
    by (auto simp: paid_def)
  then have fx: "?f x = x" by simp
  have "x \<in> set (tool_author_withdrawals ?d)" unfolding W set_map by (rule image_eqI [where f = ?f, OF fx [symmetric] x(1)])
  with x show "paid ?d e" by (auto simp: paid_def)
qed

section \<open>Every transaction evolves the payouts\<close>

locale payout_operation =
  fixes run :: "db \<Rightarrow> db"
  assumes evolves: "payout_evolves d (run d)"
begin

lemma keeps_ok: "payouts_ok d \<Longrightarrow> payouts_ok (run d)"
  using evolves [of d] by (simp add: payout_evolves_def)

lemma keeps_earned: "payouts_ok d \<Longrightarrow> earned org (run d) = earned org d"
  using evolves [of d] by (simp add: payout_evolves_def)

lemma keeps_paid:
  "payouts_ok d \<Longrightarrow> e \<in> set (tool_author_earnings d) \<Longrightarrow> paid d e \<Longrightarrow>
   e \<in> set (tool_author_earnings (run d)) \<and> paid (run d) e"
  using evolves [of d] by (simp add: payout_evolves_def)

end

lemma same_withdrawal_rows [simp]:
  "same_withdrawal w (fail_row err w)" "same_withdrawal w (in_flight_row w)" "same_withdrawal w (settle_row now tx w)"
  "same_withdrawal w (reset_row w)" "same_withdrawal w (w\<lparr>wd_tx_hash := tx\<rparr>)"
  "same_withdrawal w (w\<lparr>wd_tx_hash := tx, wd_last_sweep_error := err\<rparr>)" "same_withdrawal w (w\<lparr>wd_last_sweep_error := err\<rparr>)"
  by (simp_all add: same_withdrawal_def fail_row_def in_flight_row_def settle_row_def reset_row_def)

lemma holds_payout_rows [simp]:
  "holds_payout (settle_row now tx w)" "wd_status (settle_row now tx w) = WithdrawalSettled"
  "wd_status (fail_row err w) = WithdrawalFailed" "wd_status (in_flight_row w) = InFlight"
  "wd_status (reset_row w) = WithdrawalPending" "holds_payout (w\<lparr>wd_tx_hash := tx\<rparr>) = holds_payout w"
  "holds_payout (w\<lparr>wd_tx_hash := tx, wd_last_sweep_error := err\<rparr>) = holds_payout w"
  by (simp_all add: holds_payout_def settle_row_def fail_row_def in_flight_row_def reset_row_def)

text \<open>Under the invariant, the row that a select by id finds is the only one with that id.\<close>

lemma row_unique:
  assumes "payouts_ok d" "find_withdrawal i d = Some w" "x \<in> set (tool_author_withdrawals d)" "wd_id x = i"
  shows "x = w"
  using distinct_key_eq [OF payouts_okD(1) [OF assms(1)] assms(3)] find_withdrawalD [OF assms(2)] assms(4) by blast

lemma payout_evolvesI: "(payouts_ok d \<Longrightarrow> payout_evolves d d') \<Longrightarrow> payout_evolves d d'"
  by (auto simp: payout_evolves_def)

interpretation request_payout: payout_operation "\<lambda>d. snd (request_withdrawal st now now' i org amount d)"
  for st now now' i org amount
proof
  show "payout_evolves d (snd (request_withdrawal st now now' i org amount d))" for d
    by (auto simp: request_withdrawal_def Let_def transaction_def bindE_def intro: insert_withdrawal_evolves
        split: option.splits sum.splits)
qed

lemma update_unlinked_evolves:
  assumes "payouts_ok d" "find_withdrawal i d = Some w" "\<not> holds_payout w" "\<And>w. same_withdrawal w (f w)"
  shows "payout_evolves d (update_withdrawal i p f d)"
proof (rule update_withdrawal_evolves [OF assms(4)])
  have "\<not> linked i d" using unclaimed_unlinked(1) [OF assms(1) _ assms(3)] find_withdrawalD [OF assms(2)] by blast
  then show "(holds_payout x \<longrightarrow> holds_payout (f x)) \<and> (wd_status x = WithdrawalSettled \<longrightarrow> wd_status (f x) = WithdrawalSettled)"
    if "linked i d" for x using that by simp
qed

interpretation claim_payout: payout_operation "\<lambda>d. snd (claim_withdrawal i d)" for i
proof
  fix d
  show "payout_evolves d (snd (claim_withdrawal i d))"
  proof (cases "find_withdrawal i d")
    case None
    then show ?thesis by (simp add: claim_withdrawal_def transaction_def claim_withdrawal_tx_def)
  next
    case (Some w)
    show ?thesis
    proof (rule payout_evolvesI, cases "wd_status w = WithdrawalPending")
      case False
      then show ?thesis using Some by (simp add: claim_withdrawal_def transaction_def claim_withdrawal_tx_def)
    next
      case True
      assume ok: "payouts_ok d"
      obtain ids t where sel: "select_earnings_to_settle (wd_org_id w) (wd_amount_usdc w) d = (ids, t)" by fastforce
      have cl: "claiming d w ids t" "wd_id w = i"
        using ok True sel find_withdrawalD [OF Some] by (simp_all add: claiming_def)
      have "\<not> holds_payout w" using True by (simp add: holds_payout_def)
      with Some True sel claim_evolves [OF cl(1)] cl(2) update_unlinked_evolves [OF ok Some] show ?thesis
        by (simp add: claim_withdrawal_def transaction_def claim_withdrawal_tx_def)
    qed
  qed
qed

interpretation settle_payout: payout_operation "\<lambda>d. snd (settle_withdrawal now i tx d)" for now i tx
proof
  show "payout_evolves d (snd (settle_withdrawal now i tx d))" for d
    by (auto simp: settle_withdrawal_def intro!: update_withdrawal_evolves)
qed

lemma release_evolves:
  assumes "find_withdrawal i d = Some w" "wd_status w \<noteq> WithdrawalSettled" "\<And>w. same_withdrawal w (f w)"
  shows "payout_evolves d (update_withdrawal i p f (release_earnings i d))"
proof (rule payout_evolvesI, rule release_then_update_evolves [OF _ assms(3)])
  fix x assume "payouts_ok d" "x \<in> set (tool_author_withdrawals d)" "wd_id x = i"
  with row_unique [OF _ assms(1)] assms(2) show "wd_status x \<noteq> WithdrawalSettled" by metis
qed

interpretation release_payout: payout_operation "\<lambda>d. snd (release_withdrawal i err d)" for i err
proof
  show "payout_evolves d (snd (release_withdrawal i err d))" for d
    by (auto simp: release_withdrawal_def awaiting_settlement_def intro!: release_evolves split: option.splits)
qed

interpretation in_flight_payout: payout_operation "record_in_flight i tx err" for i tx err
proof
  show "payout_evolves d (record_in_flight i tx err d)" for d
    unfolding record_in_flight_def by (rule update_withdrawal_evolves) simp_all
qed

interpretation complete_payout: payout_operation "\<lambda>d. snd (complete_withdrawal now i tx d)" for now i tx
proof
  show "payout_evolves d (snd (complete_withdrawal now i tx d))" for d
    by (auto simp: complete_withdrawal_def intro!: update_withdrawal_evolves split: option.splits)
qed

interpretation reset_payout: payout_operation "\<lambda>d. snd (reset_withdrawal i d)" for i
proof
  fix d
  show "payout_evolves d (snd (reset_withdrawal i d))"
  proof (cases "find_withdrawal i d")
    case None
    then show ?thesis by (simp add: reset_withdrawal_def)
  next
    case (Some w)
    show ?thesis
    proof (rule payout_evolvesI, cases "resettable w")
      case False
      then show ?thesis using Some by (simp add: reset_withdrawal_def)
    next
      case True
      assume ok: "payouts_ok d"
      show ?thesis
      proof (cases "wd_status w = InFlight")
        case a: True
        then show ?thesis using Some True release_evolves [OF Some] by (simp add: reset_withdrawal_def)
      next
        case False
        with True have "\<not> holds_payout w" by (auto simp: resettable_def holds_payout_def)
        with Some True False update_unlinked_evolves [OF ok Some] show ?thesis by (simp add: reset_withdrawal_def)
      qed
    qed
  qed
qed

lemma snd_case_result [simp]:
  "snd (case x of (Inl e, d) \<Rightarrow> (Inl e, d) | (Inr u, d) \<Rightarrow> (Inr (g u), d)) = snd x"
  by (simp split: prod.splits sum.splits)

interpretation process_payout: payout_operation "\<lambda>d. snd (process_withdrawal st rail now i d)" for st rail now i
proof
  fix d
  let ?d1 = "snd (claim_withdrawal i d)"
  have c: "payout_evolves d ?d1" by (rule claim_payout.evolves)
  have "payout_evolves d d2" if "payout_evolves ?d1 d2" for d2 using c that by (rule payout_evolves_trans)
  note step = this [OF settle_payout.evolves] this [OF release_payout.evolves] this [OF in_flight_payout.evolves]
  show "payout_evolves d (snd (process_withdrawal st rail now i d))"
    using c step
    by (cases "claim_withdrawal i d")
      (auto simp: process_withdrawal_def Let_def split: sum.split transfer_status.split)
qed

section \<open>Every transaction keeps the books\<close>

text \<open>
  The same transactions against the weaker invariant, where no move needs a condition on the status of
  the withdrawal: what they keep holds along every interleaving.
\<close>

locale books_operation =
  fixes run :: "db \<Rightarrow> db"
  assumes books: "books_evolve d (run d)"
begin

lemma keeps_books: "books_ok d \<Longrightarrow> books_ok (run d) \<and> earned org (run d) = earned org d"
  using books [of d] by (simp add: books_evolve_def)

lemma books_after: "books_evolve d0 d \<Longrightarrow> books_evolve d0 (run d)"
  using books [of d] books_evolve_trans by blast

end

lemma booked_to_mono:
  assumes "booked_to ws e"
    and "\<And>w. w \<in> set ws \<Longrightarrow> \<exists>w' \<in> set ws'. wd_id w' = wd_id w \<and> wd_org_id w' = wd_org_id w"
  shows "booked_to ws' e"
  using assms unfolding booked_to_def by (cases "ea_withdrawal_id e") (simp_all, metis)

lemma update_withdrawal_books:
  assumes same: "\<And>w. same_withdrawal w (f w)"
  shows "books_evolve d (update_withdrawal i p f d)"
  unfolding books_evolve_def
proof (intro impI conjI allI)
  assume ok: "books_ok d"
  let ?W = "tool_author_withdrawals d" and ?W' = "tool_author_withdrawals (update_withdrawal i p f d)"
  have ids: "map wd_id ?W' = map wd_id ?W"
    unfolding update_withdrawal_def using same by (auto simp: same_withdrawal_def intro!: map_update_where)
  have moved: "\<exists>w' \<in> set ?W'. wd_id w' = wd_id w \<and> wd_org_id w' = wd_org_id w" if "w \<in> set ?W" for w
    using that same [of w] by (auto simp: update_withdrawal_def update_where_def same_withdrawal_def)
  show "books_ok (update_withdrawal i p f d)"
    using ok ids booked_to_mono [OF books_okD(4) [OF ok] moved]
    unfolding books_ok_def by (simp add: update_withdrawal_def)
qed (simp add: earned_def update_withdrawal_def)

interpretation record_books: books_operation "record_in_flight i tx err" for i tx err
  by unfold_locales (simp add: record_in_flight_def update_withdrawal_books)

interpretation release_books: books_operation "release_earnings i" for i
proof
  fix d
  have keep: "map ea_id (update_where p (\<lambda>e. e\<lparr>ea_status := s, ea_withdrawal_id := l\<rparr>) es) = map ea_id es"
    "sum_where (\<lambda>e. ea_org_id e = org) ea_author_share_usdc (update_where p (\<lambda>e. e\<lparr>ea_status := s, ea_withdrawal_id := l\<rparr>) es) =
     sum_where (\<lambda>e. ea_org_id e = org) ea_author_share_usdc es" for p s l org and es :: "earning_row list"
    by (induction es) auto
  show "books_evolve d (release_earnings i d)"
    using keep unfolding books_evolve_def books_ok_def
    by (auto simp: release_earnings_def earned_def booked_to_def elim!: in_update_whereE)
qed

lemma insert_withdrawal_books:
  assumes "insert_withdrawal w d = Inr d'"
  shows "books_evolve d d'"
proof -
  from assms have d': "d' = d\<lparr>tool_author_withdrawals := tool_author_withdrawals d @ [w]\<rparr>"
    and "\<forall>x \<in> set (tool_author_withdrawals d). wd_id x \<noteq> wd_id w"
    by (auto simp: insert_withdrawal_def split: if_splits)
  moreover have "booked_to (ws @ [w]) e" if "booked_to ws e" for ws e
    using that by (rule booked_to_mono) auto
  ultimately show ?thesis unfolding books_evolve_def books_ok_def by (force simp: earned_def)
qed

lemma claim_earnings_books:
  assumes "find_withdrawal i d = Some w" "select_earnings_to_settle (wd_org_id w) amount d = (ids, t)"
  shows "books_evolve d (claim_earnings i ids d)"
  unfolding books_evolve_def
proof (intro impI conjI allI)
  assume ok: "books_ok d"
  let ?d = "claim_earnings i ids d"
  have W: "tool_author_withdrawals ?d = tool_author_withdrawals d" by (simp add: claim_earnings_def)
  have "map ea_id (tool_author_earnings ?d) = map ea_id (tool_author_earnings d)"
    unfolding claim_earnings_def by (auto intro!: map_update_where)
  moreover have "0 \<le> ea_author_share_usdc e \<and> booked_to (tool_author_withdrawals d) e"
    if "e \<in> set (tool_author_earnings ?d)" for e
    using that books_okD(3,4) [OF ok] select_earnings_own(2) [OF ok assms(2)] find_withdrawalD [OF assms(1)]
    by (auto simp: claim_earnings_def booked_to_def elim!: in_update_whereE)
  ultimately show "books_ok ?d" using ok unfolding books_ok_def W by simp
  show "earned org ?d = earned org d" for org by (simp add: earned_def claim_earnings_def sum_where_claim)
qed

lemma books_evolve_update:
  "books_evolve d d1 \<Longrightarrow> (\<And>w. same_withdrawal w (f w)) \<Longrightarrow> books_evolve d (update_withdrawal i p f d1)"
  using books_evolve_trans update_withdrawal_books by blast

interpretation request_books: books_operation "\<lambda>d. snd (request_withdrawal st now now' i org amount d)"
  for st now now' i org amount
  by unfold_locales (auto simp: request_withdrawal_def Let_def transaction_def bindE_def intro: insert_withdrawal_books
      split: option.splits sum.splits)

interpretation claim_books: books_operation "\<lambda>d. snd (claim_withdrawal i d)" for i
  by unfold_locales (auto simp: claim_withdrawal_def transaction_def claim_withdrawal_tx_def
      intro!: books_evolve_update intro: claim_earnings_books split: option.split prod.split)

interpretation settle_books: books_operation "\<lambda>d. snd (settle_withdrawal now i tx d)" for now i tx
  by unfold_locales (simp add: settle_withdrawal_def update_withdrawal_books)

interpretation fail_books: books_operation "\<lambda>d. snd (release_withdrawal i err d)" for i err
  by unfold_locales (simp add: release_withdrawal_def books_evolve_update release_books.books)

interpretation complete_books: books_operation "\<lambda>d. snd (complete_withdrawal now i tx d)" for now i tx
  by unfold_locales (simp add: complete_withdrawal_def update_withdrawal_books split: option.split)

interpretation reset_books: books_operation "\<lambda>d. snd (reset_withdrawal i d)" for i
  by unfold_locales (simp add: reset_withdrawal_def books_evolve_update release_books.books Let_def split: option.split)

interpretation process_books: books_operation "\<lambda>d. snd (process_withdrawal st rail now i d)" for st rail now i
proof
  fix d
  let ?d1 = "snd (claim_withdrawal i d)"
  have c: "books_evolve d ?d1" by (rule claim_books.books)
  note step = settle_books.books_after [OF c] fail_books.books_after [OF c] record_books.books_after [OF c]
  show "books_evolve d (snd (process_withdrawal st rail now i d))"
    using c step
    by (cases "claim_withdrawal i d")
      (auto simp: process_withdrawal_def Let_def split: sum.split transfer_status.split)
qed

section \<open>What processing a withdrawal does\<close>

lemma update_withdrawal_money [simp]:
  "get_author_balance org (update_withdrawal i p f d) = get_author_balance org d"
  "claimed_usdc j (update_withdrawal i p f d) = claimed_usdc j d"
  "tool_author_earnings (update_withdrawal i p f d) = tool_author_earnings d"
  by (simp_all add: update_withdrawal_def get_author_balance_def claimed_usdc_def)

lemma earnings_moves_keep_withdrawals [simp]:
  "find_withdrawal i (claim_earnings j ids d) = find_withdrawal i d"
  "find_withdrawal i (release_earnings j d) = find_withdrawal i d"
  by (simp_all add: find_withdrawal_def claim_earnings_def release_earnings_def)

lemma find_update_withdrawal:
  assumes "\<And>w. same_withdrawal w (f w)"
  shows "find_withdrawal i (update_withdrawal i p f d) = map_option (\<lambda>w. if p w then f w else w) (find_withdrawal i d)"
proof -
  have "find (\<lambda>w. wd_id w = i) (update_where (\<lambda>w. wd_id w = i \<and> p w) f ws) =
      map_option (\<lambda>w. if p w then f w else w) (find (\<lambda>w. wd_id w = i) ws)" for ws :: "withdrawal_row list"
    using assms by (induction ws) (auto simp: same_withdrawal_def)
  then show ?thesis by (simp add: find_withdrawal_def update_withdrawal_def)
qed

lemma release_balance:
  assumes "payouts_ok d" "w \<in> set (tool_author_withdrawals d)"
  shows "get_author_balance org (release_earnings (wd_id w) d) =
    get_author_balance org d + (if org = wd_org_id w then claimed_usdc (wd_id w) d else 0)"
proof -
  let ?p = "\<lambda>e. ea_withdrawal_id e = Some (wd_id w) \<and> ea_status e = EarningSettled"
  have "sum_where (\<lambda>e. ea_org_id e = org \<and> ea_status e = EarningPending) ea_author_share_usdc
      (update_where ?p (\<lambda>e. e\<lparr>ea_status := EarningPending, ea_withdrawal_id := None\<rparr>) es) =
      sum_where (\<lambda>e. ea_org_id e = org \<and> ea_status e = EarningPending) ea_author_share_usdc es +
      sum_where (\<lambda>e. ea_org_id e = org \<and> ?p e) ea_author_share_usdc es" for es :: "earning_row list"
    by (induction es) auto
  moreover have "sum_where (\<lambda>e. ea_org_id e = org \<and> ?p e) ea_author_share_usdc (tool_author_earnings d) =
      (if org = wd_org_id w then claimed_usdc (wd_id w) d else 0)"
  proof (cases "org = wd_org_id w")
    case True
    then show ?thesis
      unfolding claimed_usdc_def using holder_of_link(2) [OF assms] by (auto intro!: sum_where_cong)
  next
    case False
    then show ?thesis using holder_of_link(2) [OF assms] by (auto intro!: sum_where_none)
  qed
  ultimately show ?thesis by (simp add: get_author_balance_def release_earnings_def)
qed

lemma claim_withdrawalE:
  assumes "claim_withdrawal i d = (Inr (w', t), d1)" "find_withdrawal i d = Some w" "payouts_ok d"
  obtains (empty) "wd_status w = WithdrawalPending" "w' = fail_row no_earnings_error w" "t = 0"
      "d1 = update_withdrawal i (\<lambda>w. wd_status w = WithdrawalPending) (fail_row no_earnings_error) d"
    | (claimed) ids where "claiming d w ids t" "0 < t" "w' = in_flight_row w"
      "d1 = update_withdrawal i (\<lambda>w. wd_status w = WithdrawalPending) in_flight_row (claim_earnings i ids d)"
proof -
  obtain ids t0 where sel: "select_earnings_to_settle (wd_org_id w) (wd_amount_usdc w) d = (ids, t0)" by fastforce
  from assms(1,2) have p: "wd_status w = WithdrawalPending"
    by (auto simp: claim_withdrawal_def transaction_def claim_withdrawal_tx_def split: if_splits)
  with sel assms(3) have cl: "claiming d w ids t0"
    using find_withdrawalD [OF assms(2)] by (simp add: claiming_def)
  show thesis
  proof (cases "ids = [] \<or> t0 \<le> 0")
    case True
    with assms(1,2) p sel show thesis
      by (intro empty) (auto simp: claim_withdrawal_def transaction_def claim_withdrawal_tx_def)
  next
    case False
    with assms(1,2) p sel cl show thesis
      by (intro claimed [of ids]) (auto simp: claim_withdrawal_def transaction_def claim_withdrawal_tx_def)
  qed
qed

lemma process_claimed:
  assumes "agent_wallet_enabled st" "claim_withdrawal i d = (Inr (w', t), d1)" "wd_status w' = InFlight"
    and "awaiting_settlement i d1"
  shows "process_withdrawal st rail now i d =
    (let r = attempt_transfer st rail (wd_wallet w') t in
     case tr_status r of
       TransferSettled \<Rightarrow>
         (Inr (w'\<lparr>wd_status := WithdrawalSettled, wd_tx_hash := tr_tx_hash r, wd_settled_at := Some now\<rparr>),
          update_withdrawal i (\<lambda>w. wd_status w = InFlight) (settle_row now (tr_tx_hash r)) d1)
     | TransferFailed \<Rightarrow>
         (Inr (fail_row (tr_error r) w'),
          update_withdrawal i (\<lambda>w. wd_status w = InFlight) (fail_row (tr_error r)) (release_earnings i d1))
     | TransferInFlight \<Rightarrow>
         (Inr (w'\<lparr>wd_status := InFlight, wd_tx_hash := tr_tx_hash r, wd_last_sweep_error := tr_error r\<rparr>),
          record_in_flight i (tr_tx_hash r) (tr_error r) d1))"
  using assms
  by (simp add: process_withdrawal_def settle_withdrawal_def release_withdrawal_def Let_def split: transfer_status.split)

lemma attempt_transfer_cases:
  assumes "agent_wallet_enabled st" "0 < t"
  obtains (settled) tx where "rail_transfer rail dest t = Some tx" "rail_verify rail tx = Some True"
      "attempt_transfer st rail dest t = \<lparr>tr_tx_hash = tx, tr_status = TransferSettled, tr_error = []\<rparr>"
    | (reverted) tx err where "rail_transfer rail dest t = Some tx" "rail_verify rail tx = Some False"
      "attempt_transfer st rail dest t = \<lparr>tr_tx_hash = tx, tr_status = TransferFailed, tr_error = err\<rparr>"
    | (unknown) tx err where "rail_transfer rail dest t = None \<and> tx = [] \<or>
        rail_transfer rail dest t = Some tx \<and> rail_verify rail tx = None"
      "attempt_transfer st rail dest t = \<lparr>tr_tx_hash = tx, tr_status = TransferInFlight, tr_error = err\<rparr>"
proof (cases "rail_transfer rail dest t")
  case None
  with assms show thesis by (intro unknown [of "[]"]) (simp_all add: attempt_transfer_def)
next
  case (Some tx)
  then show thesis
    using assms settled [of tx] reverted [of tx] unknown [of tx]
    by (cases "rail_verify rail tx") (auto simp: attempt_transfer_def split: bool.splits)
qed

lemma claimed_state:
  assumes cl: "claiming d w ids t" and i: "find_withdrawal i d = Some w"
  defines "d1 \<equiv> update_withdrawal i (\<lambda>w. wd_status w = WithdrawalPending) in_flight_row (claim_earnings i ids d)"
  shows "payouts_ok d1" "find_withdrawal i d1 = Some (in_flight_row w)" "awaiting_settlement i d1"
    "claimed_usdc i d1 = t" "t \<le> wd_amount_usdc w"
    "get_author_balance org d1 = get_author_balance org d - (if org = wd_org_id w then t else 0)"
    "get_author_balance org (release_earnings i d1) = get_author_balance org d"
proof -
  have wi: "wd_id w = i" using find_withdrawalD [OF i] by simp
  have ok: "payouts_ok d" and p: "wd_status w = WithdrawalPending" using cl by (simp_all add: claiming_def)
  show ok1: "payouts_ok d1" using claim_evolves [OF cl] ok by (simp add: payout_evolves_def wi d1_def)
  show f: "find_withdrawal i d1 = Some (in_flight_row w)"
    using i p by (simp add: d1_def find_update_withdrawal)
  then show "awaiting_settlement i d1" by (simp add: awaiting_settlement_def)
  show c: "claimed_usdc i d1 = t"
    using claimed_after [OF cl, of i] claiming_facts(5) [OF cl] by (simp add: d1_def wi)
  show "t \<le> wd_amount_usdc w" by (rule claiming_facts(1) [OF cl])
  show b: "get_author_balance org d1 = get_author_balance org d - (if org = wd_org_id w then t else 0)" for org
    using balance_after [OF cl, of org] by (simp add: d1_def wi)
  have "in_flight_row w \<in> set (tool_author_withdrawals d1)" "wd_id (in_flight_row w) = i" "wd_org_id (in_flight_row w) = wd_org_id w"
    using find_withdrawalD [OF f] by (simp_all add: in_flight_row_def)
  then show "get_author_balance org (release_earnings i d1) = get_author_balance org d"
    using release_balance [OF ok1, of "in_flight_row w" org] b [of org] c by simp
qed

lemma process_outcome:
  assumes "payouts_ok d" "find_withdrawal i d = Some w" "process_withdrawal st rail now i d = (Inr r, d')"
  shows "payouts_ok d' \<and> find_withdrawal i d' = Some r \<and> wd_status w = WithdrawalPending \<and>
    (wd_status r = WithdrawalFailed \<and> claimed_usdc i d' = 0 \<and>
       (\<forall>org. get_author_balance org d' = get_author_balance org d) \<or>
     (\<exists>t. 0 < t \<and> t \<le> wd_amount_usdc w \<and> claimed_usdc i d' = t \<and>
        (\<forall>org. get_author_balance org d' = get_author_balance org d - (if org = wd_org_id w then t else 0)) \<and>
        (wd_status r = WithdrawalSettled \<and> rail_transfer rail (wd_wallet w) t = Some (wd_tx_hash r) \<and>
           rail_verify rail (wd_tx_hash r) = Some True \<or>
         wd_status r = InFlight \<and>
           (rail_transfer rail (wd_wallet w) t = None \<and> wd_tx_hash r = [] \<or>
            rail_transfer rail (wd_wallet w) t = Some (wd_tx_hash r) \<and> rail_verify rail (wd_tx_hash r) = None))))"
proof -
  have ok': "payouts_ok d'" using process_payout.keeps_ok [OF assms(1), of st rail now i] assms(3) by simp
  from assms(3) have en: "agent_wallet_enabled st" by (auto simp: process_withdrawal_def split: if_splits)
  obtain w' t d1 where cl: "claim_withdrawal i d = (Inr (w', t), d1)"
    using assms(3) en by (auto simp: process_withdrawal_def split: prod.splits sum.splits)
  from cl assms(2,1) show ?thesis
  proof (cases rule: claim_withdrawalE)
    case empty
    then have "\<not> linked i d" "claimed_usdc i d = 0"
      using unclaimed_unlinked [OF assms(1), of w] find_withdrawalD [OF assms(2)] by (simp_all add: holds_payout_def)
    with empty cl en assms(2,3) ok' show ?thesis
      by (auto simp: process_withdrawal_def find_update_withdrawal)
  next
    case (claimed ids)
    note st = claimed_state [OF claimed(1) assms(2), folded claimed(3,4)]
    have pend: "wd_status w = WithdrawalPending" "wd_wallet w' = wd_wallet w" "wd_status w' = InFlight"
        "wd_last_sweep_error w' = []"
      using claimed by (simp_all add: claiming_def in_flight_row_def)
    note eq = process_claimed [OF en cl pend(3) st(3), of rail now, unfolded assms(3)]
    from en claimed(2) show ?thesis
    proof (cases rule: attempt_transfer_cases [of st t rail "wd_wallet w"])
      case (settled tx)
      with eq pend have r: "r = settle_row now tx w'"
        and d': "d' = update_withdrawal i (\<lambda>w. wd_status w = InFlight) (settle_row now tx) d1"
        by (simp_all add: settle_row_def)
      have "find_withdrawal i d' = Some r" using st(2) pend(3) by (simp add: d' r find_update_withdrawal)
      moreover have "wd_tx_hash r = tx" "wd_status r = WithdrawalSettled" by (simp_all add: r settle_row_def)
      ultimately show ?thesis using ok' pend(1) st(4-6) settled(1,2) claimed(2) by (simp add: d')
    next
      case (reverted tx err)
      with eq pend have r: "r = fail_row err w'"
        and d': "d' = update_withdrawal i (\<lambda>w. wd_status w = InFlight) (fail_row err) (release_earnings i d1)"
        by simp_all
      have "find_withdrawal i d' = Some r" using st(2) pend(3) by (simp add: d' r find_update_withdrawal)
      then show ?thesis using ok' pend(1) st(7) by (simp add: d' r release_claims)
    next
      case (unknown tx err)
      with eq pend have r: "r = w'\<lparr>wd_tx_hash := tx, wd_last_sweep_error := err\<rparr>"
        and d': "d' = record_in_flight i tx err d1"
        by simp_all
      have "find_withdrawal i d' = Some r" using st(2) pend(3) by (simp add: d' r find_update_withdrawal record_in_flight_def)
      moreover have "wd_tx_hash r = tx" "wd_status r = InFlight" using pend(3) by (simp_all add: r)
      ultimately show ?thesis using ok' pend(1) st(4-6) unknown(1) claimed(2)
        by (simp add: d' record_in_flight_def)
    qed
  qed
qed

section \<open>Properties\<close>

text \<open>
  Processing a withdrawal pays what it claims. A run that returns found the withdrawal pending and
  leaves the returned row in the table. Either it failed and nobody's balance moved and nothing is
  claimed; or it claimed a positive amount of at most the amount requested, took exactly that amount
  from the author's balance (and nothing from others), and asked the rail to transfer exactly that
  amount to the withdrawal's wallet: settled only when the rail confirmed the transaction, and kept in
  flight, with its earnings held, when the outcome is unknown.
\<close>

theorem withdrawal_outcome:
  assumes "payouts_ok d" "find_withdrawal i d = Some w" "process_withdrawal st rail now i d = (Inr r, d')"
  shows "payouts_ok d' \<and> find_withdrawal i d' = Some r \<and> wd_status w = WithdrawalPending \<and>
    (wd_status r = WithdrawalFailed \<and> claimed_usdc i d' = 0 \<and>
       (\<forall>org. get_author_balance org d' = get_author_balance org d) \<or>
     (\<exists>t. 0 < t \<and> t \<le> wd_amount_usdc w \<and> claimed_usdc i d' = t \<and>
        (\<forall>org. get_author_balance org d' = get_author_balance org d - (if org = wd_org_id w then t else 0)) \<and>
        (wd_status r = WithdrawalSettled \<and> rail_transfer rail (wd_wallet w) t = Some (wd_tx_hash r) \<and>
           rail_verify rail (wd_tx_hash r) = Some True \<or>
         wd_status r = InFlight \<and>
           (rail_transfer rail (wd_wallet w) t = None \<and> wd_tx_hash r = [] \<or>
            rail_transfer rail (wd_wallet w) t = Some (wd_tx_hash r) \<and> rail_verify rail (wd_tx_hash r) = None))))"
  by (rule process_outcome [OF assms])

definition demo_earning :: "ident \<Rightarrow> usdc \<Rightarrow> instant \<Rightarrow> earning_row" where
  "demo_earning i share now =
    \<lparr>ea_id = i, ea_org_id = ''acme'', ea_tool_name = ''quote'', ea_caller_org_id = ''other'', ea_amount_usdc = 2 * share,
     ea_author_share_usdc = share, ea_platform_share_usdc = share, ea_status = EarningPending, ea_withdrawal_id = None,
     ea_created_at = now\<rparr>"

definition demo_withdrawal :: "usdc \<Rightarrow> withdrawal_row" where
  "demo_withdrawal amount =
    \<lparr>wd_id = ''w1'', wd_org_id = ''acme'', wd_amount_usdc = amount, wd_tx_hash = [], wd_wallet = ''0xabc'',
     wd_status = WithdrawalPending, wd_created_at = 5, wd_settled_at = None, wd_sweep_attempt_count = 0,
     wd_last_sweep_error = [], wd_next_sweep_at = None\<rparr>"

definition demo_payout_db :: db where
  "demo_payout_db = demo_db\<lparr>tool_author_config := [''acme'' \<mapsto> ''0xabc''],
     tool_author_earnings := [demo_earning ''e1'' 300000 1, demo_earning ''e2'' 500000 2],
     tool_author_withdrawals := [demo_withdrawal 600000]\<rparr>"

definition demo_wallet_settings :: settings where
  "demo_wallet_settings = default_settings\<lparr>agent_wallet_enabled := True\<rparr>"

definition demo_rail :: settlement_rail where
  "demo_rail = \<lparr>rail_transfer = (\<lambda>_ _. Some ''0xfeed''), rail_verify = (\<lambda>_. Some True)\<rparr>"

lemmas demo_payout_simps = demo_payout_db_def demo_withdrawal_def demo_earning_def demo_wallet_settings_def
  default_settings_def demo_rail_def demo_simps

lemma demo_payouts_ok: "payouts_ok demo_payout_db"
  by (simp add: payouts_ok_def link_ok_def claimed_usdc_def demo_payout_simps)

lemmas process_eval_simps = process_withdrawal_def claim_withdrawal_def transaction_def claim_withdrawal_tx_def
  select_earnings_to_settle_def attempt_transfer_def settle_withdrawal_def awaiting_settlement_def release_withdrawal_def
  find_withdrawal_def update_withdrawal_def claim_earnings_def release_earnings_def claimable_def rows_where_def fail_row_def in_flight_row_def
  settle_row_def record_in_flight_def Let_def

lemma demo_process:
  "\<exists>r d'. process_withdrawal demo_wallet_settings demo_rail 9 ''w1'' demo_payout_db = (Inr r, d') \<and>
     wd_status r = WithdrawalSettled \<and> get_author_balance ''acme'' demo_payout_db = 800000"
  by (simp add: process_eval_simps demo_payout_simps get_author_balance_def)

theorem withdrawal_outcome_witness:
  "\<exists>r d' t. process_withdrawal demo_wallet_settings demo_rail 9 ''w1'' demo_payout_db = (Inr r, d') \<and>
     0 < t \<and> t \<le> 600000 \<and> get_author_balance ''acme'' d' = 800000 - t \<and> wd_tx_hash r = ''0xfeed''"
proof -
  obtain r d' where run: "process_withdrawal demo_wallet_settings demo_rail 9 ''w1'' demo_payout_db = (Inr r, d')"
    "wd_status r = WithdrawalSettled" "get_author_balance ''acme'' demo_payout_db = 800000"
    using demo_process by blast
  have f: "find_withdrawal ''w1'' demo_payout_db = Some (demo_withdrawal 600000)"
    by (simp add: find_withdrawal_def demo_payout_simps)
  have rail: "rail_transfer demo_rail x n = Some ''0xfeed''" for x n by (simp add: demo_rail_def)
  obtain t where "0 < t" "t \<le> 600000" "get_author_balance ''acme'' d' = 800000 - t" "wd_tx_hash r = ''0xfeed''"
    using withdrawal_outcome [OF demo_payouts_ok f run(1)] run(2,3) by (auto simp: rail demo_withdrawal_def)
  with run(1) show ?thesis by blast
qed

end
