(* ===== verification/Anchor.thy ===== *)
theory Anchor
  imports Commitments "HOL-Library.Product_Lexorder" "HOL-Library.Multiset"
begin

text \<open>
  Batching and anchoring of committed leaves (\<^verbatim>\<open>labeling/anchor.py\<close>). The registered sources are one
  table of leaf rows tagged with their source (only committed rows, \<^verbatim>\<open>leaf_sha256 IS NOT NULL\<close>). Sending
  a root and the chain's view of a transaction are arguments. \<^verbatim>\<open>attempts\<close> is an unbounded integer (an
  \<^verbatim>\<open>INTEGER\<close> column, incremented at most once per lease of 15 minutes).

  The lemmas show that a sealed batch can always be rebuilt: the leaves read back by \<open>batch_leaves\<close> are
  the sealed ones in order and hash to the stored root, whatever is sealed, sent, reset or confirmed
  later, and that a confirmed batch never changes.
\<close>

section \<open>State\<close>

record leaf_row =
  lf_source :: string
  lf_id :: ident
  lf_leaf_sha256 :: string
  lf_ordered_at :: instant
  lf_anchor_batch_id :: "ident option"
  lf_anchor_leaf_index :: "nat option"

record batch_row =
  ba_id :: ident
  ba_merkle_root :: string
  ba_leaf_count :: nat
  ba_chain_id :: int
  ba_tx_hash :: "string option"
  ba_anchor_address :: "string option"
  ba_block_number :: "int option"
  ba_anchored_at :: "instant option"
  ba_lease_expires_at :: "instant option"
  ba_attempts :: int
  ba_last_error :: string
  ba_created_at :: instant

record anchor_db =
  anchor_leaves :: "leaf_row list"
  commitment_batches :: "batch_row list"

definition max_batch_leaves :: nat where
  "max_batch_leaves = 4096"

section \<open>Sealing\<close>

definition pending_leaves :: "string \<Rightarrow> nat \<Rightarrow> anchor_db \<Rightarrow> leaf_row list" where
  "pending_leaves src limit s =
    take limit (sort_key (\<lambda>r. (lf_ordered_at r, lf_id r))
      (rows_where (\<lambda>r. lf_source r = src \<and> lf_anchor_batch_id r = None) (anchor_leaves s)))"

definition assign_leaves :: "string \<Rightarrow> ident \<Rightarrow> (ident \<times> nat) list \<Rightarrow> anchor_db \<Rightarrow> nat \<times> anchor_db" where
  "assign_leaves src b assignments s =
    (let hit = (\<lambda>r. lf_source r = src \<and> lf_id r \<in> set (map fst assignments) \<and> lf_anchor_batch_id r = None)
     in (length (rows_where hit (anchor_leaves s)),
         s\<lparr>anchor_leaves := update_where hit
             (\<lambda>r. r\<lparr>lf_anchor_batch_id := Some b, lf_anchor_leaf_index := map_of assignments (lf_id r)\<rparr>) (anchor_leaves s)\<rparr>))"

definition selected_leaves :: "string list \<Rightarrow> anchor_db \<Rightarrow> leaf_row list" where
  "selected_leaves sources s =
    take max_batch_leaves (sort_key (\<lambda>r. (lf_ordered_at r, lf_source r, lf_id r))
      (concat (map (\<lambda>src. pending_leaves src max_batch_leaves s) sources)))"

definition insert_batch :: "batch_row \<Rightarrow> anchor_db \<Rightarrow> py_error + anchor_db" where
  "insert_batch b s =
    (if \<not> is_hex64 (ba_merkle_root b) \<or> \<not> (1 \<le> ba_leaf_count b \<and> ba_leaf_count b \<le> 4096)
     then Inl (DbError CheckViolation)
     else if exists_where (\<lambda>x. ba_id x = ba_id b) (commitment_batches s) then Inl (DbError UniqueViolation)
     else Inr (s\<lparr>commitment_batches := commitment_batches s @ [b]\<rparr>))"

definition source_assignments :: "string \<Rightarrow> leaf_row list \<Rightarrow> (ident \<times> nat) list" where
  "source_assignments src selected =
    map (\<lambda>(r, i). (lf_id r, i)) (filter (\<lambda>(r, i). lf_source r = src) (zip selected [0..<length selected]))"

fun assign_sources :: "string list \<Rightarrow> ident \<Rightarrow> leaf_row list \<Rightarrow> anchor_db \<Rightarrow> py_error + anchor_db" where
  "assign_sources [] b selected s = Inr s"
| "assign_sources (src # srcs) b selected s =
    (let assignments = source_assignments src selected in
     case assign_leaves src b assignments s of
       (n, s') \<Rightarrow>
         if n \<noteq> length assignments
         then Inl (RuntimeError ''Anchor leaf assignment did not cover every selected leaf'')
         else assign_sources srcs b selected s')"

definition seal_batch_tx ::
  "(bytes \<Rightarrow> bytes) \<Rightarrow> string list \<Rightarrow> instant \<Rightarrow> ident \<Rightarrow> int \<Rightarrow> anchor_db \<Rightarrow> py_error + (ident option \<times> anchor_db)" where
  "seal_batch_tx sha sources now b chain_id s =
    (let selected = selected_leaves sources s in
     if selected = [] then Inr (None, s)
     else
       bindE (merkle_root sha (map lf_leaf_sha256 selected)) (\<lambda>root.
       bindE (insert_batch
         \<lparr>ba_id = b, ba_merkle_root = root, ba_leaf_count = length selected, ba_chain_id = chain_id, ba_tx_hash = None,
          ba_anchor_address = None, ba_block_number = None, ba_anchored_at = None, ba_lease_expires_at = None,
          ba_attempts = 0, ba_last_error = [], ba_created_at = now\<rparr> s) (\<lambda>s1.
       bindE (assign_sources (rev (remdups (rev (map lf_source selected)))) b selected s1) (\<lambda>s2.
       Inr (Some b, s2)))))"

definition seal_batch ::
  "(bytes \<Rightarrow> bytes) \<Rightarrow> string list \<Rightarrow> instant \<Rightarrow> ident \<Rightarrow> int \<Rightarrow> anchor_db \<Rightarrow> (py_error + ident option) \<times> anchor_db" where
  "seal_batch sha sources now b chain_id = transaction (seal_batch_tx sha sources now b chain_id)"

definition batch_leaves :: "string list \<Rightarrow> ident \<Rightarrow> nat \<Rightarrow> anchor_db \<Rightarrow> py_error + string list" where
  "batch_leaves sources b leaf_count s =
    (let indexed = sort (concat (map (\<lambda>src. map (\<lambda>r. (the (lf_anchor_leaf_index r), lf_leaf_sha256 r))
           (rows_where (\<lambda>r. lf_source r = src \<and> lf_anchor_batch_id r = Some b) (anchor_leaves s))) sources))
     in if map fst indexed \<noteq> [0..<leaf_count]
        then Inl (RuntimeError ''Commitment batch leaves are incomplete'') else Inr (map snd indexed))"

section \<open>Submission and confirmation\<close>

definition update_batch :: "(batch_row \<Rightarrow> bool) \<Rightarrow> (batch_row \<Rightarrow> batch_row) \<Rightarrow> anchor_db \<Rightarrow> anchor_db" where
  "update_batch p f s = s\<lparr>commitment_batches := update_where p f (commitment_batches s)\<rparr>"

definition send_lease_seconds :: int where
  "send_lease_seconds = 900"

definition unsent :: "instant \<Rightarrow> batch_row \<Rightarrow> bool" where
  "unsent now b \<longleftrightarrow> ba_tx_hash b = None \<and> ba_block_number b = None \<and>
     (case ba_lease_expires_at b of None \<Rightarrow> True | Some t \<Rightarrow> t \<le> now)"

text \<open>Rows that another worker has locked are skipped (\<open>locked\<close>).\<close>

definition claim_unsent_batch :: "instant \<Rightarrow> ident set \<Rightarrow> anchor_db \<Rightarrow> batch_row option \<times> anchor_db" where
  "claim_unsent_batch now locked s =
    (case sort_key (\<lambda>b. (ba_created_at b, ba_id b)) (rows_where (\<lambda>b. unsent now b \<and> ba_id b \<notin> locked) (commitment_batches s)) of
       [] \<Rightarrow> (None, s)
     | b # _ \<Rightarrow>
         (Some b, update_batch (\<lambda>x. ba_id x = ba_id b)
            (\<lambda>x. x\<lparr>ba_lease_expires_at := Some (now + seconds send_lease_seconds), ba_attempts := ba_attempts x + 1\<rparr>) s))"

definition record_submission :: "ident \<Rightarrow> string \<Rightarrow> string \<Rightarrow> anchor_db \<Rightarrow> anchor_db" where
  "record_submission i tx address =
    update_batch (\<lambda>b. ba_id b = i \<and> ba_tx_hash b = None)
      (\<lambda>b. b\<lparr>ba_tx_hash := Some tx, ba_anchor_address := Some address, ba_last_error := []\<rparr>)"

definition release_unsent :: "ident \<Rightarrow> string \<Rightarrow> anchor_db \<Rightarrow> anchor_db" where
  "release_unsent i err =
    update_batch (\<lambda>b. ba_id b = i \<and> ba_tx_hash b = None) (\<lambda>b. b\<lparr>ba_lease_expires_at := None, ba_last_error := err\<rparr>)"

definition reset_submission :: "ident \<Rightarrow> string \<Rightarrow> string \<Rightarrow> anchor_db \<Rightarrow> anchor_db" where
  "reset_submission i tx err =
    update_batch (\<lambda>b. ba_id b = i \<and> ba_tx_hash b = Some tx \<and> ba_block_number b = None)
      (\<lambda>b. b\<lparr>ba_tx_hash := None, ba_anchor_address := None, ba_lease_expires_at := None, ba_last_error := err\<rparr>)"

definition record_confirmation :: "ident \<Rightarrow> string \<Rightarrow> int \<Rightarrow> instant \<Rightarrow> anchor_db \<Rightarrow> anchor_db" where
  "record_confirmation i tx block at =
    update_batch (\<lambda>b. ba_id b = i \<and> ba_tx_hash b = Some tx \<and> ba_block_number b = None)
      (\<lambda>b. b\<lparr>ba_block_number := Some block, ba_anchored_at := Some at, ba_lease_expires_at := None, ba_last_error := []\<rparr>)"

definition list_submitted :: "instant \<Rightarrow> nat \<Rightarrow> anchor_db \<Rightarrow> (batch_row \<times> bool) list" where
  "list_submitted now limit s =
    map (\<lambda>b. (b, case ba_lease_expires_at b of None \<Rightarrow> True | Some t \<Rightarrow> t \<le> now))
      (take limit (sort_key (\<lambda>b. (ba_created_at b, ba_id b))
        (rows_where (\<lambda>b. ba_tx_hash b \<noteq> None \<and> ba_block_number b = None) (commitment_batches s))))"

text \<open>
  What the chain says about a submitted transaction: the transaction's input and addresses (\<open>None\<close>: not
  found), whether it is in a block, its receipt, the block it names and the finalized head.
\<close>

record anchor_tx =
  atx_input :: string
  atx_from :: string
  atx_to :: string
  atx_mined :: bool

record anchor_receipt =
  arc_status :: string
  arc_block_number :: int
  arc_block_hash :: string

record anchor_block =
  abl_hash :: string
  abl_timestamp :: int

record anchor_chain =
  ch_transaction :: "string \<Rightarrow> anchor_tx option"
  ch_receipt :: "string \<Rightarrow> anchor_receipt option"
  ch_block :: "int \<Rightarrow> anchor_block option"
  ch_finalized :: "int option"

definition tx_matches :: "batch_row \<Rightarrow> anchor_tx \<Rightarrow> bool" where
  "tx_matches b tx \<longleftrightarrow>
     py_lower (atx_input tx) = ''0x'' @ ba_merkle_root b \<and>
     Some (py_lower (atx_from tx)) = ba_anchor_address b \<and> Some (py_lower (atx_to tx)) = ba_anchor_address b"

definition confirm_batch :: "anchor_chain \<Rightarrow> batch_row \<times> bool \<Rightarrow> anchor_db \<Rightarrow> bool \<times> anchor_db" where
  "confirm_batch chain row s =
    (case row of (b, lease_expired) \<Rightarrow>
       (let i = ba_id b; tx_hash = the (ba_tx_hash b) in
        case ch_transaction chain tx_hash of
          None \<Rightarrow> (False, if lease_expired then reset_submission i tx_hash ''anchor transaction not found'' s else s)
        | Some tx \<Rightarrow>
            if \<not> atx_mined tx then (False, s)
            else case ch_receipt chain tx_hash of
              None \<Rightarrow> (False, s)
            | Some rc \<Rightarrow>
                if arc_status rc \<noteq> ''0x1'' \<or> \<not> tx_matches b tx
                then (False, reset_submission i tx_hash ''anchor transaction reverted or did not match the batch'' s)
                else case ch_block chain (arc_block_number rc) of
                  None \<Rightarrow> (False, s)
                | Some bl \<Rightarrow>
                    (case ch_finalized chain of
                       None \<Rightarrow> (False, s)
                     | Some f \<Rightarrow>
                         if f < arc_block_number rc then (False, s)
                         else if arc_block_hash rc = [] \<or> arc_block_hash rc \<noteq> abl_hash bl then (False, s)
                         else (True, record_confirmation i tx_hash (arc_block_number rc) (seconds (abl_timestamp bl)) s))))"

section \<open>One tick\<close>

definition max_batches_per_tick :: nat where
  "max_batches_per_tick = 8"

definition is_lower_hex :: "nat \<Rightarrow> string \<Rightarrow> bool" where
  "is_lower_hex n s \<longleftrightarrow> take 2 s = ''0x'' \<and> length s = n + 2 \<and> (\<forall>c \<in> set (drop 2 s). c \<in> set ''0123456789abcdef'')"

fun seal_loop ::
  "(bytes \<Rightarrow> bytes) \<Rightarrow> string list \<Rightarrow> int \<Rightarrow> (nat \<Rightarrow> instant \<times> ident) \<Rightarrow> nat \<Rightarrow> anchor_db \<Rightarrow> (py_error + unit) \<times> anchor_db" where
  "seal_loop sha sources chain_id env 0 s = (Inr (), s)"
| "seal_loop sha sources chain_id env (Suc n) s =
    (case env n of (now, b) \<Rightarrow>
       case seal_batch sha sources now b chain_id s of
         (Inl e, s') \<Rightarrow> (Inl e, s')
       | (Inr None, s') \<Rightarrow> (Inr (), s')
       | (Inr (Some _), s') \<Rightarrow> seal_loop sha sources chain_id env n s')"

text \<open>\<^verbatim>\<open>_send_root\<close> returns a transaction hash and an address, or raises an exception of the given type.\<close>

type_synonym root_sender = "string \<Rightarrow> int \<Rightarrow> string + (string \<times> string)"

definition checked_send :: "root_sender \<Rightarrow> batch_row \<Rightarrow> string + (string \<times> string)" where
  "checked_send send b =
    (case send (ba_merkle_root b) (ba_chain_id b) of
       Inl e \<Rightarrow> Inl e
     | Inr (tx, address) \<Rightarrow>
         if is_lower_hex 64 tx \<and> is_lower_hex 40 address then Inr (tx, address) else Inl ''ValueError'')"

fun send_loop :: "(nat \<Rightarrow> instant \<times> ident set \<times> root_sender) \<Rightarrow> nat \<Rightarrow> anchor_db \<Rightarrow> anchor_db" where
  "send_loop env 0 s = s"
| "send_loop env (Suc n) s =
    (case env n of (now, locked, send) \<Rightarrow>
       case claim_unsent_batch now locked s of
         (None, s1) \<Rightarrow> s1
       | (Some b, s1) \<Rightarrow>
           (case checked_send send b of
              Inl e \<Rightarrow> release_unsent (ba_id b) (''anchor send failed: '' @ e) s1
            | Inr (tx, address) \<Rightarrow> send_loop env n (record_submission (ba_id b) tx address s1)))"

text \<open>A chain that cannot be asked (\<open>None\<close>) raises; the batch is skipped.\<close>

fun confirm_loop :: "(nat \<Rightarrow> anchor_chain option) \<Rightarrow> nat \<Rightarrow> (batch_row \<times> bool) list \<Rightarrow> anchor_db \<Rightarrow> nat \<times> anchor_db" where
  "confirm_loop env k [] s = (0, s)"
| "confirm_loop env k (row # rows) s =
    (case env k of
       None \<Rightarrow> confirm_loop env (Suc k) rows s
     | Some chain \<Rightarrow>
         (case confirm_batch chain row s of
            (ok, s1) \<Rightarrow> (case confirm_loop env (Suc k) rows s1 of (n, s2) \<Rightarrow> (of_bool ok + n, s2))))"

definition anchor_tick ::
  "(bytes \<Rightarrow> bytes) \<Rightarrow> string list \<Rightarrow> int \<Rightarrow> (nat \<Rightarrow> instant \<times> ident) \<Rightarrow> (nat \<Rightarrow> instant \<times> ident set \<times> root_sender) \<Rightarrow> instant \<Rightarrow>
   (nat \<Rightarrow> anchor_chain option) \<Rightarrow> anchor_db \<Rightarrow> (py_error + nat) \<times> anchor_db" where
  "anchor_tick sha sources chain_id seals sends now views s =
    (case seal_loop sha sources chain_id seals max_batches_per_tick s of
       (Inl e, s1) \<Rightarrow> (Inl e, s1)
     | (Inr _, s1) \<Rightarrow>
         (let s2 = send_loop sends max_batches_per_tick s1 in
          case confirm_loop views 0 (list_submitted now max_batches_per_tick s2) s2 of
            (n, s3) \<Rightarrow> (Inr n, s3)))"

section \<open>Rebuilding a batch\<close>

definition leaf_key :: "leaf_row \<Rightarrow> string \<times> ident" where
  "leaf_key r = (lf_source r, lf_id r)"

definition indexed_leaves :: "ident \<Rightarrow> leaf_row list \<Rightarrow> (nat \<times> string) list" where
  "indexed_leaves b rows =
    map (\<lambda>r. (the (lf_anchor_leaf_index r), lf_leaf_sha256 r)) (filter (\<lambda>r. lf_anchor_batch_id r = Some b) rows)"

lemma mset_by_source:
  assumes "distinct sources"
  shows "mset (concat (map (\<lambda>src. map g (filter (\<lambda>r. lf_source r = src \<and> p r) rows)) sources)) =
    mset (map g (filter (\<lambda>r. lf_source r \<in> set sources \<and> p r) rows))"
  using assms
proof (induction sources)
  case (Cons src sources)
  have "mset (filter (\<lambda>r. lf_source r \<in> set (src # sources) \<and> p r) rows) =
      mset (filter (\<lambda>r. lf_source r = src \<and> p r) rows) + mset (filter (\<lambda>r. lf_source r \<in> set sources \<and> p r) rows)"
    using Cons.prems by (induction rows) auto
  with Cons show ?case by simp
qed simp

lemma sort_mset_cong: "mset xs = mset ys \<Longrightarrow> sort xs = sort ys"
  by (rule properties_for_sort) simp_all

lemma batch_leaves_indexed:
  assumes "distinct sources" "\<And>r. r \<in> set (anchor_leaves s) \<Longrightarrow> lf_anchor_batch_id r \<noteq> None \<Longrightarrow> lf_source r \<in> set sources"
  shows "batch_leaves sources b n s =
    (let indexed = sort (indexed_leaves b (anchor_leaves s))
     in if map fst indexed \<noteq> [0..<n] then Inl (RuntimeError ''Commitment batch leaves are incomplete'')
        else Inr (map snd indexed))"
proof -
  let ?g = "\<lambda>r. (the (lf_anchor_leaf_index r), lf_leaf_sha256 r)"
  have "filter (\<lambda>r. lf_source r \<in> set sources \<and> lf_anchor_batch_id r = Some b) (anchor_leaves s) =
      filter (\<lambda>r. lf_anchor_batch_id r = Some b) (anchor_leaves s)"
    using assms(2) by (intro filter_cong) auto
  then have "mset (concat (map (\<lambda>src. map ?g (rows_where (\<lambda>r. lf_source r = src \<and> lf_anchor_batch_id r = Some b)
      (anchor_leaves s))) sources)) = mset (indexed_leaves b (anchor_leaves s))"
    using mset_by_source [OF assms(1), of ?g "\<lambda>r. lf_anchor_batch_id r = Some b" "anchor_leaves s"]
    by (simp add: rows_where_def indexed_leaves_def)
  from sort_mset_cong [OF this] show ?thesis by (simp add: batch_leaves_def Let_def)
qed

lemma batch_leaves_of_zip:
  assumes "distinct sources" "\<And>r. r \<in> set (anchor_leaves s) \<Longrightarrow> lf_anchor_batch_id r \<noteq> None \<Longrightarrow> lf_source r \<in> set sources"
    and "mset (indexed_leaves b (anchor_leaves s)) = mset (zip [0..<length ls] ls)"
  shows "batch_leaves sources b (length ls) s = Inr ls"
proof -
  have "sorted (map fst (zip [0..<length ls] ls))" "distinct (map fst (zip [0..<length ls] ls))" by simp_all
  then have "sorted (zip [0..<length ls] ls)"
    by (auto simp: sorted_iff_nth_mono_less less_eq_prod_def)
  with assms(3) have "sort (indexed_leaves b (anchor_leaves s)) = zip [0..<length ls] ls"
    by (intro properties_for_sort) simp_all
  then show ?thesis using batch_leaves_indexed [OF assms(1,2)] by simp
qed

section \<open>What sealing does to the leaf rows\<close>

definition leaf_index :: "leaf_row list \<Rightarrow> (string \<times> ident) \<rightharpoonup> nat" where
  "leaf_index selected = map_of (zip (map leaf_key selected) [0..<length selected])"

definition seal_row :: "leaf_row list \<Rightarrow> ident \<Rightarrow> leaf_row \<Rightarrow> leaf_row" where
  "seal_row selected b r =
    (if lf_anchor_batch_id r = None \<and> leaf_index selected (leaf_key r) \<noteq> None
     then r\<lparr>lf_anchor_batch_id := Some b, lf_anchor_leaf_index := leaf_index selected (leaf_key r)\<rparr> else r)"

lemma source_assignments_index:
  "map_of (source_assignments src selected) i = leaf_index selected (src, i)"
  "i \<in> set (map fst (source_assignments src selected)) \<longleftrightarrow> leaf_index selected (src, i) \<noteq> None"
proof -
  have gen: "map_of (map (\<lambda>(r, k). (lf_id r, k)) (filter (\<lambda>(r, k). lf_source r = src) (zip rows ks))) i =
      map_of (zip (map leaf_key rows) ks) (src, i)" for rows and ks :: "nat list"
    by (induction rows ks rule: list_induct2') (auto simp: leaf_key_def)
  then show m: "map_of (source_assignments src selected) i = leaf_index selected (src, i)"
    by (simp add: source_assignments_def leaf_index_def)
  show "i \<in> set (map fst (source_assignments src selected)) \<longleftrightarrow> leaf_index selected (src, i) \<noteq> None"
    unfolding m [symmetric] by (metis map_of_eq_None_iff set_map)
qed

lemma assign_leaves_rows:
  "anchor_leaves (snd (assign_leaves src b (source_assignments src selected) s)) =
   map (\<lambda>r. if lf_source r = src then seal_row selected b r else r) (anchor_leaves s)"
  "commitment_batches (snd (assign_leaves src b (source_assignments src selected) s)) = commitment_batches s"
proof -
  have hit: "(lf_source r = src \<and> lf_id r \<in> set (map fst (source_assignments src selected)) \<and> lf_anchor_batch_id r = None) =
      (lf_source r = src \<and> lf_anchor_batch_id r = None \<and> leaf_index selected (leaf_key r) \<noteq> None)" for r :: leaf_row
    using source_assignments_index(2) [of "lf_id r" src selected] by (auto simp: leaf_key_def)
  show "anchor_leaves (snd (assign_leaves src b (source_assignments src selected) s)) =
     map (\<lambda>r. if lf_source r = src then seal_row selected b r else r) (anchor_leaves s)"
    unfolding assign_leaves_def Let_def hit
    by (auto simp: update_where_def seal_row_def source_assignments_index(1) leaf_key_def)
  show "commitment_batches (snd (assign_leaves src b (source_assignments src selected) s)) = commitment_batches s"
    by (simp add: assign_leaves_def Let_def)
qed

lemma assign_sources_rows:
  assumes "assign_sources srcs b selected s = Inr s'" "distinct srcs"
  shows "anchor_leaves s' = map (\<lambda>r. if lf_source r \<in> set srcs then seal_row selected b r else r) (anchor_leaves s)"
    "commitment_batches s' = commitment_batches s"
proof -
  have "anchor_leaves s' = map (\<lambda>r. if lf_source r \<in> set srcs then seal_row selected b r else r) (anchor_leaves s) \<and>
      commitment_batches s' = commitment_batches s"
    using assms
  proof (induction srcs arbitrary: s)
    case (Cons src srcs)
    let ?s1 = "snd (assign_leaves src b (source_assignments src selected) s)"
    from Cons.prems have "assign_sources srcs b selected ?s1 = Inr s'"
      by (auto simp: Let_def split: prod.splits if_splits)
    with Cons.IH Cons.prems(2) have "anchor_leaves s' = map (\<lambda>r. if lf_source r \<in> set srcs then seal_row selected b r else r) (anchor_leaves ?s1)"
      "commitment_batches s' = commitment_batches ?s1" by auto
    then show ?case using Cons.prems(2) by (auto simp: assign_leaves_rows seal_row_def)
  qed (simp add: map_idI)
  then show "anchor_leaves s' = map (\<lambda>r. if lf_source r \<in> set srcs then seal_row selected b r else r) (anchor_leaves s)"
    "commitment_batches s' = commitment_batches s" by simp_all
qed

lemma leaf_index_nth:
  "distinct (map leaf_key selected) \<Longrightarrow> i < length selected \<Longrightarrow> leaf_index selected (leaf_key (selected ! i)) = Some i"
  using map_of_zip_nth [of "map leaf_key selected" "[0..<length selected]" i] by (simp add: leaf_index_def)

lemma leaf_index_None: "leaf_index selected k \<noteq> None \<longleftrightarrow> k \<in> leaf_key ` set selected"
  unfolding leaf_index_def by (metis (no_types) length_map length_upt list.set_map map_of_zip_is_None diff_zero)

lemma selected_rows:
  assumes "distinct (map leaf_key (anchor_leaves s))" "distinct sources"
  shows "distinct (map leaf_key (selected_leaves sources s))"
    "r \<in> set (selected_leaves sources s) \<Longrightarrow>
     r \<in> set (anchor_leaves s) \<and> lf_anchor_batch_id r = None \<and> lf_source r \<in> set sources"
proof -
  let ?p = "\<lambda>src. pending_leaves src max_batch_leaves s"
  have p: "r \<in> set (anchor_leaves s) \<and> lf_anchor_batch_id r = None \<and> lf_source r = src" if "r \<in> set (?p src)" for r src
    using that by (auto simp: pending_leaves_def dest!: in_set_takeD)
  have rows: "distinct (anchor_leaves s)" using assms(1) by (simp add: distinct_map)
  have "distinct (?p src)" for src using rows by (simp add: pending_leaves_def rows_where_def)
  moreover have "set (?p src) \<inter> set (?p src') = {}" if "src \<noteq> src'" for src src' using that p by blast
  ultimately have "distinct (concat (map ?p sources))"
    using assms(2) by (induction sources) (auto dest: p)
  then have "distinct (selected_leaves sources s)" by (simp add: selected_leaves_def)
  moreover show mem: "r \<in> set (anchor_leaves s) \<and> lf_anchor_batch_id r = None \<and> lf_source r \<in> set sources"
    if "r \<in> set (selected_leaves sources s)" for r
    using that p by (fastforce simp: selected_leaves_def dest!: in_set_takeD)
  moreover have "inj_on leaf_key (set (selected_leaves sources s))"
    using assms(1) mem by (auto simp: distinct_map inj_on_def)
  ultimately show "distinct (map leaf_key (selected_leaves sources s))" by (simp add: distinct_map)
qed

lemma indexed_new:
  assumes keys: "distinct (map leaf_key rows)" and sel: "distinct (map leaf_key selected)"
    and mem: "\<And>r. r \<in> set selected \<Longrightarrow> r \<in> set rows \<and> lf_anchor_batch_id r = None"
    and fresh: "\<And>r. r \<in> set rows \<Longrightarrow> lf_anchor_batch_id r \<noteq> Some b"
  shows "mset (indexed_leaves b (map (seal_row selected b) rows)) =
    mset (zip [0..<length (map lf_leaf_sha256 selected)] (map lf_leaf_sha256 selected))"
proof -
  let ?hit = "\<lambda>r. lf_anchor_batch_id r = None \<and> leaf_index selected (leaf_key r) \<noteq> None"
  let ?f = "\<lambda>r. (the (leaf_index selected (leaf_key r)), lf_leaf_sha256 r)"
  have eq1: "indexed_leaves b (map (seal_row selected b) rows) = map ?f (filter ?hit rows)"
    using fresh by (induction rows) (auto simp: indexed_leaves_def seal_row_def)
  have eq2: "mset (filter ?hit rows) = mset selected"
  proof (rule set_eq_iff_mset_eq_distinct [THEN iffD1])
    show "distinct (filter ?hit rows)" "distinct selected" using keys sel by (simp_all add: distinct_map)
    have "r \<in> set selected" if "r \<in> set rows" "leaf_key r \<in> leaf_key ` set selected" for r
      using that mem distinct_key_eq [OF keys that(1)] by (metis imageE)
    moreover have "set (filter ?hit rows) = {r \<in> set rows. lf_anchor_batch_id r = None \<and> leaf_key r \<in> leaf_key ` set selected}"
      by (simp only: set_filter leaf_index_None)
    ultimately show "set (filter ?hit rows) = set selected" using mem by auto
  qed
  have eq3: "map ?f selected = zip [0..<length (map lf_leaf_sha256 selected)] (map lf_leaf_sha256 selected)"
    by (rule nth_equalityI) (use leaf_index_nth [OF sel] in simp_all)
  have "mset (indexed_leaves b (map (seal_row selected b) rows)) = image_mset ?f (mset (filter ?hit rows))"
    by (simp only: eq1 mset_map)
  also have "\<dots> = mset (map ?f selected)" by (simp only: eq2 mset_map)
  finally show ?thesis by (simp only: eq3)
qed

lemma indexed_old: "b \<noteq> b' \<Longrightarrow> indexed_leaves b' (map (seal_row selected b) rows) = indexed_leaves b' rows"
  by (induction rows) (auto simp: indexed_leaves_def seal_row_def)

section \<open>The invariant\<close>

definition rebuildable :: "(bytes \<Rightarrow> bytes) \<Rightarrow> string list \<Rightarrow> anchor_db \<Rightarrow> batch_row \<Rightarrow> bool" where
  "rebuildable sha sources s b \<longleftrightarrow>
     (\<exists>ls. batch_leaves sources (ba_id b) (ba_leaf_count b) s = Inr ls \<and> merkle_root sha ls = Inr (ba_merkle_root b))"

definition anchors_ok :: "(bytes \<Rightarrow> bytes) \<Rightarrow> string list \<Rightarrow> anchor_db \<Rightarrow> bool" where
  "anchors_ok sha sources s \<longleftrightarrow>
     distinct sources \<and> distinct (map leaf_key (anchor_leaves s)) \<and> distinct (map ba_id (commitment_batches s)) \<and>
     (\<forall>r \<in> set (anchor_leaves s). \<forall>i. lf_anchor_batch_id r = Some i \<longrightarrow>
        lf_source r \<in> set sources \<and> i \<in> ba_id ` set (commitment_batches s)) \<and>
     (\<forall>b \<in> set (commitment_batches s). rebuildable sha sources s b \<and> (ba_block_number b \<noteq> None \<longrightarrow> ba_tx_hash b \<noteq> None))"

lemma anchors_okD:
  assumes "anchors_ok sha sources s"
  shows "distinct sources" "distinct (map leaf_key (anchor_leaves s))" "distinct (map ba_id (commitment_batches s))"
    "r \<in> set (anchor_leaves s) \<Longrightarrow> lf_anchor_batch_id r \<noteq> None \<Longrightarrow> lf_source r \<in> set sources"
    "r \<in> set (anchor_leaves s) \<Longrightarrow> lf_anchor_batch_id r = Some i \<Longrightarrow> i \<in> ba_id ` set (commitment_batches s)"
    "b \<in> set (commitment_batches s) \<Longrightarrow> rebuildable sha sources s b"
    "b \<in> set (commitment_batches s) \<Longrightarrow> ba_block_number b \<noteq> None \<Longrightarrow> ba_tx_hash b \<noteq> None"
  using assms unfolding anchors_ok_def by auto

lemma rebuildable_cong:
  "anchor_leaves s' = anchor_leaves s \<Longrightarrow> ba_id b' = ba_id b \<Longrightarrow> ba_leaf_count b' = ba_leaf_count b \<Longrightarrow>
   ba_merkle_root b' = ba_merkle_root b \<Longrightarrow> rebuildable sha sources s' b' = rebuildable sha sources s b"
  by (simp add: rebuildable_def batch_leaves_def)

lemma seal_batchE:
  assumes "seal_batch sha sources now b chain_id s = (res, s')"
  obtains (same) "s' = s" "res \<noteq> Inr (Some b)"
    | (sealed) root where "res = Inr (Some b)" "selected_leaves sources s \<noteq> []"
      "merkle_root sha (map lf_leaf_sha256 (selected_leaves sources s)) = Inr root" "b \<notin> ba_id ` set (commitment_batches s)"
      "anchor_leaves s' = map (seal_row (selected_leaves sources s) b) (anchor_leaves s)"
      "commitment_batches s' = commitment_batches s @ [\<lparr>ba_id = b, ba_merkle_root = root,
        ba_leaf_count = length (selected_leaves sources s), ba_chain_id = chain_id, ba_tx_hash = None,
        ba_anchor_address = None, ba_block_number = None, ba_anchored_at = None, ba_lease_expires_at = None,
        ba_attempts = 0, ba_last_error = [], ba_created_at = now\<rparr>]"
proof (cases "seal_batch_tx sha sources now b chain_id s")
  case (Inl e)
  with assms show thesis by (intro same) (auto simp: seal_batch_def transaction_def)
next
  case (Inr x)
  let ?sel = "selected_leaves sources s"
  obtain r s1 where x: "x = (r, s1)" by fastforce
  show thesis
  proof (cases "?sel = []")
    case True
    with Inr assms show thesis by (intro same) (auto simp: seal_batch_def transaction_def seal_batch_tx_def)
  next
    case False
    let ?srcs = "rev (remdups (rev (map lf_source ?sel)))"
    from Inr x False obtain root si where root: "merkle_root sha (map lf_leaf_sha256 ?sel) = Inr root"
      and ins: "insert_batch \<lparr>ba_id = b, ba_merkle_root = root,
        ba_leaf_count = length ?sel, ba_chain_id = chain_id, ba_tx_hash = None,
        ba_anchor_address = None, ba_block_number = None, ba_anchored_at = None, ba_lease_expires_at = None,
        ba_attempts = 0, ba_last_error = [], ba_created_at = now\<rparr> s = Inr si"
      and asg: "assign_sources ?srcs b ?sel si = Inr s1" and r: "r = Some b"
      by (auto simp: seal_batch_tx_def Let_def bindE_eq_Inr_iff)
    note rows = assign_sources_rows [OF asg]
    have "lf_source r \<in> set ?srcs \<or> seal_row ?sel b r = r" for r
      using leaf_index_None [of ?sel "leaf_key r"] by (auto simp: seal_row_def leaf_key_def)
    then have "(if lf_source r \<in> set ?srcs then seal_row ?sel b r else r) = seal_row ?sel b r" for r by metis
    then have "anchor_leaves s1 = map (seal_row ?sel b) (anchor_leaves si)" using rows(1) by simp
    moreover have "b \<notin> ba_id ` set (commitment_batches s)" using ins by (auto simp: insert_batch_def split: if_splits)
    ultimately show thesis using sealed [of root] ins rows(2) root r x Inr False assms
      by (auto simp: insert_batch_def seal_batch_def transaction_def split: if_splits)
  qed
qed

lemma seal_batch_keeps:
  assumes ok: "anchors_ok sha sources s" and run: "seal_batch sha sources now b chain_id s = (res, s')"
  shows "anchors_ok sha sources s'"
  using run
proof (cases rule: seal_batchE)
  case same
  with ok show ?thesis by simp
next
  case (sealed root)
  let ?sel = "selected_leaves sources s"
  note D = anchors_okD [OF ok]
  note sel = selected_rows [OF D(2,1)]
  have fresh: "lf_anchor_batch_id r \<noteq> Some b" if "r \<in> set (anchor_leaves s)" for r
    using D(5) [OF that] sealed(4) by blast
  have src: "lf_source r \<in> set sources" if "r \<in> set (anchor_leaves s')" "lf_anchor_batch_id r \<noteq> None" for r
  proof -
    from that(1) obtain r0 where r0: "r0 \<in> set (anchor_leaves s)" "r = seal_row ?sel b r0" by (auto simp: sealed(5))
    show ?thesis
    proof (cases "leaf_index ?sel (leaf_key r0) = None")
      case True
      with r0 that(2) D(4) [OF r0(1)] show ?thesis by (simp add: seal_row_def)
    next
      case False
      then obtain r1 where "r1 \<in> set ?sel" "leaf_key r1 = leaf_key r0" unfolding leaf_index_None by auto
      with sel(2) [of r1] r0(2) show ?thesis by (auto simp: seal_row_def leaf_key_def)
    qed
  qed
  have ix: "mset (indexed_leaves b (anchor_leaves s')) =
      mset (zip [0..<length (map lf_leaf_sha256 ?sel)] (map lf_leaf_sha256 ?sel))"
    unfolding sealed(5) by (rule indexed_new [OF D(2) sel(1) _ fresh]) (use sel(2) in auto)
  have "batch_leaves sources b (length (map lf_leaf_sha256 ?sel)) s' = Inr (map lf_leaf_sha256 ?sel)"
    by (rule batch_leaves_of_zip [OF D(1) _ ix]) (rule src)
  then have new: "batch_leaves sources b (length ?sel) s' = Inr (map lf_leaf_sha256 ?sel)" by simp
  have old: "batch_leaves sources i n s' = batch_leaves sources i n s" if "i \<noteq> b" for i n
  proof -
    have "indexed_leaves i (anchor_leaves s') = indexed_leaves i (anchor_leaves s)"
      using that by (simp add: sealed(5) indexed_old)
    moreover have "batch_leaves sources i n s' = (let indexed = sort (indexed_leaves i (anchor_leaves s'))
        in if map fst indexed \<noteq> [0..<n] then Inl (RuntimeError ''Commitment batch leaves are incomplete'')
           else Inr (map snd indexed))"
      by (rule batch_leaves_indexed [OF D(1)]) (rule src)
    moreover have "batch_leaves sources i n s = (let indexed = sort (indexed_leaves i (anchor_leaves s))
        in if map fst indexed \<noteq> [0..<n] then Inl (RuntimeError ''Commitment batch leaves are incomplete'')
           else Inr (map snd indexed))"
      by (rule batch_leaves_indexed [OF D(1)]) (rule D(4))
    ultimately show ?thesis by simp
  qed
  have ids: "ba_id x \<noteq> b" if "x \<in> set (commitment_batches s)" for x using sealed(4) that by blast
  have reb: "rebuildable sha sources s' x" if "x \<in> set (commitment_batches s')" for x
    using that D(6) old ids new sealed(3) by (auto simp: sealed(6) rebuildable_def)
  have key: "leaf_key (seal_row ?sel b r) = leaf_key r" for r by (simp add: seal_row_def leaf_key_def)
  show ?thesis
    unfolding anchors_ok_def
  proof (intro conjI ballI allI impI)
    show "distinct sources" by (rule D(1))
    show "distinct (map leaf_key (anchor_leaves s'))" using D(2) by (simp add: sealed(5) key comp_def)
    show "distinct (map ba_id (commitment_batches s'))" using D(3) sealed(4) by (simp add: sealed(6))
  next
    fix r i assume r: "r \<in> set (anchor_leaves s')" "lf_anchor_batch_id r = Some i"
    then show "lf_source r \<in> set sources" using src by simp
    from r obtain r0 where "r0 \<in> set (anchor_leaves s)" "r = seal_row ?sel b r0" by (auto simp: sealed(5))
    with r(2) D(5) [of r0 i] show "i \<in> ba_id ` set (commitment_batches s')"
      by (auto simp: sealed(6) seal_row_def split: if_splits)
  next
    fix x assume x: "x \<in> set (commitment_batches s')"
    then show "rebuildable sha sources s' x" by (rule reb)
    assume "ba_block_number x \<noteq> None"
    with x D(7) [of x] show "ba_tx_hash x \<noteq> None" by (auto simp: sealed(6))
  qed
qed

text \<open>The updates of a batch's submission state.\<close>

definition same_batch :: "batch_row \<Rightarrow> batch_row \<Rightarrow> bool" where
  "same_batch b b' \<longleftrightarrow> (ba_id b', ba_merkle_root b', ba_leaf_count b', ba_chain_id b', ba_created_at b') =
     (ba_id b, ba_merkle_root b, ba_leaf_count b, ba_chain_id b, ba_created_at b)"

definition frozen :: "batch_row \<Rightarrow> bool" where
  "frozen b \<longleftrightarrow> ba_block_number b \<noteq> None \<and> ba_tx_hash b \<noteq> None"

definition batches_evolve :: "anchor_db \<Rightarrow> anchor_db \<Rightarrow> bool" where
  "batches_evolve s s' \<longleftrightarrow> (\<forall>b \<in> set (commitment_batches s). \<exists>b' \<in> set (commitment_batches s').
     same_batch b b' \<and> (frozen b \<longrightarrow> b' = b))"

lemma update_batch_keeps:
  assumes ok: "anchors_ok sha sources s"
    and f: "\<And>b. b \<in> set (commitment_batches s) \<Longrightarrow> p b \<Longrightarrow> same_batch b (f b) \<and> \<not> frozen b \<and>
      (ba_block_number (f b) \<noteq> None \<longrightarrow> ba_tx_hash (f b) \<noteq> None)"
  shows "anchors_ok sha sources (update_batch p f s)" "batches_evolve s (update_batch p f s)"
proof -
  note D = anchors_okD [OF ok]
  have ids: "map ba_id (commitment_batches (update_batch p f s)) = map ba_id (commitment_batches s)"
    unfolding update_batch_def using f by (auto simp: same_batch_def intro!: map_update_where)
  then have idset: "ba_id ` set (commitment_batches (update_batch p f s)) = ba_id ` set (commitment_batches s)"
    by (metis set_map)
  have rows: "anchor_leaves (update_batch p f s) = anchor_leaves s" by (simp add: update_batch_def)
  have "rebuildable sha sources (update_batch p f s) b \<and> (ba_block_number b \<noteq> None \<longrightarrow> ba_tx_hash b \<noteq> None)"
    if "b \<in> set (commitment_batches (update_batch p f s))" for b
  proof -
    from that obtain b0 where b0: "b0 \<in> set (commitment_batches s)" "same_batch b0 b"
      "ba_block_number b \<noteq> None \<longrightarrow> ba_tx_hash b \<noteq> None"
      using f D(7) by (auto simp: update_batch_def same_batch_def elim!: in_update_whereE)
    with D(6) [OF b0(1)] show ?thesis
      using rebuildable_cong [OF rows, of b b0] by (simp add: same_batch_def)
  qed
  with D(1-5) ids idset rows show "anchors_ok sha sources (update_batch p f s)"
    unfolding anchors_ok_def by auto
  show "batches_evolve s (update_batch p f s)"
    unfolding batches_evolve_def
  proof
    fix b assume b: "b \<in> set (commitment_batches s)"
    show "\<exists>b' \<in> set (commitment_batches (update_batch p f s)). same_batch b b' \<and> (frozen b \<longrightarrow> b' = b)"
      using f [OF b] b
      by (intro bexI [of _ "if p b then f b else b"]) (auto simp: same_batch_def update_batch_def set_update_where)
  qed
qed

locale anchor_operation =
  fixes sha :: "bytes \<Rightarrow> bytes" and sources :: "string list" and run :: "anchor_db \<Rightarrow> anchor_db"
  assumes keeps_ok: "anchors_ok sha sources s \<Longrightarrow> anchors_ok sha sources (run s)"
    and evolves: "anchors_ok sha sources s \<Longrightarrow> batches_evolve s (run s)"
begin

lemma confirmed_final:
  assumes "anchors_ok sha sources s" "b \<in> set (commitment_batches s)" "ba_block_number b \<noteq> None"
  shows "b \<in> set (commitment_batches (run s))"
  using evolves [OF assms(1)] anchors_okD(7) [OF assms(1,2,3)] assms(2,3) by (auto simp: batches_evolve_def frozen_def)

end

lemma batches_evolve_refl [simp]: "batches_evolve s s"
  by (auto simp: batches_evolve_def same_batch_def)

lemma batches_evolve_trans: "batches_evolve s s1 \<Longrightarrow> batches_evolve s1 s2 \<Longrightarrow> batches_evolve s s2"
  unfolding batches_evolve_def same_batch_def by (metis (no_types, lifting))

lemma anchor_operation_comp:
  assumes "anchor_operation sha sources f" "anchor_operation sha sources g"
  shows "anchor_operation sha sources (\<lambda>s. g (f s))"
  using assms batches_evolve_trans unfolding anchor_operation_def by metis

lemma anchor_operation_id: "anchor_operation sha sources (\<lambda>s. s)"
  by unfold_locales simp_all

interpretation seal_anchor: anchor_operation sha sources "\<lambda>s. snd (seal_batch sha sources now b chain_id s)"
  for sha sources now b chain_id
proof
  fix s assume ok: "anchors_ok sha sources s"
  obtain res s' where run: "seal_batch sha sources now b chain_id s = (res, s')" by fastforce
  show "anchors_ok sha sources (snd (seal_batch sha sources now b chain_id s))"
    using seal_batch_keeps [OF ok run] run by simp
  from run show "batches_evolve s (snd (seal_batch sha sources now b chain_id s))"
    by (cases rule: seal_batchE) (auto simp: run batches_evolve_def same_batch_def)
qed

interpretation claim_anchor: anchor_operation sha sources "\<lambda>s. snd (claim_unsent_batch now locked s)" for sha sources now locked
proof -
  have "anchors_ok sha sources (snd (claim_unsent_batch now locked s)) \<and> batches_evolve s (snd (claim_unsent_batch now locked s))"
    if ok: "anchors_ok sha sources s" for sha sources s
  proof (cases "sort_key (\<lambda>b. (ba_created_at b, ba_id b)) (rows_where (\<lambda>b. unsent now b \<and> ba_id b \<notin> locked) (commitment_batches s))")
    case Nil
    with ok show ?thesis by (simp add: claim_unsent_batch_def)
  next
    case (Cons b bs)
    then have "b \<in> set (sort_key (\<lambda>b. (ba_created_at b, ba_id b)) (rows_where (\<lambda>b. unsent now b \<and> ba_id b \<notin> locked) (commitment_batches s)))" by simp
    then have b: "b \<in> set (commitment_batches s)" "ba_tx_hash b = None" by (auto simp: unsent_def)
    have none: "ba_block_number b = None" using anchors_okD(7) [OF ok b(1)] b(2) by blast
    let ?f = "\<lambda>x. x\<lparr>ba_lease_expires_at := Some (now + seconds send_lease_seconds), ba_attempts := ba_attempts x + 1\<rparr>"
    have one: "x = b" if "x \<in> set (commitment_batches s)" "ba_id x = ba_id b" for x
      using distinct_key_eq [OF anchors_okD(3) [OF ok] that(1) b(1)] that(2) .
    have "same_batch x (?f x) \<and> \<not> frozen x \<and> (ba_block_number (?f x) \<noteq> None \<longrightarrow> ba_tx_hash (?f x) \<noteq> None)"
      if "x \<in> set (commitment_batches s)" "ba_id x = ba_id b" for x
      using one [OF that] b(2) none by (simp add: same_batch_def frozen_def)
    from update_batch_keeps [OF ok this] Cons show ?thesis by (simp add: claim_unsent_batch_def)
  qed
  then show "anchor_operation sha sources (\<lambda>s. snd (claim_unsent_batch now locked s))" for sha sources
    by unfold_locales blast+
qed

interpretation submit_anchor: anchor_operation sha sources "record_submission i tx address" for sha sources i tx address
proof
  fix s assume ok: "anchors_ok sha sources s"
  show "anchors_ok sha sources (record_submission i tx address s)" "batches_evolve s (record_submission i tx address s)"
    unfolding record_submission_def
    by (rule update_batch_keeps [OF ok]; auto simp: same_batch_def frozen_def)+
qed

interpretation release_anchor: anchor_operation sha sources "release_unsent i err" for sha sources i err
proof
  fix s assume ok: "anchors_ok sha sources s"
  have none: "ba_block_number b = None" if "b \<in> set (commitment_batches s)" "ba_tx_hash b = None" for b
    using anchors_okD(7) [OF ok that(1)] that(2) by blast
  show "anchors_ok sha sources (release_unsent i err s)" "batches_evolve s (release_unsent i err s)"
    unfolding release_unsent_def
    by (rule update_batch_keeps [OF ok]; auto simp: same_batch_def frozen_def none)+
qed

interpretation reset_anchor: anchor_operation sha sources "reset_submission i tx err" for sha sources i tx err
proof
  fix s assume ok: "anchors_ok sha sources s"
  show "anchors_ok sha sources (reset_submission i tx err s)" "batches_evolve s (reset_submission i tx err s)"
    unfolding reset_submission_def
    by (rule update_batch_keeps [OF ok]; auto simp: same_batch_def frozen_def)+
qed

interpretation confirmation_anchor: anchor_operation sha sources "record_confirmation i tx block at" for sha sources i tx block at
proof
  fix s assume ok: "anchors_ok sha sources s"
  show "anchors_ok sha sources (record_confirmation i tx block at s)" "batches_evolve s (record_confirmation i tx block at s)"
    unfolding record_confirmation_def
    by (rule update_batch_keeps [OF ok]; auto simp: same_batch_def frozen_def)+
qed

interpretation confirm_anchor: anchor_operation sha sources "\<lambda>s. snd (confirm_batch chain row s)" for sha sources chain row
  by unfold_locales
    (auto simp: confirm_batch_def Let_def reset_anchor.keeps_ok confirmation_anchor.keeps_ok
      reset_anchor.evolves confirmation_anchor.evolves split: prod.split option.split)

lemma seal_loop_operation: "anchor_operation sha sources (\<lambda>s. snd (seal_loop sha sources chain_id env n s))"
proof (induction n)
  case 0
  then show ?case by (simp add: anchor_operation_id)
next
  case (Suc n)
  obtain now b where e: "env n = (now, b)" by fastforce
  let ?f = "\<lambda>s. snd (seal_batch sha sources now b chain_id s)"
  have "snd (seal_loop sha sources chain_id env (Suc n) s) \<in> {?f s, snd (seal_loop sha sources chain_id env n (?f s))}" for s
    by (auto simp: e split: prod.splits sum.splits option.splits)
  moreover have "anchor_operation sha sources ?f" by (rule seal_anchor.anchor_operation_axioms)
  moreover note anchor_operation_comp [OF this Suc]
  ultimately show ?case unfolding anchor_operation_def by (metis insertE singletonD)
qed

lemma send_loop_operation: "anchor_operation sha sources (send_loop env n)"
proof (induction n)
  case 0
  then show ?case by (simp add: anchor_operation_id)
next
  case (Suc n)
  obtain now locked send where e: "env n = (now, locked, send)" by (metis prod.exhaust)
  let ?f = "\<lambda>s. snd (claim_unsent_batch now locked s)"
  have "anchors_ok sha sources (send_loop env (Suc n) s) \<and> batches_evolve (?f s) (send_loop env (Suc n) s)"
    if ok: "anchors_ok sha sources s" for s
  proof -
    obtain r s1 where run: "claim_unsent_batch now locked s = (r, s1)" by fastforce
    have ok1: "anchors_ok sha sources s1" using claim_anchor.keeps_ok [OF ok, of now locked] run by simp
    note rel = release_anchor.keeps_ok [OF ok1] release_anchor.evolves [OF ok1]
    note sub = submit_anchor.keeps_ok [OF ok1] submit_anchor.evolves [OF ok1]
    have rest: "anchors_ok sha sources (send_loop env n (record_submission i tx a s1)) \<and>
        batches_evolve s1 (send_loop env n (record_submission i tx a s1))" for i tx a
      using Suc sub batches_evolve_trans unfolding anchor_operation_def by blast
    show ?thesis by (simp add: e run ok1 rel rest split: option.split sum.split prod.split)
  qed
  then show ?case
    using claim_anchor.evolves batches_evolve_trans by unfold_locales blast+
qed

lemma confirm_loop_operation: "anchor_operation sha sources (\<lambda>s. snd (confirm_loop env k rows s))"
proof (induction rows arbitrary: k)
  case Nil
  then show ?case by (simp add: anchor_operation_id)
next
  case (Cons row rows)
  show ?case
  proof (cases "env k")
    case None
    then show ?thesis using Cons by simp
  next
    case (Some chain)
    have "snd (confirm_loop env k (row # rows) s) = snd (confirm_loop env (Suc k) rows (snd (confirm_batch chain row s)))" for s
      by (simp add: Some split: prod.split)
    then show ?thesis
      using anchor_operation_comp [OF confirm_anchor.anchor_operation_axioms Cons] by simp
  qed
qed

interpretation tick_anchor: anchor_operation sha sources "\<lambda>s. snd (anchor_tick sha sources chain_id seals sends now views s)"
  for sha sources chain_id seals sends now views
proof -
  let ?f = "\<lambda>s. snd (seal_loop sha sources chain_id seals max_batches_per_tick s)"
  let ?g = "send_loop sends max_batches_per_tick"
  have "snd (anchor_tick sha sources chain_id seals sends now views s) = ?f s \<or>
      snd (anchor_tick sha sources chain_id seals sends now views s) =
        snd (confirm_loop views 0 (list_submitted now max_batches_per_tick (?g (?f s))) (?g (?f s)))" for s
    by (auto simp: anchor_tick_def Let_def split: prod.split sum.split)
  moreover have "anchor_operation sha sources (\<lambda>s. ?g (?f s))"
    by (rule anchor_operation_comp [OF seal_loop_operation send_loop_operation])
  ultimately show "anchor_operation sha sources (\<lambda>s. snd (anchor_tick sha sources chain_id seals sends now views s))"
    using seal_loop_operation [of sha sources chain_id seals max_batches_per_tick] confirm_loop_operation [of sha sources views 0]
      batches_evolve_trans
    unfolding anchor_operation_def by smt
qed

section \<open>Properties\<close>

lemma sealed_leaf_position:
  assumes ok: "anchors_ok sha sources s" and r: "r \<in> set (anchor_leaves s)" "lf_anchor_batch_id r = Some i" "lf_anchor_leaf_index r = Some k"
    and b: "b \<in> set (commitment_batches s)" "ba_id b = i"
  shows "\<exists>ls. batch_leaves sources i (ba_leaf_count b) s = Inr ls \<and> merkle_root sha ls = Inr (ba_merkle_root b) \<and>
    set ls \<subseteq> lf_leaf_sha256 ` set (anchor_leaves s) \<and> length ls = ba_leaf_count b \<and> k < length ls \<and> ls ! k = lf_leaf_sha256 r"
proof -
  let ?ix = "sort (indexed_leaves i (anchor_leaves s))"
  note D = anchors_okD [OF ok]
  from D(6) [OF b(1)] b(2) obtain ls where ls: "batch_leaves sources i (ba_leaf_count b) s = Inr ls"
    "merkle_root sha ls = Inr (ba_merkle_root b)" by (auto simp: rebuildable_def)
  moreover have "batch_leaves sources i (ba_leaf_count b) s =
      (if map fst ?ix \<noteq> [0..<ba_leaf_count b] then Inl (RuntimeError ''Commitment batch leaves are incomplete'') else Inr (map snd ?ix))"
    using batch_leaves_indexed [OF D(1), of s i "ba_leaf_count b"] D(4) by (simp add: Let_def)
  ultimately have ix: "map fst ?ix = [0..<ba_leaf_count b]" "ls = map snd ?ix" by (auto split: if_splits)
  have len: "length ls = ba_leaf_count b" using arg_cong [OF ix(1), of length] ix(2) by simp
  have "(k, lf_leaf_sha256 r) \<in> set ?ix" using r by (force simp: indexed_leaves_def)
  then obtain j where j: "j < length ?ix" "?ix ! j = (k, lf_leaf_sha256 r)" by (auto simp only: in_set_conv_nth)
  have "k = map fst ?ix ! j" using j by simp
  also have "\<dots> = j" using ix len j(1) by simp
  finally have "k < length ls" "ls ! k = lf_leaf_sha256 r" using j ix(2) by simp_all
  moreover have "set ls \<subseteq> lf_leaf_sha256 ` set (anchor_leaves s)" unfolding ix(2) by (auto simp: indexed_leaves_def)
  ultimately show ?thesis using ls len by blast
qed

text \<open>
  C39. One tick of the anchoring worker keeps the anchoring state sound, whatever the chain and the sender
  answer and wherever sealing fails: every batch still has a complete set of leaves that hashes to its
  stored root, a batch keeps its identity, root and size, and a batch whose block is recorded is not
  changed at all.
\<close>

theorem anchoring_preserves:
  assumes ok: "anchors_ok sha sources s"
    and tick: "anchor_tick sha sources chain_id seals sends now views s = (res, s')"
  shows "anchors_ok sha sources s' \<and>
    (\<forall>b \<in> set (commitment_batches s). \<exists>b' \<in> set (commitment_batches s').
       ba_id b' = ba_id b \<and> ba_merkle_root b' = ba_merkle_root b \<and> ba_leaf_count b' = ba_leaf_count b \<and>
       rebuildable sha sources s' b' \<and> (ba_block_number b \<noteq> None \<longrightarrow> b' = b))"
proof -
  have run: "s' = snd (anchor_tick sha sources chain_id seals sends now views s)" using tick by simp
  have ok': "anchors_ok sha sources s'" unfolding run by (rule tick_anchor.keeps_ok [OF ok])
  have "batches_evolve s s'" unfolding run by (rule tick_anchor.evolves [OF ok])
  with ok' show ?thesis
    using anchors_okD(6) [OF ok'] anchors_okD(7) [OF ok] by (fastforce simp: batches_evolve_def same_batch_def frozen_def)
qed

text \<open>
  C40. A sealed leaf can be proved: for a leaf row assigned to a batch, the batch's leaves are read back in
  order, the leaf is at its recorded index, an audit path is produced for it, and the verifier accepts the
  path for the root stored with the batch.
\<close>

theorem sealed_leaf_provable:
  assumes "sha256_digest sha" and ok: "anchors_ok sha sources s" and hex: "\<forall>x \<in> set (anchor_leaves s). hash_hex (lf_leaf_sha256 x)"
    and r: "r \<in> set (anchor_leaves s)" "lf_anchor_batch_id r = Some (ba_id b)" "lf_anchor_leaf_index r = Some k"
    and b: "b \<in> set (commitment_batches s)"
  shows "\<exists>ls path. batch_leaves sources (ba_id b) (ba_leaf_count b) s = Inr ls \<and> ls ! k = lf_leaf_sha256 r \<and>
    audit_path sha ls (int k) = Inr path \<and>
    verify_path sha (lf_leaf_sha256 r) (int k) (int (ba_leaf_count b)) path (ba_merkle_root b)"
proof -
  from sealed_leaf_position [OF ok r b] obtain ls where ls: "batch_leaves sources (ba_id b) (ba_leaf_count b) s = Inr ls"
    "merkle_root sha ls = Inr (ba_merkle_root b)" "set ls \<subseteq> lf_leaf_sha256 ` set (anchor_leaves s)"
    "length ls = ba_leaf_count b" "k < length ls" "ls ! k = lf_leaf_sha256 r" by blast
  from ls(3) hex have "\<forall>l \<in> set ls. hash_hex l" by auto
  from audit_path_climbs [OF assms(1) ls(5) this] ls obtain path where
    "audit_path_nat sha ls k = Inr path" "climb sha (tree_sides k (length ls)) path (ls ! k) = Some (ba_merkle_root b)" by auto
  with ls show ?thesis by (auto simp: audit_path_def verify_path_climb)
qed

definition demo_leaves :: "leaf_row list" where
  "demo_leaves = [\<lparr>lf_source = ''labeling_predictions'', lf_id = ''p1'', lf_leaf_sha256 = demo_leaf 1, lf_ordered_at = 5,
     lf_anchor_batch_id = Some ''b1'', lf_anchor_leaf_index = Some 0\<rparr>]"

definition demo_batch :: batch_row where
  "demo_batch = \<lparr>ba_id = ''b1'', ba_merkle_root = demo_leaf 1, ba_leaf_count = 1, ba_chain_id = 8453, ba_tx_hash = Some ''0xab'',
     ba_anchor_address = Some ''0xcd'', ba_block_number = Some 7, ba_anchored_at = Some 9, ba_lease_expires_at = None,
     ba_attempts = 1, ba_last_error = [], ba_created_at = 6\<rparr>"

definition demo_anchors :: anchor_db where
  "demo_anchors = \<lparr>anchor_leaves = demo_leaves, commitment_batches = [demo_batch]\<rparr>"

lemma demo_anchors_ok: "anchors_ok sha [''labeling_predictions''] demo_anchors"
  by (simp add: anchors_ok_def demo_anchors_def demo_leaves_def demo_batch_def rebuildable_def batch_leaves_def rows_where_def merkle_root.simps)

text \<open>A tick that seals a second leaf into a batch of its own and fails to send it.\<close>

definition demo_pending_anchors :: anchor_db where
  "demo_pending_anchors = demo_anchors\<lparr>anchor_leaves := demo_leaves @
     [\<lparr>lf_source = ''labeling_predictions'', lf_id = ''p2'', lf_leaf_sha256 = demo_leaf 2, lf_ordered_at = 8,
       lf_anchor_batch_id = None, lf_anchor_leaf_index = None\<rparr>]\<rparr>"

lemma demo_pending_anchors_ok: "anchors_ok sha [''labeling_predictions''] demo_pending_anchors"
  by (simp add: anchors_ok_def leaf_key_def demo_pending_anchors_def demo_anchors_def demo_leaves_def demo_batch_def rebuildable_def
      batch_leaves_def rows_where_def merkle_root.simps)

lemma demo_leaf_hex: "is_hex64 (demo_leaf 2)"
  by code_simp

lemma demo_tick_seals:
  "\<exists>res s'. anchor_tick demo_sha [''labeling_predictions''] 8453 (\<lambda>n. (10, ''b2''))
     (\<lambda>n. (10, {}, \<lambda>root chain. Inl ''TimeoutError'')) 10 (\<lambda>n. None) demo_pending_anchors = (res, s') \<and>
     map ba_id (commitment_batches s') = [''b1'', ''b2'']"
  by (simp add: anchor_tick_def max_batches_per_tick_def eval_nat_numeral seal_batch_def seal_batch_tx_def transaction_def
      selected_leaves_def max_batch_leaves_def pending_leaves_def rows_where_def demo_pending_anchors_def demo_anchors_def
      demo_leaves_def demo_batch_def merkle_root.simps insert_batch_def demo_leaf_hex [unfolded numeral_2_eq_2] source_assignments_def assign_leaves_def
      bindE_def Let_def claim_unsent_batch_def unsent_def update_batch_def checked_send_def release_unsent_def
      list_submitted_def)

theorem anchoring_preserves_witness:
  "\<exists>s'. s' = snd (anchor_tick demo_sha [''labeling_predictions''] 8453 (\<lambda>n. (10, ''b2''))
      (\<lambda>n. (10, {}, \<lambda>root chain. Inl ''TimeoutError'')) 10 (\<lambda>n. None) demo_pending_anchors) \<and>
    demo_batch \<in> set (commitment_batches s') \<and>
    (\<exists>b \<in> set (commitment_batches s'). ba_id b = ''b2'' \<and> rebuildable demo_sha [''labeling_predictions''] s' b)"
proof -
  obtain res s' where run: "anchor_tick demo_sha [''labeling_predictions''] 8453 (\<lambda>n. (10, ''b2''))
      (\<lambda>n. (10, {}, \<lambda>root chain. Inl ''TimeoutError'')) 10 (\<lambda>n. None) demo_pending_anchors = (res, s')"
    and ids: "map ba_id (commitment_batches s') = [''b1'', ''b2'']" using demo_tick_seals by (elim exE conjE) (rule that)
  note kept = anchoring_preserves [OF demo_pending_anchors_ok run]
  have "demo_batch \<in> set (commitment_batches demo_pending_anchors)" "ba_block_number demo_batch \<noteq> None"
    by (simp_all add: demo_pending_anchors_def demo_anchors_def demo_batch_def)
  with kept have "demo_batch \<in> set (commitment_batches s')" by blast
  moreover have "''b2'' \<in> ba_id ` set (commitment_batches s')" using ids by (metis list.set_intros set_map)
  ultimately show ?thesis using anchors_okD(6) [OF kept [THEN conjunct1]] run by auto
qed

theorem sealed_leaf_provable_witness:
  "\<exists>ls path. batch_leaves [''labeling_predictions''] ''b1'' 1 demo_anchors = Inr ls \<and>
     audit_path demo_sha ls 0 = Inr path \<and> verify_path demo_sha (demo_leaf 1) 0 1 path (demo_leaf 1)"
proof -
  have "\<exists>ls path. batch_leaves [''labeling_predictions''] (ba_id demo_batch) (ba_leaf_count demo_batch) demo_anchors = Inr ls \<and>
      ls ! 0 = lf_leaf_sha256 (hd demo_leaves) \<and> audit_path demo_sha ls (int 0) = Inr path \<and>
      verify_path demo_sha (lf_leaf_sha256 (hd demo_leaves)) (int 0) (int (ba_leaf_count demo_batch)) path (ba_merkle_root demo_batch)"
    by (rule sealed_leaf_provable [OF demo_sha_digest demo_anchors_ok])
      (simp_all add: demo_anchors_def demo_leaves_def demo_batch_def demo_leaf_hash)
  then show ?thesis by (auto simp: demo_batch_def demo_leaves_def)
qed

end
