(* ===== verification/Spec2Isabelle.thy ===== *)
theory Spec2Isabelle
  imports Billing Dispatch Inbound Sweep Anchor
begin

text \<open>
  A verification library for the money paths, the scheduled and triggered runs and the commitment log of
  Teardrop (\<^verbatim>\<open>billing/\<close>, \<^verbatim>\<open>marketplace/\<close>, \<^verbatim>\<open>scheduling/\<close>, \<^verbatim>\<open>labeling/\<close> and what they use of
  \<^verbatim>\<open>teardrop/\<close>).

  \<^bold>\<open>The program.\<close> Teardrop is a hosted agent service. Organisations pay with prepaid credit, on-chain
  payments or delegated payments; runs start on a schedule, by a webhook or as the successor of a run; tool
  authors earn a share of each call and withdraw it; predictions are committed in Merkle batches whose roots are anchored on a chain. All state is in one Postgres database,
  and concurrency is handled by transactions, row locks, leases and unique rows. The services are Python
  coroutines around SQL statements; a statement sequence in one transaction is one step here, and
  interleavings of steps are what the invariants quantify over.

  \<^bold>\<open>The theories.\<close>

  \<^item> \<open>Prelude\<close>: exceptions (\<open>bindE\<close>, \<open>transaction\<close>), tables as row lists (\<open>rows_where\<close>, \<open>update_where\<close>,
    \<open>sum_where\<close>), Python's integer and string conversions, the collection \<open>service_contracts\<close>.
  \<^item> \<open>Database\<close>: a record per table with its constraints as guards of the inserts; the settings.
  \<^item> \<open>Credit\<close> (\<^verbatim>\<open>billing/credit.py\<close>, \<^verbatim>\<open>billing/context.py\<close>): balances, the append-only ledger, caps,
    preflight, debits, top-ups. Contract \<open>audited_operation\<close>: the balance column is the sum of the ledger,
    never negative, and the ledger only grows.
  \<^item> \<open>Earnings\<close> (\<^verbatim>\<open>marketplace/earnings.py\<close>, \<^verbatim>\<open>billing/charges.py\<close>): the split of a call's price, author
    balances, the charge table and its guard trigger.
  \<^item> \<open>Settlement\<close> (\<^verbatim>\<open>billing/settlement.py\<close>): the retry queue. Contract \<open>queue_operation\<close>: rows only move
    forward.
  \<^item> \<open>Topups\<close> (\<^verbatim>\<open>billing/stripe.py\<close>, \<^verbatim>\<open>billing/x402.py\<close>, \<^verbatim>\<open>billing/credit.py\<close>): Stripe, on-chain
    top-ups, grants, the bootstrap payment. Contract \<open>credited_once\<close>: a guard row makes a credit idempotent.
  \<^item> \<open>Delegation\<close> (\<^verbatim>\<open>billing/delegation.py\<close>): holds, delivery states, refunds, the outbox worker. Contract
    \<open>delegation_operation\<close>: the invariant is kept, balance plus holds is conserved, rows only progress.
  \<^item> \<open>Billing\<close>: all of these interleaved, and the abstract books they refine. Contract \<open>wallet_operation\<close>
    extends \<open>audited_operation\<close> for the operations that touch no delegation.
  \<^item> \<open>Cache\<close> (\<^verbatim>\<open>teardrop/cache.py\<close>) and \<open>Pricing\<close> (\<^verbatim>\<open>billing/pricing.py\<close>,
    \<^verbatim>\<open>marketplace/_catalog_pricing.py\<close>): the two-tier cache (contract \<open>cache_codec\<close>), rule selection,
    overrides, run costs, rounding.
  \<^item> \<open>Withdrawals\<close> (\<^verbatim>\<open>marketplace/withdrawals.py\<close>) and \<open>Sweep\<close> (\<^verbatim>\<open>marketplace/worker.py\<close>): payouts of
    earnings, their retries and the reconciliation of transfers in flight. Contract \<open>payout_operation\<close>:
    earnings are linked to exactly the withdrawal, in flight or settled, that pays them, and paid earnings
    stay paid; contract \<open>books_operation\<close>: its weaker form, without the withdrawal's status, which also
    survives the bookings of failed attempts that come late (the code writes them by id alone).
  \<^item> \<open>Commitments\<close> (\<^verbatim>\<open>labeling/commitments.py\<close>) and \<open>Anchor\<close> (\<^verbatim>\<open>labeling/anchor.py\<close>): canonical leaves,
    Merkle trees, audit paths and their verifier; sealing, sending and confirming batches. Contract
    \<open>anchor_operation\<close>: every batch can be rebuilt to its stored root, confirmed batches are final.

  \<^item> \<open>Payments\<close> (\<^verbatim>\<open>billing/x402.py\<close>): replay claims, the payers' rolling spend, verification with failover
    between facilitators, settlement. A signed payment is admitted once, however it is repackaged.
  \<^item> \<open>Mpp\<close> (\<^verbatim>\<open>billing/mpp.py\<close>): challenges bound by an HMAC over canonical JSON, credentials, transfer
    receipts read from the chain. A transfer pays for one call, and only for a challenge that was minted.
  \<^item> \<open>Schedules\<close> (\<^verbatim>\<open>scheduling/crud.py\<close>, \<^verbatim>\<open>teardrop/retention.py\<close>): schedules, results, dispatch keys,
    leases and their audit, recovery and retention (rows that other transactions hold are skipped, an
    argument of each batch). Contracts \<open>schedule_operation\<close> (the tables stay
    well-formed and what is settled stays settled) and \<open>dispatch_operation\<close> (a reserved key is kept).
  \<^item> \<open>Dispatch\<close> (\<^verbatim>\<open>scheduling/runner.py\<close>, \<^verbatim>\<open>scheduling/worker.py\<close>, \<^verbatim>\<open>scheduling/templating.py\<close>,
    \<^verbatim>\<open>teardrop/routers/agent_event_triggers.py\<close>): the webhook, background runs, chains, publication, the
    worker's tick. A template is words and slots, and rendering fills the slots; \<open>event_lineage\<close> follows the
    runs that one event causes. A handler is shown to be a history of operations of \<open>Schedules\<close>, so its invariants carry
    over to every interleaving of handlers.
  \<^item> \<open>Runs\<close> (\<^verbatim>\<open>teardrop/agent_runtime.py\<close>, \<^verbatim>\<open>teardrop/agent_post_run.py\<close>, \<^verbatim>\<open>teardrop/usage.py\<close>,
    \<^verbatim>\<open>billing/history.py\<close>): the gate in front of a run, its price, the settlement after it and the earnings
    of the authors it called. The price and each allocation are computed at their own time, with what
    happened in between as an argument, and earnings are recorded by background tasks that run later; the
    graph that runs the agent is an argument.
  \<^item> \<open>Inbound\<close> (\<^verbatim>\<open>teardrop/a2a_tasks.py\<close>, \<^verbatim>\<open>teardrop/routers/a2a_messages.py\<close>): messages from other agents, run
    at once or as a task of the table that the processes share. Contract \<open>inbound_operation\<close>: the table stays
    well-formed and a task only moves forward. A task runs once, a repeated message finds its task, and a
    result paid on chain is shown only when the payment settled.

  Each locale is interpreted on the operations of its component, so the properties hold for the definitions
  that translate the code. The statements below the header span components.

  \<^bold>\<open>Correspondence.\<close> A handler is one definition with the source's name (a \<open>_tx\<close> suffix is the body of its
  transaction); its guards are in the source's order; a raise is an \<open>Inl\<close>, and \<open>transaction\<close> rolls the state
  back. \<^verbatim>\<open>uuid4()\<close>, \<^verbatim>\<open>NOW()\<close>, network answers, signature checks, hash functions and password hashing are
  arguments. Where a theorem relies on such an argument the hypothesis is named (\<open>sha256_digest\<close>: a digest
  has 32 bytes; \<open>mac_unforged\<close> and \<open>mac_bytes\<close>: only the holder of the key makes a MAC, and it is a byte
  string; \<open>iso_clock\<close>: a printed time is read back; \<open>recoverable\<close>: fresh row ids). Money is \<open>int\<close> with the \<^verbatim>\<open>BIGINT\<close> range as a guard of every write (\<open>bigint\<close>).

  \<^bold>\<open>Bounds and termination.\<close> Workers handle the batch that one query returned, so their loops are recursion
  on that list and need no fuel; retries are bounded by counters, which the termination property states.
  The retention and recovery loops work until a batch is not full; they are partial functions, and their
  termination on every table is a property. The Merkle recursion terminates by the length of the leaf list.

  \<^bold>\<open>Not modelled.\<close> Loss of the database connection other than as an argument in \<open>Pricing\<close>; the Redis
  tier in front of the price tables (the two tiers are in \<open>Cache\<close>); the exact text of most log and error
  messages (datatypes instead); strings with code points above 255; \<^verbatim>\<open>Decimal\<close> upstream costs (a parameter);
  the functions that collect a leaf's fields from a prediction row; reputation, users and tokens, most routers,
  the language-model loop, tools and scripts, which hold no money state of their own or are clients of third parties.
\<close>

section \<open>The billing services together\<close>

text \<open>
  C3. The billing services refine the books. Along every interleaving of debits, top-ups by every rail,
  queued settlements and delegation operations, the database keeps the audit and delegation invariants,
  the ledger only grows, and replaying the new ledger rows as postings on the abstract balances, which
  refuse to overdraw, succeeds and gives exactly the stored balances.
\<close>

theorem billing_refines_books:
  assumes "delegations_ok d" and "(billing_step st)\<^sup>*\<^sup>* d d'"
  shows "delegations_ok d' \<and> take (length (org_credit_ledger d)) (org_credit_ledger d') = org_credit_ledger d \<and>
    post_all (new_postings d d') (balances d) = Some (balances d')"
proof -
  obtain new where ok: "delegations_ok d'" and new: "org_credit_ledger d' = org_credit_ledger d @ new"
    using billing_history [OF assms(2,1)] by blast
  then show ?thesis
    using audited_refines [OF delegations_okD(1) [OF assms(1)] delegations_okD(1) [OF ok] new] by simp
qed

theorem billing_refines_books_witness:
  "post_all [(''acme'', -40)] (balances demo_db) = Some (balances demo_funded_db) \<and> balances demo_funded_db ''acme'' = 60"
proof -
  have "billing_step default_settings demo_db demo_funded_db"
    unfolding demo_funded_db_def by (intro billing_step.delegation delegation_step.fund)
  then have "(billing_step default_settings)\<^sup>*\<^sup>* demo_db demo_funded_db" by blast
  from billing_refines_books [OF demo_db_delegations_ok this]
  have "post_all (new_postings demo_db demo_funded_db) (balances demo_db) = Some (balances demo_funded_db)" by blast
  moreover have "new_postings demo_db demo_funded_db = [(''acme'', -40)]"
    by (simp add: new_postings_def posting_def signed_amount_def demo_funded_db_def dlg_eval_simps demo_simps Let_def)
  ultimately show ?thesis using demo_funded_balance by (simp add: balances_def)
qed

end
